(* ===== verification/Mpq_Prelude.thy ===== *)
theory Mpq_Prelude
  imports Main "HOL-Library.Word"
begin

text \<open>
  Shared vocabulary of the development: the fixed-width integer types of the C sources, the
  library's error codes as a datatype (\<^verbatim>\<open>include/libmpq/mpq.h\<close>), byte buffers as lists, and the
  generic facts about lists and words that the component theories use.

  Conventions. A buffer is a \<open>u8 list\<close> whose length is the size the caller passes along with the
  pointer. A pointer that the code tests against NULL is a \<open>u8 list option\<close> (\<open>None\<close> is NULL, and
  \<open>Some bs\<close> holds the bytes from the pointer on). A function that writes through a pointer returns
  the updated buffer. A function that returns a negative error code or a value has type
  \<open>'a result\<close>. Where a routine calls \<^verbatim>\<open>malloc\<close>, the model takes a predicate on the requested size
  that says whether the allocation succeeds.
\<close>

unbundle bit_operations_syntax

named_theorems buffer_simps \<open>reading and writing byte buffers\<close>
named_theorems wire_defs \<open>definitions of the serialized layouts\<close>

type_synonym u8 = "8 word"
type_synonym u16 = "16 word"
type_synonym u32 = "32 word"
type_synonym u64 = "64 word"
type_synonym ptr = "u8 list option"
type_synonym out_ptr = "nat option"

subsection \<open>Error codes\<close>

datatype mpq_error =
    ERROR_OPEN | ERROR_CLOSE | ERROR_SEEK | ERROR_READ | ERROR_WRITE | ERROR_MALLOC
  | ERROR_FORMAT | ERROR_NOT_INITIALIZED | ERROR_SIZE | ERROR_EXIST | ERROR_DECRYPT
  | ERROR_UNPACK

type_synonym 'a result = "mpq_error + 'a"

fun error_code :: "mpq_error \<Rightarrow> int" where
  "error_code ERROR_OPEN = -1"
| "error_code ERROR_CLOSE = -2"
| "error_code ERROR_SEEK = -3"
| "error_code ERROR_READ = -4"
| "error_code ERROR_WRITE = -5"
| "error_code ERROR_MALLOC = -6"
| "error_code ERROR_FORMAT = -7"
| "error_code ERROR_NOT_INITIALIZED = -8"
| "error_code ERROR_SIZE = -9"
| "error_code ERROR_EXIST = -10"
| "error_code ERROR_DECRYPT = -11"
| "error_code ERROR_UNPACK = -12"

lemma error_code_neg [simp]: "error_code e < 0"
  by (cases e) auto

lemma error_code_inject [simp]: "error_code e = error_code e' \<longleftrightarrow> e = e'"
  by (cases e; cases e') auto

instantiation mpq_error :: linorder
begin

definition less_eq_mpq_error :: "mpq_error \<Rightarrow> mpq_error \<Rightarrow> bool" where
  "less_eq_mpq_error a b \<longleftrightarrow> error_code a \<le> error_code b"

definition less_mpq_error :: "mpq_error \<Rightarrow> mpq_error \<Rightarrow> bool" where
  "less_mpq_error a b \<longleftrightarrow> error_code a < error_code b"

instance
  by standard (auto simp: less_eq_mpq_error_def less_mpq_error_def)

end

subsection \<open>Limits of the C integer types\<close>

definition SIZE_MAX :: nat where "SIZE_MAX = 2 ^ 64 - 1"
definition UINT32_MAX :: nat where "UINT32_MAX = 2 ^ 32 - 1"
definition INT32_MAX :: nat where "INT32_MAX = 2 ^ 31 - 1"

subsection \<open>Writing a run of bytes into a buffer\<close>

definition write_at :: "'a list \<Rightarrow> nat \<Rightarrow> 'a list \<Rightarrow> 'a list" where
  "write_at buf off bs = take off buf @ bs @ drop (off + length bs) buf"

lemma length_write_at [simp, buffer_simps]:
  "off + length bs \<le> length buf \<Longrightarrow> length (write_at buf off bs) = length buf"
  by (simp add: write_at_def)

lemma write_at_Nil [simp]: "write_at buf off [] = buf"
  by (simp add: write_at_def)

lemma take_drop_write_at [simp, buffer_simps]:
  "off + length bs \<le> length buf \<Longrightarrow>
     take (length bs) (drop off (write_at buf off bs)) = bs"
  by (simp add: write_at_def)

lemma drop_write_at [buffer_simps]:
  "off \<le> length buf \<Longrightarrow>
     drop off (write_at buf off bs) = bs @ drop (off + length bs) buf"
  by (simp add: write_at_def)

lemma nth_write_at [buffer_simps]:
  "off + length bs \<le> length buf \<Longrightarrow> i < length buf \<Longrightarrow>
     write_at buf off bs ! i =
       (if off \<le> i \<and> i < off + length bs then bs ! (i - off) else buf ! i)"
  by (auto simp: write_at_def nth_append min_def)

lemma write_at_append:
  "off + length bs + length cs \<le> length buf \<Longrightarrow>
     write_at (write_at buf off bs) (off + length bs) cs = write_at buf off (bs @ cs)"
  by (rule nth_equalityI) (auto simp: write_at_def nth_append min_def split: if_splits)

lemma write_at_Cons:
  "off < length buf \<Longrightarrow> write_at buf off (b # bs) = write_at (buf[off := b]) (Suc off) bs"
  by (auto simp: write_at_def upd_conv_take_nth_drop min_def add.commute)

lemma write_at_full: "length bs = length buf \<Longrightarrow> write_at buf 0 bs = bs"
  by (simp add: write_at_def)

lemma nth_list_update_if:
  "i < length xs \<Longrightarrow> xs[j := x] ! i = (if j = i then x else xs ! i)"
  by (simp add: nth_list_update)

subsection \<open>Lists cut into fixed-width pieces\<close>

lemma concat_map_width_length:
  assumes "\<And>x. x \<in> set xs \<Longrightarrow> length (f x) = w"
  shows "length (concat (map f xs)) = w * length xs"
  using assms by (induction xs) auto

lemma drop_concat_map_width:
  assumes "\<And>x. x \<in> set xs \<Longrightarrow> length (f x) = w" and "i < length xs"
  shows "drop (w * i) (concat (map f xs)) = f (xs ! i) @ drop (w * Suc i) (concat (map f xs))"
  using assms
proof (induction xs arbitrary: i)
  case Nil
  then show ?case by simp
next
  case (Cons x xs)
  show ?case
  proof (cases i)
    case 0
    with Cons.prems show ?thesis by simp
  next
    case (Suc j)
    with Cons.IH [of j] Cons.prems show ?thesis by simp
  qed
qed

lemma write_at_table:
  assumes "\<And>x. x \<in> set xs \<Longrightarrow> length (f x) = w" "length (f v) = w" "i < length xs"
    and "p = length a + i * w"
  shows "write_at (a @ concat (map f xs) @ b) p (f v) = a @ concat (map f (xs[i := v])) @ b"
proof -
  have split: "xs = take i xs @ xs ! i # drop (Suc i) xs"
    using assms(3) by (rule id_take_nth_drop)
  have "x \<in> set xs" if "x \<in> set (take i xs)" for x
    using that by (rule in_set_takeD)
  then have len: "length (concat (map f (take i xs))) = w * i"
    using assms(1,3) concat_map_width_length [of "take i xs" f w] by simp
  have "length (f (xs ! i)) = w" using assms(1,3) by simp
  then have "write_at (a @ concat (map f (take i xs @ xs ! i # drop (Suc i) xs)) @ b) p (f v) =
      a @ concat (map f (take i xs @ v # drop (Suc i) xs)) @ b"
    using assms(2,4) len by (simp add: write_at_def mult.commute)
  then show ?thesis using split assms(3) by (simp add: upd_conv_take_nth_drop)
qed

lemma drop_table:
  assumes "\<And>x. x \<in> set xs \<Longrightarrow> length (f x) = w" "i < length xs" "p = length a + i * w"
  shows "\<exists>rest. drop p (a @ concat (map f xs) @ b) = f (xs ! i) @ rest"
proof -
  have "w * i \<le> length (concat (map f xs))"
    using assms(1,2) by (simp add: concat_map_width_length)
  then show ?thesis
    using drop_concat_map_width [of xs f w i] assms by (simp add: mult.commute)
qed

lemma sum_eq_Inr_iff_not_Inl: "(\<exists>v. r = Inr v) \<longleftrightarrow> (\<forall>e. r \<noteq> Inl e)"
  by (cases r) auto

subsection \<open>The first success of a search loop\<close>

fun first_some :: "('a \<Rightarrow> 'b option) \<Rightarrow> 'a list \<Rightarrow> 'b option" where
  "first_some f [] = None"
| "first_some f (x # xs) = (case f x of None \<Rightarrow> first_some f xs | Some y \<Rightarrow> Some y)"

lemma first_some_SomeD: "first_some f xs = Some y \<Longrightarrow> \<exists>x \<in> set xs. f x = Some y"
  by (induction xs) (auto split: option.splits)

lemma first_some_None: "first_some f xs = None \<longleftrightarrow> (\<forall>x \<in> set xs. f x = None)"
  by (induction xs) (auto split: option.splits)

subsection \<open>Words\<close>

lemma unat_u8_less [simp]: "unat (b :: u8) < 256"
  using unsigned_less [of b] by simp

lemma unat_ucast_u8_u32 [simp]: "unat (ucast (b :: u8) :: u32) = unat b"
  by (simp add: unsigned_ucast_eq take_bit_nat_eq_self_iff order.strict_trans [OF unat_u8_less])

lemma unat_u32_less [simp]: "unat (w :: u32) < 4294967296"
  using unsigned_less [of w] by simp

lemma unat_ucast_u32_u64 [simp]: "unat (ucast (w :: u32) :: u64) = unat w"
  by (simp add: unsigned_ucast_eq take_bit_nat_eq_self_iff order.strict_trans [OF unat_u32_less])

lemma word_add_xor_cancel [simp]: "((a :: 'a::len word) XOR b) XOR b = a"
  by (simp add: xor.assoc)

subsection \<open>The contract of an in-place cipher\<close>

locale buffer_cipher =
  fixes enc :: "'k \<Rightarrow> u8 list \<Rightarrow> u8 list"
    and dec :: "'k \<Rightarrow> u8 list \<Rightarrow> u8 list"
    and fits :: "u8 list \<Rightarrow> bool"
  assumes dec_enc: "fits buf \<Longrightarrow> dec k (enc k buf) = buf"
    and enc_dec: "fits buf \<Longrightarrow> enc k (dec k buf) = buf"
    and length_enc: "fits buf \<Longrightarrow> length (enc k buf) = length buf"
    and length_dec: "fits buf \<Longrightarrow> length (dec k buf) = length buf"
    and fits_length: "length buf = length buf' \<Longrightarrow> fits buf = fits buf'"
begin

lemma enc_inject: "fits a \<Longrightarrow> fits b \<Longrightarrow> enc k a = enc k b \<longleftrightarrow> a = b"
  using dec_enc by metis

lemma enc_eq_iff: "fits a \<Longrightarrow> fits b \<Longrightarrow> enc k a = b \<longleftrightarrow> a = dec k b"
  using dec_enc enc_dec by metis

lemma bij_enc: "bij_betw (enc k) {buf. fits buf} {buf. fits buf}"
  by (rule bij_betw_byWitness [where f' = "dec k"])
    (auto simp: dec_enc enc_dec fits_length [OF length_enc] fits_length [OF length_dec])

end

end
