(* ===== verification/Mpq_Endian.thy ===== *)
theory Mpq_Endian
  imports Mpq_Prelude
begin

text \<open>
  Byte-order helpers, \<^verbatim>\<open>src/mpq-endian.c\<close>. Each load takes a pointer (NULL reads as zero), each
  store writes through a pointer into a buffer. The locale \<open>wire_scalar\<close> states what a pair of
  load and store promises; it is interpreted for the four pairs of the source, and the record
  and table codecs rest on those interpretations.
\<close>

subsection \<open>The code\<close>

fun libmpq__load_le16 :: "ptr \<Rightarrow> u16" where
  "libmpq__load_le16 None = 0"
| "libmpq__load_le16 (Some buffer) =
     ucast (buffer ! 0) OR push_bit 8 (ucast (buffer ! 1))"

fun libmpq__load_le32 :: "ptr \<Rightarrow> u32" where
  "libmpq__load_le32 None = 0"
| "libmpq__load_le32 (Some buffer) =
     ucast (buffer ! 0) OR push_bit 8 (ucast (buffer ! 1)) OR
     push_bit 16 (ucast (buffer ! 2)) OR push_bit 24 (ucast (buffer ! 3))"

fun libmpq__load_le64 :: "ptr \<Rightarrow> u64" where
  "libmpq__load_le64 None = 0"
| "libmpq__load_le64 (Some buffer) =
     ucast (libmpq__load_le32 (Some buffer)) OR
     push_bit 32 (ucast (libmpq__load_le32 (Some (drop 4 buffer))))"

definition libmpq__store_le16 :: "u8 list \<Rightarrow> nat \<Rightarrow> u16 \<Rightarrow> u8 list" where
  "libmpq__store_le16 buf p value =
     buf[p := ucast value, p + 1 := ucast (drop_bit 8 value)]"

definition libmpq__store_le32 :: "u8 list \<Rightarrow> nat \<Rightarrow> u32 \<Rightarrow> u8 list" where
  "libmpq__store_le32 buf p value =
     buf[p := ucast value, p + 1 := ucast (drop_bit 8 value),
         p + 2 := ucast (drop_bit 16 value), p + 3 := ucast (drop_bit 24 value)]"

definition libmpq__store_le64 :: "u8 list \<Rightarrow> nat \<Rightarrow> u64 \<Rightarrow> u8 list" where
  "libmpq__store_le64 buf p value =
     libmpq__store_le32 (libmpq__store_le32 buf p (ucast value)) (p + 4)
       (ucast (drop_bit 32 value))"

fun libmpq__load_be32 :: "ptr \<Rightarrow> u32" where
  "libmpq__load_be32 None = 0"
| "libmpq__load_be32 (Some buffer) =
     push_bit 24 (ucast (buffer ! 0)) OR push_bit 16 (ucast (buffer ! 1)) OR
     push_bit 8 (ucast (buffer ! 2)) OR ucast (buffer ! 3)"

definition libmpq__store_be32 :: "u8 list \<Rightarrow> nat \<Rightarrow> u32 \<Rightarrow> u8 list" where
  "libmpq__store_be32 buf p value =
     buf[p := ucast (drop_bit 24 value), p + 1 := ucast (drop_bit 16 value),
         p + 2 := ucast (drop_bit 8 value), p + 3 := ucast value]"

subsection \<open>The byte sequence of a scalar\<close>

definition le16_bytes :: "u16 \<Rightarrow> u8 list" where
  "le16_bytes v = [ucast v, ucast (drop_bit 8 v)]"

definition le32_bytes :: "u32 \<Rightarrow> u8 list" where
  "le32_bytes v =
     [ucast v, ucast (drop_bit 8 v), ucast (drop_bit 16 v), ucast (drop_bit 24 v)]"

definition le64_bytes :: "u64 \<Rightarrow> u8 list" where
  "le64_bytes v = le32_bytes (ucast v) @ le32_bytes (ucast (drop_bit 32 v))"

definition be32_bytes :: "u32 \<Rightarrow> u8 list" where
  "be32_bytes v = rev (le32_bytes v)"

lemma length_scalar_bytes [simp]:
  "length (le16_bytes a) = 2" "length (le32_bytes b) = 4" "length (le64_bytes c) = 8"
  "length (be32_bytes b) = 4"
  by (simp_all add: le16_bytes_def le32_bytes_def le64_bytes_def be32_bytes_def)

subsection \<open>The contract of a load and store pair\<close>

locale wire_scalar =
  fixes width :: nat
    and bytes :: "'v \<Rightarrow> u8 list"
    and load :: "ptr \<Rightarrow> 'v"
    and store :: "u8 list \<Rightarrow> nat \<Rightarrow> 'v \<Rightarrow> u8 list"
  assumes length_bytes: "length (bytes v) = width"
    and load_bytes: "load (Some (bytes v @ rest)) = v"
    and bytes_load: "width \<le> length bs \<Longrightarrow> bytes (load (Some bs)) = take width bs"
    and store_write: "p + width \<le> length buf \<Longrightarrow> store buf p v = write_at buf p (bytes v)"
begin

lemma length_store: "p + width \<le> length buf \<Longrightarrow> length (store buf p v) = length buf"
  by (simp add: store_write length_bytes)

lemma load_store:
  "p + width \<le> length buf \<Longrightarrow> load (Some (drop p (store buf p v))) = v"
  by (simp add: store_write drop_write_at load_bytes length_bytes)

lemma nth_store_other:
  "p + width \<le> length buf \<Longrightarrow> i < length buf \<Longrightarrow> i < p \<or> p + width \<le> i \<Longrightarrow>
     store buf p v ! i = buf ! i"
  by (auto simp: store_write nth_write_at length_bytes)

lemma load_cong:
  assumes "take width bs = take width cs" "width \<le> length bs" "width \<le> length cs"
  shows "load (Some bs) = load (Some cs)"
  by (metis assms append_take_drop_id bytes_load load_bytes)

lemma store_load_same:
  assumes "p + width \<le> length buf"
  shows "store buf p (load (Some (drop p buf))) = buf"
proof -
  have "store buf p (load (Some (drop p buf))) = write_at buf p (take width (drop p buf))"
    using assms by (simp add: store_write bytes_load)
  also have "\<dots> = take p buf @ take width (drop p buf) @ drop (p + width) buf"
    using assms by (simp add: write_at_def min_def)
  also have "\<dots> = buf"
    by (metis add.commute append_take_drop_id drop_drop)
  finally show ?thesis .
qed

lemma load_store_disjoint:
  assumes "p + width \<le> length buf" "q + width \<le> length buf"
    and "q + width \<le> p \<or> p + width \<le> q"
  shows "load (Some (drop q (store buf p v))) = load (Some (drop q buf))"
proof (rule load_cong)
  show "take width (drop q (store buf p v)) = take width (drop q buf)"
    using assms by (intro nth_equalityI) (auto simp: length_store nth_store_other)
qed (use assms in \<open>auto simp: length_store\<close>)

lemma store_store_same:
  "p + width \<le> length buf \<Longrightarrow> store (store buf p v) p w = store buf p w"
  by (simp add: store_write [of p "store buf p v"] length_store)
     (simp add: store_write length_bytes write_at_def min_def)

end

subsection \<open>Every pair of the source meets it\<close>

lemma list_ge_2: "2 \<le> length bs \<Longrightarrow> take 2 bs = [bs ! 0, bs ! 1]"
  by (cases bs; cases "tl bs") auto

lemma write_at_2: "p + 2 \<le> length buf \<Longrightarrow> write_at buf p [a, b] = buf[p := a, p + 1 := b]"
  by (simp add: write_at_Cons)

lemma write_at_4:
  "p + 4 \<le> length buf \<Longrightarrow>
     write_at buf p [a, b, c, d] = buf[p := a, p + 1 := b, p + 2 := c, p + 3 := d]"
  by (simp add: write_at_Cons numeral_eq_Suc)

lemma list_ge_4: "4 \<le> length bs \<Longrightarrow> take 4 bs = [bs ! 0, bs ! 1, bs ! 2, bs ! 3]"
  by (rule nth_equalityI) (auto simp: less_Suc_eq numeral_eq_Suc)

lemma less_32_bytes:
  "n < 32 \<Longrightarrow> n < 8 \<or> (8 \<le> n \<and> n < 16) \<or> (16 \<le> n \<and> n < 24) \<or> (24 \<le> n \<and> n < (32::nat))"
  by arith

lemma word_split_16:
  "(ucast (ucast v :: u8) :: u16) OR push_bit 8 (ucast (ucast (drop_bit 8 v) :: u8)) = v"
  by (rule bit_word_eqI) (auto simp: bit_simps)

lemma word_split_32:
  "(ucast (ucast v :: u8) :: u32) OR push_bit 8 (ucast (ucast (drop_bit 8 v) :: u8)) OR
     push_bit 16 (ucast (ucast (drop_bit 16 v) :: u8)) OR
     push_bit 24 (ucast (ucast (drop_bit 24 v) :: u8)) = v"
proof (rule bit_word_eqI)
  fix n assume "n < LENGTH(32)"
  then have "n < 32" by simp
  from less_32_bytes [OF this]
  show "bit ((ucast (ucast v :: u8) :: u32) OR push_bit 8 (ucast (ucast (drop_bit 8 v) :: u8)) OR
     push_bit 16 (ucast (ucast (drop_bit 16 v) :: u8)) OR
     push_bit 24 (ucast (ucast (drop_bit 24 v) :: u8))) n = bit v n"
    by (auto simp: bit_simps)
qed

lemma word_split_64:
  "(ucast (ucast v :: u32) :: u64) OR push_bit 32 (ucast (ucast (drop_bit 32 v) :: u32)) = v"
  by (rule bit_word_eqI) (auto simp: bit_simps)

lemma word_join_16:
  "(ucast ((ucast (a :: u8) :: u16) OR push_bit 8 (ucast (b :: u8))) :: u8) = a"
  "(ucast (drop_bit 8 ((ucast (a :: u8) :: u16) OR push_bit 8 (ucast (b :: u8)))) :: u8) = b"
  by (rule bit_word_eqI, auto simp: bit_simps dest: bit_imp_le_length)+

lemma word_join_32:
  fixes a b c d :: u8
  defines "w \<equiv> (ucast a :: u32) OR push_bit 8 (ucast b) OR push_bit 16 (ucast c) OR
     push_bit 24 (ucast d)"
  shows "(ucast w :: u8) = a" "(ucast (drop_bit 8 w) :: u8) = b"
    "(ucast (drop_bit 16 w) :: u8) = c" "(ucast (drop_bit 24 w) :: u8) = d"
  unfolding w_def
  by (rule bit_word_eqI, auto simp: bit_simps dest: bit_imp_le_length)+

lemma word_join_64:
  "(ucast ((ucast (a :: u32) :: u64) OR push_bit 32 (ucast (b :: u32))) :: u32) = a"
  "(ucast (drop_bit 32 ((ucast (a :: u32) :: u64) OR push_bit 32 (ucast (b :: u32)))) :: u32) = b"
  by (rule bit_word_eqI, auto simp: bit_simps dest: bit_imp_le_length)+

interpretation le16: wire_scalar 2 le16_bytes libmpq__load_le16 libmpq__store_le16
proof unfold_locales
  fix bs :: "u8 list" assume "2 \<le> length bs"
  then show "le16_bytes (libmpq__load_le16 (Some bs)) = take 2 bs"
    by (simp only: le16_bytes_def libmpq__load_le16.simps list_ge_2 word_join_16)
qed (auto simp: le16_bytes_def word_split_16 libmpq__store_le16_def write_at_2)

interpretation le32: wire_scalar 4 le32_bytes libmpq__load_le32 libmpq__store_le32
proof unfold_locales
  fix bs :: "u8 list" assume "4 \<le> length bs"
  then show "le32_bytes (libmpq__load_le32 (Some bs)) = take 4 bs"
    by (simp only: le32_bytes_def libmpq__load_le32.simps list_ge_4 word_join_32)
qed (auto simp: le32_bytes_def word_split_32 libmpq__store_le32_def write_at_4)

lemma be32_load_rev:
  "libmpq__load_be32 (Some (d # c # b # a # rest)) = libmpq__load_le32 (Some [a, b, c, d])"
  by (simp add: ac_simps or.left_commute or.commute)

interpretation be32: wire_scalar 4 be32_bytes libmpq__load_be32 libmpq__store_be32
proof unfold_locales
  fix bs :: "u8 list" assume "4 \<le> length bs"
  then obtain a b c d rest where bs: "bs = a # b # c # d # rest"
    by (auto simp: numeral_eq_Suc Suc_le_length_iff)
  show "be32_bytes (libmpq__load_be32 (Some bs)) = take 4 bs"
    unfolding bs be32_load_rev be32_bytes_def
    by (simp add: le32.bytes_load del: libmpq__load_le32.simps)
next
  fix v :: u32 and rest
  have "be32_bytes v @ rest = ucast (drop_bit 24 v) # ucast (drop_bit 16 v) #
      ucast (drop_bit 8 v) # ucast v # rest"
    by (simp add: be32_bytes_def le32_bytes_def)
  then show "libmpq__load_be32 (Some (be32_bytes v @ rest)) = v"
    using le32.load_bytes [of v "[]"]
    by (simp only: be32_load_rev le32_bytes_def append_Nil2)
qed (auto simp: be32_bytes_def le32_bytes_def libmpq__store_be32_def write_at_4)

interpretation le64: wire_scalar 8 le64_bytes libmpq__load_le64 libmpq__store_le64
proof unfold_locales
  fix v :: u64 and rest
  show "libmpq__load_le64 (Some (le64_bytes v @ rest)) = v"
    by (simp add: le64_bytes_def le32.load_bytes word_split_64 del: libmpq__load_le32.simps)
next
  fix bs :: "u8 list" assume "8 \<le> length bs"
  then show "le64_bytes (libmpq__load_le64 (Some bs)) = take 8 bs"
    by (simp only: le64_bytes_def libmpq__load_le64.simps word_join_64)
       (simp add: le32.bytes_load take_add [of 4 4, simplified] del: libmpq__load_le32.simps)
next
  fix p v and buf :: "u8 list" assume "p + 8 \<le> length buf"
  then show "libmpq__store_le64 buf p v = write_at buf p (le64_bytes v)"
    using write_at_append [of p "le32_bytes (ucast v)" "le32_bytes (ucast (drop_bit 32 v))" buf]
    by (simp add: libmpq__store_le64_def le64_bytes_def le32.store_write)
qed simp

declare libmpq__load_le16.simps(2) [simp del] libmpq__load_le32.simps(2) [simp del]
  libmpq__load_le64.simps(2) [simp del] libmpq__load_be32.simps(2) [simp del]

end
