(* ===== verification/Mpq_Tables.thy ===== *)
theory Mpq_Tables
  imports Mpq_Endian
begin

text \<open>
  The serialized archive structures: the header and its version 2 extension
  (\<^verbatim>\<open>src/mpq-header.c\<close>), the hash table (\<^verbatim>\<open>src/mpq-hash.c\<close>) and the block tables
  (\<^verbatim>\<open>src/mpq-block.c\<close>), with the fixed-width records of their header files. The locale
  \<open>wire_table\<close> derives the round trips of a table codec from those of its entry codec.
\<close>

subsection \<open>Native records\<close>

record mpq_header_s =
  mpq_magic :: u32
  header_size :: u32
  archive_size :: u32
  version :: u16
  block_size :: u16
  hash_table_offset :: u32
  block_table_offset :: u32
  hash_table_count :: u32
  block_table_count :: u32

record mpq_header_ex_s =
  extended_offset :: u64
  hash_table_offset_high :: u16
  block_table_offset_high :: u16

record mpq_hash_s =
  hash_a :: u32
  hash_b :: u32
  locale_id :: u16
  platform :: u16
  block_table_index :: u32

record mpq_block_s =
  offset :: u32
  packed_size :: u32
  unpacked_size :: u32
  flags :: u32

record mpq_block_ex_s =
  offset_high :: u16

definition LIBMPQ_HEADER_WIRE_SIZE :: nat where [wire_defs]: "LIBMPQ_HEADER_WIRE_SIZE = 32"
definition LIBMPQ_HEADER_EX_WIRE_SIZE :: nat where [wire_defs]: "LIBMPQ_HEADER_EX_WIRE_SIZE = 12"
definition LIBMPQ_HASH_ENTRY_WIRE_SIZE :: nat where [wire_defs]: "LIBMPQ_HASH_ENTRY_WIRE_SIZE = 16"
definition LIBMPQ_BLOCK_ENTRY_WIRE_SIZE :: nat where
  [wire_defs]: "LIBMPQ_BLOCK_ENTRY_WIRE_SIZE = 16"
definition LIBMPQ_BLOCK_EX_ENTRY_WIRE_SIZE :: nat where
  [wire_defs]: "LIBMPQ_BLOCK_EX_ENTRY_WIRE_SIZE = 2"

abbreviation at :: "u8 list \<Rightarrow> nat \<Rightarrow> ptr" where
  "at buf off \<equiv> Some (drop off buf)"

subsection \<open>Header codec\<close>

fun libmpq__header_decode :: "ptr \<Rightarrow> nat \<Rightarrow> mpq_header_s result" where
  "libmpq__header_decode None sz = Inl ERROR_SIZE"
| "libmpq__header_decode (Some wire) sz =
     (if sz < LIBMPQ_HEADER_WIRE_SIZE then Inl ERROR_SIZE
      else Inr \<lparr>
        mpq_magic = libmpq__load_le32 (at wire 0),
        header_size = libmpq__load_le32 (at wire 4),
        archive_size = libmpq__load_le32 (at wire 8),
        version = libmpq__load_le16 (at wire 12),
        block_size = libmpq__load_le16 (at wire 14),
        hash_table_offset = libmpq__load_le32 (at wire 16),
        block_table_offset = libmpq__load_le32 (at wire 20),
        hash_table_count = libmpq__load_le32 (at wire 24),
        block_table_count = libmpq__load_le32 (at wire 28)\<rparr>)"

fun libmpq__header_ex_decode :: "ptr \<Rightarrow> nat \<Rightarrow> mpq_header_ex_s result" where
  "libmpq__header_ex_decode None sz = Inl ERROR_SIZE"
| "libmpq__header_ex_decode (Some wire) sz =
     (if sz < LIBMPQ_HEADER_EX_WIRE_SIZE then Inl ERROR_SIZE
      else Inr \<lparr>
        extended_offset = libmpq__load_le64 (at wire 0),
        hash_table_offset_high = libmpq__load_le16 (at wire 8),
        block_table_offset_high = libmpq__load_le16 (at wire 10)\<rparr>)"

fun libmpq__header_encode :: "mpq_header_s \<Rightarrow> ptr \<Rightarrow> nat \<Rightarrow> u8 list result" where
  "libmpq__header_encode header None sz = Inl ERROR_SIZE"
| "libmpq__header_encode header (Some wire) sz =
     (if sz < LIBMPQ_HEADER_WIRE_SIZE then Inl ERROR_SIZE
      else
        let wire = libmpq__store_le32 wire 0 (mpq_magic header);
            wire = libmpq__store_le32 wire 4 (header_size header);
            wire = libmpq__store_le32 wire 8 (archive_size header);
            wire = libmpq__store_le16 wire 12 (version header);
            wire = libmpq__store_le16 wire 14 (block_size header);
            wire = libmpq__store_le32 wire 16 (hash_table_offset header);
            wire = libmpq__store_le32 wire 20 (block_table_offset header);
            wire = libmpq__store_le32 wire 24 (hash_table_count header);
            wire = libmpq__store_le32 wire 28 (block_table_count header)
        in Inr wire)"

fun libmpq__header_ex_encode :: "mpq_header_ex_s \<Rightarrow> ptr \<Rightarrow> nat \<Rightarrow> u8 list result" where
  "libmpq__header_ex_encode header None sz = Inl ERROR_SIZE"
| "libmpq__header_ex_encode header (Some wire) sz =
     (if sz < LIBMPQ_HEADER_EX_WIRE_SIZE then Inl ERROR_SIZE
      else
        let wire = libmpq__store_le64 wire 0 (extended_offset header);
            wire = libmpq__store_le16 wire 8 (hash_table_offset_high header);
            wire = libmpq__store_le16 wire 10 (block_table_offset_high header)
        in Inr wire)"

subsection \<open>Entry bodies of the table loops\<close>

definition hash_entry_load :: "ptr \<Rightarrow> mpq_hash_s" where
  "hash_entry_load p = (let wire = the p in \<lparr>
     hash_a = libmpq__load_le32 (at wire 0),
     hash_b = libmpq__load_le32 (at wire 4),
     locale_id = libmpq__load_le16 (at wire 8),
     platform = libmpq__load_le16 (at wire 10),
     block_table_index = libmpq__load_le32 (at wire 12)\<rparr>)"

definition hash_entry_store :: "u8 list \<Rightarrow> nat \<Rightarrow> mpq_hash_s \<Rightarrow> u8 list" where
  "hash_entry_store out p e =
     (let out = libmpq__store_le32 out p (hash_a e);
          out = libmpq__store_le32 out (p + 4) (hash_b e);
          out = libmpq__store_le16 out (p + 8) (locale_id e);
          out = libmpq__store_le16 out (p + 10) (platform e)
      in libmpq__store_le32 out (p + 12) (block_table_index e))"

definition block_entry_load :: "ptr \<Rightarrow> mpq_block_s" where
  "block_entry_load p = (let wire = the p in \<lparr>
     offset = libmpq__load_le32 (at wire 0),
     packed_size = libmpq__load_le32 (at wire 4),
     unpacked_size = libmpq__load_le32 (at wire 8),
     flags = libmpq__load_le32 (at wire 12)\<rparr>)"

definition block_entry_store :: "u8 list \<Rightarrow> nat \<Rightarrow> mpq_block_s \<Rightarrow> u8 list" where
  "block_entry_store out p e =
     (let out = libmpq__store_le32 out p (offset e);
          out = libmpq__store_le32 out (p + 4) (packed_size e);
          out = libmpq__store_le32 out (p + 8) (unpacked_size e)
      in libmpq__store_le32 out (p + 12) (flags e))"

definition block_ex_entry_load :: "ptr \<Rightarrow> mpq_block_ex_s" where
  "block_ex_entry_load p = \<lparr>offset_high = libmpq__load_le16 p\<rparr>"

definition block_ex_entry_store :: "u8 list \<Rightarrow> nat \<Rightarrow> mpq_block_ex_s \<Rightarrow> u8 list" where
  "block_ex_entry_store out p e = libmpq__store_le16 out p (offset_high e)"

subsection \<open>Table codecs\<close>

definition libmpq__hash_table_decode ::
    "ptr \<Rightarrow> nat \<Rightarrow> nat \<Rightarrow> mpq_hash_s list result" where
  "libmpq__hash_table_decode input input_size entry_count =
     (if entry_count > SIZE_MAX div LIBMPQ_HASH_ENTRY_WIRE_SIZE \<or>
         input_size < entry_count * LIBMPQ_HASH_ENTRY_WIRE_SIZE \<or>
         (entry_count \<noteq> 0 \<and> input = None)
      then Inl ERROR_SIZE
      else Inr (map (\<lambda>i. hash_entry_load (at (the input) (i * LIBMPQ_HASH_ENTRY_WIRE_SIZE)))
             [0..<entry_count]))"

definition libmpq__hash_table_encode ::
    "mpq_hash_s list option \<Rightarrow> nat \<Rightarrow> ptr \<Rightarrow> nat \<Rightarrow> ptr result" where
  "libmpq__hash_table_encode entries entry_count output output_size =
     (if entry_count > SIZE_MAX div LIBMPQ_HASH_ENTRY_WIRE_SIZE \<or>
         output_size < entry_count * LIBMPQ_HASH_ENTRY_WIRE_SIZE \<or>
         (entry_count \<noteq> 0 \<and> (entries = None \<or> output = None))
      then Inl ERROR_SIZE
      else Inr (map_option (fold (\<lambda>i out. hash_entry_store out (i * LIBMPQ_HASH_ENTRY_WIRE_SIZE)
             (the entries ! i)) [0..<entry_count]) output))"

definition libmpq__block_table_decode ::
    "ptr \<Rightarrow> nat \<Rightarrow> nat \<Rightarrow> mpq_block_s list result" where
  "libmpq__block_table_decode input input_size entry_count =
     (if entry_count > SIZE_MAX div LIBMPQ_BLOCK_ENTRY_WIRE_SIZE \<or>
         input_size < entry_count * LIBMPQ_BLOCK_ENTRY_WIRE_SIZE \<or>
         (entry_count \<noteq> 0 \<and> input = None)
      then Inl ERROR_SIZE
      else Inr (map (\<lambda>i. block_entry_load (at (the input) (i * LIBMPQ_BLOCK_ENTRY_WIRE_SIZE)))
             [0..<entry_count]))"

definition libmpq__block_table_encode ::
    "mpq_block_s list option \<Rightarrow> nat \<Rightarrow> ptr \<Rightarrow> nat \<Rightarrow> ptr result" where
  "libmpq__block_table_encode entries entry_count output output_size =
     (if entry_count > SIZE_MAX div LIBMPQ_BLOCK_ENTRY_WIRE_SIZE \<or>
         output_size < entry_count * LIBMPQ_BLOCK_ENTRY_WIRE_SIZE \<or>
         (entry_count \<noteq> 0 \<and> (entries = None \<or> output = None))
      then Inl ERROR_SIZE
      else Inr (map_option (fold (\<lambda>i out. block_entry_store out (i * LIBMPQ_BLOCK_ENTRY_WIRE_SIZE)
             (the entries ! i)) [0..<entry_count]) output))"

definition libmpq__block_ex_table_decode ::
    "ptr \<Rightarrow> nat \<Rightarrow> nat \<Rightarrow> mpq_block_ex_s list result" where
  "libmpq__block_ex_table_decode input input_size entry_count =
     (if entry_count > SIZE_MAX div LIBMPQ_BLOCK_EX_ENTRY_WIRE_SIZE \<or>
         input_size < entry_count * LIBMPQ_BLOCK_EX_ENTRY_WIRE_SIZE \<or>
         (entry_count \<noteq> 0 \<and> input = None)
      then Inl ERROR_SIZE
      else Inr (map (\<lambda>i. block_ex_entry_load
             (at (the input) (i * LIBMPQ_BLOCK_EX_ENTRY_WIRE_SIZE))) [0..<entry_count]))"

definition libmpq__block_ex_table_encode ::
    "mpq_block_ex_s list option \<Rightarrow> nat \<Rightarrow> ptr \<Rightarrow> nat \<Rightarrow> ptr result" where
  "libmpq__block_ex_table_encode entries entry_count output output_size =
     (if entry_count > SIZE_MAX div LIBMPQ_BLOCK_EX_ENTRY_WIRE_SIZE \<or>
         output_size < entry_count * LIBMPQ_BLOCK_EX_ENTRY_WIRE_SIZE \<or>
         (entry_count \<noteq> 0 \<and> (entries = None \<or> output = None))
      then Inl ERROR_SIZE
      else Inr (map_option (fold (\<lambda>i out. block_ex_entry_store out
             (i * LIBMPQ_BLOCK_EX_ENTRY_WIRE_SIZE) (the entries ! i)) [0..<entry_count]) output))"

subsection \<open>From an entry codec to a table codec\<close>

locale wire_table = wire_scalar width bytes load store
  for width :: nat and bytes :: "'e \<Rightarrow> u8 list" and load :: "ptr \<Rightarrow> 'e"
    and store :: "u8 list \<Rightarrow> nat \<Rightarrow> 'e \<Rightarrow> u8 list" +
  assumes width_pos: "0 < width"
begin

lemma length_table: "length (concat (map bytes es)) = width * length es"
  by (rule concat_map_width_length) (rule length_bytes)

lemma store_loop:
  assumes "length es * width \<le> length buf" "n \<le> length es"
  shows "fold (\<lambda>i out. store out (i * width) (es ! i)) [0..<n] buf =
     write_at buf 0 (concat (map bytes (take n es)))"
  using assms(2)
proof (induction n)
  case 0
  then show ?case by simp
next
  case (Suc n)
  let ?done = "concat (map bytes (take n es))"
  have len: "length ?done = n * width"
    using Suc.prems by (simp add: length_table mult.commute)
  have room: "n * width + width \<le> length buf"
    using Suc.prems assms(1) by (metis add.commute le_trans mult_Suc mult_le_mono1)
  have "fold (\<lambda>i out. store out (i * width) (es ! i)) [0..<Suc n] buf =
      store (write_at buf 0 ?done) (n * width) (es ! n)"
    using Suc by simp
  also have "\<dots> = write_at (write_at buf 0 ?done) (n * width) (bytes (es ! n))"
    using room len by (simp add: store_write)
  also have "\<dots> = write_at buf 0 (?done @ bytes (es ! n))"
    using write_at_append [of 0 ?done "bytes (es ! n)" buf] room len by (simp add: length_bytes)
  finally show ?case
    using Suc.prems by (simp add: take_Suc_conv_app_nth)
qed

lemma load_table:
  "map (\<lambda>i. load (Some (drop (i * width) (concat (map bytes es) @ rest)))) [0..<length es] = es"
proof (rule nth_equalityI)
  fix i assume "i < length (map (\<lambda>i. load (Some (drop (i * width) (concat (map bytes es) @ rest))))
      [0..<length es])"
  then have i: "i < length es" by simp
  have "drop (width * i) (concat (map bytes es)) =
      bytes (es ! i) @ drop (width * Suc i) (concat (map bytes es))"
    using i by (intro drop_concat_map_width) (auto simp: length_bytes)
  moreover have "width * i \<le> length (concat (map bytes es))"
    using i by (simp add: length_table)
  ultimately show "map (\<lambda>i. load (Some (drop (i * width) (concat (map bytes es) @ rest))))
      [0..<length es] ! i = es ! i"
    using i by (simp add: mult.commute load_bytes)
qed simp

lemma bytes_of_loaded_table:
  assumes "n * width \<le> length bs"
  shows "concat (map bytes (map (\<lambda>i. load (Some (drop (i * width) bs))) [0..<n])) =
     take (n * width) bs"
  using assms
proof (induction n)
  case (Suc n)
  then have "width \<le> length (drop (n * width) bs)" by simp
  with Suc show ?case
    by (simp add: bytes_load add.commute [of width] take_add)
qed simp

lemma table_roundtrip:
  assumes "length es * width \<le> length buf"
  shows "map (\<lambda>i. load (Some (drop (i * width)
     (fold (\<lambda>i out. store out (i * width) (es ! i)) [0..<length es] buf)))) [0..<length es] = es"
proof -
  have "fold (\<lambda>i out. store out (i * width) (es ! i)) [0..<length es] buf =
      concat (map bytes es) @ drop (length (concat (map bytes es))) buf"
    using assms by (simp add: store_loop write_at_def)
  then show ?thesis by (simp only: load_table)
qed

lemma table_reencode:
  assumes "n * width \<le> length bs" "length buf = n * width"
    and "es = map (\<lambda>i. load (Some (drop (i * width) bs))) [0..<n]"
  shows "fold (\<lambda>i out. store out (i * width) (es ! i)) [0..<n] buf = take (n * width) bs"
proof -
  have len: "length es = n" using assms(3) by simp
  have "fold (\<lambda>i out. store out (i * width) (es ! i)) [0..<n] buf =
      write_at buf 0 (concat (map bytes es))"
    using store_loop [of es buf n] assms(2) len by simp
  also have "concat (map bytes es) = take (n * width) bs"
    unfolding assms(3) by (rule bytes_of_loaded_table [OF assms(1)])
  finally show ?thesis using assms(1,2) by (simp add: write_at_full)
qed

end

subsection \<open>The entry codecs of the source\<close>

lemmas take_split = take_add [symmetric]

definition hash_entry_bytes :: "mpq_hash_s \<Rightarrow> u8 list" where
  "hash_entry_bytes e = le32_bytes (hash_a e) @ le32_bytes (hash_b e) @
     le16_bytes (locale_id e) @ le16_bytes (platform e) @ le32_bytes (block_table_index e)"

definition block_entry_bytes :: "mpq_block_s \<Rightarrow> u8 list" where
  "block_entry_bytes e = le32_bytes (offset e) @ le32_bytes (packed_size e) @
     le32_bytes (unpacked_size e) @ le32_bytes (flags e)"

definition block_ex_entry_bytes :: "mpq_block_ex_s \<Rightarrow> u8 list" where
  "block_ex_entry_bytes e = le16_bytes (offset_high e)"

lemma length_entry_bytes [simp]:
  "length (hash_entry_bytes h) = 16" "length (block_entry_bytes b) = 16"
  by (simp_all add: hash_entry_bytes_def block_entry_bytes_def)

lemmas scalar_loads = le16.load_bytes le32.load_bytes le64.load_bytes be32.load_bytes
lemmas scalar_bytes = le16.bytes_load le32.bytes_load le64.bytes_load be32.bytes_load
lemmas scalar_stores = le16.store_write le32.store_write le64.store_write be32.store_write

lemma take_16_fields:
  "take 4 bs @ take 4 (drop 4 bs) @ take 2 (drop 8 bs) @ take 2 (drop 10 bs) @
     take 4 (drop 12 bs) = take 16 bs"
  "take 4 bs @ take 4 (drop 4 bs) @ take 4 (drop 8 bs) @ take 4 (drop 12 bs) = take 16 bs"
  using take_add [of 12 4 bs] take_add [of 10 2 bs] take_add [of 8 2 bs] take_add [of 4 4 bs]
    take_add [of 8 4 bs]
  by simp_all

interpretation hash_codec: wire_table 16 hash_entry_bytes hash_entry_load hash_entry_store
proof unfold_locales
  fix v rest
  show "hash_entry_load (Some (hash_entry_bytes v @ rest)) = v"
    by (simp add: hash_entry_load_def hash_entry_bytes_def scalar_loads)
next
  fix bs :: "u8 list" assume "16 \<le> length bs"
  then show "hash_entry_bytes (hash_entry_load (Some bs)) = take 16 bs"
    by (simp add: hash_entry_load_def hash_entry_bytes_def scalar_bytes take_16_fields)
next
  fix p v and buf :: "u8 list" assume "p + 16 \<le> length buf"
  then show "hash_entry_store buf p v = write_at buf p (hash_entry_bytes v)"
    by (simp add: hash_entry_store_def hash_entry_bytes_def scalar_stores Let_def)
       (simp add: write_at_def min_def add.commute)
qed simp_all

interpretation block_codec: wire_table 16 block_entry_bytes block_entry_load block_entry_store
proof unfold_locales
  fix v rest
  show "block_entry_load (Some (block_entry_bytes v @ rest)) = v"
    by (simp add: block_entry_load_def block_entry_bytes_def scalar_loads)
next
  fix bs :: "u8 list" assume "16 \<le> length bs"
  then show "block_entry_bytes (block_entry_load (Some bs)) = take 16 bs"
    by (simp add: block_entry_load_def block_entry_bytes_def scalar_bytes take_16_fields)
next
  fix p v and buf :: "u8 list" assume "p + 16 \<le> length buf"
  then show "block_entry_store buf p v = write_at buf p (block_entry_bytes v)"
    by (simp add: block_entry_store_def block_entry_bytes_def scalar_stores Let_def)
       (simp add: write_at_def min_def add.commute)
qed simp_all

interpretation block_ex_codec:
  wire_table 2 block_ex_entry_bytes block_ex_entry_load block_ex_entry_store
  by unfold_locales
    (auto simp: block_ex_entry_load_def block_ex_entry_bytes_def block_ex_entry_store_def
      scalar_loads scalar_bytes scalar_stores)

definition header_bytes :: "mpq_header_s \<Rightarrow> u8 list" where
  "header_bytes h = le32_bytes (mpq_magic h) @ le32_bytes (header_size h) @
     le32_bytes (archive_size h) @ le16_bytes (version h) @ le16_bytes (block_size h) @
     le32_bytes (hash_table_offset h) @ le32_bytes (block_table_offset h) @
     le32_bytes (hash_table_count h) @ le32_bytes (block_table_count h)"

definition header_ex_bytes :: "mpq_header_ex_s \<Rightarrow> u8 list" where
  "header_ex_bytes h = le64_bytes (extended_offset h) @ le16_bytes (hash_table_offset_high h) @
     le16_bytes (block_table_offset_high h)"

lemma header_encode_bytes:
  "32 \<le> length wire \<Longrightarrow> 32 \<le> sz \<Longrightarrow>
     libmpq__header_encode h (Some wire) sz = Inr (header_bytes h @ drop 32 wire)"
  by (simp add: wire_defs Let_def scalar_stores) (simp add: write_at_def min_def header_bytes_def)

lemma header_ex_encode_bytes:
  "12 \<le> length wire \<Longrightarrow> 12 \<le> sz \<Longrightarrow>
     libmpq__header_ex_encode h (Some wire) sz = Inr (header_ex_bytes h @ drop 12 wire)"
  by (simp add: wire_defs Let_def scalar_stores) (simp add: write_at_def min_def header_ex_bytes_def)

lemma header_decode_bytes:
  "32 \<le> sz \<Longrightarrow> libmpq__header_decode (Some (header_bytes h @ rest)) sz = Inr h"
  by (simp add: wire_defs header_bytes_def scalar_loads)

lemma header_ex_decode_bytes:
  "12 \<le> sz \<Longrightarrow> libmpq__header_ex_decode (Some (header_ex_bytes h @ rest)) sz = Inr h"
  by (simp add: wire_defs header_ex_bytes_def scalar_loads)

lemma length_header_bytes [simp]:
  "length (header_bytes h) = 32" "length (header_ex_bytes x) = 12"
  by (simp_all add: header_bytes_def header_ex_bytes_def)

lemmas header_codec_simps = libmpq__header_encode.simps libmpq__header_decode.simps
  libmpq__header_ex_encode.simps libmpq__header_ex_decode.simps

declare header_codec_simps [simp del]

subsection \<open>Properties\<close>

text \<open>C23: writing a hash table and reading it back returns the same entries, for every table that
  fits the output buffer; the bytes behind the table stay as they were.\<close>
theorem hash_table_roundtrip:
  assumes "length es \<le> SIZE_MAX div 16" "length es * 16 \<le> length out"
  shows "\<exists>wire. libmpq__hash_table_encode (Some es) (length es) (Some out) (length out) = Inr (Some wire) \<and>
     length wire = length out \<and> drop (length es * 16) wire = drop (length es * 16) out \<and>
     libmpq__hash_table_decode (Some wire) (length wire) (length es) = Inr es"
proof -
  define wire where
    "wire = fold (\<lambda>i out. hash_entry_store out (i * 16) (es ! i)) [0..<length es] out"
  have "wire = write_at out 0 (concat (map hash_entry_bytes es))"
    using assms(2) hash_codec.store_loop [of es out "length es"] by (simp add: wire_def)
  then have "length wire = length out \<and> drop (length es * 16) wire = drop (length es * 16) out"
    using assms(2) hash_codec.length_table [of es]
    by (simp add: write_at_def mult.commute)
  moreover have "libmpq__hash_table_decode (Some wire) (length wire) (length es) = Inr es"
    using assms calculation hash_codec.table_roundtrip [of es out]
    by (simp add: libmpq__hash_table_decode_def wire_defs wire_def)
  ultimately show ?thesis
    using assms by (auto simp: libmpq__hash_table_encode_def wire_defs wire_def)
qed

theorem hash_table_roundtrip_witness:
  "\<exists>wire. libmpq__hash_table_encode (Some [\<lparr>hash_a = 1, hash_b = 2, locale_id = 3, platform = 0,
       block_table_index = 5\<rparr>]) 1 (Some (replicate 17 9)) 17 = Inr (Some wire) \<and>
     length wire = 17 \<and> drop 16 wire = [9] \<and>
     libmpq__hash_table_decode (Some wire) (length wire) 1 =
       Inr [\<lparr>hash_a = 1, hash_b = 2, locale_id = 3, platform = 0, block_table_index = 5\<rparr>]"
  using hash_table_roundtrip [of "[\<lparr>hash_a = 1, hash_b = 2, locale_id = 3, platform = 0,
    block_table_index = 5\<rparr>]" "replicate 17 9"]
  by (simp add: SIZE_MAX_def)

text \<open>decoding a block table and encoding the entries again reproduces the serialized bytes, so
  no information of the table is lost when it is read, for the base table and for the version 2
  table of high offset words.\<close>
theorem block_tables_reencode:
  assumes "n \<le> SIZE_MAX div 16" "length bs = n * 16" "length cs = n * 2"
  shows "(\<exists>es. libmpq__block_table_decode (Some bs) (length bs) n = Inr es \<and> length es = n \<and>
       libmpq__block_table_encode (Some es) n (Some (replicate (n * 16) 0)) (n * 16) = Inr (Some bs)) \<and>
     (\<exists>xs. libmpq__block_ex_table_decode (Some cs) (length cs) n = Inr xs \<and> length xs = n \<and>
       libmpq__block_ex_table_encode (Some xs) n (Some (replicate (n * 2) 0)) (n * 2) = Inr (Some cs))"
proof -
  have "n \<le> SIZE_MAX div 2" using assms(1) by (simp add: SIZE_MAX_def)
  with assms show ?thesis
    using block_codec.table_reencode [of n bs "replicate (n * 16) 0"]
      block_ex_codec.table_reencode [of n cs "replicate (n * 2) 0"]
    by (simp add: libmpq__block_table_decode_def libmpq__block_table_encode_def
        libmpq__block_ex_table_decode_def libmpq__block_ex_table_encode_def wire_defs)
qed

theorem block_tables_reencode_witness:
  "\<exists>es. libmpq__block_table_decode (Some (replicate 32 7)) 32 2 = Inr es \<and>
     libmpq__block_table_encode (Some es) 2 (Some (replicate 32 0)) 32 = Inr (Some (replicate 32 7))"
  using block_tables_reencode [of 2 "replicate 32 7" "replicate 4 1"]
  by (auto simp: SIZE_MAX_def)

text \<open>C24: encoding the archive header and its version 2 extension and decoding the wire bytes
  returns the same headers, and both codecs refuse a buffer shorter than the wire size.\<close>
theorem header_roundtrip:
  assumes "32 \<le> length wire" "12 \<le> length wire_ex" "k < 32" "j < 12"
  shows "(\<exists>w. libmpq__header_encode h (Some wire) (length wire) = Inr w \<and> length w = length wire \<and>
       libmpq__header_decode (Some w) (length w) = Inr h) \<and>
     (\<exists>w. libmpq__header_ex_encode x (Some wire_ex) (length wire_ex) = Inr w \<and>
       libmpq__header_ex_decode (Some w) (length w) = Inr x) \<and>
     libmpq__header_encode h (Some wire) k = Inl ERROR_SIZE \<and>
     libmpq__header_decode (Some wire) k = Inl ERROR_SIZE \<and>
     libmpq__header_ex_encode x (Some wire_ex) j = Inl ERROR_SIZE \<and>
     libmpq__header_ex_decode (Some wire_ex) j = Inl ERROR_SIZE"
proof -
  have "\<exists>w. libmpq__header_encode h (Some wire) (length wire) = Inr w \<and> length w = length wire \<and>
       libmpq__header_decode (Some w) (length w) = Inr h"
    using assms(1) by (simp add: header_encode_bytes header_decode_bytes)
  moreover have "\<exists>w. libmpq__header_ex_encode x (Some wire_ex) (length wire_ex) = Inr w \<and>
       libmpq__header_ex_decode (Some w) (length w) = Inr x"
    using assms(2) by (simp add: header_ex_encode_bytes header_ex_decode_bytes)
  ultimately show ?thesis using assms(3,4) by (simp add: header_codec_simps wire_defs)
qed

theorem header_roundtrip_witness:
  "\<exists>w. libmpq__header_encode \<lparr>mpq_magic = 0x1A51504D, header_size = 32, archive_size = 99,
         version = 0, block_size = 3, hash_table_offset = 40, block_table_offset = 60,
         hash_table_count = 4, block_table_count = 2\<rparr> (Some (replicate 32 0)) 32 = Inr w \<and>
     libmpq__header_decode (Some w) (length w) = Inr \<lparr>mpq_magic = 0x1A51504D, header_size = 32,
         archive_size = 99, version = 0, block_size = 3, hash_table_offset = 40,
         block_table_offset = 60, hash_table_count = 4, block_table_count = 2\<rparr>"
  using header_roundtrip [of "replicate 32 0" "replicate 12 0" 31 11
      "\<lparr>mpq_magic = 0x1A51504D, header_size = 32, archive_size = 99,
         version = 0, block_size = 3, hash_table_offset = 40, block_table_offset = 60,
         hash_table_count = 4, block_table_count = 2\<rparr>"
      "\<lparr>extended_offset = 1, hash_table_offset_high = 2, block_table_offset_high = 3\<rparr>"]
  by auto

end
