(* ===== verification/Mpq_Sparse.thy ===== *)
theory Mpq_Sparse
  imports Mpq_Endian
begin

text \<open>
  The SPARSE zero-run codec, \<^verbatim>\<open>src/mpq-sparse.c\<close>. The input cursor is the list of bytes not read
  yet, the output buffer the list of bytes written so far; \<open>out_size\<close> is the capacity the caller
  passes. The main results are the round trip, a bound on the encoded size that says when
  compression succeeds, and memory safety of the decoder's output.
\<close>

subsection \<open>Compressor\<close>

function sparse_zero_run :: "u8 list \<Rightarrow> nat \<Rightarrow> nat" where
  "sparse_zero_run rest count =
     (if count < 130 \<and> count < length rest \<and> rest ! count = 0
      then sparse_zero_run rest (Suc count) else count)"
  by pat_completeness auto
termination
  by (relation "measure (\<lambda>(rest, count). length rest - count)") auto

function sparse_literal_run :: "u8 list \<Rightarrow> nat \<Rightarrow> nat" where
  "sparse_literal_run rest count =
     (let count = Suc count
      in if 3 \<le> length rest - count \<and> rest ! count = 0 \<and> rest ! (count + 1) = 0 \<and>
            rest ! (count + 2) = 0
         then count
         else if count < length rest \<and> count < 128 then sparse_literal_run rest count
         else count)"
  by pat_completeness auto
termination
  by (relation "measure (\<lambda>(rest, count). length rest - count)") auto

declare sparse_zero_run.simps [simp del] sparse_literal_run.simps [simp del]

lemma sparse_literal_run_ge: "count < sparse_literal_run rest count"
proof (induction rest count rule: sparse_literal_run.induct)
  case (1 rest count)
  then show ?case
    by (subst sparse_literal_run.simps) (auto simp: Let_def dest: Suc_lessD)
qed

function sparse_compress_loop :: "u8 list \<Rightarrow> u8 list \<Rightarrow> nat \<Rightarrow> u8 list result" where
  "sparse_compress_loop rest out out_size =
     (if rest = [] then Inr out
      else
        let count = sparse_zero_run rest 0
        in if 3 \<le> count then
             if length out = out_size then Inl ERROR_UNPACK
             else sparse_compress_loop (drop count rest) (out @ [of_nat (count - 3)]) out_size
           else
             let count = sparse_literal_run rest 0
             in if length out = out_size \<or> count > out_size - length out - 1
                then Inl ERROR_UNPACK
                else sparse_compress_loop (drop count rest)
                       (out @ [0x80 OR of_nat (count - 1)] @ take count rest) out_size)"
  by pat_completeness auto
termination
  by (relation "measure (\<lambda>(rest, out, out_size). length rest)")
    (auto simp: sparse_literal_run_ge)

declare sparse_compress_loop.simps [simp del]

definition libmpq__sparse_compress :: "ptr \<Rightarrow> out_ptr \<Rightarrow> u8 list result" where
  "libmpq__sparse_compress in_buf out_buf =
     (case (in_buf, out_buf) of
        (None, _) \<Rightarrow> Inl ERROR_UNPACK
      | (_, None) \<Rightarrow> Inl ERROR_UNPACK
      | (Some input, Some out_size) \<Rightarrow>
          if length input = 0 \<or> length input > INT32_MAX \<or> out_size < 4 then Inl ERROR_UNPACK
          else
            let out_size = (if out_size > INT32_MAX then INT32_MAX else out_size)
            in sparse_compress_loop input (be32_bytes (of_nat (length input))) out_size)"

subsection \<open>Decompressor\<close>

function sparse_decompress_loop :: "u8 list \<Rightarrow> u8 list \<Rightarrow> nat \<Rightarrow> u8 list result" where
  "sparse_decompress_loop rest out len =
     (if rest \<noteq> [] \<and> length out < len then
        let token = hd rest; rest = tl rest;
            count = unat (token AND 0x7F) + (if token AND 0x80 \<noteq> 0 then 1 else 3);
            count = (if count > len - length out then len - length out else count)
        in if token AND 0x80 \<noteq> 0 then
             if count > length rest then Inl ERROR_UNPACK
             else sparse_decompress_loop (drop count rest) (out @ take count rest) len
           else sparse_decompress_loop rest (out @ replicate count 0) len
      else if rest \<noteq> [] \<or> length out \<noteq> len then Inl ERROR_UNPACK
      else Inr out)"
  by pat_completeness auto
termination
  by (relation "measure (\<lambda>(rest, out, len). length rest)") (auto simp: neq_Nil_conv less_Suc_eq_le)

declare sparse_decompress_loop.simps [simp del]

definition libmpq__sparse_decompress :: "ptr \<Rightarrow> out_ptr \<Rightarrow> u8 list result" where
  "libmpq__sparse_decompress in_buf out_buf =
     (case (in_buf, out_buf) of
        (None, _) \<Rightarrow> Inl ERROR_UNPACK
      | (_, None) \<Rightarrow> Inl ERROR_UNPACK
      | (Some input, Some out_size) \<Rightarrow>
          if length input < 5 then Inl ERROR_UNPACK
          else
            let len = unat (libmpq__load_be32 (Some input))
            in if len = 0 \<or> len > out_size \<or> len > INT32_MAX then Inl ERROR_UNPACK
               else sparse_decompress_loop (drop 4 input) [] len)"

subsection \<open>What the scans find\<close>

lemma sparse_zero_run_props:
  assumes "count \<le> length rest" "count \<le> 130" "take count rest = replicate count 0"
  shows "sparse_zero_run rest count \<le> length rest \<and> sparse_zero_run rest count \<le> 130 \<and>
     count \<le> sparse_zero_run rest count \<and>
     take (sparse_zero_run rest count) rest = replicate (sparse_zero_run rest count) 0"
  using assms
proof (induction rest count rule: sparse_zero_run.induct)
  case (1 rest count)
  show ?case
  proof (cases "count < 130 \<and> count < length rest \<and> rest ! count = 0")
    case True
    then have "take (Suc count) rest = replicate (Suc count) 0"
      using "1.prems" by (simp add: take_Suc_conv_app_nth replicate_append_same)
    with "1.IH" [OF True] True show ?thesis
      by (subst (1 2 3 4 5) sparse_zero_run.simps) simp
  next
    case False
    with "1.prems" show ?thesis by (subst (1 2 3 4 5) sparse_zero_run.simps) auto
  qed
qed

lemma sparse_zero_run_3:
  assumes "3 \<le> length rest" "rest ! 0 = 0" "rest ! 1 = 0" "rest ! 2 = 0"
  shows "3 \<le> sparse_zero_run rest 0"
proof -
  have "sparse_zero_run rest 0 = sparse_zero_run rest 1"
    using assms by (subst sparse_zero_run.simps) auto
  also have "\<dots> = sparse_zero_run rest 2"
    using assms by (subst sparse_zero_run.simps) (auto simp: numeral_2_eq_2)
  also have "\<dots> = sparse_zero_run rest 3"
    using assms by (subst sparse_zero_run.simps) auto
  finally have "sparse_zero_run rest 0 = sparse_zero_run rest 3" .
  moreover have "take 3 rest = replicate 3 0"
    using assms by (auto simp: list_eq_iff_nth_eq less_Suc_eq numeral_eq_Suc)
  ultimately show ?thesis
    using sparse_zero_run_props [of 3 rest] assms(1) by simp
qed

lemma sparse_literal_run_props:
  assumes "count < length rest" "count < 128"
  shows "sparse_literal_run rest count \<le> length rest \<and> sparse_literal_run rest count \<le> 128 \<and>
     (sparse_literal_run rest count < 128 \<longrightarrow> sparse_literal_run rest count < length rest \<longrightarrow>
        3 \<le> sparse_zero_run (drop (sparse_literal_run rest count) rest) 0)"
  using assms
proof (induction rest count rule: sparse_literal_run.induct)
  case (1 rest count)
  let ?stop = "3 \<le> length rest - Suc count \<and> rest ! Suc count = 0 \<and> rest ! (Suc count + 1) = 0 \<and>
     rest ! (Suc count + 2) = 0"
  consider ?stop | "\<not> ?stop" "Suc count < length rest \<and> Suc count < 128"
    | "\<not> ?stop" "\<not> (Suc count < length rest \<and> Suc count < 128)" by blast
  then show ?case
  proof cases
    case 1
    then have "sparse_literal_run rest count = Suc count"
      by (subst sparse_literal_run.simps) (simp add: Let_def)
    moreover have "3 \<le> sparse_zero_run (drop (Suc count) rest) 0"
      using 1 by (intro sparse_zero_run_3) auto
    ultimately show ?thesis using "1.prems" by simp
  next
    case 2
    then have "sparse_literal_run rest count = sparse_literal_run rest (Suc count)"
      by (subst sparse_literal_run.simps) (auto simp: Let_def)
    with "1.IH" [OF refl 2] 2 show ?thesis by simp
  next
    case 3
    then have "sparse_literal_run rest count = Suc count"
      by (subst sparse_literal_run.simps) (auto simp: Let_def)
    with 3 "1.prems" show ?thesis by auto
  qed
qed

subsection \<open>Tokens\<close>

lemma and_7f: "(w :: u8) AND 0x7F = take_bit 7 w"
  by (simp add: take_bit_eq_mask mask_eq_exp_minus_1)

lemma and_80: "(w :: u8) AND 0x80 = 0 \<longleftrightarrow> \<not> bit w 7"
  using and_exp_eq_0_iff_not_bit [of w 7] by simp

lemma not_bit_of_nat_small: "n < 2 ^ k \<Longrightarrow> \<not> bit (n :: nat) k"
  by (simp add: bit_iff_odd)

lemma run_token:
  assumes "n < 128"
  shows "unat ((of_nat n :: u8) AND 0x7F) = n" "(of_nat n :: u8) AND 0x80 = 0"
  using assms not_bit_of_nat_small [of n 7]
  by (simp_all add: and_7f and_80 take_bit_of_nat take_bit_nat_eq_self unsigned_of_nat bit_simps)

lemma literal_token:
  assumes "n < 128"
  shows "unat ((0x80 OR of_nat n :: u8) AND 0x7F) = n" "(0x80 OR of_nat n :: u8) AND 0x80 \<noteq> 0"
proof -
  have "(0x80 OR of_nat n :: u8) AND 0x7F = of_nat n AND 0x7F"
    by (simp add: bit.conj_disj_distrib2)
  then show "unat ((0x80 OR of_nat n :: u8) AND 0x7F) = n"
    using run_token(1) [OF assms] by simp
  have "bit (0x80 :: u8) 7" by simp
  then show "(0x80 OR of_nat n :: u8) AND 0x80 \<noteq> 0"
    by (simp only: and_80 bit_or_iff) simp
qed

subsection \<open>One token at a time\<close>

lemma decompress_run_token:
  assumes "3 \<le> count" "count \<le> 130" "length out + count \<le> len"
  shows "sparse_decompress_loop (of_nat (count - 3) # rest) out len =
     sparse_decompress_loop rest (out @ replicate count 0) len"
proof -
  have "\<not> len - length out < count" "length out < len" "count - 3 < 128" "count - 3 + 3 = count"
    using assms by auto
  with run_token [of "count - 3"] show ?thesis
    by (subst sparse_decompress_loop.simps) (simp add: Let_def del: of_nat_diff)
qed

lemma decompress_literal_token:
  assumes "1 \<le> count" "count \<le> 128" "length out + count \<le> len" "length bytes = count"
  shows "sparse_decompress_loop ((0x80 OR of_nat (count - 1)) # bytes @ rest) out len =
     sparse_decompress_loop rest (out @ bytes) len"
  using assms literal_token [of "count - 1"]
  by (subst sparse_decompress_loop.simps) (simp add: Let_def)

lemma decompress_end: "sparse_decompress_loop [] out (length out) = Inr out"
  by (simp add: sparse_decompress_loop.simps)

lemmas compress_scans =
  sparse_zero_run_props [of 0, simplified] sparse_literal_run_props [of 0, simplified]

lemma sparse_compress_loop_sound:
  assumes "sparse_compress_loop rest out cap = Inr out'" "length out \<le> cap"
  shows "\<exists>enc. out' = out @ enc \<and> length out' \<le> cap \<and> (rest \<noteq> [] \<longrightarrow> enc \<noteq> []) \<and>
     (\<forall>acc. sparse_decompress_loop enc acc (length acc + length rest) = Inr (acc @ rest))"
  using assms
proof (induction rest out cap rule: sparse_compress_loop.induct)
  case (1 rest out cap)
  let ?z = "sparse_zero_run rest 0" and ?l = "sparse_literal_run rest 0"
  consider "rest = []" | "rest \<noteq> []" "3 \<le> ?z" | "rest \<noteq> []" "\<not> 3 \<le> ?z" by blast
  then show ?case
  proof cases
    case 1
    then show ?thesis
      using "1.prems" decompress_end by (simp add: sparse_compress_loop.simps)
  next
    case 2
    from 2 "1.prems"(1) have "length out \<noteq> cap" and
      eq: "sparse_compress_loop (drop ?z rest) (out @ [of_nat (?z - 3)]) cap = Inr out'"
      by (subst (asm) sparse_compress_loop.simps, simp add: Let_def split: if_splits)+
    with "1.IH"(1) [OF 2(1) refl 2(2) _ eq] "1.prems"(2) obtain enc where
      enc: "out' = out @ of_nat (?z - 3) # enc" "length out' \<le> cap"
        "\<And>acc. sparse_decompress_loop enc acc (length acc + length (drop ?z rest)) =
           Inr (acc @ drop ?z rest)" by auto
    have z: "?z \<le> length rest" "?z \<le> 130" "take ?z rest = replicate ?z 0"
      using compress_scans(1) by auto
    have "sparse_decompress_loop (of_nat (?z - 3) # enc) acc (length acc + length rest) =
       Inr (acc @ rest)" for acc
      using decompress_run_token [of ?z acc "length acc + length rest" enc]
        enc(3) [of "acc @ replicate ?z 0"] 2 z append_take_drop_id [of ?z rest] by simp
    with enc show ?thesis by auto
  next
    case 3
    from 3 "1.prems"(1) have fits: "length out \<noteq> cap" "?l \<le> cap - length out - 1" and
      eq: "sparse_compress_loop (drop ?l rest)
             (out @ [0x80 OR of_nat (?l - 1)] @ take ?l rest) cap = Inr out'"
      by (subst (asm) sparse_compress_loop.simps, simp add: Let_def split: if_splits)+
    have l: "1 \<le> ?l" "?l \<le> length rest" "?l \<le> 128"
      using compress_scans(2) [of rest] sparse_literal_run_ge [of 0 rest] 3(1) by auto
    from l fits "1.prems"(2) have "Suc (length out + ?l) \<le> cap" by linarith
    with "1.IH"(2) [OF 3(1) refl 3(2) refl _ eq] l fits obtain enc where
      enc: "out' = out @ (0x80 OR of_nat (?l - 1)) # take ?l rest @ enc" "length out' \<le> cap"
        "\<And>acc. sparse_decompress_loop enc acc (length acc + length (drop ?l rest)) =
           Inr (acc @ drop ?l rest)" by auto
    have "sparse_decompress_loop ((0x80 OR of_nat (?l - 1)) # take ?l rest @ enc) acc
         (length acc + length rest) = Inr (acc @ rest)" for acc
      using decompress_literal_token [of ?l acc "length acc + length rest" "take ?l rest" enc]
        enc(3) [of "acc @ take ?l rest"] l by simp
    with enc show ?thesis by auto
  qed
qed


text \<open>
  Every token but the literal ones that are cut by a following zero run pays for itself: a zero run
  replaces at least three bytes by one. The slack of one in the induction is what such a run gives
  to the literal before it.
\<close>

lemma sparse_compress_loop_fits:
  assumes "length out + length rest + (length rest + 127) div 128 \<le>
     cap + (if 3 \<le> sparse_zero_run rest 0 then 1 else 0)" "length out < cap \<or> rest = []"
  shows "\<exists>enc. sparse_compress_loop rest out cap = Inr enc"
  using assms
proof (induction rest out cap rule: sparse_compress_loop.induct)
  case (1 rest out cap)
  let ?z = "sparse_zero_run rest 0" and ?l = "sparse_literal_run rest 0"
  consider "rest = []" | "rest \<noteq> []" "3 \<le> ?z" | "rest \<noteq> []" "\<not> 3 \<le> ?z" by blast
  then show ?case
  proof cases
    case 1
    then show ?thesis by (simp add: sparse_compress_loop.simps)
  next
    case 2
    have z: "?z \<le> length rest" using compress_scans(1) by auto
    let ?rest = "drop ?z rest" and ?out = "out @ [of_nat (?z - 3)]"
    have "length ?out + length ?rest + (length ?rest + 127) div 128 + 1 \<le> cap"
      using 2 "1.prems" z div_le_mono [of "length ?rest + 127" "length rest + 127" 128] by simp
    then have "\<exists>enc. sparse_compress_loop ?rest ?out cap = Inr enc"
      using "1.prems" 2 by (intro "1.IH"(1)) auto
    with 2 "1.prems" show ?thesis by (subst sparse_compress_loop.simps) (auto simp: Let_def)
  next
    case 3
    have l: "1 \<le> ?l" "?l \<le> length rest" "?l \<le> 128"
      and stop: "?l < 128 \<Longrightarrow> ?l < length rest \<Longrightarrow> 3 \<le> sparse_zero_run (drop ?l rest) 0"
      using compress_scans(2) [of rest] sparse_literal_run_ge [of 0 rest] 3(1) by auto
    let ?rest = "drop ?l rest" and ?out = "out @ [0x80 OR of_nat (?l - 1)] @ take ?l rest"
    have len: "length ?out = length out + 1 + ?l" "length ?rest = length rest - ?l" using l by auto
    have ceil: "1 \<le> (length rest + 127) div 128"
      "?l = 128 \<Longrightarrow> (length rest + 127) div 128 = (length ?rest + 127) div 128 + 1"
      "(length ?rest + 127) div 128 \<le> (length rest + 127) div 128"
      using l le_div_geq [of 128 "length rest + 127"] div_le_mono [of "length ?rest + 127" "length rest + 127" 128] by auto
    have bound: "length ?out + length ?rest + (length ?rest + 127) div 128 \<le>
       cap + (if 3 \<le> sparse_zero_run ?rest 0 then 1 else 0)"
      using 3 "1.prems"(1) l stop ceil len by (cases "?l < length rest"; cases "?l < 128") auto
    moreover have fits: "length ?out < cap \<or> ?rest = []" "length ?out \<le> cap"
      using 3 "1.prems"(1) l ceil bound len by (auto split: if_splits)
    ultimately have "\<exists>enc. sparse_compress_loop ?rest ?out cap = Inr enc"
      using 3 len by (intro "1.IH"(2)) auto
    with 3 fits(2) len show ?thesis by (subst sparse_compress_loop.simps) (auto simp: Let_def)
  qed
qed

lemma sparse_decompress_loop_result:
  "case sparse_decompress_loop rest out len of
     Inl e \<Rightarrow> e = ERROR_UNPACK | Inr out' \<Rightarrow> length out' = len"
proof (induction rest out len rule: sparse_decompress_loop.induct)
  case (1 rest out len)
  then show ?case by (subst sparse_decompress_loop.simps) (simp add: Let_def)
qed

subsection \<open>The codec\<close>

lemma be32_length_header:
  "n \<le> INT32_MAX \<Longrightarrow> unat (libmpq__load_be32 (Some (be32_bytes (of_nat n) @ bs))) = n"
  by (simp add: be32.load_bytes INT32_MAX_def unsigned_of_nat take_bit_nat_eq_self)

lemma sparse_decodes:
  assumes "libmpq__sparse_compress (Some input) (Some cap) = Inr enc" "length input \<le> out_size"
  shows "libmpq__sparse_decompress (Some enc) (Some out_size) = Inr input"
proof -
  let ?cap = "if cap > INT32_MAX then INT32_MAX else cap"
  let ?head = "be32_bytes (of_nat (length input))"
  from assms have input: "input \<noteq> []" "length input \<le> INT32_MAX" "4 \<le> ?cap" and
    "sparse_compress_loop input ?head ?cap = Inr enc"
    by (auto simp: libmpq__sparse_compress_def INT32_MAX_def split: if_splits)
  then obtain body where "enc = ?head @ body" "body \<noteq> []"
    "\<And>acc. sparse_decompress_loop body acc (length acc + length input) = Inr (acc @ input)"
    using sparse_compress_loop_sound [of input ?head ?cap enc] by auto
  from this(1,2) this(3) [of "[]"] input assms(2) show ?thesis
    by (cases body) (simp_all add: libmpq__sparse_decompress_def be32_length_header Let_def)
qed

text \<open>C13: the SPARSE codec is a round trip. Whatever the compressor emits for an input, the
  decompressor accepts it, consumes all of it, and gives back the input, for every output buffer
  that has room for the input.\<close>

theorem sparse_roundtrip:
  assumes "libmpq__sparse_compress (Some input) (Some cap) = Inr enc" "length input \<le> out_size"
  shows "libmpq__sparse_decompress (Some enc) (Some out_size) = Inr input"
  using assms by (rule sparse_decodes)

theorem sparse_roundtrip_witness:
  "libmpq__sparse_decompress (Some [0, 0, 0, 6, 0x80, 7, 1, 0x80, 9]) (Some 6) = Inr [7, 0, 0, 0, 0, 9]"
proof -
  have "libmpq__sparse_compress (Some [7, 0, 0, 0, 0, 9]) (Some 9) = Inr [0, 0, 0, 6, 0x80, 7, 1, 0x80, 9]"
    by (simp add: libmpq__sparse_compress_def INT32_MAX_def be32_bytes_def le32_bytes_def
        sparse_compress_loop.simps sparse_zero_run.simps sparse_literal_run.simps Let_def)
  then show ?thesis by (rule sparse_roundtrip) simp
qed

text \<open>C22: the compressor does not run out of room when the output buffer has four bytes for the
  length, the input size, and one byte for every started group of 128 input bytes; then it
  terminates with an encoding that fits the buffer.\<close>

theorem sparse_compress_fits:
  assumes "0 < length input" "4 + length input + (length input + 127) div 128 \<le> cap" "cap \<le> INT32_MAX"
  shows "\<exists>enc. libmpq__sparse_compress (Some input) (Some cap) = Inr enc \<and> length enc \<le> cap"
proof -
  let ?head = "be32_bytes (of_nat (length input))"
  obtain enc where "sparse_compress_loop input ?head cap = Inr enc"
    using sparse_compress_loop_fits [of ?head input cap] assms by auto
  moreover from this have "length enc \<le> cap"
    using sparse_compress_loop_sound [of input ?head cap enc] assms by auto
  ultimately show ?thesis
    using assms by (auto simp: libmpq__sparse_compress_def)
qed

theorem sparse_compress_fits_witness:
  "\<exists>enc. libmpq__sparse_compress (Some [1, 2, 3]) (Some 8) = Inr enc \<and> length enc \<le> 8"
  by (rule sparse_compress_fits) (simp_all add: INT32_MAX_def)

text \<open>on arbitrary input the decompressor either reports an unpack error or produces exactly
  the number of bytes the block declares, which fits the output buffer.\<close>

theorem sparse_decompress_bounded:
  "libmpq__sparse_decompress (Some input) (Some cap) = Inl ERROR_UNPACK \<or>
   (\<exists>out. libmpq__sparse_decompress (Some input) (Some cap) = Inr out \<and>
      length out = unat (libmpq__load_be32 (Some input)) \<and> length out \<le> cap \<and>
      0 < length out \<and> length out \<le> INT32_MAX)"
  using sparse_decompress_loop_result [where rest = "drop 4 input" and out = "[]" and
        len = "unat (libmpq__load_be32 (Some input))"]
  by (auto simp: libmpq__sparse_decompress_def Let_def split: sum.splits)

end
