(* ===== verification/Mpq_Wave.thy ===== *)
theory Mpq_Wave
  imports Mpq_Endian
begin

text \<open>
  The ADPCM WAVE codec and the RIFF probes, \<^verbatim>\<open>src/mpq-wave.c\<close>. The \<open>int32_t\<close> predictors, step indices
  and differences are integers (the invariant \<open>wave_dec_ok\<close> bounds them far below the width, so the
  additions of the code do not overflow); the tables and the unsigned intermediates keep their 32
  bits, with the code's casts between the two written out. A checked load (\<open>load16_at\<close>, \<open>load32_at\<close>)
  is \<open>None\<close> outside the buffer, so that memory safety of the probes is a theorem. The first probe
  may run forever and is a \<open>partial_function\<close>: its outer \<open>None\<close> is the run that never returns.
\<close>

subsection \<open>Tables and records\<close>

definition wave_step_adjustments :: "u32 list" where
  "wave_step_adjustments = [
     0xFFFFFFFF, 0x00000000, 0xFFFFFFFF, 0x00000004, 0xFFFFFFFF, 0x00000002, 0xFFFFFFFF, 0x00000006,
     0xFFFFFFFF, 0x00000001, 0xFFFFFFFF, 0x00000005, 0xFFFFFFFF, 0x00000003, 0xFFFFFFFF, 0x00000007,
     0xFFFFFFFF, 0x00000001, 0xFFFFFFFF, 0x00000005, 0xFFFFFFFF, 0x00000003, 0xFFFFFFFF, 0x00000007,
     0xFFFFFFFF, 0x00000002, 0xFFFFFFFF, 0x00000004, 0xFFFFFFFF, 0x00000006, 0xFFFFFFFF, 0x00000008]"

definition wave_step_sizes :: "u32 list" where
  "wave_step_sizes = [
     0x00000007, 0x00000008, 0x00000009, 0x0000000A, 0x0000000B, 0x0000000C, 0x0000000D, 0x0000000E,
     0x00000010, 0x00000011, 0x00000013, 0x00000015, 0x00000017, 0x00000019, 0x0000001C, 0x0000001F,
     0x00000022, 0x00000025, 0x00000029, 0x0000002D, 0x00000032, 0x00000037, 0x0000003C, 0x00000042,
     0x00000049, 0x00000050, 0x00000058, 0x00000061, 0x0000006B, 0x00000076, 0x00000082, 0x0000008F,
     0x0000009D, 0x000000AD, 0x000000BE, 0x000000D1, 0x000000E6, 0x000000FD, 0x00000117, 0x00000133,
     0x00000151, 0x00000173, 0x00000198, 0x000001C1, 0x000001EE, 0x00000220, 0x00000256, 0x00000292,
     0x000002D4, 0x0000031C, 0x0000036C, 0x000003C3, 0x00000424, 0x0000048E, 0x00000502, 0x00000583,
     0x00000610, 0x000006AB, 0x00000756, 0x00000812, 0x000008E0, 0x000009C3, 0x00000ABD, 0x00000BD0,
     0x00000CFF, 0x00000E4C, 0x00000FBA, 0x0000114C, 0x00001307, 0x000014EE, 0x00001706, 0x00001954,
     0x00001BDC, 0x00001EA5, 0x000021B6, 0x00002515, 0x000028CA, 0x00002CDF, 0x0000315B, 0x0000364B,
     0x00003BB9, 0x000041B2, 0x00004844, 0x00004F7E, 0x00005771, 0x0000602F, 0x000069CE, 0x00007462,
     0x00007FFF]"

record libmpq_wave_info_s =
  channels :: u16
  data_offset :: u32
  data_size :: u32

subsection \<open>Quantizer\<close>

definition wave_quantize_bit :: "u32 \<Rightarrow> u32 \<Rightarrow> nat \<Rightarrow> u32 \<times> int \<Rightarrow> u32 \<times> int" where
  "wave_quantize_bit magnitude step n = (\<lambda>(code, delta).
     let contribution = drop_bit n step
     in if magnitude \<ge> word_of_int (delta + sint contribution)
        then (code OR push_bit n 1, delta + sint contribution)
        else (code, delta))"

definition wave_encode_delta :: "int \<Rightarrow> int \<Rightarrow> int \<Rightarrow> nat \<Rightarrow> u8 \<times> int \<times> int" where
  "wave_encode_delta difference predictor step_index shift =
     (let step = wave_step_sizes ! nat step_index;
          magnitude = (if difference < 0 then word_of_int (- difference) else word_of_int difference) :: u32;
          code = (if difference < 0 then 0x40 else 0) :: u32;
          delta = sint (drop_bit shift step);
          (code, delta) = fold (wave_quantize_bit magnitude step) [0..<6] (code, delta);
          predictor = (if difference < 0 then predictor - delta else predictor + delta);
          predictor = (if predictor > 32767 then 32767 else predictor);
          predictor = (if predictor < - 32768 then - 32768 else predictor);
          step_index = step_index + sint (wave_step_adjustments ! unat (code AND 0x1F));
          step_index = (if step_index < 0 then 0 else step_index);
          step_index = (if step_index > 0x58 then 0x58 else step_index)
      in (ucast code, predictor, step_index))"

subsection \<open>RIFF probes\<close>

definition load16_at :: "u8 list \<Rightarrow> nat \<Rightarrow> u16 option" where
  "load16_at data p = (if p + 2 \<le> length data then Some (libmpq__load_le16 (Some (drop p data))) else None)"

definition load32_at :: "u8 list \<Rightarrow> nat \<Rightarrow> u32 option" where
  "load32_at data p = (if p + 4 \<le> length data then Some (libmpq__load_le32 (Some (drop p data))) else None)"

definition tag_at :: "u8 list \<Rightarrow> nat \<Rightarrow> u8 list \<Rightarrow> bool" where
  "tag_at data p tag \<longleftrightarrow> take (length tag) (drop p data) = tag"

definition RIFF_tag :: "u8 list" where "RIFF_tag = [0x52, 0x49, 0x46, 0x46]"
definition WAVE_tag :: "u8 list" where "WAVE_tag = [0x57, 0x41, 0x56, 0x45]"
definition fmt_tag :: "u8 list" where "fmt_tag = [0x66, 0x6D, 0x74, 0x20]"
definition data_tag :: "u8 list" where "data_tag = [0x64, 0x61, 0x74, 0x61]"

record wave_scan =
  scan_channels :: u16
  scan_format :: u16
  scan_bits :: u16
  scan_offset :: u32
  scan_size :: u32

definition wave_scan_init :: wave_scan where
  "wave_scan_init =
     \<lparr>scan_channels = 0, scan_format = 0, scan_bits = 0, scan_offset = 0, scan_size = 0\<rparr>"

definition wave_read_fmt :: "u8 list \<Rightarrow> nat \<Rightarrow> wave_scan \<Rightarrow> wave_scan option" where
  "wave_read_fmt data p s =
     (case (load16_at data (p + 8), load16_at data (p + 10), load16_at data (p + 22)) of
        (Some f, Some c, Some b) \<Rightarrow>
          Some (s\<lparr>scan_format := f, scan_channels := c, scan_bits := b\<rparr>)
      | _ \<Rightarrow> None)"

definition wave_scan_finish :: "u32 \<Rightarrow> wave_scan \<Rightarrow> libmpq_wave_info_s result" where
  "wave_scan_finish limit s =
     (if scan_format s \<noteq> 1 \<or> (scan_channels s \<noteq> 1 \<and> scan_channels s \<noteq> 2) \<or> scan_bits s \<noteq> 16 \<or>
         scan_offset s = 0 \<or> scan_offset s > limit \<or>
         scan_size s mod (ucast (scan_channels s) * 2) \<noteq> 0
      then Inl ERROR_FORMAT
      else Inr \<lparr>channels = scan_channels s, data_offset = scan_offset s, data_size = scan_size s\<rparr>)"

partial_function (option) wave_probe_loop ::
  "u8 list \<Rightarrow> u32 \<Rightarrow> u32 \<Rightarrow> wave_scan \<Rightarrow> wave_scan result option option" where
  "wave_probe_loop data end pos s =
     (if pos + 8 \<le> end then
        (case load32_at data (unat pos + 4) of
           None \<Rightarrow> Some None
         | Some chunk_size \<Rightarrow>
             let next = pos + 8 + chunk_size + (chunk_size AND 1)
             in if next < pos \<or> next > end then Some (Some (Inl ERROR_FORMAT))
                else if tag_at data (unat pos) fmt_tag \<and> chunk_size \<ge> 16 then
                  (case wave_read_fmt data (unat pos) s of
                     None \<Rightarrow> Some None
                   | Some s \<Rightarrow> wave_probe_loop data end next s)
                else if tag_at data (unat pos) data_tag then
                  wave_probe_loop data end next (s\<lparr>scan_offset := pos + 8, scan_size := chunk_size\<rparr>)
                else wave_probe_loop data end next s)
      else Some (Some (Inr s)))"

definition libmpq__wave_probe_pcm16 ::
  "ptr \<Rightarrow> u32 \<Rightarrow> libmpq_wave_info_s result option option" where
  "libmpq__wave_probe_pcm16 data sz =
     (case data of
        None \<Rightarrow> Some (Some (Inl ERROR_FORMAT))
      | Some data \<Rightarrow>
          if sz < 12 \<or> \<not> tag_at data 0 RIFF_tag \<or> \<not> tag_at data 8 WAVE_tag
          then Some (Some (Inl ERROR_FORMAT))
          else map_option (map_option (\<lambda>r. case r of Inl e \<Rightarrow> Inl e | Inr s \<Rightarrow> wave_scan_finish sz s))
                 (wave_probe_loop data sz 12 wave_scan_init))"

function wave_prefix_loop ::
  "u8 list \<Rightarrow> u32 \<Rightarrow> u64 \<Rightarrow> u32 \<Rightarrow> wave_scan \<Rightarrow> wave_scan result option" where
  "wave_prefix_loop data prefix_size file_size pos s =
     (if pos + 8 \<le> prefix_size then
        (case load32_at data (unat pos + 4) of
           None \<Rightarrow> None
         | Some chunk_size \<Rightarrow>
             let next = ucast pos + 8 + ucast chunk_size + ucast (chunk_size AND 1) :: u64
             in if next < ucast pos \<or> next > file_size then Some (Inl ERROR_FORMAT)
                else if tag_at data (unat pos) fmt_tag \<and> chunk_size \<ge> 16 then
                  if ucast pos + 24 > (ucast prefix_size :: u64) then Some (Inl ERROR_FORMAT)
                  else (case wave_read_fmt data (unat pos) s of
                          None \<Rightarrow> None
                        | Some s \<Rightarrow>
                            if next > ucast prefix_size then Some (Inr s)
                            else wave_prefix_loop data prefix_size file_size (ucast next) s)
                else if tag_at data (unat pos) data_tag then
                  let s = s\<lparr>scan_offset := pos + 8, scan_size := chunk_size\<rparr>
                  in if ucast (scan_offset s) + ucast (scan_size s) > file_size
                     then Some (Inl ERROR_FORMAT) else Some (Inr s)
                else if next > ucast prefix_size then Some (Inr s)
                else wave_prefix_loop data prefix_size file_size (ucast next) s)
      else Some (Inr s))"
  by pat_completeness auto

lemma and_1_le: "unat ((w :: u32) AND 1) \<le> 1"
  by (simp add: and_one_eq unat_mod)

lemma wave_prefix_next:
  fixes pos chunk_size :: u32
  shows "unat (ucast pos + 8 + ucast chunk_size + ucast (chunk_size AND 1) :: u64) =
     unat pos + 8 + unat chunk_size + unat (chunk_size AND 1)"
proof -
  have "unat pos + 8 + unat chunk_size + unat (chunk_size AND 1) < 18446744073709551616"
    using unat_u32_less [of pos] unat_u32_less [of chunk_size] and_1_le [of chunk_size] by linarith
  then show ?thesis
    by (simp add: unat_word_ariths)
qed

lemma wave_prefix_advances:
  fixes pos chunk_size prefix_size :: u32
  defines "next \<equiv> ucast pos + 8 + ucast chunk_size + ucast (chunk_size AND 1) :: u64"
  assumes "\<not> next > ucast prefix_size"
  shows "unat (ucast next :: u32) = unat next" "unat pos + 8 \<le> unat next" "unat next \<le> unat prefix_size"
proof -
  show le: "unat next \<le> unat prefix_size"
    using assms(2) by (simp add: word_less_nat_alt)
  then show "unat (ucast next :: u32) = unat next"
    by (simp add: unsigned_ucast_eq take_bit_nat_eq_self_iff order.strict_trans1 [OF le])
  show "unat pos + 8 \<le> unat next"
    unfolding next_def by (simp only: wave_prefix_next)
qed

lemma wave_prefix_decreases:
  fixes pos chunk_size prefix_size :: u32
  assumes "\<not> (ucast prefix_size :: u64) < ucast pos + 8 + ucast chunk_size + ucast (chunk_size AND 1)"
  shows "unat prefix_size -
       unat (ucast (ucast pos + 8 + ucast chunk_size + ucast (chunk_size AND 1) :: u64) :: u32)
     < unat prefix_size - unat pos"
  using wave_prefix_advances [OF assms] by linarith

termination wave_prefix_loop
  by (relation "measure (\<lambda>(data, prefix_size, file_size, pos, s). unat prefix_size - unat pos)")
    (simp_all add: wave_prefix_decreases)

declare wave_prefix_loop.simps [simp del]

definition libmpq__wave_probe_pcm16_prefix ::
  "ptr \<Rightarrow> u32 \<Rightarrow> u64 \<Rightarrow> libmpq_wave_info_s result option" where
  "libmpq__wave_probe_pcm16_prefix data prefix_size file_size =
     (case data of
        None \<Rightarrow> Some (Inl ERROR_FORMAT)
      | Some data \<Rightarrow>
          if prefix_size < 12 \<or> file_size < ucast prefix_size \<or>
             \<not> tag_at data 0 RIFF_tag \<or> \<not> tag_at data 8 WAVE_tag
          then Some (Inl ERROR_FORMAT)
          else map_option (\<lambda>r. case r of Inl e \<Rightarrow> Inl e | Inr s \<Rightarrow> wave_scan_finish prefix_size s)
                 (wave_prefix_loop data prefix_size file_size 12 wave_scan_init))"

subsection \<open>Encoder\<close>

record wave_enc =
  enc_out :: "u8 list"
  enc_preds :: "int list"
  enc_steps :: "int list"

definition pcm_sample :: "u8 list \<Rightarrow> nat \<Rightarrow> int" where
  "pcm_sample in_buf k = sint (libmpq__load_le16 (Some (drop (k * 2) in_buf)))"

definition wave_encode_sample :: "u8 list \<Rightarrow> nat \<Rightarrow> nat \<Rightarrow> nat \<Rightarrow> wave_enc \<Rightarrow> wave_enc" where
  "wave_encode_sample in_buf chans i channel e =
     (let sample = pcm_sample in_buf (i * chans + channel);
          (code, predictor, step_index) =
            wave_encode_delta (sample - enc_preds e ! channel) (enc_preds e ! channel)
              (enc_steps e ! channel) 4
      in \<lparr>enc_out = enc_out e @ [code], enc_preds = (enc_preds e)[channel := predictor],
          enc_steps = (enc_steps e)[channel := step_index]\<rparr>)"

definition wave_encode_frame :: "u8 list \<Rightarrow> nat \<Rightarrow> nat \<Rightarrow> wave_enc \<Rightarrow> wave_enc" where
  "wave_encode_frame in_buf chans i e = fold (wave_encode_sample in_buf chans i) [0..<chans] e"

definition wave_encode_seed :: "u8 list \<Rightarrow> nat \<Rightarrow> wave_enc \<Rightarrow> wave_enc" where
  "wave_encode_seed in_buf i e =
     e\<lparr>enc_preds := (enc_preds e)[i := pcm_sample in_buf i],
       enc_out := enc_out e @ le16_bytes (word_of_int (pcm_sample in_buf i))\<rparr>"

definition wave_encode_start :: "u8 list \<Rightarrow> nat \<Rightarrow> wave_enc" where
  "wave_encode_start in_buf chans =
     fold (wave_encode_seed in_buf) [0..<chans]
       \<lparr>enc_out = [0, 4], enc_preds = [0, 0], enc_steps = [0x2C, 0x2C]\<rparr>"

definition libmpq__wave_compress :: "(nat \<Rightarrow> bool) \<Rightarrow> ptr \<Rightarrow> nat \<Rightarrow> u8 list result" where
  "libmpq__wave_compress malloc_ok in_buf chans =
     (case in_buf of
        None \<Rightarrow> Inl ERROR_FORMAT
      | Some input \<Rightarrow>
          if (chans \<noteq> 1 \<and> chans \<noteq> 2) \<or> length input < chans * 2 \<or>
             length input mod (chans * 2) \<noteq> 0
          then Inl ERROR_FORMAT
          else
            let samples = length input div (chans * 2)
            in if \<not> malloc_ok (2 + chans * 2 + samples * chans) then Inl ERROR_MALLOC
               else Inr (enc_out (fold (wave_encode_frame input chans) [1..<samples]
                      (wave_encode_start input chans))))"

subsection \<open>Decoder\<close>

record wave_dec =
  dec_out :: "u8 list"
  dec_room :: int
  dec_steps :: "int list"
  dec_preds :: "int list"
  dec_index :: nat

definition wave_emit :: "int \<Rightarrow> wave_dec \<Rightarrow> wave_dec" where
  "wave_emit v st = st\<lparr>dec_out := dec_out st @ le16_bytes (word_of_int v), dec_room := dec_room st - 2\<rparr>"

definition wave_flip :: "int \<Rightarrow> wave_dec \<Rightarrow> wave_dec" where
  "wave_flip chans st =
     (if chans = 2 then st\<lparr>dec_index := (if dec_index st = 0 then 1 else 0)\<rparr> else st)"

definition wave_set_step :: "int \<Rightarrow> wave_dec \<Rightarrow> wave_dec" where
  "wave_set_step v st = st\<lparr>dec_steps := (dec_steps st)[dec_index st := v]\<rparr>"

definition wave_control :: "int \<Rightarrow> u8 \<Rightarrow> wave_dec \<Rightarrow> wave_dec" where
  "wave_control chans one_byte st =
     (let step = dec_steps st ! dec_index st
      in if one_byte AND 0x7F = 0 then
           let st = (if step \<noteq> 0 then wave_set_step (step - 1) st else st)
           in if dec_room st < 2 then st
              else wave_emit (dec_preds st ! dec_index st) st
         else if one_byte AND 0x7F = 1 then
           wave_flip chans (wave_set_step (if step + 8 > 0x58 then 0x58 else step + 8) st)
         else if one_byte AND 0x7F = 2 then st
         else wave_flip chans (wave_set_step (if step - 8 < 0 then 0 else step - 8) st))"

definition wave_delta :: "nat \<Rightarrow> u8 \<Rightarrow> u32 \<Rightarrow> u32" where
  "wave_delta shift one_byte temp1 =
     (let temp2 = drop_bit shift temp1;
          temp2 = (if one_byte AND 0x01 \<noteq> 0 then temp2 + drop_bit 0 temp1 else temp2);
          temp2 = (if one_byte AND 0x02 \<noteq> 0 then temp2 + drop_bit 1 temp1 else temp2);
          temp2 = (if one_byte AND 0x04 \<noteq> 0 then temp2 + drop_bit 2 temp1 else temp2);
          temp2 = (if one_byte AND 0x08 \<noteq> 0 then temp2 + drop_bit 3 temp1 else temp2);
          temp2 = (if one_byte AND 0x10 \<noteq> 0 then temp2 + drop_bit 4 temp1 else temp2)
      in if one_byte AND 0x20 \<noteq> 0 then temp2 + drop_bit 5 temp1 else temp2)"

definition wave_sample :: "nat \<Rightarrow> u8 \<Rightarrow> wave_dec \<Rightarrow> bool \<times> wave_dec" where
  "wave_sample shift one_byte st =
     (let step = dec_steps st ! dec_index st;
          temp2 = wave_delta shift one_byte (wave_step_sizes ! nat step);
          temp3 = word_of_int (dec_preds st ! dec_index st) :: u32;
          temp3 = (if one_byte AND 0x40 \<noteq> 0 then
                     let t = sint (temp3 - temp2)
                     in if t \<le> - 0x8000 then - 0x8000 else t
                   else
                     let t = sint (temp3 + temp2)
                     in if t \<ge> 0x7FFF then 0x7FFF else t);
          st = st\<lparr>dec_preds := (dec_preds st)[dec_index st := temp3]\<rparr>
      in if dec_room st < 2 then (False, st)
         else
           let st = wave_emit temp3 st;
               next = sint (word_of_int step + wave_step_adjustments ! unat (one_byte AND 0x1F))
           in (True, wave_set_step (if next < 0 then 0 else if next > 0x58 then 0x58 else next) st))"

fun wave_decode_loop :: "nat \<Rightarrow> int \<Rightarrow> u8 list \<Rightarrow> wave_dec \<Rightarrow> wave_dec" where
  "wave_decode_loop shift chans [] st = st"
| "wave_decode_loop shift chans (one_byte # rest) st =
     (let st = wave_flip chans st
      in if one_byte AND 0x80 \<noteq> 0 then wave_decode_loop shift chans rest (wave_control chans one_byte st)
         else case wave_sample shift one_byte st of
                (True, st) \<Rightarrow> wave_decode_loop shift chans rest st
              | (False, st) \<Rightarrow> st)"

fun wave_decode_seeds :: "nat \<Rightarrow> u8 list \<Rightarrow> wave_dec \<Rightarrow> bool \<times> u8 list \<times> wave_dec" where
  "wave_decode_seeds 0 rest st = (True, rest, st)"
| "wave_decode_seeds (Suc n) rest st =
     (let temp = sint (libmpq__load_le16 (Some rest));
          st = st\<lparr>dec_preds := dec_preds st @ [temp]\<rparr>
      in if dec_room st < 2 then (False, rest, st)
         else wave_decode_seeds n (drop 2 rest) (wave_emit temp st))"

definition libmpq__wave_decompress :: "int \<Rightarrow> u8 list \<Rightarrow> int \<Rightarrow> u8 list" where
  "libmpq__wave_decompress out_length in_buf chans =
     (if chans < 1 \<or> chans > 2 \<or> int (length in_buf) < 2 + chans * 2 then []
      else
        let shift = unat (in_buf ! 1)
        in if shift \<ge> 32 then []
           else
             case wave_decode_seeds (nat chans) (drop 2 in_buf)
                    \<lparr>dec_out = [], dec_room = out_length, dec_steps = [0x2C, 0x2C], dec_preds = [],
                     dec_index = nat (chans - 1)\<rparr> of
               (False, _, st) \<Rightarrow> dec_out st
             | (True, rest, st) \<Rightarrow> dec_out (wave_decode_loop shift chans rest st))"

subsection \<open>Bounds of the tables\<close>

lemma wave_step_sizes_length: "length wave_step_sizes = 89"
  by (simp add: wave_step_sizes_def)

lemma wave_step_adjustments_length: "length wave_step_adjustments = 32"
  by (simp add: wave_step_adjustments_def)

lemma wave_step_sizes_bounds: "list_all (\<lambda>w. 7 \<le> w \<and> w \<le> 0x7FFF) wave_step_sizes"
  by (simp add: wave_step_sizes_def)

lemma wave_step_adjustments_bounds:
  "list_all (\<lambda>w. - 1 \<le> sint w \<and> sint w \<le> 8) wave_step_adjustments"
  by (simp add: wave_step_adjustments_def)

definition step_ok :: "int \<Rightarrow> bool" where "step_ok i \<longleftrightarrow> 0 \<le> i \<and> i \<le> 0x58"
definition pcm_ok :: "int \<Rightarrow> bool" where "pcm_ok v \<longleftrightarrow> - 32768 \<le> v \<and> v \<le> 32767"

lemma wave_step_size:
  assumes "step_ok i"
  shows "7 \<le> uint (wave_step_sizes ! nat i)" "uint (wave_step_sizes ! nat i) \<le> 0x7FFF"
proof -
  have "nat i < length wave_step_sizes" using assms by (auto simp: step_ok_def wave_step_sizes_length)
  then have "7 \<le> wave_step_sizes ! nat i \<and> wave_step_sizes ! nat i \<le> 0x7FFF"
    using wave_step_sizes_bounds by (auto simp: list_all_length)
  then show "7 \<le> uint (wave_step_sizes ! nat i)" "uint (wave_step_sizes ! nat i) \<le> 0x7FFF"
    by (auto simp: word_le_def)
qed

lemma wave_step_adjustment:
  assumes "n < 32"
  shows "- 1 \<le> sint (wave_step_adjustments ! n)" "sint (wave_step_adjustments ! n) \<le> 8"
  using assms wave_step_adjustments_bounds by (auto simp: list_all_length wave_step_adjustments_length)

lemma int_and_1f_less: "(i :: int) AND 31 < 32"
  using take_bit_int_less_exp [of 5 i] by (simp add: take_bit_eq_mask mask_eq_exp_minus_1)

lemma unat_and_1f [simp]: "unat ((w :: u8) AND 0x1F) < 32" "unat ((v :: u32) AND 0x1F) < 32"
  using int_and_1f_less [of "uint w"] int_and_1f_less [of "uint v"]
  by (simp_all add: unat_eq_nat_uint uint_and nat_less_iff)

lemma uint_drop_bit: "uint (drop_bit n (w :: 'a::len word)) = uint w div 2 ^ n"
  by (subst unsigned_drop_bit_eq)
    (simp only: take_bit_int_eq_self [OF unsigned_greater_eq unsigned_less] drop_bit_eq_div)

lemma sint_word_of_int_u32: "- (2 ^ 31) \<le> i \<Longrightarrow> i < 2 ^ 31 \<Longrightarrow> sint (word_of_int i :: u32) = i"
  by (simp add: sint_sbintrunc' signed_take_bit_int_eq_self)

lemma sint_small: "uint (w :: u32) < 2 ^ 31 \<Longrightarrow> sint w = uint w"
  using sint_word_of_int_u32 [of "uint w"] order.trans [OF _ uint_ge_0 [of w]] by simp

lemma uint_word_of_int_u32: "0 \<le> i \<Longrightarrow> i < 2 ^ 32 \<Longrightarrow> uint (word_of_int i :: u32) = i"
  by (simp add: uint_word_of_int)


subsection \<open>What the quantizer computes\<close>

definition wave_delta_spec :: "nat \<Rightarrow> nat \<Rightarrow> (nat \<Rightarrow> bool) \<Rightarrow> int \<Rightarrow> int" where
  "wave_delta_spec k shift chosen step =
     step div 2 ^ shift + (\<Sum>n<k. if chosen n then step div 2 ^ n else 0)"

lemma wave_delta_spec_Suc:
  "wave_delta_spec (Suc k) shift chosen step =
     wave_delta_spec k shift chosen step + (if chosen k then step div 2 ^ k else 0)"
  by (simp add: wave_delta_spec_def)

lemma div_exp_le: "0 \<le> (x :: int) \<Longrightarrow> x div 2 ^ n \<le> x"
  using zdiv_mono2 [of x 1 "2 ^ n"] by simp

lemma wave_delta_spec_bounds:
  assumes "0 \<le> step" "step \<le> 0x7FFF"
  shows "0 \<le> wave_delta_spec k shift chosen step"
    "wave_delta_spec k shift chosen step \<le> (int k + 1) * 0x7FFF"
proof -
  have "0 \<le> step div 2 ^ n" "step div 2 ^ n \<le> 0x7FFF" for n
    using assms order.trans [OF div_exp_le [of step n]] by (auto simp: pos_imp_zdiv_nonneg_iff)
  note b = this
  show "0 \<le> wave_delta_spec k shift chosen step"
    using b by (auto simp: wave_delta_spec_def intro!: add_nonneg_nonneg sum_nonneg)
  have "(\<Sum>n<k. if chosen n then step div 2 ^ n else 0) \<le> (\<Sum>n<k. 0x7FFF)"
    using b by (intro sum_mono) auto
  then show "wave_delta_spec k shift chosen step \<le> (int k + 1) * 0x7FFF"
    using b(2) [of shift] by (simp add: wave_delta_spec_def)
qed

lemma uint_add_u32:
  "uint (a :: u32) + uint b < 2 ^ 32 \<Longrightarrow> uint (a + b) = uint a + uint b"
  by (simp add: uint_word_ariths)

lemma wave_delta_add:
  assumes "uint step \<le> 0x7FFF" "uint t = wave_delta_spec k shift chosen (uint step)" "k < 6"
  shows "uint (if chosen k then t + drop_bit k step else t :: u32) =
     wave_delta_spec (Suc k) shift chosen (uint step)"
proof -
  have "uint t + uint (drop_bit k step) < 2 ^ 32"
    using assms wave_delta_spec_bounds [of "uint step" k shift chosen]
      div_exp_le [of "uint step" k] by (auto simp: uint_drop_bit)
  from uint_add_u32 [OF this] assms(2) show ?thesis
    by (simp add: wave_delta_spec_Suc uint_drop_bit)
qed

lemma and_exp_bit: "(b :: u8) AND 2 ^ n \<noteq> 0 \<longleftrightarrow> bit b n"
  using and_exp_eq_0_iff_not_bit [of b n] by simp

lemmas and_mask_bits = and_exp_bit [of _ 0, simplified] and_exp_bit [of _ 1, simplified]
  and_exp_bit [of _ 2, simplified] and_exp_bit [of _ 3, simplified] and_exp_bit [of _ 4, simplified]
  and_exp_bit [of _ 5, simplified] and_exp_bit [of _ 6, simplified] and_exp_bit [of _ 7, simplified]

lemma wave_delta_eq:
  assumes "uint step \<le> 0x7FFF"
  shows "uint (wave_delta shift b step) = wave_delta_spec 6 shift (bit b) (uint step)"
proof -
  define t0 where "t0 = drop_bit shift step"
  define t1 where "t1 = (if bit b 0 then t0 + drop_bit 0 step else t0)"
  define t2 where "t2 = (if bit b 1 then t1 + drop_bit 1 step else t1)"
  define t3 where "t3 = (if bit b 2 then t2 + drop_bit 2 step else t2)"
  define t4 where "t4 = (if bit b 3 then t3 + drop_bit 3 step else t3)"
  define t5 where "t5 = (if bit b 4 then t4 + drop_bit 4 step else t4)"
  note add = wave_delta_add [OF assms, where chosen = "bit b" and shift = shift]
  have "uint t0 = wave_delta_spec 0 shift (bit b) (uint step)"
    by (simp add: t0_def wave_delta_spec_def uint_drop_bit)
  from add [OF this] have "uint t1 = wave_delta_spec 1 shift (bit b) (uint step)"
    by (simp add: t1_def)
  from add [OF this] have "uint t2 = wave_delta_spec 2 shift (bit b) (uint step)"
    by (simp add: t2_def numeral_2_eq_2)
  from add [OF this] have "uint t3 = wave_delta_spec 3 shift (bit b) (uint step)"
    by (simp add: t3_def)
  from add [OF this] have "uint t4 = wave_delta_spec 4 shift (bit b) (uint step)"
    by (simp add: t4_def)
  from add [OF this] have "uint t5 = wave_delta_spec 5 shift (bit b) (uint step)"
    by (simp add: t5_def)
  from add [OF this] have "uint (if bit b 5 then t5 + drop_bit 5 step else t5) =
      wave_delta_spec 6 shift (bit b) (uint step)" by simp
  moreover have "wave_delta shift b step = (if bit b 5 then t5 + drop_bit 5 step else t5)"
    by (simp only: wave_delta_def Let_def and_mask_bits t0_def t1_def t2_def t3_def t4_def t5_def
        One_nat_def)
  ultimately show ?thesis by simp
qed


text \<open>The loop over the six bits keeps the accumulated delta equal to the delta the decoder derives
  from the bits chosen so far, and touches no other bit of the code.\<close>

definition wave_quantize :: "u32 \<Rightarrow> u32 \<Rightarrow> nat \<Rightarrow> u32 \<Rightarrow> nat \<Rightarrow> u32 \<times> int" where
  "wave_quantize magnitude step shift code k =
     fold (wave_quantize_bit magnitude step) [0..<k] (code, sint (drop_bit shift step))"

lemma wave_quantize_Suc:
  "wave_quantize magnitude step shift code (Suc k) =
     wave_quantize_bit magnitude step k (wave_quantize magnitude step shift code k)"
  by (simp add: wave_quantize_def)

lemma sint_step:
  assumes "uint (step :: u32) \<le> 0x7FFF"
  shows "sint (drop_bit n step) = uint step div 2 ^ n"
  using assms div_exp_le [of "uint step" n] by (subst sint_small) (simp_all add: uint_drop_bit)

lemma wave_quantize_props:
  assumes "uint step \<le> 0x7FFF" "k \<le> 6" "wave_quantize magnitude step shift code k = (code', delta)"
    "\<And>n. n < 6 \<Longrightarrow> \<not> bit code n"
  shows "delta = wave_delta_spec k shift (bit code') (uint step) \<and>
     (\<forall>n. n \<ge> k \<longrightarrow> bit code' n = bit code n)"
  using assms(2,3)
proof (induction k arbitrary: code' delta)
  case 0
  then show ?case
    using assms(1) by (simp add: wave_quantize_def wave_delta_spec_def sint_step)
next
  case (Suc k)
  obtain c d where cd: "wave_quantize magnitude step shift code k = (c, d)" by fastforce
  with Suc have IH: "d = wave_delta_spec k shift (bit c) (uint step)"
    "\<And>n. n \<ge> k \<Longrightarrow> bit c n = bit code n" by auto
  have "code' = c \<and> delta = d \<or> code' = c OR push_bit k 1 \<and> delta = d + uint step div 2 ^ k"
    using Suc.prems cd assms(1)
    by (auto simp: wave_quantize_Suc wave_quantize_bit_def Let_def sint_step split: if_splits)
  then show ?case
  proof
    assume "code' = c \<and> delta = d"
    then show ?thesis
      using IH assms(4) [of k] Suc.prems(1) by (auto simp: wave_delta_spec_Suc)
  next
    assume new: "code' = c OR push_bit k 1 \<and> delta = d + uint step div 2 ^ k"
    have bits: "bit code' n \<longleftrightarrow> bit c n \<or> n = k" if "n < 32" for n
      using new that Suc.prems(1) by (auto simp: bit_simps)
    then have "wave_delta_spec k shift (bit code') (uint step) = d"
      using IH(1) Suc.prems(1) by (auto simp: wave_delta_spec_def intro!: sum.cong)
    moreover have "bit code' n = bit code n" if "n \<ge> Suc k" for n
      using new IH(2) [of n] that by (auto simp: bit_simps)
    ultimately show ?thesis
      using new bits [of k] Suc.prems(1) by (auto simp: wave_delta_spec_Suc)
  qed
qed

lemma sint_add_u32:
  assumes "- (2 ^ 31) \<le> i + sint (w :: u32)" "i + sint w < 2 ^ 31"
  shows "sint (word_of_int i + w) = i + sint w"
  using sint_word_of_int_u32 [OF assms] by (simp add: wi_hom_syms)

lemma sint_add_uint_u32:
  assumes "- (2 ^ 31) \<le> i + uint (w :: u32)" "i + uint w < 2 ^ 31"
  shows "sint (word_of_int i + w) = i + uint w"
  using sint_word_of_int_u32 [OF assms] by (simp add: wi_hom_syms)

lemma sint_diff_uint_u32:
  assumes "- (2 ^ 31) \<le> i - uint (w :: u32)" "i - uint w < 2 ^ 31"
  shows "sint (word_of_int i - w) = i - uint w"
  using sint_word_of_int_u32 [OF assms] by (simp add: wi_hom_syms)

definition wave_clamp_pcm :: "int \<Rightarrow> int" where
  "wave_clamp_pcm v = (if v > 32767 then 32767 else if v < - 32768 then - 32768 else v)"

definition wave_clamp_step :: "int \<Rightarrow> int" where
  "wave_clamp_step v = (if v < 0 then 0 else if v > 0x58 then 0x58 else v)"

lemma wave_clamp_ok [simp]: "pcm_ok (wave_clamp_pcm v)" "step_ok (wave_clamp_step v)"
  by (auto simp: pcm_ok_def step_ok_def wave_clamp_pcm_def wave_clamp_step_def)

text \<open>What a code byte does to a predictor and a step index, on both sides.\<close>

definition wave_apply :: "nat \<Rightarrow> u8 \<Rightarrow> int \<Rightarrow> int \<Rightarrow> int \<times> int" where
  "wave_apply shift b predictor step_index =
     (let delta = wave_delta_spec 6 shift (bit b) (uint (wave_step_sizes ! nat step_index))
      in (wave_clamp_pcm (if bit b 6 then predictor - delta else predictor + delta),
          wave_clamp_step (step_index + sint (wave_step_adjustments ! unat (b AND 0x1F)))))"

lemma wave_apply_ok:
  "wave_apply shift b p i = (p', i') \<Longrightarrow> pcm_ok p' \<and> step_ok i'"
  by (auto simp: wave_apply_def Let_def)

lemma wave_sample_apply:
  assumes "pcm_ok (dec_preds st ! dec_index st)" "step_ok (dec_steps st ! dec_index st)"
    "wave_apply shift b (dec_preds st ! dec_index st) (dec_steps st ! dec_index st) = (p', i')"
  shows "wave_sample shift b st =
     (let st = st\<lparr>dec_preds := (dec_preds st)[dec_index st := p']\<rparr>
      in if dec_room st < 2 then (False, st) else (True, wave_set_step i' (wave_emit p' st)))"
proof -
  let ?p = "dec_preds st ! dec_index st" and ?i = "dec_steps st ! dec_index st"
  let ?step = "wave_step_sizes ! nat ?i"
  let ?d = "wave_delta_spec 6 shift (bit b) (uint ?step)"
  note step = wave_step_size [OF assms(2)]
  have delta: "uint (wave_delta shift b ?step) = ?d" using step by (intro wave_delta_eq)
  have d: "0 \<le> ?d" "?d \<le> 7 * 0x7FFF"
    using wave_delta_spec_bounds [of "uint ?step" 6 shift "bit b"] step by auto
  have "sint (word_of_int ?p + wave_delta shift b ?step) = ?p + ?d"
    "sint (word_of_int ?p - wave_delta shift b ?step) = ?p - ?d"
    using assms(1) d
    by (auto simp: sint_add_uint_u32 sint_diff_uint_u32 delta pcm_ok_def)
  moreover have "sint (word_of_int ?i + wave_step_adjustments ! unat (b AND 0x1F)) =
     ?i + sint (wave_step_adjustments ! unat (b AND 0x1F))"
    using assms(2) wave_step_adjustment [of "unat (b AND 0x1F)"]
    by (intro sint_add_u32) (auto simp: step_ok_def)
  ultimately show ?thesis
    using assms d
    by (auto simp: wave_sample_def wave_apply_def Let_def and_mask_bits wave_clamp_pcm_def
        wave_clamp_step_def pcm_ok_def)
qed

lemma ucast_and_1f: "unat ((ucast (c :: u32) :: u8) AND 0x1F) = unat (c AND 0x1F)"
proof -
  have "(ucast (c AND 0x1F) :: u8) = ucast c AND 0x1F"
    by (rule bit_word_eqI) (auto simp: bit_simps)
  moreover have "unat (ucast (c AND 0x1F) :: u8) = unat (c AND 0x1F)"
    using unat_and_1f(2) [of c]
    by (simp add: unsigned_ucast_eq take_bit_nat_eq_self_iff del: unat_and_1f)
  ultimately show ?thesis by simp
qed

definition wave_sign_code :: "int \<Rightarrow> u32" where
  "wave_sign_code difference = (if difference < 0 then 0x40 else 0)"

definition wave_magnitude :: "int \<Rightarrow> u32" where
  "wave_magnitude difference =
     (if difference < 0 then word_of_int (- difference) else word_of_int difference)"

lemma bit_wave_sign_code: "bit (wave_sign_code difference) n \<longleftrightarrow> n = 6 \<and> difference < 0"
  using bit_exp_iff [where 'a = u32, of 6 n]
  by (auto simp: wave_sign_code_def dest: bit_imp_le_length)

lemma wave_encode_delta_quantize:
  assumes "step_ok i"
    "wave_quantize (wave_magnitude difference) (wave_step_sizes ! nat i) shift
       (wave_sign_code difference) 6 = (c, delta)"
  shows "wave_encode_delta difference p i shift =
     (ucast c, wave_clamp_pcm (if difference < 0 then p - delta else p + delta),
      wave_clamp_step (i + sint (wave_step_adjustments ! unat (c AND 0x1F))))"
  using assms(2)
  by (simp add: wave_encode_delta_def wave_quantize_def Let_def wave_clamp_pcm_def
      wave_clamp_step_def wave_magnitude_def wave_sign_code_def)

lemma wave_encode_delta_apply:
  assumes "step_ok i" "wave_encode_delta difference p i shift = (code, p', i')"
  shows "wave_apply shift code p i = (p', i') \<and> \<not> bit code 7 \<and> (bit code 6 \<longleftrightarrow> difference < 0)"
proof -
  let ?step = "wave_step_sizes ! nat i"
  obtain c delta where q: "wave_quantize (wave_magnitude difference) ?step shift
     (wave_sign_code difference) 6 = (c, delta)" by fastforce
  from wave_quantize_props [OF wave_step_size(2) [OF assms(1)] _ q]
  have delta: "delta = wave_delta_spec 6 shift (bit c) (uint ?step)"
    and high: "\<And>n. n \<ge> 6 \<Longrightarrow> bit c n \<longleftrightarrow> n = 6 \<and> difference < 0"
    by (auto simp: bit_wave_sign_code)
  have code: "code = ucast c" and rest: "p' = wave_clamp_pcm (if difference < 0 then p - delta else p + delta)"
    "i' = wave_clamp_step (i + sint (wave_step_adjustments ! unat (c AND 0x1F)))"
    using wave_encode_delta_quantize [OF assms(1) q, of p] assms(2) by auto
  have bits: "bit code n \<longleftrightarrow> bit c n" if "n < 8" for n
    using that by (simp add: code bit_simps)
  have "wave_delta_spec 6 shift (bit code) (uint ?step) = delta"
    unfolding delta wave_delta_spec_def using bits by (auto intro!: sum.cong)
  then show ?thesis
    using bits [of 6] bits [of 7] high [of 6] high [of 7] rest
    by (simp add: wave_apply_def Let_def code ucast_and_1f)
qed

subsection \<open>Quality of the approximation\<close>

lemma wave_quantize_bit_int:
  assumes "uint step \<le> 0x7FFF" "uint magnitude < 2 ^ 31" "0 \<le> d" "d < 2 ^ 30"
    "wave_quantize_bit magnitude step k (c, d) = (c', d')"
  shows "d' = (if uint magnitude \<ge> d + uint step div 2 ^ k then d + uint step div 2 ^ k else d)"
proof -
  have "uint (word_of_int (d + uint step div 2 ^ k) :: u32) = d + uint step div 2 ^ k"
    using assms(1,3,4) div_exp_le [of "uint step" k]
    by (intro uint_word_of_int_u32) (auto simp: pos_imp_zdiv_nonneg_iff intro!: add_nonneg_nonneg)
  then have "word_of_int (d + sint (drop_bit k step)) \<le> magnitude \<longleftrightarrow>
      d + uint step div 2 ^ k \<le> uint magnitude"
    by (simp only: word_le_def sint_step [OF assms(1)])
  then show ?thesis
    using assms(5) unfolding wave_quantize_bit_def Let_def split_conv
    by (simp only: sint_step [OF assms(1)] split: if_splits) simp_all
qed

lemma wave_residual:
  assumes "uint step \<le> 0x7FFF" "uint magnitude < 2 ^ 31" "uint magnitude \<le> 2 * uint step" "k < 6"
    "\<And>n. n < 6 \<Longrightarrow> \<not> bit code n"
    "wave_quantize magnitude step shift code (Suc k) = (code', delta)"
  shows "uint magnitude - delta \<le> uint step div 2 ^ k + int k \<and>
     delta - uint magnitude \<le> uint step div 2 ^ shift"
  using assms(4,6)
proof (induction k arbitrary: code' delta)
  case 0
  have "wave_quantize magnitude step shift code 0 = (code, uint step div 2 ^ shift)"
    using assms(1) by (simp add: wave_quantize_def sint_step)
  with 0 have "wave_quantize_bit magnitude step 0 (code, uint step div 2 ^ shift) = (code', delta)"
    by (simp add: wave_quantize_Suc)
  moreover have "0 \<le> uint step div 2 ^ shift" by (simp add: pos_imp_zdiv_nonneg_iff)
  ultimately show ?case
    using wave_quantize_bit_int [OF assms(1,2), of "uint step div 2 ^ shift" 0 code code' delta]
      div_exp_le [of "uint step" shift] assms(1,3) by (auto split: if_splits)
next
  case (Suc k)
  obtain c d where cd: "wave_quantize magnitude step shift code (Suc k) = (c, d)" by fastforce
  have d: "d = wave_delta_spec (Suc k) shift (bit c) (uint step)"
    using wave_quantize_props [OF assms(1) _ cd assms(5)] Suc.prems(1) by simp
  have range: "0 \<le> d" "d < 2 ^ 30"
    using wave_delta_spec_bounds [OF _ assms(1), of "Suc k" shift "bit c"] Suc.prems(1)
    unfolding d by auto
  have IH: "uint magnitude - d \<le> uint step div 2 ^ k + int k" "d - uint magnitude \<le> uint step div 2 ^ shift"
    using Suc.IH [OF _ cd] Suc.prems(1) by auto
  have half: "uint step div 2 ^ k \<le> 2 * (uint step div 2 ^ Suc k) + 1"
    by (simp add: zdiv_zmult2_eq mult.commute [of 2] minus_mod_eq_div_mult [symmetric])
  have delta: "delta = (if uint magnitude \<ge> d + uint step div 2 ^ Suc k
       then d + uint step div 2 ^ Suc k else d)"
    using wave_quantize_bit_int [OF assms(1,2) range, of "Suc k" c code' delta] Suc.prems(2) cd
    by (simp only: wave_quantize_Suc)
  show ?case
  proof (cases "uint magnitude \<ge> d + uint step div 2 ^ Suc k")
    case True
    moreover have "0 \<le> uint step div 2 ^ shift" by (simp add: pos_imp_zdiv_nonneg_iff)
    ultimately show ?thesis
      using delta IH(1) half by (simp del: power_Suc)
  next
    case False
    with delta IH show ?thesis by (simp del: power_Suc)
  qed
qed

lemma wave_encode_delta_residual:
  assumes "step_ok i" "\<bar>difference\<bar> \<le> 2 * uint (wave_step_sizes ! nat i)"
    "wave_encode_delta difference p i shift = (code, p', i')"
  obtains delta where "p' = wave_clamp_pcm (if difference < 0 then p - delta else p + delta)"
    "\<bar>difference\<bar> - delta \<le> uint (wave_step_sizes ! nat i) div 32 + 5"
    "delta - \<bar>difference\<bar> \<le> uint (wave_step_sizes ! nat i) div 2 ^ shift"
proof -
  let ?step = "wave_step_sizes ! nat i"
  obtain c delta where q: "wave_quantize (wave_magnitude difference) ?step shift
     (wave_sign_code difference) (Suc 5) = (c, delta)" by fastforce
  note step = wave_step_size(2) [OF assms(1)]
  have m: "uint (wave_magnitude difference) = \<bar>difference\<bar>"
    using assms(2) step uint_word_of_int_u32 [of difference] uint_word_of_int_u32 [of "- difference"]
    by (cases "difference < 0") (simp_all add: wave_magnitude_def)
  have "p' = wave_clamp_pcm (if difference < 0 then p - delta else p + delta)"
    using wave_encode_delta_quantize [OF assms(1), of difference shift c delta p] q assms(3) by simp
  moreover have "\<bar>difference\<bar> - delta \<le> uint ?step div 2 ^ 5 + 5"
    "delta - \<bar>difference\<bar> \<le> uint ?step div 2 ^ shift"
    using wave_residual [OF step, of "wave_magnitude difference" 5, OF _ _ _ _ q] assms(2) m step
    by (auto simp: bit_wave_sign_code)
  ultimately show thesis by (intro that [of delta]) auto
qed

lemma wave_clamp_error:
  assumes "pcm_ok sample" "\<bar>sample - p\<bar> - delta \<le> b" "delta - \<bar>sample - p\<bar> \<le> a"
  shows "\<bar>sample - wave_clamp_pcm (if sample - p < 0 then p - delta else p + delta)\<bar> \<le> max a b"
  using assms unfolding wave_clamp_pcm_def pcm_ok_def
  by (cases "sample - p < 0") (simp_all split: if_splits, linarith+)

text \<open>C27: away from slope overload (the sample is within twice the current step of the predictor) the
  quantizer's reconstructed value misses the sample by at most the larger of a sixteenth of the
  step and a thirty-second of it plus five, saturation at the 16-bit limits included.\<close>

theorem wave_quantization_error:
  assumes "step_ok i" "pcm_ok sample" "\<bar>sample - p\<bar> \<le> 2 * uint (wave_step_sizes ! nat i)"
    "wave_encode_delta (sample - p) p i 4 = (code, p', i')"
  shows "\<bar>sample - p'\<bar> \<le> max (uint (wave_step_sizes ! nat i) div 16)
     (uint (wave_step_sizes ! nat i) div 32 + 5)"
proof -
  obtain delta where delta: "p' = wave_clamp_pcm (if sample - p < 0 then p - delta else p + delta)"
    "\<bar>sample - p\<bar> - delta \<le> uint (wave_step_sizes ! nat i) div 32 + 5"
    "delta - \<bar>sample - p\<bar> \<le> uint (wave_step_sizes ! nat i) div 2 ^ 4"
    by (rule wave_encode_delta_residual [OF assms(1,3,4)])
  from wave_clamp_error [OF assms(2) delta(2,3)] show ?thesis by (simp add: delta(1))
qed

theorem wave_quantization_error_witness:
  "\<bar>80 - 80 :: int\<bar> \<le> max (uint (wave_step_sizes ! nat 5) div 16) (uint (wave_step_sizes ! nat 5) div 32 + 5)"
proof -
  have "step_ok 5" "pcm_ok 80" "\<bar>80 - 70\<bar> \<le> 2 * uint (wave_step_sizes ! nat 5)"
    by code_simp+
  moreover have "wave_encode_delta (80 - 70) 70 5 4 = (62, 80, 4)" by code_simp
  ultimately show ?thesis using wave_quantization_error [of 5 80 70 62 80 4] by simp
qed

subsection \<open>The decoder's invariant\<close>

definition wave_dec_ok :: "int \<Rightarrow> wave_dec \<Rightarrow> bool" where
  "wave_dec_ok chans st \<longleftrightarrow>
     (chans = 1 \<or> chans = 2) \<and> dec_index st < nat chans \<and>
     length (dec_steps st) = 2 \<and> list_all step_ok (dec_steps st) \<and>
     length (dec_preds st) = nat chans \<and> list_all pcm_ok (dec_preds st)"

lemma wave_dec_ok_active:
  assumes "wave_dec_ok chans st"
  shows "step_ok (dec_steps st ! dec_index st)" "pcm_ok (dec_preds st ! dec_index st)"
  using assms by (auto simp: wave_dec_ok_def list_all_length)

lemma list_all_update: "list_all P xs \<Longrightarrow> P v \<Longrightarrow> list_all P (xs[i := v])"
  by (auto simp: list_all_iff dest!: set_update_subset_insert [THEN subsetD])

lemma wave_dec_ok_flip: "wave_dec_ok chans st \<Longrightarrow> wave_dec_ok chans (wave_flip chans st)"
  by (auto simp: wave_dec_ok_def wave_flip_def)

lemma wave_dec_ok_emit: "wave_dec_ok chans (wave_emit v st) \<longleftrightarrow> wave_dec_ok chans st"
  by (simp add: wave_dec_ok_def wave_emit_def)

lemma wave_dec_ok_set_step:
  "wave_dec_ok chans st \<Longrightarrow> step_ok v \<Longrightarrow> wave_dec_ok chans (wave_set_step v st)"
  by (simp add: wave_dec_ok_def wave_set_step_def list_all_update)

lemma wave_dec_ok_set_pred:
  "wave_dec_ok chans st \<Longrightarrow> pcm_ok v \<Longrightarrow> wave_dec_ok chans (st\<lparr>dec_preds := (dec_preds st)[i := v]\<rparr>)"
  by (simp add: wave_dec_ok_def list_all_update)

lemmas wave_dec_ok_rules =
  wave_dec_ok_flip wave_dec_ok_emit wave_dec_ok_set_step wave_dec_ok_set_pred

lemma wave_control_ok:
  assumes "wave_dec_ok chans st"
  shows "wave_dec_ok chans (wave_control chans b st)"
  using assms wave_dec_ok_active(1) [OF assms]
  by (auto simp: wave_control_def Let_def step_ok_def intro!: wave_dec_ok_rules(1,3)
      simp: wave_dec_ok_emit)

lemma wave_sample_ok:
  assumes "wave_dec_ok chans st"
  shows "wave_dec_ok chans (snd (wave_sample shift b st))"
proof -
  obtain p' i' where ap: "wave_apply shift b (dec_preds st ! dec_index st) (dec_steps st ! dec_index st) = (p', i')"
    by fastforce
  from wave_sample_apply [OF wave_dec_ok_active(2,1) [OF assms] ap] wave_apply_ok [OF ap] assms
  show ?thesis by (simp add: Let_def wave_dec_ok_rules)
qed

text \<open>Bytes written plus room left is constant, and the room never becomes negative.\<close>

definition wave_budget :: "int \<Rightarrow> wave_dec \<Rightarrow> bool" where
  "wave_budget cap st \<longleftrightarrow>
     int (length (dec_out st)) + dec_room st = cap \<and> 0 \<le> dec_room st \<and> even (length (dec_out st))"

lemma wave_budget_simps [simp]:
  "wave_budget cap (wave_flip chans st) = wave_budget cap st"
  "wave_budget cap (wave_set_step v st) = wave_budget cap st"
  "wave_budget cap (st\<lparr>dec_preds := ps\<rparr>) = wave_budget cap st"
  by (simp_all add: wave_budget_def wave_flip_def wave_set_step_def)

lemma wave_budget_emit:
  "wave_budget cap st \<Longrightarrow> \<not> dec_room st < 2 \<Longrightarrow> wave_budget cap (wave_emit v st)"
  by (simp add: wave_budget_def wave_emit_def)

lemma wave_room_simps [simp]:
  "dec_room (wave_flip chans st) = dec_room st" "dec_room (wave_set_step v st) = dec_room st"
  by (simp_all add: wave_flip_def wave_set_step_def)

lemma wave_control_budget:
  "wave_budget cap st \<Longrightarrow> wave_budget cap (wave_control chans b st)"
  by (auto simp: wave_control_def Let_def wave_budget_emit)

lemma wave_sample_budget:
  "wave_budget cap st \<Longrightarrow> wave_budget cap (snd (wave_sample shift b st))"
  by (simp add: wave_sample_def Let_def wave_budget_emit)

lemma wave_decode_loop_invariant:
  assumes "wave_dec_ok chans st" "wave_budget cap st"
  shows "wave_dec_ok chans (wave_decode_loop shift chans bs st) \<and>
     wave_budget cap (wave_decode_loop shift chans bs st)"
  using assms
proof (induction shift chans bs st rule: wave_decode_loop.induct)
  case (2 shift chans b bs st)
  note flip = wave_dec_ok_flip [OF 2(3)]
  show ?case
    using 2 flip wave_control_ok [OF flip, of b] wave_sample_ok [OF flip, of shift b]
      wave_control_budget [of cap "wave_flip chans st" chans b]
      wave_sample_budget [of cap "wave_flip chans st" shift b]
    by (auto simp: Let_def split: prod.splits bool.splits)
qed simp

subsection \<open>The decoder follows the encoder\<close>

definition wave_mirror :: "nat \<Rightarrow> wave_enc \<Rightarrow> wave_dec \<Rightarrow> bool" where
  "wave_mirror c e st \<longleftrightarrow>
     wave_dec_ok (int c) st \<and> length (enc_preds e) = 2 \<and>
     dec_steps st = enc_steps e \<and> dec_preds st = take c (enc_preds e)"

definition le16_of :: "int \<Rightarrow> u8 list" where "le16_of v = le16_bytes (word_of_int v)"

lemma wave_sample_mirror:
  assumes "wave_mirror c e st" "dec_index st = ch" "\<not> dec_room st < 2"
    "e' = wave_encode_sample input c i ch e"
  shows "\<exists>code st'. enc_out e' = enc_out e @ [code] \<and> \<not> bit code 7 \<and>
     wave_sample 4 code st = (True, st') \<and> wave_mirror c e' st' \<and> dec_index st' = ch \<and>
     dec_room st' = dec_room st - 2 \<and> dec_out st' = dec_out st @ le16_of (enc_preds e' ! ch) \<and>
     enc_preds e' = (enc_preds e)[ch := enc_preds e' ! ch]"
proof -
  let ?p = "enc_preds e ! ch" and ?i = "enc_steps e ! ch"
  have ok: "wave_dec_ok (int c) st" and lens: "ch < c" "ch < 2" "length (enc_preds e) = 2"
    and eqs: "dec_preds st = take c (enc_preds e)" "dec_steps st = enc_steps e"
    using assms(1,2) by (auto simp: wave_mirror_def wave_dec_ok_def)
  have active: "dec_preds st ! dec_index st = ?p" "dec_steps st ! dec_index st = ?i"
    using eqs lens assms(2) by auto
  obtain code p' i' where enc: "wave_encode_delta (pcm_sample input (i * c + ch) - ?p) ?p ?i 4 = (code, p', i')"
    by (metis prod_cases3)
  from wave_dec_ok_active [OF ok] active have "step_ok ?i" "pcm_ok ?p" by simp_all
  with wave_encode_delta_apply [OF _ enc] have ap: "wave_apply 4 code ?p ?i = (p', i')" "\<not> bit code 7"
    by auto
  from assms(4) enc have e': "e' = \<lparr>enc_out = enc_out e @ [code], enc_preds = (enc_preds e)[ch := p'],
     enc_steps = (enc_steps e)[ch := i']\<rparr>"
    by (simp add: wave_encode_sample_def)
  let ?st = "wave_set_step i' (wave_emit p' (st\<lparr>dec_preds := (dec_preds st)[ch := p']\<rparr>))"
  have "wave_sample 4 code st = (True, ?st)"
    using wave_sample_apply [OF wave_dec_ok_active(2,1) [OF ok], of 4 code p' i'] ap(1) active assms(2,3)
    by (simp add: Let_def)
  moreover have "wave_dec_ok (int c) ?st"
    using ok wave_apply_ok [OF ap(1)] by (simp add: wave_dec_ok_rules)
  ultimately show ?thesis
    using ap(2) lens eqs assms(2)
    by (auto simp: e' wave_mirror_def wave_set_step_def wave_emit_def le16_of_def take_update_swap)
qed

lemma wave_flip_simps [simp]:
  "dec_out (wave_flip c st) = dec_out st" "dec_steps (wave_flip c st) = dec_steps st"
  "dec_preds (wave_flip c st) = dec_preds st"
  by (simp_all add: wave_flip_def)

lemma wave_mirror_flip: "wave_mirror c e st \<Longrightarrow> wave_mirror c e (wave_flip (int c) st)"
  by (auto simp: wave_mirror_def wave_dec_ok_flip)

lemma wave_decode_loop_sample:
  assumes "\<not> bit code 7" "wave_sample shift code (wave_flip c st) = (True, st')"
  shows "wave_decode_loop shift c (code # rest) st = wave_decode_loop shift c rest st'"
  using assms by (simp add: Let_def and_mask_bits(8))

lemma wave_frame_mirror:
  assumes "wave_mirror c e st" "dec_index st = c - 1" "2 * int c \<le> dec_room st"
    "e' = wave_encode_frame input c i e"
  shows "\<exists>codes st'. enc_out e' = enc_out e @ codes \<and> length codes = c \<and>
     (\<forall>rest. wave_decode_loop 4 (int c) (codes @ rest) st = wave_decode_loop 4 (int c) rest st') \<and>
     wave_mirror c e' st' \<and> dec_index st' = c - 1 \<and> dec_room st' = dec_room st - 2 * int c \<and>
     dec_out st' = dec_out st @ concat (map le16_of (take c (enc_preds e')))"
proof -
  let ?st1 = "wave_flip (int c) st" and ?e1 = "wave_encode_sample input c i 0 e"
  have c: "c = 1 \<or> c = 2" and len: "length (enc_preds e) = 2"
    using assms(1) by (auto simp: wave_mirror_def wave_dec_ok_def)
  then have "dec_index ?st1 = 0" using assms(2) by (auto simp: wave_flip_def)
  from wave_sample_mirror [OF wave_mirror_flip [OF assms(1)] this _ refl, of input i] assms(3) c
  obtain code1 st2 where 1: "enc_out ?e1 = enc_out e @ [code1]" "\<not> bit code1 7"
    "wave_sample 4 code1 ?st1 = (True, st2)" "wave_mirror c ?e1 st2" "dec_index st2 = 0"
    "dec_room st2 = dec_room st - 2" "dec_out st2 = dec_out st @ le16_of (enc_preds ?e1 ! 0)"
    "enc_preds ?e1 = (enc_preds e)[0 := enc_preds ?e1 ! 0]"
    by auto
  from c show ?thesis
  proof
    assume [simp]: "c = 1"
    have "e' = ?e1" using assms(4) by (simp add: wave_encode_frame_def)
    moreover have "take 1 (enc_preds ?e1) = [enc_preds ?e1 ! 0]"
      using arg_cong [OF 1(8), of length] len by (cases "enc_preds ?e1") simp_all
    ultimately show ?thesis
      using 1 wave_decode_loop_sample [of code1 4 "int c" st st2] by (intro exI [of _ "[code1]"]) auto
  next
    assume [simp]: "c = 2"
    let ?st3 = "wave_flip (int c) st2" and ?e2 = "wave_encode_sample input c i 1 ?e1"
    have e': "e' = ?e2" using assms(4) by (simp add: wave_encode_frame_def numeral_2_eq_2)
    have "dec_index ?st3 = 1" using 1(5) by (simp add: wave_flip_def)
    from wave_sample_mirror [OF wave_mirror_flip [OF 1(4)] this _ refl, of input i] 1(6) assms(3)
    obtain code2 st4 where 2: "enc_out ?e2 = enc_out ?e1 @ [code2]" "\<not> bit code2 7"
      "wave_sample 4 code2 ?st3 = (True, st4)" "wave_mirror c ?e2 st4" "dec_index st4 = 1"
      "dec_room st4 = dec_room st2 - 2" "dec_out st4 = dec_out st2 @ le16_of (enc_preds ?e2 ! 1)"
      "enc_preds ?e2 = (enc_preds ?e1)[1 := enc_preds ?e2 ! 1]"
      by auto
    have "length (enc_preds ?e1) = 2" using 1(8) len by (metis length_list_update)
    then have "take 2 (enc_preds ?e2) = [enc_preds ?e1 ! 0, enc_preds ?e2 ! 1]"
      by (subst 2(8)) (auto simp: numeral_2_eq_2 length_Suc_conv)
    with 1 2 e' show ?thesis
      using wave_decode_loop_sample [of code1 4 "int c" st st2]
        wave_decode_loop_sample [of code2 4 "int c" st2 st4]
      by (intro exI [of _ "[code1, code2]"]) auto
  qed
qed

text \<open>The encoder's state after the seed samples and \<open>n\<close> further frames, and the samples it predicts.\<close>

definition wave_encode_upto :: "u8 list \<Rightarrow> nat \<Rightarrow> nat \<Rightarrow> wave_enc" where
  "wave_encode_upto input c n = fold (wave_encode_frame input c) [1..<Suc n] (wave_encode_start input c)"

definition wave_reconstruction :: "u8 list \<Rightarrow> nat \<Rightarrow> nat \<Rightarrow> u8 list" where
  "wave_reconstruction input c n =
     concat (map (\<lambda>k. concat (map le16_of (take c (enc_preds (wave_encode_upto input c k))))) [0..<n])"

lemma wave_encode_upto_0: "wave_encode_upto input c 0 = wave_encode_start input c"
  by (simp add: wave_encode_upto_def)

lemma wave_encode_upto_Suc:
  "wave_encode_upto input c (Suc n) = wave_encode_frame input c (Suc n) (wave_encode_upto input c n)"
  by (simp add: wave_encode_upto_def)

lemma wave_frames_mirror:
  assumes "wave_mirror c (wave_encode_start input c) st" "dec_index st = c - 1"
    "2 * int c * int n \<le> dec_room st" "dec_out st = wave_reconstruction input c 1"
  shows "\<exists>codes st'. enc_out (wave_encode_upto input c n) = enc_out (wave_encode_start input c) @ codes \<and>
     length codes = c * n \<and>
     (\<forall>rest. wave_decode_loop 4 (int c) (codes @ rest) st = wave_decode_loop 4 (int c) rest st') \<and>
     wave_mirror c (wave_encode_upto input c n) st' \<and> dec_index st' = c - 1 \<and>
     dec_room st' = dec_room st - 2 * int c * int n \<and>
     dec_out st' = wave_reconstruction input c (Suc n)"
  using assms(3)
proof (induction n)
  case 0
  then show ?case
    using assms by (intro exI [of _ "[]"] exI [of _ st]) (simp add: wave_encode_upto_0)
next
  case (Suc n)
  then obtain codes st' where IH:
    "enc_out (wave_encode_upto input c n) = enc_out (wave_encode_start input c) @ codes"
    "length codes = c * n"
    "\<And>rest. wave_decode_loop 4 (int c) (codes @ rest) st = wave_decode_loop 4 (int c) rest st'"
    "wave_mirror c (wave_encode_upto input c n) st'" "dec_index st' = c - 1"
    "dec_room st' = dec_room st - 2 * int c * int n" "dec_out st' = wave_reconstruction input c (Suc n)"
    by (auto simp: algebra_simps)
  have "2 * int c \<le> dec_room st'" using Suc.prems IH(6) by (simp add: algebra_simps)
  from wave_frame_mirror [OF IH(4,5) this wave_encode_upto_Suc] obtain codes2 st2 where
    "enc_out (wave_encode_upto input c (Suc n)) = enc_out (wave_encode_upto input c n) @ codes2"
    "length codes2 = c"
    "\<And>rest. wave_decode_loop 4 (int c) (codes2 @ rest) st' = wave_decode_loop 4 (int c) rest st2"
    "wave_mirror c (wave_encode_upto input c (Suc n)) st2" "dec_index st2 = c - 1"
    "dec_room st2 = dec_room st' - 2 * int c"
    "dec_out st2 = dec_out st' @
       concat (map le16_of (take c (enc_preds (wave_encode_upto input c (Suc n)))))"
    by blast
  with IH show ?case
    by (intro exI [of _ "codes @ codes2"] exI [of _ st2])
      (simp add: wave_reconstruction_def algebra_simps)
qed

lemma le16_of_sample:
  assumes "2 * k + 2 \<le> length input"
  shows "le16_of (pcm_sample input k) = take 2 (drop (2 * k) input)"
  using assms le16.bytes_load [of "drop (2 * k) input"]
  by (simp add: le16_of_def pcm_sample_def mult.commute)

lemma load_le16_of:
  "sint (libmpq__load_le16 (Some (le16_of (pcm_sample input k) @ rest))) = pcm_sample input k"
  by (simp add: le16_of_def le16.load_bytes pcm_sample_def)

lemma length_le16_of [simp]: "length (le16_of v) = 2"
  by (simp add: le16_of_def)

lemma pcm_ok_sample: "pcm_ok (pcm_sample input k)"
  using sint_greater_eq [of "libmpq__load_le16 (Some (drop (k * 2) input))"]
    sint_less [of "libmpq__load_le16 (Some (drop (k * 2) input))"]
  by (simp add: pcm_ok_def pcm_sample_def)

lemma wave_encode_start_1:
  "wave_encode_start input (Suc 0) = \<lparr>enc_out = [0, 4] @ le16_of (pcm_sample input 0),
     enc_preds = [pcm_sample input 0, 0], enc_steps = [0x2C, 0x2C]\<rparr>"
  by (simp add: wave_encode_start_def wave_encode_seed_def le16_of_def)

lemma wave_encode_start_2:
  "wave_encode_start input 2 =
     \<lparr>enc_out = [0, 4] @ le16_of (pcm_sample input 0) @ le16_of (pcm_sample input 1),
      enc_preds = [pcm_sample input 0, pcm_sample input 1], enc_steps = [0x2C, 0x2C]\<rparr>"
  by (simp add: wave_encode_start_def wave_encode_seed_def le16_of_def numeral_2_eq_2)

lemma wave_seeds_mirror:
  assumes "c = 1 \<or> c = 2" "2 * int c \<le> room"
  shows "\<exists>st. (\<forall>codes. wave_decode_seeds c (drop 2 (enc_out (wave_encode_start input c) @ codes))
       \<lparr>dec_out = [], dec_room = room, dec_steps = [0x2C, 0x2C], dec_preds = [],
        dec_index = nat (int c - 1)\<rparr> = (True, codes, st)) \<and>
     wave_mirror c (wave_encode_start input c) st \<and> dec_index st = c - 1 \<and>
     dec_room st = room - 2 * int c \<and> dec_out st = wave_reconstruction input c 1"
  using assms
  by (auto simp: wave_encode_start_1 wave_encode_start_2 [unfolded numeral_2_eq_2] load_le16_of
      Let_def wave_emit_def
      le16_of_def [symmetric] wave_mirror_def wave_dec_ok_def step_ok_def pcm_ok_sample
      wave_reconstruction_def wave_encode_upto_0 numeral_2_eq_2)

lemma wave_reconstruction_length:
  assumes "\<And>k. k < n \<Longrightarrow> length (take c (enc_preds (wave_encode_upto input c k))) = c"
  shows "length (wave_reconstruction input c n) = 2 * c * n"
proof -
  have "length (concat (map le16_of xs)) = 2 * length xs" for xs
    by (induction xs) auto
  with assms show ?thesis
    by (induction n) (auto simp: wave_reconstruction_def)
qed

lemma wave_compress_InrD:
  assumes "libmpq__wave_compress malloc_ok (Some input) c = Inr enc"
  obtains n where "c = 1 \<or> c = 2" "length input = 2 * c * Suc n"
    "enc = enc_out (wave_encode_upto input c n)" "malloc_ok (2 + c * 2 + Suc n * c)"
proof -
  let ?n = "length input div (c * 2)"
  from assms have c: "c = 1 \<or> c = 2" and len: "c * 2 \<le> length input" "c * 2 dvd length input"
    and ok: "malloc_ok (2 + c * 2 + ?n * c)"
    and enc: "enc = enc_out (fold (wave_encode_frame input c) [1..<?n] (wave_encode_start input c))"
    by (auto simp: libmpq__wave_compress_def Let_def dvd_eq_mod_eq_0 split: if_splits)
  from c len(1) have "0 < ?n" by (auto simp: div_greater_zero_iff)
  then obtain n where n: "?n = Suc n" using gr0_implies_Suc by blast
  have "length input = 2 * c * Suc n" using dvd_mult_div_cancel [OF len(2)] by (simp add: n algebra_simps)
  from that [OF c this] ok enc show thesis unfolding n wave_encode_upto_def by blast
qed

lemma length_wave_encode_start:
  "c = 1 \<or> c = 2 \<Longrightarrow> length (enc_out (wave_encode_start input c)) = 2 + 2 * c"
  by (auto simp: wave_encode_start_1 wave_encode_start_2)

lemma wave_header: "c = 1 \<or> c = 2 \<Longrightarrow> enc_out (wave_encode_start input c) ! 1 = 4"
  by (auto simp: wave_encode_start_1 wave_encode_start_2)

lemma wave_decompress_encoded:
  assumes "c = 1 \<or> c = 2" "2 * int c * int (Suc n) \<le> out_length"
  shows "length (enc_out (wave_encode_upto input c n)) = 2 + 2 * c + c * n \<and>
     libmpq__wave_decompress out_length (enc_out (wave_encode_upto input c n)) (int c) =
       wave_reconstruction input c (Suc n) \<and>
     length (enc_preds (wave_encode_upto input c n)) = 2"
proof -
  let ?start = "wave_encode_start input c"
  let ?init = "\<lparr>dec_out = [], dec_room = out_length, dec_steps = [0x2C, 0x2C], dec_preds = [],
        dec_index = nat (int c - 1)\<rparr>"
  have room: "2 * int c \<le> out_length" using assms by (auto simp: algebra_simps)
  obtain st where seeds:
      "\<And>codes. wave_decode_seeds c (drop 2 (enc_out ?start @ codes)) ?init = (True, codes, st)"
    and st: "wave_mirror c ?start st" "dec_index st = c - 1" "dec_room st = out_length - 2 * int c"
      "dec_out st = wave_reconstruction input c 1"
    using wave_seeds_mirror [OF assms(1) room] by blast
  from st(3) assms(2) have "2 * int c * int n \<le> dec_room st" by (simp add: algebra_simps)
  from wave_frames_mirror [OF st(1,2) this st(4)] obtain codes st' where
    run: "enc_out (wave_encode_upto input c n) = enc_out ?start @ codes" "length codes = c * n"
    "wave_decode_loop 4 (int c) codes st = st'" "dec_out st' = wave_reconstruction input c (Suc n)"
    "wave_mirror c (wave_encode_upto input c n) st'"
    by (metis append_Nil2 wave_decode_loop.simps(1))
  have "(enc_out ?start @ codes) ! 1 = 4"
    using assms(1) wave_header length_wave_encode_start by (simp add: nth_append)
  with run seeds [of codes] assms(1) show ?thesis
    by (auto simp: libmpq__wave_decompress_def length_wave_encode_start wave_mirror_def Let_def)
qed

lemma wave_first_frame:
  assumes "c = 1 \<or> c = 2" "2 * c \<le> length input"
  shows "take (2 * c) (wave_reconstruction input c (Suc n)) = take (2 * c) input"
proof -
  have "wave_reconstruction input c (Suc n) = concat (map le16_of (take c (enc_preds (wave_encode_start input c)))) @
      concat (map (\<lambda>k. concat (map le16_of (take c (enc_preds (wave_encode_upto input c k))))) [1..<Suc n])"
    by (simp add: wave_reconstruction_def upt_conv_Cons wave_encode_upto_0 del: upt_Suc)
  moreover have "concat (map le16_of (take c (enc_preds (wave_encode_start input c)))) = take (2 * c) input"
    using assms take_add [of 2 2 input]
    by (auto simp: wave_encode_start_1 wave_encode_start_2 le16_of_sample)
  ultimately show ?thesis using assms by simp
qed

text \<open>C26: the ADPCM decoder reconstructs exactly the predictor track of the encoder: on what
  \<open>libmpq__wave_compress\<close> emits, and with room for the samples, it produces as many bytes as were
  encoded, sample for sample the encoder's own predictor values, and the first frame unchanged.\<close>

theorem wave_decoder_follows_encoder:
  assumes "libmpq__wave_compress malloc_ok (Some input) c = Inr enc"
    "int (length input) \<le> out_length"
  shows "libmpq__wave_decompress out_length enc (int c) =
       wave_reconstruction input c (length input div (2 * c)) \<and>
     length (libmpq__wave_decompress out_length enc (int c)) = length input \<and>
     take (2 * c) (libmpq__wave_decompress out_length enc (int c)) = take (2 * c) input"
proof -
  obtain n where n: "c = 1 \<or> c = 2" "length input = 2 * c * Suc n"
    "enc = enc_out (wave_encode_upto input c n)"
    by (rule wave_compress_InrD [OF assms(1)])
  then have "libmpq__wave_decompress out_length enc (int c) = wave_reconstruction input c (Suc n)"
    using wave_decompress_encoded [OF n(1), of n out_length input] assms(2)
    by (simp add: algebra_simps)
  moreover have "length (enc_preds (wave_encode_upto input c k)) = 2" for k
    using wave_decompress_encoded [OF n(1), of k "2 * int c * int (Suc k)" input] by simp
  then have "length (wave_reconstruction input c (Suc n)) = 2 * c * Suc n"
    using n(1) by (intro wave_reconstruction_length) auto
  moreover have "length input div (2 * c) = Suc n" using n(1,2) by auto
  ultimately show ?thesis
    using wave_first_frame [OF n(1), of input n] n(2) by simp
qed

theorem wave_decoder_follows_encoder_witness:
  "length (libmpq__wave_decompress 8 [0, 4, 16, 0, 0, 0, 12] 1) = 8"
proof -
  have "libmpq__wave_compress (\<lambda>_. True) (Some [16, 0, 32, 0, 80, 0, 0, 1]) 1 =
      Inr [0, 4, 16, 0, 0, 0, 12]"
    by code_simp
  from wave_decoder_follows_encoder [OF this, of 8, THEN conjunct2, THEN conjunct1]
  show ?thesis by simp
qed

text \<open>what the ADPCM encoder writes fits the buffer it allocates: two header bytes, one seed
  sample per channel, and one byte for every further sample.\<close>

theorem wave_compress_size:
  assumes "libmpq__wave_compress malloc_ok (Some input) c = Inr enc"
  shows "malloc_ok (2 + c * 2 + length input div (c * 2) * c) \<and>
     length enc = 2 + c * 2 + (length input div (c * 2) - 1) * c"
proof -
  obtain n where n: "c = 1 \<or> c = 2" "length input = 2 * c * Suc n"
    "enc = enc_out (wave_encode_upto input c n)" "malloc_ok (2 + c * 2 + Suc n * c)"
    by (rule wave_compress_InrD [OF assms])
  have "length input div (c * 2) = Suc n" using n(1,2) by auto
  with n wave_decompress_encoded [OF n(1), of n "2 * int c * int (Suc n)" input]
  show ?thesis by (simp add: algebra_simps)
qed

theorem wave_compress_size_witness:
  "length [0, 4, 16, 0, 0, 0, 12 :: u8] = 2 + 1 * 2 + (8 div (1 * 2) - 1) * 1"
proof -
  have "libmpq__wave_compress (\<lambda>_. True) (Some [16, 0, 32, 0, 80, 0, 0, 1]) 1 =
      Inr [0, 4, 16, 0, 0, 0, 12]"
    by code_simp
  from wave_compress_size [OF this] show ?thesis by simp
qed

lemma wave_decode_seeds_budget:
  assumes "wave_budget cap st"
  shows "wave_budget cap (snd (snd (wave_decode_seeds n rest st)))"
  using assms by (induction n arbitrary: rest st) (simp_all add: Let_def wave_budget_emit)

lemma wave_decode_seeds_ok:
  assumes "wave_decode_seeds n rest st = (True, rest', st')"
    "list_all pcm_ok (dec_preds st)"
  shows "list_all pcm_ok (dec_preds st') \<and> length (dec_preds st') = length (dec_preds st) + n \<and>
     dec_steps st' = dec_steps st \<and> dec_index st' = dec_index st"
  using assms pcm_ok_sample [of _ 0]
  by (induction n arbitrary: rest st)
    (auto simp: Let_def wave_emit_def pcm_sample_def split: if_splits)

text \<open>on arbitrary input, with any channel count and any declared room, the ADPCM decoder writes
  a whole number of samples and never more than the room it was given.\<close>

theorem wave_decompress_bounded:
  "even (length (libmpq__wave_decompress out_length input c)) \<and>
   int (length (libmpq__wave_decompress out_length input c)) \<le> max 0 out_length"
proof (cases "(c = 1 \<or> c = 2) \<and> int (length input) \<ge> 2 + c * 2 \<and> unat (input ! 1) < 32")
  case True
  let ?init = "\<lparr>dec_out = [], dec_room = out_length, dec_steps = [0x2C, 0x2C], dec_preds = [],
      dec_index = nat (c - 1)\<rparr>"
  obtain b rest st where seeds: "wave_decode_seeds (nat c) (drop 2 input) ?init = (b, rest, st)"
    by (metis prod_cases3)
  have result: "libmpq__wave_decompress out_length input c =
     (if b then dec_out (wave_decode_loop (unat (input ! 1)) c rest st) else dec_out st)"
    using True by (auto simp: libmpq__wave_decompress_def seeds split: bool.splits)
  show ?thesis
  proof (cases "0 \<le> out_length")
    case nonneg: True
    then have "wave_budget out_length ?init" by (simp add: wave_budget_def)
    from wave_decode_seeds_budget [OF this, of "nat c" "drop 2 input"]
    have budget: "wave_budget out_length st" by (simp add: seeds)
    moreover have "wave_dec_ok c st" if b
      using wave_decode_seeds_ok [of "nat c" "drop 2 input" ?init rest st] seeds that True
      by (auto simp: wave_dec_ok_def step_ok_def)
    ultimately show ?thesis
      using wave_decode_loop_invariant [of c st out_length "unat (input ! 1)" rest] nonneg
      by (auto simp: result wave_budget_def)
  next
    case False
    then have "\<not> b" "dec_out st = []" using seeds True by (auto simp: numeral_2_eq_2 Let_def)
    then show ?thesis by (simp add: result)
  qed
next
  case False
  then have "libmpq__wave_decompress out_length input c = []"
    by (auto simp: libmpq__wave_decompress_def Let_def)
  then show ?thesis by simp
qed

subsection \<open>The RIFF probes\<close>

text \<open>The chunks of a RIFF file: the first starts behind the form type, and each size, padded to even,
  leads to the next.\<close>

inductive riff_chunk :: "u8 list \<Rightarrow> nat \<Rightarrow> u32 \<Rightarrow> bool" for data where
  first: "load32_at data 16 = Some n \<Longrightarrow> riff_chunk data 12 n"
| follows: "riff_chunk data p m \<Longrightarrow> q = p + 8 + unat m + unat (m AND 1) \<Longrightarrow> load32_at data (q + 4) = Some n \<Longrightarrow> riff_chunk data q n"

text \<open>A format chunk with the given fields, and a data chunk.\<close>

definition fmt_chunk :: "u8 list \<Rightarrow> nat \<Rightarrow> u16 \<Rightarrow> u16 \<Rightarrow> u16 \<Rightarrow> bool" where
  "fmt_chunk data p form chans bits \<longleftrightarrow>
     (\<exists>n. riff_chunk data p n \<and> 16 \<le> n) \<and> tag_at data p fmt_tag \<and> load16_at data (p + 8) = Some form \<and>
     load16_at data (p + 10) = Some chans \<and> load16_at data (p + 22) = Some bits"

definition data_chunk :: "u8 list \<Rightarrow> nat \<Rightarrow> u32 \<Rightarrow> bool" where
  "data_chunk data q n \<longleftrightarrow> riff_chunk data q n \<and> tag_at data q data_tag"

text \<open>What a scan has found: the fields of a format chunk inside the prefix, or nothing yet; a data chunk
  that ends inside the file, or none.\<close>

definition scan_fmt_ok :: "u8 list \<Rightarrow> u32 \<Rightarrow> wave_scan \<Rightarrow> bool" where
  "scan_fmt_ok data prefix_size s \<longleftrightarrow>
     scan_format s = 0 \<or> (\<exists>p. p + 24 \<le> unat prefix_size \<and> fmt_chunk data p (scan_format s) (scan_channels s) (scan_bits s))"

definition scan_data_ok :: "u8 list \<Rightarrow> u64 \<Rightarrow> wave_scan \<Rightarrow> bool" where
  "scan_data_ok data file_size s \<longleftrightarrow>
     scan_offset s = 0 \<or>
     unat (scan_offset s) + unat (scan_size s) \<le> unat file_size \<and>
     (\<exists>q. unat (scan_offset s) = q + 8 \<and> data_chunk data q (scan_size s))"

lemma wave_read_fmt_Some:
  assumes "p + 24 \<le> length data"
  shows "\<exists>f c b. wave_read_fmt data p s = Some (s\<lparr>scan_format := f, scan_channels := c, scan_bits := b\<rparr>) \<and>
    load16_at data (p + 8) = Some f \<and> load16_at data (p + 10) = Some c \<and> load16_at data (p + 22) = Some b"
  using assms by (auto simp: wave_read_fmt_def load16_at_def)

lemma unat_add_8: "pos \<le> limit \<Longrightarrow> limit \<le> 0xFFFFFFF7 \<Longrightarrow> unat (pos + 8 :: u32) = unat pos + 8"
  by (simp add: word_le_nat_alt unat_word_ariths)

lemma unat_ucast_sum: "unat (ucast (a :: u32) + ucast (b :: u32) :: u64) = unat a + unat b"
proof -
  have "unat a + unat b < 18446744073709551616"
    using unat_u32_less [of a] unat_u32_less [of b] by linarith
  then show ?thesis by (simp add: unat_word_ariths)
qed

lemma unat_ucast_add_24: "unat (ucast (a :: u32) + 24 :: u64) = unat a + 24"
proof -
  have "unat a + 24 < 18446744073709551616" using unat_u32_less [of a] by linarith
  then show ?thesis by (simp add: unat_word_ariths)
qed

lemma wave_prefix_loop_safe:
  assumes "unat prefix_size \<le> length data" "prefix_size \<le> 0xFFFFFFF7" "pos \<le> prefix_size"
    "scan_offset s = 0" "scan_fmt_ok data prefix_size s"
    "\<And>n. load32_at data (unat pos + 4) = Some n \<Longrightarrow> riff_chunk data (unat pos) n"
  shows "\<exists>r. wave_prefix_loop data prefix_size file_size pos s = Some r \<and>
     (\<forall>s'. r = Inr s' \<longrightarrow> scan_fmt_ok data prefix_size s' \<and> scan_data_ok data file_size s')"
  using assms(3-6)
proof (induction "unat prefix_size - unat pos" arbitrary: pos s rule: less_induct)
  case less
  show ?case
  proof (cases "pos + 8 \<le> prefix_size")
    case False
    then show ?thesis
      using less.prems by (subst wave_prefix_loop.simps) (simp add: scan_data_ok_def)
  next
    case True
    have pos8: "unat (pos + 8) = unat pos + 8" by (rule unat_add_8 [OF less.prems(1) assms(2)])
    from True pos8 have le: "unat pos + 8 \<le> unat prefix_size" by (simp add: word_le_nat_alt)
    then obtain chunk where chunk: "load32_at data (unat pos + 4) = Some chunk"
      using assms(1) by (simp add: load32_at_def)
    have riff: "riff_chunk data (unat pos) chunk" by (rule less.prems(4) [OF chunk])
    let ?next = "ucast pos + 8 + ucast chunk + ucast (chunk AND 1) :: u64"
    have rec: "\<exists>r. wave_prefix_loop data prefix_size file_size (ucast ?next) s' = Some r \<and>
        (\<forall>s'. r = Inr s' \<longrightarrow> scan_fmt_ok data prefix_size s' \<and> scan_data_ok data file_size s')"
      if "\<not> ucast prefix_size < ?next" "scan_offset s' = 0" "scan_fmt_ok data prefix_size s'" for s'
    proof (rule less.hyps)
      note adv = wave_prefix_advances [OF that(1)]
      show "unat prefix_size - unat (ucast ?next :: u32) < unat prefix_size - unat pos"
        by (rule wave_prefix_decreases [OF that(1)])
      show "(ucast ?next :: u32) \<le> prefix_size" using adv by (simp add: word_le_nat_alt)
      show "riff_chunk data (unat (ucast ?next :: u32)) n" if "load32_at data (unat (ucast ?next :: u32) + 4) = Some n" for n
        using riff_chunk.follows [OF riff refl, of n] that adv(1) wave_prefix_next [of pos chunk] by simp
    qed (use that in simp_all)
    have read: "\<exists>f c b. wave_read_fmt data (unat pos) s = Some (s\<lparr>scan_format := f, scan_channels := c, scan_bits := b\<rparr>) \<and>
        scan_fmt_ok data prefix_size (s\<lparr>scan_format := f, scan_channels := c, scan_bits := b\<rparr>)"
      if "\<not> (ucast prefix_size :: u64) < ucast pos + 24" "tag_at data (unat pos) fmt_tag" "16 \<le> chunk"
    proof -
      have room: "unat pos + 24 \<le> unat prefix_size" using that(1) by (simp add: unat_ucast_add_24 not_less word_le_nat_alt)
      then obtain f c b where fcb: "wave_read_fmt data (unat pos) s = Some (s\<lparr>scan_format := f, scan_channels := c, scan_bits := b\<rparr>)"
        "load16_at data (unat pos + 8) = Some f" "load16_at data (unat pos + 10) = Some c" "load16_at data (unat pos + 22) = Some b"
        using wave_read_fmt_Some [of "unat pos" data s] assms(1) by auto
      then have "fmt_chunk data (unat pos) f c b" using that riff by (auto simp: fmt_chunk_def)
      then have "scan_fmt_ok data prefix_size (s\<lparr>scan_format := f, scan_channels := c, scan_bits := b\<rparr>)"
        using room by (auto simp: scan_fmt_ok_def)
      with fcb(1) show ?thesis by blast
    qed
    have data: "scan_data_ok data file_size (s\<lparr>scan_offset := pos + 8, scan_size := chunk\<rparr>)"
      if "\<not> file_size < ucast (pos + 8) + ucast chunk" "tag_at data (unat pos) data_tag"
      using that riff pos8 unat_ucast_sum [of "pos + 8" chunk]
      by (auto simp: scan_data_ok_def data_chunk_def not_less word_le_nat_alt)
    have fmt: "scan_fmt_ok data prefix_size (s\<lparr>scan_offset := a, scan_size := n\<rparr>)" for a n
      using less.prems(3) by (simp add: scan_fmt_ok_def)
    have stop: "scan_data_ok data file_size s" using less.prems(2) by (simp add: scan_data_ok_def)
    show ?thesis
      by (subst wave_prefix_loop.simps)
        (use True chunk rec read data fmt stop less.prems(2,3) in \<open>auto simp: Let_def scan_data_ok_def\<close>)
  qed
qed

text \<open>C28: for every prefix of at most \<open>2 ^ 32 - 9\<close> bytes that the buffer really holds, the prefix probe of the
  writer returns without reading outside it. What it accepts is 16-bit PCM: a format chunk of the RIFF
  chunk list lies inside the prefix, has at least 16 bytes and says format 1, the reported channels,
  one or two, and 16 bits; the reported data range is that of a data chunk of the list, starts inside
  the prefix, ends inside the file and holds whole frames.\<close>

theorem wave_probe_prefix_safe:
  assumes "unat prefix_size \<le> length data" "prefix_size \<le> 0xFFFFFFF7"
  shows "\<exists>r. libmpq__wave_probe_pcm16_prefix (Some data) prefix_size file_size = Some r \<and>
     (\<forall>info. r = Inr info \<longrightarrow>
        tag_at data 0 RIFF_tag \<and> tag_at data 8 WAVE_tag \<and>
        (\<exists>p. p + 24 \<le> unat prefix_size \<and> fmt_chunk data p 1 (channels info) 16) \<and>
        (channels info = 1 \<or> channels info = 2) \<and>
        (\<exists>q. unat (data_offset info) = q + 8 \<and> data_chunk data q (data_size info)) \<and>
        data_offset info \<le> prefix_size \<and>
        unat (data_offset info) + unat (data_size info) \<le> unat file_size \<and>
        data_size info mod (ucast (channels info) * 2) = 0)"
proof (cases "prefix_size < 12 \<or> file_size < ucast prefix_size \<or>
             \<not> tag_at data 0 RIFF_tag \<or> \<not> tag_at data 8 WAVE_tag")
  case True
  then show ?thesis by (auto simp: libmpq__wave_probe_pcm16_prefix_def)
next
  case False
  then obtain r where r: "wave_prefix_loop data prefix_size file_size 12 wave_scan_init = Some r"
    "\<And>s. r = Inr s \<Longrightarrow> scan_fmt_ok data prefix_size s \<and> scan_data_ok data file_size s"
    using wave_prefix_loop_safe [OF assms, of 12 wave_scan_init file_size]
    by (auto simp: wave_scan_init_def scan_fmt_ok_def not_less intro: riff_chunk.first)
  then show ?thesis
    using False
    by (auto simp: libmpq__wave_probe_pcm16_prefix_def wave_scan_finish_def scan_fmt_ok_def scan_data_ok_def
        split: sum.splits if_splits)
qed

text \<open>A header of one channel and eight bytes of data, of which the prefix holds none.\<close>

definition sample_wave :: "u8 list" where
  "sample_wave = RIFF_tag @ [44, 0, 0, 0] @ WAVE_tag @ fmt_tag @ [16, 0, 0, 0] @ [1, 0] @ [1, 0] @
     [0x22, 0x56, 0, 0] @ [0x44, 0xAC, 0, 0] @ [2, 0] @ [16, 0] @ data_tag @ [8, 0, 0, 0]"

theorem wave_probe_prefix_safe_witness:
  "libmpq__wave_probe_pcm16_prefix (Some sample_wave) 44 52 = Some (Inr \<lparr>channels = 1, data_offset = 44, data_size = 8\<rparr>) \<and>
   (\<exists>p. fmt_chunk sample_wave p 1 1 16) \<and> data_chunk sample_wave 36 8"
proof -
  have accepted: "libmpq__wave_probe_pcm16_prefix (Some sample_wave) 44 52 = Some (Inr \<lparr>channels = 1, data_offset = 44, data_size = 8\<rparr>)"
    by code_simp
  moreover have "unat (44 :: u32) \<le> length sample_wave" by code_simp
  ultimately show ?thesis
    using wave_probe_prefix_safe [of 44 sample_wave 52] by auto
qed

lemma wave_probe_loop_stuck:
  assumes "wave_probe_loop data limit pos s = Some r"
  shows "load32_at data 16 = Some 0xFFFFFFF8 \<longrightarrow> 20 \<le> limit \<longrightarrow> \<not> tag_at data 12 fmt_tag \<longrightarrow> pos \<noteq> 12"
  using assms
proof (rule wave_probe_loop.raw_induct [rotated], goal_cases)
  case (1 loop data limit pos s r)
  show ?case
  proof (intro impI notI)
    assume *: "load32_at data 16 = Some 0xFFFFFFF8" "20 \<le> limit" "\<not> tag_at data 12 fmt_tag" "pos = 12"
    have "\<not> limit < 12" using *(2) by (auto simp: word_less_nat_alt word_le_nat_alt)
    have wrap: "(4294967308 :: u32) = 12" by simp
    from 1(2) * \<open>\<not> limit < 12\<close> obtain s' where "loop data limit 12 s' = Some r"
      by (auto simp: Let_def wrap split: if_splits)
    from 1(1) [OF this] * show False by simp
  qed
qed

text \<open>C29: the whole-file probe does not return on a RIFF/WAVE file whose first chunk declares the
  size 0xFFFFFFF8: the 32-bit sum that gives the next chunk wraps around to the chunk itself.\<close>

theorem wave_probe_diverges:
  assumes "tag_at data 0 RIFF_tag" "tag_at data 8 WAVE_tag" "20 \<le> sz"
    "load32_at data 16 = Some 0xFFFFFFF8" "\<not> tag_at data 12 fmt_tag"
  shows "libmpq__wave_probe_pcm16 (Some data) sz = None"
proof -
  have "wave_probe_loop data sz 12 wave_scan_init = None"
    using wave_probe_loop_stuck [of data sz 12] assms(3-5)
    by (cases "wave_probe_loop data sz 12 wave_scan_init") auto
  moreover have "\<not> sz < 12" using assms(3) by (auto simp: word_less_nat_alt word_le_nat_alt)
  ultimately show ?thesis using assms(1,2) by (simp add: libmpq__wave_probe_pcm16_def)
qed

theorem wave_probe_diverges_witness:
  "libmpq__wave_probe_pcm16
     (Some (RIFF_tag @ [12, 0, 0, 0] @ WAVE_tag @ data_tag @ [0xF8, 0xFF, 0xFF, 0xFF])) 20 = None"
  by (rule wave_probe_diverges) code_simp+

end
