(* ===== verification/Mpq_Digest.thy ===== *)
theory Mpq_Digest
  imports Mpq_Endian
begin

text \<open>
  The incremental digests, \<^verbatim>\<open>src/mpq-md5.c\<close> and \<^verbatim>\<open>src/mpq-sha1.c\<close>. A context is the record of the
  source; \<open>update\<close> copies chunks into the block buffer as the code does. The locale
  \<open>streaming_digest\<close> states what the two contexts have in common: a chaining value, the bytes that
  wait for a full block, and a compression step. Its client lemmas give the two facts callers rely
  on, splitting the input does not matter and the digest is that of the padded message, and both
  digests interpret it.
\<close>

subsection \<open>MD5\<close>

record mpq_md5_s =
  md5_state :: "u32 list"
  md5_size :: u64
  md5_buffer :: "u8 list"

definition md5_constants :: "u32 list" where
  "md5_constants = [
     0xd76aa478, 0xe8c7b756, 0x242070db, 0xc1bdceee, 0xf57c0faf, 0x4787c62a, 0xa8304613,
     0xfd469501, 0x698098d8, 0x8b44f7af, 0xffff5bb1, 0x895cd7be, 0x6b901122, 0xfd987193,
     0xa679438e, 0x49b40821, 0xf61e2562, 0xc040b340, 0x265e5a51, 0xe9b6c7aa, 0xd62f105d,
     0x02441453, 0xd8a1e681, 0xe7d3fbc8, 0x21e1cde6, 0xc33707d6, 0xf4d50d87, 0x455a14ed,
     0xa9e3e905, 0xfcefa3f8, 0x676f02d9, 0x8d2a4c8a, 0xfffa3942, 0x8771f681, 0x6d9d6122,
     0xfde5380c, 0xa4beea44, 0x4bdecfa9, 0xf6bb4b60, 0xbebfbc70, 0x289b7ec6, 0xeaa127fa,
     0xd4ef3085, 0x04881d05, 0xd9d4d039, 0xe6db99e5, 0x1fa27cf8, 0xc4ac5665, 0xf4292244,
     0x432aff97, 0xab9423a7, 0xfc93a039, 0x655b59c3, 0x8f0ccc92, 0xffeff47d, 0x85845dd1,
     0x6fa87e4f, 0xfe2ce6e0, 0xa3014314, 0x4e0811a1, 0xf7537e82, 0xbd3af235, 0x2ad7d2bb,
     0xeb86d391]"

definition md5_shifts :: "nat list" where
  "md5_shifts = [7, 12, 17, 22, 5, 9, 14, 20, 4, 11, 16, 23, 6, 10, 15, 21]"

definition md5_round :: "u32 list \<Rightarrow> nat \<Rightarrow> u32 \<times> u32 \<times> u32 \<times> u32 \<Rightarrow> u32 \<times> u32 \<times> u32 \<times> u32" where
  "md5_round words i = (\<lambda>(a, b, c, d).
     let shift = md5_shifts ! ((i div 16) * 4 + i mod 4);
         (f, index) =
           (if i < 16 then ((b AND c) OR (NOT b AND d), i)
            else if i < 32 then ((d AND b) OR (NOT d AND c), (5 * i + 1) mod 16)
            else if i < 48 then (b XOR c XOR d, (3 * i + 5) mod 16)
            else (c XOR (b OR NOT d), (7 * i) mod 16));
         value = a + f + md5_constants ! i + words ! index
     in (d, b + (push_bit shift value OR drop_bit (32 - shift) value), b, c))"

definition md5_compress :: "u32 list \<Rightarrow> u8 list \<Rightarrow> u32 list" where
  "md5_compress st block =
     (let words = map (\<lambda>i. libmpq__load_le32 (Some (drop (4 * i) block))) [0..<16];
          (a, b, c, d) = fold (md5_round words) [0..<64] (st ! 0, st ! 1, st ! 2, st ! 3)
      in [st ! 0 + a, st ! 1 + b, st ! 2 + c, st ! 3 + d])"

definition md5_transform :: "mpq_md5_s \<Rightarrow> mpq_md5_s" where
  "md5_transform context = context\<lparr>md5_state := md5_compress (md5_state context) (md5_buffer context)\<rparr>"

definition libmpq__md5_init :: mpq_md5_s where
  "libmpq__md5_init = \<lparr>md5_state = [0x67452301, 0xefcdab89, 0x98badcfe, 0x10325476],
     md5_size = 0, md5_buffer = replicate 64 0\<rparr>"

function libmpq__md5_update :: "mpq_md5_s \<Rightarrow> u8 list \<Rightarrow> mpq_md5_s" where
  "libmpq__md5_update context data =
     (if data = [] then context
      else
        let used = unat (md5_size context mod 64);
            n = (if length data < 64 - used then length data else 64 - used);
            context = context\<lparr>md5_buffer := write_at (md5_buffer context) used (take n data),
                              md5_size := md5_size context + of_nat n\<rparr>;
            context = (if md5_size context mod 64 = 0 then md5_transform context else context)
        in libmpq__md5_update context (drop n data))"
  by pat_completeness auto

lemma unat_mod_64: "unat ((w :: u64) mod 64) = unat w mod 64"
  by (simp add: unat_mod_distrib)

termination libmpq__md5_update
  by (relation "measure (\<lambda>(context, data). length data)") (auto simp: unat_mod_64)

declare libmpq__md5_update.simps [simp del]

definition libmpq__md5_final :: "mpq_md5_s \<Rightarrow> u8 list \<times> mpq_md5_s" where
  "libmpq__md5_final context =
     (let used = unat (md5_size context mod 64);
          padding = 0x80 # replicate 63 0;
          len = le64_bytes (md5_size context * 8);
          context = libmpq__md5_update context (take (if used < 56 then 56 - used else 120 - used) padding);
          context = libmpq__md5_update context len
      in (concat (map le32_bytes (md5_state context)),
          \<lparr>md5_state = replicate 4 0, md5_size = 0, md5_buffer = replicate 64 0\<rparr>))"

subsection \<open>SHA-1\<close>

record mpq_sha1_s =
  sha1_state :: "u32 list"
  sha1_bits :: u64
  sha1_buffer :: "u8 list"
  sha1_used :: nat

definition rotate_left :: "u32 \<Rightarrow> nat \<Rightarrow> u32" where
  "rotate_left value n = (push_bit n value OR drop_bit (32 - n) value)"

definition sha1_expand :: "nat \<Rightarrow> u32 list \<Rightarrow> u32 list" where
  "sha1_expand i words =
     words @ [rotate_left (words ! (i - 3) XOR words ! (i - 8) XOR words ! (i - 14) XOR words ! (i - 16)) 1]"

definition sha1_words :: "u8 list \<Rightarrow> u32 list" where
  "sha1_words block =
     fold sha1_expand [16..<80] (map (\<lambda>i. libmpq__load_be32 (Some (drop (i * 4) block))) [0..<16])"

definition sha1_round ::
  "u32 list \<Rightarrow> nat \<Rightarrow> u32 \<times> u32 \<times> u32 \<times> u32 \<times> u32 \<Rightarrow> u32 \<times> u32 \<times> u32 \<times> u32 \<times> u32" where
  "sha1_round words i = (\<lambda>(a, b, c, d, e).
     let (f, k) =
           (if i < 20 then ((b AND c) OR (NOT b AND d), 0x5a827999)
            else if i < 40 then (b XOR c XOR d, 0x6ed9eba1)
            else if i < 60 then ((b AND c) OR (b AND d) OR (c AND d), 0x8f1bbcdc)
            else (b XOR c XOR d, 0xca62c1d6));
         next = rotate_left a 5 + f + e + k + words ! i
     in (next, a, rotate_left b 30, c, d))"

definition sha1_compress :: "u32 list \<Rightarrow> u8 list \<Rightarrow> u32 list" where
  "sha1_compress st block =
     (let (a, b, c, d, e) =
            fold (sha1_round (sha1_words block)) [0..<80] (st ! 0, st ! 1, st ! 2, st ! 3, st ! 4)
      in [st ! 0 + a, st ! 1 + b, st ! 2 + c, st ! 3 + d, st ! 4 + e])"

definition sha1_transform :: "mpq_sha1_s \<Rightarrow> mpq_sha1_s" where
  "sha1_transform context =
     context\<lparr>sha1_state := sha1_compress (sha1_state context) (sha1_buffer context)\<rparr>"

text \<open>The code leaves the buffer uninitialised; the model takes its bytes as an argument.\<close>

definition libmpq__sha1_init :: "u8 list \<Rightarrow> mpq_sha1_s" where
  "libmpq__sha1_init buf =
     \<lparr>sha1_state = [0x67452301, 0xefcdab89, 0x98badcfe, 0x10325476, 0xc3d2e1f0],
      sha1_bits = 0, sha1_buffer = buf, sha1_used = 0\<rparr>"

function sha1_update_loop :: "mpq_sha1_s \<Rightarrow> u8 list \<Rightarrow> mpq_sha1_s" where
  "sha1_update_loop context data =
     (if data = [] \<or> sha1_used context \<ge> 64 then context
      else
        let n = (if 64 - sha1_used context > length data then length data else 64 - sha1_used context);
            context = context\<lparr>sha1_buffer := write_at (sha1_buffer context) (sha1_used context) (take n data),
                              sha1_used := sha1_used context + n\<rparr>;
            context = (if sha1_used context = 64 then (sha1_transform context)\<lparr>sha1_used := 0\<rparr> else context)
        in sha1_update_loop context (drop n data))"
  by pat_completeness auto
termination
  by (relation "measure (\<lambda>(context, data). length data)") auto

declare sha1_update_loop.simps [simp del]

text \<open>The loop is entered with fewer than 64 buffered bytes (\<open>sha1_ok\<close> below is invariant), so the test
  of \<open>sha1_used\<close> against 64 only makes the recursion total.\<close>

definition libmpq__sha1_update :: "mpq_sha1_s \<Rightarrow> u8 list \<Rightarrow> mpq_sha1_s" where
  "libmpq__sha1_update context data =
     sha1_update_loop (context\<lparr>sha1_bits := sha1_bits context + of_nat (length data) * 8\<rparr>) data"

definition libmpq__sha1_final :: "mpq_sha1_s \<Rightarrow> u8 list \<times> mpq_sha1_s" where
  "libmpq__sha1_final context =
     (let padding = 0x80 # replicate 63 0;
          bits = sha1_bits context;
          len = rev (map (\<lambda>i. ucast (drop_bit (i * 8) bits)) [0..<8]);
          used = sha1_used context;
          context = libmpq__sha1_update context (take (if used < 56 then 56 - used else 120 - used) padding);
          context = libmpq__sha1_update context len
      in (concat (map be32_bytes (sha1_state context)),
          \<lparr>sha1_state = replicate 5 0, sha1_bits = 0, sha1_buffer = replicate 64 0, sha1_used = 0\<rparr>))"

subsection \<open>What the two digests have in common\<close>

function absorb :: "('s \<Rightarrow> u8 list \<Rightarrow> 's) \<Rightarrow> 's \<Rightarrow> u8 list \<Rightarrow> 's \<times> u8 list" where
  "absorb f st bs = (if length bs < 64 then (st, bs) else absorb f (f st (take 64 bs)) (drop 64 bs))"
  by pat_completeness auto
termination
  by (relation "measure (\<lambda>(f, st, bs). length bs)") auto

declare absorb.simps [simp del]

lemma absorb_short: "length bs < 64 \<Longrightarrow> absorb f st bs = (st, bs)"
  by (simp add: absorb.simps)

lemma absorb_block: "length block = 64 \<Longrightarrow> absorb f st (block @ bs) = absorb f (f st block) bs"
  by (subst absorb.simps) simp

lemma absorb_append:
  "absorb f st (xs @ ys) = (case absorb f st xs of (st', rest) \<Rightarrow> absorb f st' (rest @ ys))"
proof (induction f st xs rule: absorb.induct)
  case (1 f st xs)
  show ?case
  proof (cases "length xs < 64")
    case True
    then show ?thesis by (simp add: absorb_short)
  next
    case False
    then have "absorb f st (xs @ ys) = absorb f (f st (take 64 xs)) (drop 64 xs @ ys)"
      by (subst absorb.simps) simp
    with 1 [OF False] False show ?thesis by (subst (2) absorb.simps) simp
  qed
qed

lemma absorb_rest_length: "length (snd (absorb f st bs)) = length bs mod 64"
proof (induction f st bs rule: absorb.induct)
  case (1 f st bs)
  then show ?case by (subst absorb.simps) (simp add: le_mod_geq)
qed

locale streaming_digest =
  fixes ok :: "'c \<Rightarrow> bool"
    and view :: "'c \<Rightarrow> 's \<times> u8 list"
    and compress :: "'s \<Rightarrow> u8 list \<Rightarrow> 's"
    and byte :: "'c \<Rightarrow> u8 \<Rightarrow> 'c"
    and update :: "'c \<Rightarrow> u8 list \<Rightarrow> 'c"
  assumes ok_byte: "ok c \<Longrightarrow> ok (byte c b)"
    and view_byte: "ok c \<Longrightarrow> view (byte c b) = absorb compress (fst (view c)) (snd (view c) @ [b])"
    and pending_short: "ok c \<Longrightarrow> length (snd (view c)) < 64"
    and update_bytes: "ok c \<Longrightarrow> update c bs = foldl byte c bs"
begin

lemma ok_bytes: "ok c \<Longrightarrow> ok (foldl byte c bs)"
  by (induction bs arbitrary: c) (simp_all add: ok_byte)

lemma ok_update: "ok c \<Longrightarrow> ok (update c bs)"
  by (simp add: update_bytes ok_bytes)

lemma update_update: "ok c \<Longrightarrow> update (update c xs) ys = update c (xs @ ys)"
  by (simp add: update_bytes ok_bytes)

lemma view_bytes:
  "ok c \<Longrightarrow> view (foldl byte c bs) = absorb compress (fst (view c)) (snd (view c) @ bs)"
proof (induction bs arbitrary: c)
  case Nil
  then show ?case
    by (simp add: absorb_short [OF pending_short])
next
  case (Cons b bs)
  have "view (foldl byte (byte c b) bs) =
      absorb compress (fst (view (byte c b))) (snd (view (byte c b)) @ bs)"
    using Cons by (simp add: ok_byte)
  also have "\<dots> = absorb compress (fst (view c)) ((snd (view c) @ [b]) @ bs)"
    by (subst absorb_append [of _ _ "snd (view c) @ [b]" bs])
      (simp only: view_byte [OF Cons.prems] case_prod_unfold)
  finally show ?case by simp
qed

lemma view_update:
  "ok c \<Longrightarrow> view (update c bs) = absorb compress (fst (view c)) (snd (view c) @ bs)"
  by (simp add: update_bytes view_bytes)

lemma foldl_update: "ok c \<Longrightarrow> foldl update c parts = update c (concat parts)"
proof (induction parts arbitrary: c)
  case Nil
  then show ?case by (simp add: update_bytes)
next
  case (Cons p ps)
  then show ?case by (simp add: ok_update update_update)
qed

end

subsection \<open>MD5 is a streaming digest\<close>

definition md5_ok :: "mpq_md5_s \<Rightarrow> bool" where
  "md5_ok c \<longleftrightarrow> length (md5_buffer c) = 64"

definition md5_used :: "mpq_md5_s \<Rightarrow> nat" where
  "md5_used c = unat (md5_size c) mod 64"

definition md5_view :: "mpq_md5_s \<Rightarrow> u32 list \<times> u8 list" where
  "md5_view c = (md5_state c, take (md5_used c) (md5_buffer c))"

definition md5_put :: "mpq_md5_s \<Rightarrow> u8 list \<Rightarrow> mpq_md5_s" where
  "md5_put c bs = c\<lparr>md5_buffer := write_at (md5_buffer c) (md5_used c) bs,
     md5_size := md5_size c + of_nat (length bs)\<rparr>"

definition md5_flush :: "mpq_md5_s \<Rightarrow> mpq_md5_s" where
  "md5_flush c = (if md5_size c mod 64 = 0 then md5_transform c else c)"

definition md5_byte :: "mpq_md5_s \<Rightarrow> u8 \<Rightarrow> mpq_md5_s" where
  "md5_byte c b = md5_flush (md5_put c [b])"

lemma md5_used_less [simp]: "md5_used c < 64"
  by (simp add: md5_used_def)

lemma md5_size_mod_iff: "md5_size c mod 64 = 0 \<longleftrightarrow> md5_used c = 0"
  by (metis md5_used_def unat_mod_64 unat_eq_zero)

lemma md5_used_add: "unat ((w :: u64) + of_nat n) mod 64 = (unat w mod 64 + n) mod 64"
proof -
  have "unat (w + of_nat n) = (unat w + n) mod 18446744073709551616"
    by (simp add: unat_word_ariths unsigned_of_nat take_bit_eq_mod mod_add_right_eq)
  then have "unat (w + of_nat n) mod 64 = (unat w + n) mod 64"
    by (simp add: mod_mod_cancel)
  then show ?thesis by (simp add: mod_add_left_eq)
qed

lemma md5_used_put: "md5_used (md5_put c bs) = (md5_used c + length bs) mod 64"
  using md5_used_add [of "md5_size c" "length bs"] by (simp add: md5_used_def md5_put_def)

lemma md5_update_unfold:
  assumes "bs \<noteq> []"
  shows "libmpq__md5_update c bs =
     (let n = min (length bs) (64 - md5_used c)
      in libmpq__md5_update (md5_flush (md5_put c (take n bs))) (drop n bs))"
  using assms
  by (subst libmpq__md5_update.simps)
    (auto simp: Let_def md5_flush_def md5_put_def md5_used_def unat_mod_64 min_def)

lemma md5_bytes_chunk:
  assumes "md5_ok c" "bs \<noteq> []" "md5_used c + length bs \<le> 64"
  shows "foldl md5_byte c bs = md5_flush (md5_put c bs)"
  using assms
proof (induction bs arbitrary: c)
  case (Cons b bs)
  show ?case
  proof (cases "bs = []")
    case True
    then show ?thesis by (simp add: md5_byte_def)
  next
    case False
    with Cons.prems have used: "md5_used (md5_put c [b]) = md5_used c + 1"
      by (cases bs) (simp_all add: md5_used_put)
    then have same: "md5_byte c b = md5_put c [b]"
      by (simp add: md5_byte_def md5_flush_def md5_size_mod_iff)
    have "foldl md5_byte c (b # bs) = md5_flush (md5_put (md5_put c [b]) bs)"
      using Cons.IH [of "md5_put c [b]"] Cons.prems used False
      by (simp add: same) (simp add: md5_ok_def md5_put_def)
    also have "md5_put (md5_put c [b]) bs = md5_put c (b # bs)"
      using write_at_append [of "md5_used c" "[b]" bs "md5_buffer c"] Cons.prems used
      by (simp add: md5_put_def md5_ok_def md5_used_def)
    finally show ?thesis .
  qed
qed simp

lemma md5_ok_put: "md5_ok c \<Longrightarrow> md5_used c + length bs \<le> 64 \<Longrightarrow> md5_ok (md5_put c bs)"
  by (simp add: md5_ok_def md5_put_def)

lemma md5_ok_flush: "md5_ok (md5_flush c) = md5_ok c"
  by (simp add: md5_ok_def md5_flush_def md5_transform_def)

lemma md5_update_bytes:
  assumes "md5_ok c"
  shows "libmpq__md5_update c bs = foldl md5_byte c bs"
  using assms
proof (induction bs arbitrary: c rule: length_induct)
  case (1 bs)
  show ?case
  proof (cases "bs = []")
    case True
    then show ?thesis by (simp add: libmpq__md5_update.simps)
  next
    case False
    let ?n = "min (length bs) (64 - md5_used c)"
    let ?c = "md5_flush (md5_put c (take ?n bs))"
    have n: "0 < ?n" "md5_used c + ?n \<le> 64"
      using False less_imp_le [OF md5_used_less [of c]] by (auto simp: min_def)
    have "md5_ok ?c" using 1(2) n(2) by (simp add: md5_ok_flush md5_ok_put)
    then have "libmpq__md5_update c bs = foldl md5_byte ?c (drop ?n bs)"
      using 1(1) n(1) False by (simp add: md5_update_unfold Let_def)
    also have "?c = foldl md5_byte c (take ?n bs)"
      using md5_bytes_chunk [OF 1(2), of "take ?n bs"] n False by auto
    finally show ?thesis by (simp flip: foldl_append)
  qed
qed

lemma md5_view_byte:
  assumes "md5_ok c"
  shows "md5_view (md5_byte c b) = absorb md5_compress (fst (md5_view c)) (snd (md5_view c) @ [b])"
proof (cases "md5_used c = 63")
  case True
  then have empty: "md5_used (md5_put c [b]) = 0" by (simp add: md5_used_put)
  then have "md5_byte c b = md5_transform (md5_put c [b])"
    by (simp add: md5_byte_def md5_flush_def md5_size_mod_iff)
  moreover from empty have "md5_used (md5_transform (md5_put c [b])) = 0"
    by (simp add: md5_used_def md5_transform_def)
  moreover from True assms have "md5_buffer (md5_put c [b]) = take 63 (md5_buffer c) @ [b]"
    by (simp add: md5_put_def md5_ok_def write_at_def)
  ultimately show ?thesis
    using True assms absorb_block [of "take 63 (md5_buffer c) @ [b]" md5_compress "md5_state c" "[]"]
    by (simp add: md5_view_def absorb_short md5_ok_def) (simp add: md5_transform_def md5_put_def)
next
  case False
  with md5_used_less [of c] have used: "md5_used c < 63" by linarith
  then have "md5_used (md5_put c [b]) = Suc (md5_used c)" by (simp add: md5_used_put)
  moreover from used assms have "take (Suc (md5_used c)) (md5_buffer (md5_put c [b])) =
      take (md5_used c) (md5_buffer c) @ [b]"
    by (simp add: md5_put_def md5_ok_def write_at_def)
  ultimately show ?thesis
    using used by (simp add: md5_byte_def md5_flush_def md5_size_mod_iff md5_view_def absorb_short)
      (simp add: md5_put_def)
qed

interpretation md5: streaming_digest md5_ok md5_view md5_compress md5_byte libmpq__md5_update
proof
  show "md5_ok (md5_byte c b)" if "md5_ok c" for c b
    using that md5_used_less [of c] by (simp add: md5_byte_def md5_ok_flush md5_ok_put Suc_le_eq)
  show "md5_view (md5_byte c b) = absorb md5_compress (fst (md5_view c)) (snd (md5_view c) @ [b])"
    if "md5_ok c" for c b
    by (rule md5_view_byte [OF that])
  show "length (snd (md5_view c)) < 64" if "md5_ok c" for c
    using that by (simp add: md5_view_def min.strict_coboundedI2)
  show "libmpq__md5_update c bs = foldl md5_byte c bs" if "md5_ok c" for c bs
    by (rule md5_update_bytes [OF that])
qed

definition digest_padding :: "nat \<Rightarrow> u8 list" where
  "digest_padding n = take (if n mod 64 < 56 then 56 - n mod 64 else 120 - n mod 64) (0x80 # replicate 63 0)"

text \<open>The message of RFC 1321: a one bit, zeros up to eight bytes short of a block, the bit count.\<close>

definition md5_padded :: "u8 list \<Rightarrow> u8 list" where
  "md5_padded msg = msg @ digest_padding (length msg) @ le64_bytes (of_nat (length msg) * 8)"

definition md5_reference :: "u8 list \<Rightarrow> u8 list" where
  "md5_reference msg = concat (map le32_bytes
     (fst (absorb md5_compress [0x67452301, 0xefcdab89, 0x98badcfe, 0x10325476] (md5_padded msg))))"

lemma digest_padding_length:
  "length (digest_padding n) = (if n mod 64 < 56 then 56 - n mod 64 else 120 - n mod 64)"
  by (simp add: digest_padding_def)

lemma digest_padding_mod: "(n + length (digest_padding n) + 8) mod 64 = 0"
proof -
  obtain q r where n: "n = 64 * q + r" "r < 64" by (metis mod_less_divisor mult_div_mod_eq zero_less_numeral)
  then have "n + length (digest_padding n) + 8 = 64 * (if r < 56 then q + 1 else q + 2)"
    unfolding digest_padding_length by simp
  then show ?thesis by simp
qed

lemma md5_padded_blocks: "length (md5_padded msg) mod 64 = 0"
  using digest_padding_mod [of "length msg"] by (simp add: md5_padded_def add.assoc)

lemma md5_size_bytes: "md5_size (foldl md5_byte c bs) = md5_size c + of_nat (length bs)"
  by (induction bs arbitrary: c)
    (simp_all add: md5_byte_def md5_flush_def md5_put_def md5_transform_def algebra_simps)

lemma md5_ok_init: "md5_ok libmpq__md5_init"
  by (simp add: md5_ok_def libmpq__md5_init_def)

lemma md5_view_init:
  "md5_view libmpq__md5_init = ([0x67452301, 0xefcdab89, 0x98badcfe, 0x10325476], [])"
  by (simp add: md5_view_def libmpq__md5_init_def md5_used_def)

lemma md5_final_update:
  assumes "md5_ok c"
  shows "fst (libmpq__md5_final c) = concat (map le32_bytes (md5_state
     (libmpq__md5_update c (digest_padding (md5_used c) @ le64_bytes (md5_size c * 8)))))"
  using assms
  by (simp add: libmpq__md5_final_def Let_def md5.update_update [symmetric] digest_padding_def
      md5_used_def unat_mod_64)

lemma digest_padding_cong: "digest_padding (n mod 64) = digest_padding n"
  by (simp add: digest_padding_def)

text \<open>C30: MD5 does not depend on how its input is cut into updates, and the digest is the one of the
  padded message: initialising, updating with any sequence of parts and finalising runs the
  compression function over the blocks of the padded concatenation.\<close>

theorem md5_incremental:
  "fst (libmpq__md5_final (foldl libmpq__md5_update libmpq__md5_init parts)) = md5_reference (concat parts)"
proof -
  let ?msg = "concat parts"
  let ?c = "libmpq__md5_update libmpq__md5_init ?msg"
  have ok: "md5_ok ?c" by (rule md5.ok_update [OF md5_ok_init])
  have size: "md5_size ?c = of_nat (length ?msg)"
    by (simp only: md5.update_bytes [OF md5_ok_init] md5_size_bytes) (simp add: libmpq__md5_init_def)
  have "md5_used ?c = length ?msg mod 64"
    using md5_used_add [of 0 "length ?msg"] by (simp add: md5_used_def size)
  then have "libmpq__md5_update ?c (digest_padding (md5_used ?c) @ le64_bytes (md5_size ?c * 8)) =
      libmpq__md5_update libmpq__md5_init (md5_padded ?msg)"
    by (simp add: size digest_padding_cong md5_padded_def md5.update_update [OF md5_ok_init])
  then show ?thesis
    using arg_cong [OF md5.view_update [OF md5_ok_init, of "md5_padded ?msg"], of fst]
    by (simp add: md5.foldl_update [OF md5_ok_init] md5_final_update [OF ok] md5_reference_def md5_view_init)
      (simp add: md5_view_def)
qed

subsection \<open>SHA-1 is a streaming digest\<close>

definition sha1_ok :: "mpq_sha1_s \<Rightarrow> bool" where
  "sha1_ok c \<longleftrightarrow> length (sha1_buffer c) = 64 \<and> sha1_used c < 64"

definition sha1_view :: "mpq_sha1_s \<Rightarrow> u32 list \<times> u8 list" where
  "sha1_view c = (sha1_state c, take (sha1_used c) (sha1_buffer c))"

definition sha1_put :: "mpq_sha1_s \<Rightarrow> u8 list \<Rightarrow> mpq_sha1_s" where
  "sha1_put c bs = c\<lparr>sha1_buffer := write_at (sha1_buffer c) (sha1_used c) bs,
     sha1_used := sha1_used c + length bs\<rparr>"

definition sha1_flush :: "mpq_sha1_s \<Rightarrow> mpq_sha1_s" where
  "sha1_flush c = (if sha1_used c = 64 then (sha1_transform c)\<lparr>sha1_used := 0\<rparr> else c)"

definition sha1_count :: "nat \<Rightarrow> mpq_sha1_s \<Rightarrow> mpq_sha1_s" where
  "sha1_count n c = c\<lparr>sha1_bits := sha1_bits c + of_nat n * 8\<rparr>"

definition sha1_byte :: "mpq_sha1_s \<Rightarrow> u8 \<Rightarrow> mpq_sha1_s" where
  "sha1_byte c b = sha1_flush (sha1_put (sha1_count 1 c) [b])"

definition sha1_feed :: "mpq_sha1_s \<Rightarrow> u8 \<Rightarrow> mpq_sha1_s" where
  "sha1_feed c b = sha1_flush (sha1_put c [b])"

lemma sha1_loop_unfold:
  assumes "bs \<noteq> []" "sha1_ok c"
  shows "sha1_update_loop c bs =
     (let n = min (length bs) (64 - sha1_used c)
      in sha1_update_loop (sha1_flush (sha1_put c (take n bs))) (drop n bs))"
  using assms
  by (subst sha1_update_loop.simps)
    (auto simp: Let_def sha1_flush_def sha1_put_def sha1_ok_def min_def)

lemma sha1_feed_chunk:
  assumes "sha1_ok c" "bs \<noteq> []" "sha1_used c + length bs \<le> 64"
  shows "foldl sha1_feed c bs = sha1_flush (sha1_put c bs)"
  using assms
proof (induction bs arbitrary: c)
  case (Cons b bs)
  show ?case
  proof (cases "bs = []")
    case True
    then show ?thesis by (simp add: sha1_feed_def)
  next
    case False
    with Cons.prems have same: "sha1_feed c b = sha1_put c [b]" and ok: "sha1_ok (sha1_put c [b])"
      by (cases bs; simp add: sha1_feed_def sha1_flush_def sha1_put_def sha1_ok_def)+
    have "foldl sha1_feed c (b # bs) = sha1_flush (sha1_put (sha1_put c [b]) bs)"
      using Cons.IH [OF ok False] Cons.prems by (simp add: same) (simp add: sha1_put_def)
    also have "sha1_put (sha1_put c [b]) bs = sha1_put c (b # bs)"
      using write_at_append [of "sha1_used c" "[b]" bs "sha1_buffer c"] Cons.prems
      by (simp add: sha1_put_def sha1_ok_def)
    finally show ?thesis .
  qed
qed simp

lemma sha1_ok_chunk:
  "sha1_ok c \<Longrightarrow> sha1_used c + length bs \<le> 64 \<Longrightarrow> sha1_ok (sha1_flush (sha1_put c bs))"
  by (auto simp: sha1_ok_def sha1_put_def sha1_flush_def sha1_transform_def)

lemma sha1_loop_feed:
  assumes "sha1_ok c"
  shows "sha1_update_loop c bs = foldl sha1_feed c bs"
  using assms
proof (induction bs arbitrary: c rule: length_induct)
  case (1 bs)
  show ?case
  proof (cases "bs = []")
    case True
    then show ?thesis by (simp add: sha1_update_loop.simps)
  next
    case False
    let ?n = "min (length bs) (64 - sha1_used c)"
    let ?c = "sha1_flush (sha1_put c (take ?n bs))"
    have n: "0 < ?n" "sha1_used c + ?n \<le> 64"
      using False 1(2) by (auto simp: sha1_ok_def)
    have "sha1_ok ?c" using 1(2) n(2) by (intro sha1_ok_chunk) auto
    then have "sha1_update_loop c bs = foldl sha1_feed ?c (drop ?n bs)"
      using 1 n(1) False by (simp add: sha1_loop_unfold Let_def)
    also have "?c = foldl sha1_feed c (take ?n bs)"
      using sha1_feed_chunk [OF 1(2), of "take ?n bs"] n False by auto
    finally show ?thesis by (simp flip: foldl_append)
  qed
qed

lemma sha1_count_feed: "sha1_count n (sha1_feed c b) = sha1_feed (sha1_count n c) b"
  by (simp add: sha1_count_def sha1_feed_def sha1_flush_def sha1_put_def sha1_transform_def)

lemma sha1_byte_count: "foldl sha1_byte c bs = foldl sha1_feed (sha1_count (length bs) c) bs"
proof (induction bs arbitrary: c)
  case Nil
  then show ?case by (simp add: sha1_count_def)
next
  case (Cons b bs)
  have "sha1_count (length bs) (sha1_byte c b) = sha1_feed (sha1_count (length (b # bs)) c) b"
    by (simp add: sha1_byte_def flip: sha1_feed_def)
      (simp add: sha1_count_feed, simp add: sha1_count_def algebra_simps)
  with Cons show ?case by simp
qed

lemma sha1_update_bytes:
  "sha1_ok c \<Longrightarrow> libmpq__sha1_update c bs = foldl sha1_byte c bs"
  by (simp add: libmpq__sha1_update_def sha1_byte_count sha1_count_def sha1_loop_feed sha1_ok_def)

lemma sha1_view_byte:
  assumes "sha1_ok c"
  shows "sha1_view (sha1_byte c b) = absorb sha1_compress (fst (sha1_view c)) (snd (sha1_view c) @ [b])"
proof (cases "sha1_used c = 63")
  case True
  with assms have "absorb sha1_compress (sha1_state c) (take 63 (sha1_buffer c) @ [b]) =
      (sha1_compress (sha1_state c) (take 63 (sha1_buffer c) @ [b]), [])"
    using absorb_block [of "take 63 (sha1_buffer c) @ [b]" sha1_compress "sha1_state c" "[]"]
    by (simp add: sha1_ok_def absorb_short)
  then show ?thesis
    using True assms
    by (simp add: sha1_byte_def sha1_flush_def sha1_put_def sha1_count_def sha1_view_def
        sha1_transform_def sha1_ok_def write_at_def)
next
  case False
  with assms show ?thesis
    by (simp add: sha1_byte_def sha1_flush_def sha1_put_def sha1_count_def sha1_view_def
        sha1_ok_def write_at_def absorb_short)
qed

interpretation sha1: streaming_digest sha1_ok sha1_view sha1_compress sha1_byte libmpq__sha1_update
proof
  show "sha1_ok (sha1_byte c b)" if "sha1_ok c" for c b
    using that unfolding sha1_byte_def by (intro sha1_ok_chunk) (auto simp: sha1_count_def sha1_ok_def)
  show "length (snd (sha1_view c)) < 64" if "sha1_ok c" for c
    using that by (simp add: sha1_view_def sha1_ok_def)
qed (simp_all add: sha1_view_byte sha1_update_bytes)

text \<open>The message of FIPS 180: as for MD5, with the bit count in big-endian order.\<close>

definition sha1_padded :: "u8 list \<Rightarrow> u8 list" where
  "sha1_padded msg = msg @ digest_padding (length msg) @ rev (le64_bytes (of_nat (length msg) * 8))"

definition sha1_reference :: "u8 list \<Rightarrow> u8 list" where
  "sha1_reference msg = concat (map be32_bytes
     (fst (absorb sha1_compress [0x67452301, 0xefcdab89, 0x98badcfe, 0x10325476, 0xc3d2e1f0]
        (sha1_padded msg))))"

lemma sha1_padded_blocks: "length (sha1_padded msg) mod 64 = 0"
  using digest_padding_mod [of "length msg"] by (simp add: sha1_padded_def add.assoc)

lemma sha1_bits_feed: "sha1_bits (foldl sha1_feed c bs) = sha1_bits c"
  by (induction bs arbitrary: c)
    (simp_all add: sha1_feed_def sha1_flush_def sha1_put_def sha1_transform_def)

lemma sha1_bits_update:
  "sha1_ok c \<Longrightarrow> sha1_bits (libmpq__sha1_update c bs) = sha1_bits c + of_nat (length bs) * 8"
  by (simp add: sha1_update_bytes sha1_byte_count sha1_bits_feed sha1_count_def)

lemma sha1_used_view: "sha1_ok c \<Longrightarrow> sha1_used c = length (snd (sha1_view c))"
  by (simp add: sha1_view_def sha1_ok_def)

lemma sha1_length_bytes:
  "rev (map (\<lambda>i. ucast (drop_bit (i * 8) (w :: u64))) [0..<8]) = rev (le64_bytes w)"
  by (rule arg_cong [of _ _ rev], rule nth_equalityI)
    (auto simp: le64_bytes_def le32_bytes_def upt_rec less_Suc_eq numeral_eq_Suc intro!: bit_word_eqI
      simp: bit_simps)

lemma sha1_final_update:
  assumes "sha1_ok c"
  shows "fst (libmpq__sha1_final c) = concat (map be32_bytes (sha1_state
     (libmpq__sha1_update c (digest_padding (sha1_used c) @ rev (le64_bytes (sha1_bits c))))))"
  using assms
  by (simp add: libmpq__sha1_final_def Let_def sha1.update_update [symmetric] digest_padding_def
      sha1_length_bytes sha1_ok_def del: upt_rec_numeral)

text \<open>C31: SHA-1 does not depend on how its input is cut into updates, nor on the bytes the context's
  buffer holds at the start, and the digest is the one of the padded message.\<close>

theorem sha1_incremental:
  assumes "length buf = 64"
  shows "fst (libmpq__sha1_final (foldl libmpq__sha1_update (libmpq__sha1_init buf) parts)) =
     sha1_reference (concat parts)"
proof -
  let ?msg = "concat parts" and ?init = "libmpq__sha1_init buf"
  let ?c = "libmpq__sha1_update ?init ?msg"
  have ok_init: "sha1_ok ?init" using assms by (simp add: sha1_ok_def libmpq__sha1_init_def)
  have view_init: "sha1_view ?init = ([0x67452301, 0xefcdab89, 0x98badcfe, 0x10325476, 0xc3d2e1f0], [])"
    by (simp add: sha1_view_def libmpq__sha1_init_def)
  have ok: "sha1_ok ?c" by (rule sha1.ok_update [OF ok_init])
  have bits: "sha1_bits ?c = of_nat (length ?msg) * 8"
    by (simp add: sha1_bits_update [OF ok_init]) (simp add: libmpq__sha1_init_def)
  have "sha1_used ?c = length ?msg mod 64"
    by (simp add: sha1_used_view [OF ok] sha1.view_update [OF ok_init] view_init absorb_rest_length)
  then have "libmpq__sha1_update ?c (digest_padding (sha1_used ?c) @ rev (le64_bytes (sha1_bits ?c))) =
      libmpq__sha1_update ?init (sha1_padded ?msg)"
    by (simp add: bits digest_padding_cong sha1_padded_def sha1.update_update [OF ok_init])
  then show ?thesis
    using arg_cong [OF sha1.view_update [OF ok_init, of "sha1_padded ?msg"], of fst]
    by (simp add: sha1.foldl_update [OF ok_init] sha1_final_update [OF ok] sha1_reference_def view_init)
      (simp add: sha1_view_def)
qed

theorem sha1_incremental_witness:
  "fst (libmpq__sha1_final (foldl libmpq__sha1_update (libmpq__sha1_init (replicate 64 0)) [[0x61], [0x62, 0x63]])) =
   sha1_reference [0x61, 0x62, 0x63]"
  using sha1_incremental [of "replicate 64 0" "[[0x61], [0x62, 0x63]]"] by simp

end
