(* ===== verification/Mpq_Rsa.thy ===== *)
theory Mpq_Rsa
  imports Mpq_Endian
begin

text \<open>
  The RSA arithmetic, \<^verbatim>\<open>src/mpq-rsa.c\<close>: constant-time modular addition and multiplication on base-256
  limbs, Montgomery multiplication on base-2^32 limbs, key validation, the three exponentiations
  and the PKCS1 encoding. Limb arrays are lists in little-endian order whose length is the \<open>size\<close>
  (or \<open>words\<close>) argument of the code; the loops over limbs are recursions that carry the code's
  32-bit or 64-bit carry. Arrays that the code clears after use are locals of the model.

  The main results: the limb routines compute modulo the modulus, both multiplications satisfy the
  contract of the locale \<open>modular_multiplier\<close>, and so each operation computes
  \<open>input ^ exponent mod modulus\<close> exactly.
\<close>

subsection \<open>Constants\<close>

definition LIBMPQ_RSA_SIZE :: nat where "LIBMPQ_RSA_SIZE = 64"
definition LIBMPQ_RSA_KEY_SIZE :: nat where "LIBMPQ_RSA_KEY_SIZE = 2 * LIBMPQ_RSA_SIZE"
definition LIBMPQ_RSA_STRONG_SIZE :: nat where "LIBMPQ_RSA_STRONG_SIZE = 256"
definition LIBMPQ_RSA_STRONG_KEY_SIZE :: nat where
  "LIBMPQ_RSA_STRONG_KEY_SIZE = 2 * LIBMPQ_RSA_STRONG_SIZE"
definition LIBMPQ_RSA_MAX_SIZE :: nat where "LIBMPQ_RSA_MAX_SIZE = LIBMPQ_RSA_STRONG_SIZE"
definition LIBMPQ_RSA_MAX_WORDS :: nat where "LIBMPQ_RSA_MAX_WORDS = LIBMPQ_RSA_MAX_SIZE div 4"

lemmas rsa_sizes = LIBMPQ_RSA_SIZE_def LIBMPQ_RSA_KEY_SIZE_def LIBMPQ_RSA_STRONG_SIZE_def
  LIBMPQ_RSA_STRONG_KEY_SIZE_def LIBMPQ_RSA_MAX_SIZE_def LIBMPQ_RSA_MAX_WORDS_def

subsection \<open>Arithmetic on bytes\<close>

fun add_limbs :: "u8 list \<Rightarrow> u8 list \<Rightarrow> u32 \<Rightarrow> u8 list \<times> u32" where
  "add_limbs (a # as) (b # bs) carry =
     (let value = ucast a + ucast b + carry;
          (rest, c) = add_limbs as bs (drop_bit 8 value)
      in (ucast value # rest, c))"
| "add_limbs _ _ carry = ([], carry)"

fun sub_limbs :: "u8 list \<Rightarrow> u8 list \<Rightarrow> u32 \<Rightarrow> u8 list \<times> u32" where
  "sub_limbs (s # ss) (n # ns) borrow =
     (let value = ucast s - ucast n - borrow;
          (rest, c) = sub_limbs ss ns (drop_bit 31 value)
      in (ucast value # rest, c))"
| "sub_limbs _ _ borrow = ([], borrow)"

definition mask_select :: "u32 \<Rightarrow> u8 list \<Rightarrow> u8 list \<Rightarrow> u8 list" where
  "mask_select msk xs ys =
     map2 (\<lambda>x y. ucast ((ucast x AND msk) OR (ucast y AND NOT msk))) xs ys"

definition add_mod :: "u8 list \<Rightarrow> u8 list \<Rightarrow> u8 list \<Rightarrow> u8 list" where
  "add_mod a b n =
     (let (added, carry) = add_limbs a b 0;
          (reduced, borrow) = sub_limbs added n 0;
          msk = 0 - (carry OR (borrow XOR 1))
      in mask_select msk reduced added)"

definition multiply_step :: "u8 list \<Rightarrow> u8 list \<Rightarrow> u8 list \<Rightarrow> nat \<Rightarrow> u8 list \<Rightarrow> u8 list" where
  "multiply_step a b n k result =
     (let msk = 0 - (ucast (drop_bit (k mod 8) (b ! (k div 8))) AND 1);
          result = add_mod result result n;
          added = add_mod result a n
      in mask_select msk added result)"

definition multiply :: "u8 list \<Rightarrow> u8 list \<Rightarrow> u8 list \<Rightarrow> u8 list" where
  "multiply a b n =
     fold (multiply_step a b n) (rev [0..<length n * 8]) (replicate (length n) 0)"

subsection \<open>Montgomery arithmetic on 32-bit words\<close>

fun mac_row :: "u32 list \<Rightarrow> u32 list \<Rightarrow> u32 \<Rightarrow> u64 \<Rightarrow> u32 list \<times> u64" where
  "mac_row (t # ts) (l # ls) m carry =
     (let value = ucast t + ucast l * ucast m + carry;
          (rest, c) = mac_row ts ls m (drop_bit 32 value)
      in (ucast value # rest, c))"
| "mac_row _ _ m carry = ([], carry)"

definition montgomery_step ::
  "u32 list \<Rightarrow> u32 list \<Rightarrow> u32 \<Rightarrow> u32 \<Rightarrow> u32 list \<times> u32 \<times> u32 \<Rightarrow> u32 list \<times> u32 \<times> u32" where
  "montgomery_step left modulus minv right_i = (\<lambda>(temporary, high, tip).
     let (temporary, carry) = mac_row temporary left right_i 0;
         value = ucast high + carry :: u64;
         high = ucast value :: u32;
         tip = ucast (drop_bit 32 value) :: u32;
         m = ucast (ucast (temporary ! 0) * ucast minv :: u64) :: u32;
         (lows, carry) = mac_row temporary modulus m 0;
         value = ucast high + carry :: u64;
         carry = ucast tip + drop_bit 32 value :: u64
     in (tl lows @ [ucast value], ucast carry, ucast (drop_bit 32 carry)))"

fun sub_words :: "u32 list \<Rightarrow> u32 list \<Rightarrow> u32 \<Rightarrow> u32 list \<times> u32" where
  "sub_words (t # ts) (n # ns) borrow =
     (let difference = ucast t - ucast n - ucast borrow :: u64;
          (rest, c) = sub_words ts ns (ucast (drop_bit 63 difference))
      in (ucast difference # rest, c))"
| "sub_words _ _ borrow = ([], borrow)"

definition word_select :: "u32 \<Rightarrow> u32 list \<Rightarrow> u32 list \<Rightarrow> u32 list" where
  "word_select msk xs ys = map2 (\<lambda>x y. (x AND msk) OR (y AND NOT msk)) xs ys"

definition montgomery_multiply :: "u32 list \<Rightarrow> u32 list \<Rightarrow> u32 list \<Rightarrow> u32 \<Rightarrow> u32 list" where
  "montgomery_multiply left right modulus minv =
     (let (temporary, high, tip) =
            fold (montgomery_step left modulus minv) right (replicate (length modulus) 0, 0, 0);
          (reduced, borrow) = sub_words temporary modulus 0;
          msk = 0 - ((if high \<noteq> 0 then 1 else 0) OR (borrow XOR 1))
      in word_select msk reduced temporary)"

definition montgomery_r_squared :: "u32 list \<Rightarrow> u32 list" where
  "montgomery_r_squared modulus =
     (let bytes = concat (map le32_bytes modulus);
          words = length modulus;
          value = ((\<lambda>value. add_mod value value bytes) ^^ (words * 64)) (1 # replicate (words * 4 - 1) 0)
      in map (\<lambda>i. libmpq__load_le32 (Some (drop (4 * i) value))) [0..<words])"

subsection \<open>Key validation\<close>

fun memcmp :: "u8 list \<Rightarrow> u8 list \<Rightarrow> int" where
  "memcmp (x # xs) (y # ys) = (if x < y then - 1 else if y < x then 1 else memcmp xs ys)"
| "memcmp _ _ = 0"

definition rsa_key_validate :: "ptr \<Rightarrow> nat \<Rightarrow> nat \<Rightarrow> unit result" where
  "rsa_key_validate key key_size modulus_size =
     (case key of
        None \<Rightarrow> Inl ERROR_FORMAT
      | Some key \<Rightarrow>
          if modulus_size = 0 \<or> modulus_size > LIBMPQ_RSA_MAX_SIZE \<or> key_size \<noteq> 2 * modulus_size \<or>
             key ! 0 AND 0x80 = 0 \<or> key ! (modulus_size - 1) AND 1 = 0 \<or> key ! (key_size - 1) AND 1 = 0
          then Inl ERROR_FORMAT
          else
            let small = fold (\<lambda>i small. small OR key ! i) [modulus_size..<key_size - 1] 0
            in if (small = 0 \<and> key ! (key_size - 1) < 3) \<or>
                  memcmp (take modulus_size (drop modulus_size key)) (take modulus_size key) \<ge> 0
               then Inl ERROR_FORMAT else Inr ())"

definition libmpq__rsa_weak_key_validate :: "ptr \<Rightarrow> nat \<Rightarrow> unit result" where
  "libmpq__rsa_weak_key_validate key key_size = rsa_key_validate key key_size LIBMPQ_RSA_SIZE"

definition libmpq__rsa_strong_key_validate :: "ptr \<Rightarrow> nat \<Rightarrow> unit result" where
  "libmpq__rsa_strong_key_validate key key_size = rsa_key_validate key key_size LIBMPQ_RSA_STRONG_SIZE"

subsection \<open>Exponentiation\<close>

definition exponent_bit :: "u8 list \<Rightarrow> nat \<Rightarrow> nat \<Rightarrow> u8" where
  "exponent_bit key sz k = drop_bit (7 - k mod 8) (key ! (sz + k div 8)) AND 1"

definition montgomery_inverse :: "u32 \<Rightarrow> u32" where
  "montgomery_inverse n0 = 0 - ((\<lambda>minv. minv * (2 - n0 * minv)) ^^ 5) 1"

definition be_words :: "u8 list \<Rightarrow> nat \<Rightarrow> u32 list" where
  "be_words bytes words =
     map (\<lambda>i. libmpq__load_be32 (Some (drop (4 * words - 4 * (i + 1)) bytes))) [0..<words]"

definition strong_private_step ::
  "u8 list \<Rightarrow> u32 list \<Rightarrow> u32 list \<Rightarrow> u32 \<Rightarrow> nat \<Rightarrow> u32 list \<Rightarrow> u32 list" where
  "strong_private_step key base modulus minv k result =
     (let msk = 0 - ucast (exponent_bit key LIBMPQ_RSA_STRONG_SIZE k);
          squared = montgomery_multiply result result modulus minv;
          multiplied = montgomery_multiply squared base modulus minv
      in word_select msk multiplied squared)"

definition libmpq__rsa_strong_private_operation :: "ptr \<Rightarrow> ptr \<Rightarrow> out_ptr \<Rightarrow> u8 list result" where
  "libmpq__rsa_strong_private_operation key input out =
     (case (libmpq__rsa_strong_key_validate key LIBMPQ_RSA_STRONG_KEY_SIZE, key, input, out) of
        (Inr _, Some key, Some input, Some _) \<Rightarrow>
          if memcmp (take LIBMPQ_RSA_STRONG_SIZE input) (take LIBMPQ_RSA_STRONG_SIZE key) \<ge> 0
          then Inl ERROR_FORMAT
          else
            let modulus = be_words key LIBMPQ_RSA_MAX_WORDS;
                base = be_words input LIBMPQ_RSA_MAX_WORDS;
                minv = montgomery_inverse (modulus ! 0);
                one_words = 1 # replicate (LIBMPQ_RSA_MAX_WORDS - 1) 0;
                r_squared = montgomery_r_squared modulus;
                base = montgomery_multiply base r_squared modulus minv;
                result = montgomery_multiply one_words r_squared modulus minv;
                result = fold (strong_private_step key base modulus minv)
                           [0..<LIBMPQ_RSA_STRONG_SIZE * 8] result;
                result = montgomery_multiply result one_words modulus minv
            in Inr (concat (map be32_bytes (rev result)))
      | _ \<Rightarrow> Inl ERROR_FORMAT)"

definition weak_step :: "u8 list \<Rightarrow> u8 list \<Rightarrow> u8 list \<Rightarrow> nat \<Rightarrow> u8 list \<Rightarrow> u8 list" where
  "weak_step key base n k result =
     (let msk = 0 - ucast (exponent_bit key LIBMPQ_RSA_SIZE k);
          result = multiply result result n;
          multiplied = multiply result base n
      in mask_select msk multiplied result)"

definition libmpq__rsa_weak_operation :: "u8 list \<Rightarrow> u8 list \<Rightarrow> u8 list result" where
  "libmpq__rsa_weak_operation key input =
     (if memcmp (take LIBMPQ_RSA_SIZE input) (take LIBMPQ_RSA_SIZE key) \<ge> 0 then Inl ERROR_FORMAT
      else
        let n = rev (take LIBMPQ_RSA_SIZE key);
            base = rev (take LIBMPQ_RSA_SIZE input);
            result = fold (weak_step key base n) [0..<LIBMPQ_RSA_SIZE * 8]
                       (1 # replicate (LIBMPQ_RSA_SIZE - 1) 0)
        in Inr (rev result))"

definition strong_public_step ::
  "u8 list \<Rightarrow> u8 list \<Rightarrow> u8 list \<Rightarrow> nat \<Rightarrow> bool \<times> u8 list \<Rightarrow> bool \<times> u8 list" where
  "strong_public_step key base n k = (\<lambda>(started, result).
     let on = exponent_bit key LIBMPQ_RSA_STRONG_SIZE k
     in if \<not> started then
          if on = 0 then (started, result) else (True, multiply result base n)
        else
          let result = multiply result result n
          in if on \<noteq> 0 then (started, multiply result base n) else (started, result))"

definition libmpq__rsa_strong_public_operation :: "ptr \<Rightarrow> ptr \<Rightarrow> out_ptr \<Rightarrow> u8 list result" where
  "libmpq__rsa_strong_public_operation key input out =
     (case (libmpq__rsa_strong_key_validate key LIBMPQ_RSA_STRONG_KEY_SIZE, key, input, out) of
        (Inr _, Some key, Some input, Some _) \<Rightarrow>
          if memcmp (take LIBMPQ_RSA_STRONG_SIZE input) (take LIBMPQ_RSA_STRONG_SIZE key) \<ge> 0
          then Inl ERROR_FORMAT
          else
            let n = rev (take LIBMPQ_RSA_STRONG_SIZE key);
                base = rev (take LIBMPQ_RSA_STRONG_SIZE input);
                (started, result) = fold (strong_public_step key base n)
                   [0..<LIBMPQ_RSA_STRONG_SIZE * 8] (False, 1 # replicate (LIBMPQ_RSA_STRONG_SIZE - 1) 0)
            in if \<not> started then Inl ERROR_FORMAT else Inr (rev result)
      | _ \<Rightarrow> Inl ERROR_FORMAT)"

subsection \<open>Signature encoding\<close>

definition rsa_md5_prefix :: "u8 list" where
  "rsa_md5_prefix = [0x30, 0x20, 0x30, 0x0c, 0x06, 0x08, 0x2a, 0x86, 0x48,
                     0x86, 0xf7, 0x0d, 0x02, 0x05, 0x05, 0x00, 0x04, 0x10]"

definition libmpq__rsa_md5_encode :: "u8 list \<Rightarrow> u8 list" where
  "libmpq__rsa_md5_encode digest =
     (let encoded = replicate LIBMPQ_RSA_SIZE 0xFF;
          encoded = encoded[0 := 0];
          encoded = encoded[1 := 1];
          encoded = encoded[29 := 0];
          encoded = write_at encoded 30 rsa_md5_prefix
      in write_at encoded 48 digest)"

definition libmpq__rsa_clear :: "u8 list \<Rightarrow> u8 list" where
  "libmpq__rsa_clear bytes = map (\<lambda>_. 0) bytes"

subsection \<open>The number a limb list stands for\<close>

primrec limbs :: "nat \<Rightarrow> 'a::len word list \<Rightarrow> nat" where
  "limbs base [] = 0"
| "limbs base (x # xs) = unat x + base * limbs base xs"

abbreviation val8 :: "u8 list \<Rightarrow> nat" where "val8 \<equiv> limbs 256"
abbreviation val32 :: "u32 list \<Rightarrow> nat" where "val32 \<equiv> limbs 4294967296"

lemma limbs_replicate_0 [simp]: "limbs base (replicate n 0) = 0"
  by (induction n) auto

lemma limbs_append: "limbs base (xs @ ys) = limbs base xs + base ^ length xs * limbs base ys"
  by (induction xs) (auto simp: algebra_simps)

lemma limbs_bound:
  assumes "\<And>x. x \<in> set xs \<Longrightarrow> unat x < base"
  shows "limbs base xs < base ^ length xs"
  using assms
proof (induction xs)
  case (Cons x xs)
  then have "limbs base xs + 1 \<le> base ^ length xs" by simp
  then have "base * (limbs base xs + 1) \<le> base * base ^ length xs" by (rule mult_le_mono2)
  moreover have "unat x < base" using Cons.prems by simp
  ultimately show ?case by (simp add: algebra_simps)
qed simp

lemma val8_bound: "val8 xs < 256 ^ length xs"
  by (rule limbs_bound) simp

lemma val32_bound: "val32 xs < 4294967296 ^ length xs"
  by (rule limbs_bound) simp

subsection \<open>Addition and subtraction of limbs\<close>

lemma unat_ucast_u32_u8: "unat (ucast (w :: u32) :: u8) = unat w mod 256"
  by (simp add: unsigned_ucast_eq take_bit_eq_mod)

lemma unat_drop_bit: "unat (drop_bit n (w :: 'a::len word)) = unat w div 2 ^ n"
  by (subst unsigned_drop_bit_eq)
    (simp only: take_bit_nat_eq_self [OF unsigned_less] drop_bit_eq_div)

lemma add_limbs_val:
  assumes "length a = length b" "unat carry \<le> 1" "add_limbs a b carry = (r, c)"
  shows "length r = length a \<and> unat c \<le> 1 \<and>
     val8 r + 256 ^ length a * unat c = val8 a + val8 b + unat carry"
  using assms
proof (induction a b carry arbitrary: r c rule: add_limbs.induct)
  case (1 x as y bs carry)
  let ?v = "ucast x + ucast y + carry :: u32"
  have v: "unat ?v = unat x + unat y + unat carry"
  proof -
    have "unat x + unat y + unat carry < 4294967296"
      using unat_u8_less [of x] unat_u8_less [of y] 1(3) by linarith
    then show ?thesis by (simp add: unat_word_ariths)
  qed
  have c8: "unat (drop_bit 8 ?v) = unat ?v div 256" by (simp add: unat_drop_bit)
  have le: "unat (drop_bit 8 ?v) \<le> 1"
    unfolding c8 v using unat_u8_less [of x] unat_u8_less [of y] 1(3) by linarith
  obtain r' c' where rec: "add_limbs as bs (drop_bit 8 ?v) = (r', c')" by fastforce
  from 1(1) [OF refl _ le rec] 1(2) have IH: "length r' = length as" "unat c' \<le> 1"
    "val8 r' + 256 ^ length as * unat c' = val8 as + val8 bs + unat ?v div 256" by (auto simp: c8)
  have r: "r = ucast ?v # r'" "c = c'" using 1(4) rec by (auto simp: Let_def)
  have "val8 r + 256 ^ length (x # as) * unat c =
      unat ?v mod 256 + 256 * (val8 r' + 256 ^ length as * unat c')"
    by (simp add: r unat_ucast_u32_u8 algebra_simps)
  also have "\<dots> = unat ?v + 256 * (val8 as + val8 bs)"
    unfolding IH(3) by (simp add: algebra_simps)
  also have "\<dots> = val8 (x # as) + val8 (y # bs) + unat carry" unfolding v by simp
  finally show ?case using IH(1,2) r by simp
qed auto

lemma sub_limb:
  fixes s n :: u8 and borrow :: u32
  defines "v \<equiv> ucast s - ucast n - borrow :: u32"
  assumes "unat borrow \<le> 1"
  shows "unat (drop_bit 31 v) \<le> 1"
    "unat (ucast v :: u8) + unat n + unat borrow = unat s + 256 * unat (drop_bit 31 v)"
proof -
  have bounds: "unat s < 256" "unat n < 256" by (rule unat_u8_less)+
  have "unat n + unat borrow < 4294967296" using bounds assms(2) by linarith
  then have nb: "unat (ucast n + borrow :: u32) = unat n + unat borrow"
    by (simp add: unat_word_ariths)
  have v: "unat v = (if unat n + unat borrow \<le> unat s then unat s - (unat n + unat borrow)
     else unat s + 4294967296 - (unat n + unat borrow))"
    unfolding v_def diff_diff_eq by (simp add: unat_sub_if' nb word_size)
  have d: "unat (drop_bit 31 v) = (if unat n + unat borrow \<le> unat s then 0 else 1)"
    unfolding unat_drop_bit v using bounds assms(2)
    by (auto intro!: div_nat_eqI simp del: unat_u8_less)
  then show "unat (drop_bit 31 v) \<le> 1" by simp
  have "unat v mod 256 = (if unat n + unat borrow \<le> unat s then unat s - (unat n + unat borrow)
     else unat s + 256 - (unat n + unat borrow))"
  proof (cases "unat n + unat borrow \<le> unat s")
    case True
    then show ?thesis using bounds by (simp add: v del: unat_u8_less)
  next
    case False
    then have "unat v = (unat s + 256 - (unat n + unat borrow)) + 16777215 * 256"
      "unat s + 256 - (unat n + unat borrow) < 256"
      using bounds assms(2) by (auto simp: v simp del: unat_u8_less)
    then show ?thesis using False by (simp only: mod_mult_self1 mod_less if_False)
  qed
  then show "unat (ucast v :: u8) + unat n + unat borrow = unat s + 256 * unat (drop_bit 31 v)"
    unfolding d unat_ucast_u32_u8 using bounds assms(2) by (auto simp del: unat_u8_less)
qed

lemma sub_limbs_val:
  assumes "length s = length n" "unat borrow \<le> 1" "sub_limbs s n borrow = (r, c)"
  shows "length r = length s \<and> unat c \<le> 1 \<and>
     val8 r + val8 n + unat borrow = val8 s + 256 ^ length s * unat c"
  using assms
proof (induction s n borrow arbitrary: r c rule: sub_limbs.induct)
  case (1 x xs y ys borrow)
  let ?v = "ucast x - ucast y - borrow :: u32"
  note limb = sub_limb [OF 1(3), of x y]
  obtain r' c' where rec: "sub_limbs xs ys (drop_bit 31 ?v) = (r', c')" by fastforce
  from 1(1) [OF refl _ limb(1) rec] 1(2) have IH: "length r' = length xs" "unat c' \<le> 1"
    "val8 r' + val8 ys + unat (drop_bit 31 ?v) = val8 xs + 256 ^ length xs * unat c'" by auto
  have r: "r = ucast ?v # r'" "c = c'" using 1(4) rec by (auto simp: Let_def)
  have "val8 r + val8 (y # ys) + unat borrow + 256 * unat (drop_bit 31 ?v) =
      (unat (ucast ?v :: u8) + unat y + unat borrow) + 256 * (val8 r' + val8 ys + unat (drop_bit 31 ?v))"
    by (simp add: r)
  also have "\<dots> = unat x + 256 * (val8 xs + 256 ^ length xs * unat c') + 256 * unat (drop_bit 31 ?v)"
    unfolding limb(2) IH(3) by simp
  finally show ?case using IH(1,2) r by (simp add: algebra_simps)
qed auto

lemma ucast_ucast_u8_u32: "ucast (ucast (x :: u8) :: u32) = x"
  by (rule bit_word_eqI) (simp add: bit_simps)

lemma mask_select_0: "length xs = length ys \<Longrightarrow> mask_select 0 xs ys = ys"
  by (induction xs ys rule: list_induct2) (simp_all add: mask_select_def ucast_ucast_u8_u32)

lemma mask_select_ones: "length xs = length ys \<Longrightarrow> mask_select (- 1) xs ys = xs"
  by (induction xs ys rule: list_induct2) (simp_all add: mask_select_def ucast_ucast_u8_u32)

lemma le_1_word_cases: "unat (w :: u32) \<le> 1 \<Longrightarrow> w = 0 \<or> w = 1"
  by (cases "unat w = 0") (auto simp: word_unat_eq_iff [of w 1] le_Suc_eq simp flip: unat_eq_zero)

lemma val8_mod_less: "val8 a < val8 n \<Longrightarrow> 0 < val8 n"
  by simp

lemma add_mod_val:
  assumes "length a = length n" "length b = length n" "val8 a < val8 n" "val8 b < val8 n"
  shows "length (add_mod a b n) = length n \<and> val8 (add_mod a b n) = (val8 a + val8 b) mod val8 n"
proof -
  obtain s c where add: "add_limbs a b 0 = (s, c)" by fastforce
  obtain r w where sub: "sub_limbs s n 0 = (r, w)" by fastforce
  let ?B = "256 ^ length n :: nat"
  have s: "length s = length n" "unat c \<le> 1" "val8 s + ?B * unat c = val8 a + val8 b"
    using add_limbs_val [OF _ _ add] assms by auto
  have r: "length r = length n" "unat w \<le> 1" "val8 r + val8 n = val8 s + ?B * unat w"
    using sub_limbs_val [OF _ _ sub] s by auto
  have bounds: "val8 s < ?B" "val8 r < ?B" "val8 n < ?B"
    using val8_bound [of s] val8_bound [of r] val8_bound [of n] s r by auto
  have result: "add_mod a b n = mask_select (0 - (c OR (w XOR 1))) r s"
    by (simp add: add_mod_def add sub)
  consider "c = 0" "w = 0" | "c = 0" "w = 1" | "c = 1" "w = 0" | "c = 1" "w = 1"
    using le_1_word_cases [OF s(2)] le_1_word_cases [OF r(2)] by blast
  then show ?thesis
  proof cases
    case 1
    then have "val8 r = val8 a + val8 b - val8 n" "val8 n \<le> val8 a + val8 b" using s(3) r(3) by auto
    with 1 show ?thesis
      using assms s r by (simp add: result mask_select_ones mod_if)
  next
    case 2
    then have "val8 a + val8 b < val8 n" "val8 s = val8 a + val8 b" using s(3) r(3) bounds by auto
    with 2 show ?thesis using s r by (simp add: result mask_select_0)
  next
    case 3
    then show ?thesis using s(3) r(3) bounds assms by auto
  next
    case 4
    then have "val8 r = val8 a + val8 b - val8 n" "val8 n \<le> val8 a + val8 b" using s(3) r(3) bounds by auto
    with 4 show ?thesis
      using assms s r by (simp add: result mask_select_ones mod_if)
  qed
qed

subsection \<open>Multiplication by doubling and adding\<close>

lemma val8_bit:
  assumes "k < length b * 8"
  shows "val8 b div 2 ^ k = 2 * (val8 b div 2 ^ Suc k) + (if bit (b ! (k div 8)) (k mod 8) then 1 else 0)"
proof -
  have "bit (val8 b) k = bit (b ! (k div 8)) (k mod 8)"
    using assms
  proof (induction b arbitrary: k)
    case (Cons x b)
    have val: "val8 (x # b) = unat x + 2 ^ 8 * val8 b" by simp
    show ?case
    proof (cases "k < 8")
      case True
      have "take_bit 8 (val8 (x # b)) = unat x"
        unfolding val by (simp add: take_bit_eq_mod)
      then have "bit (val8 (x # b)) k = bit (unat x) k"
        using True by (metis bit_take_bit_iff)
      with True show ?thesis by (simp add: bit_unsigned_iff bit_simps)
    next
      case False
      then obtain j where j: "k = j + 8" by (metis add.commute le_Suc_ex not_less)
      have "drop_bit 8 (val8 (x # b)) = val8 b"
        unfolding val by (simp add: drop_bit_eq_div)
      then have "bit (val8 (x # b)) k = bit (val8 b) j"
        by (metis bit_drop_bit_eq j add.commute comp_apply)
      with Cons j show ?thesis by (simp add: div_add_self2)
    qed
  qed simp
  moreover have "val8 b div 2 ^ Suc k = val8 b div 2 ^ k div 2"
    by (simp only: power_Suc2 div_mult2_eq)
  moreover have "val8 b div 2 ^ k = 2 * (val8 b div 2 ^ k div 2) + (if odd (val8 b div 2 ^ k) then 1 else 0)"
    by simp
  ultimately show ?thesis by (simp only: bit_iff_odd [of "val8 b" k])
qed

lemma mask_of_bit:
  "- (ucast (drop_bit n (w :: u8)) AND 1 :: u32) = (if bit w n then - 1 else 0)"
proof -
  have "ucast (drop_bit n w) AND 1 = (if bit w n then 1 else 0 :: u32)"
    by (rule bit_word_eqI) (auto simp: bit_simps intro!: gr0I)
  then show ?thesis by simp
qed

lemma multiply_step_val:
  assumes "length a = length n" "length b = length n" "val8 a < val8 n" "k < length n * 8"
    "length r = length n" "val8 r = (val8 a * (val8 b div 2 ^ Suc k)) mod val8 n"
  shows "length (multiply_step a b n k r) = length n \<and>
     val8 (multiply_step a b n k r) = (val8 a * (val8 b div 2 ^ k)) mod val8 n"
proof -
  have "val8 r < val8 n" using assms(3,6) by simp
  let ?d = "add_mod r r n"
  have d: "length ?d = length n" "val8 ?d = (2 * val8 a * (val8 b div 2 ^ Suc k)) mod val8 n"
    using add_mod_val [OF assms(5,5) \<open>val8 r < val8 n\<close> \<open>val8 r < val8 n\<close>] assms(6)
    by (auto simp: mod_add_eq mult_2 algebra_simps)
  have "val8 ?d < val8 n" using assms(3) d(2) by simp
  from add_mod_val [OF d(1) assms(1) this assms(3)]
  have e: "length (add_mod ?d a n) = length n"
    "val8 (add_mod ?d a n) = (2 * val8 a * (val8 b div 2 ^ Suc k) + val8 a) mod val8 n"
    by (auto simp: d(2) mod_add_left_eq)
  show ?thesis
    using assms(2,4) d e val8_bit [of k b]
    by (auto simp: multiply_step_def Let_def mask_of_bit mask_select_0 mask_select_ones algebra_simps)
qed

lemma fold_rev_upt_invariant:
  assumes "P m st" "\<And>k st. k < m \<Longrightarrow> P (Suc k) st \<Longrightarrow> P k (f k st)"
  shows "P 0 (fold f (rev [0..<m]) st)"
  using assms
proof (induction m arbitrary: st)
  case (Suc m)
  from Suc.IH [of "f m st"] Suc.prems show ?case by simp
qed simp

lemma multiply_val:
  assumes "length a = length n" "length b = length n" "val8 a < val8 n"
  shows "length (multiply a b n) = length n \<and> val8 (multiply a b n) = (val8 a * val8 b) mod val8 n"
proof -
  let ?P = "\<lambda>k r. length r = length n \<and> val8 r = (val8 a * (val8 b div 2 ^ k)) mod val8 n"
  have "val8 b < 2 ^ (length n * 8)"
    using val8_bound [of b] assms(2) by (simp add: power_mult mult.commute [of _ 8])
  then have "?P (length n * 8) (replicate (length n) 0)" by simp
  then have "?P 0 (multiply a b n)"
    unfolding multiply_def
    by (rule fold_rev_upt_invariant) (use multiply_step_val assms in auto)
  then show ?thesis by simp
qed

subsection \<open>The contract of a modular multiplier and square-and-multiply\<close>

text \<open>\<open>rep x v\<close> says that \<open>x\<close> is a reduced representation of \<open>v\<close> modulo the modulus.\<close>

definition power_bit :: "('a \<Rightarrow> 'a \<Rightarrow> 'a) \<Rightarrow> 'a \<Rightarrow> bool \<Rightarrow> 'a \<Rightarrow> 'a" where
  "power_bit mul base on acc = (if on then mul (mul acc acc) base else mul acc acc)"

definition bits_value :: "bool list \<Rightarrow> nat \<Rightarrow> nat" where
  "bits_value bits e = fold (\<lambda>on e. 2 * e + (if on then 1 else 0)) bits e"

locale modular_multiplier =
  fixes rep :: "'a \<Rightarrow> nat \<Rightarrow> bool"
    and mul :: "'a \<Rightarrow> 'a \<Rightarrow> 'a"
  assumes mul_rep: "rep a u \<Longrightarrow> rep b v \<Longrightarrow> rep (mul a b) (u * v)"
begin

lemma power_bits:
  assumes "rep base v" "rep acc (v ^ e)"
  shows "rep (fold (power_bit mul base) bits acc) (v ^ bits_value bits e)"
  using assms(2)
proof (induction bits arbitrary: acc e)
  case Nil
  then show ?case by (simp add: bits_value_def)
next
  case (Cons on bits)
  note square = mul_rep [OF Cons.prems Cons.prems]
  have "rep (power_bit mul base on acc) (v ^ (2 * e + (if on then 1 else 0)))"
    using square mul_rep [OF square assms(1)]
    by (simp add: power_bit_def mult_2 power_add mult.commute [of _ v])
  from Cons.IH [OF this] show ?case by (simp add: bits_value_def)
qed

end

definition limb_rep :: "u8 list \<Rightarrow> u8 list \<Rightarrow> nat \<Rightarrow> bool" where
  "limb_rep n x v \<longleftrightarrow> length x = length n \<and> val8 x < val8 n \<and> val8 x = v mod val8 n"

interpretation schoolbook: modular_multiplier "limb_rep n" "\<lambda>a b. multiply a b n" for n
proof
  fix a b u v
  assume "limb_rep n a u" "limb_rep n b v"
  then show "limb_rep n (multiply a b n) (u * v)"
    using multiply_val [of a n b] by (auto simp: limb_rep_def mod_mult_eq)
qed

subsection \<open>Exponents and comparisons in big-endian byte order\<close>

definition be_val :: "u8 list \<Rightarrow> nat" where
  "be_val bytes = val8 (rev bytes)"

definition exponent_bits :: "u8 list \<Rightarrow> nat \<Rightarrow> bool list" where
  "exponent_bits key sz = map (\<lambda>k. exponent_bit key sz k \<noteq> 0) [0..<sz * 8]"

lemma exponent_bit_cases: "exponent_bit key sz k = (if bit (key ! (sz + k div 8)) (7 - k mod 8) then 1 else 0)"
  unfolding exponent_bit_def by (rule bit_word_eqI) (auto simp: bit_simps intro!: gr0I)

lemma be_val_bit:
  assumes "length bytes = sz" "k < sz * 8"
  shows "be_val bytes div 2 ^ (sz * 8 - Suc k) =
     2 * (be_val bytes div 2 ^ (sz * 8 - k)) + (if bit (bytes ! (k div 8)) (7 - k mod 8) then 1 else 0)"
proof -
  let ?j = "sz * 8 - Suc k"
  have "k = 8 * (k div 8) + k mod 8" by simp
  then have j: "?j = 8 * (sz - 1 - k div 8) + (7 - k mod 8)"
    using assms(2) mod_less_divisor [of 8 k] by linarith
  have div: "?j div 8 = sz - 1 - k div 8" unfolding j by (simp add: div_mult_self3 less_imp_diff_less)
  have "(8 * q + r) mod 8 = r" if "r < 8" for q r :: nat using that by simp
  then have mod: "?j mod 8 = 7 - k mod 8" unfolding j by (simp only: less_imp_diff_less)
  have "k div 8 < sz" using assms(2) by (simp add: div_less_iff_less_mult)
  then have "rev bytes ! (?j div 8) = bytes ! (k div 8)"
    using assms(1) by (simp add: div rev_nth)
  moreover have "Suc ?j = sz * 8 - k" using assms(2) by simp
  ultimately show ?thesis
    using val8_bit [of ?j "rev bytes"] assms by (simp add: be_val_def mod)
qed

lemma exponent_bits_value:
  assumes "length key = 2 * sz"
  shows "bits_value (exponent_bits key sz) 0 = be_val (drop sz key)"
proof -
  let ?e = "drop sz key"
  have len: "length ?e = sz" using assms by simp
  have "bits_value (map (\<lambda>k. exponent_bit key sz k \<noteq> 0) [0..<m]) 0 = be_val ?e div 2 ^ (sz * 8 - m)"
    if "m \<le> sz * 8" for m
    using that
  proof (induction m)
    case 0
    have "be_val ?e < 2 ^ (sz * 8)"
      using val8_bound [of "rev ?e"] len by (simp add: be_val_def power_mult mult.commute [of _ 8])
    then show ?case by (simp add: bits_value_def)
  next
    case (Suc m)
    have "key ! (sz + m div 8) = ?e ! (m div 8)" using assms by simp
    with Suc be_val_bit [OF len, of m] show ?case
      by (simp add: bits_value_def exponent_bit_cases)
  qed
  from this [of "sz * 8"] show ?thesis by (simp add: exponent_bits_def)
qed

lemma memcmp_less: "length xs = length ys \<Longrightarrow> memcmp xs ys < 0 \<longleftrightarrow> be_val xs < be_val ys"
proof (induction xs ys rule: list_induct2)
  case (Cons x xs y ys)
  have eq: "be_val (x # xs) = be_val xs + 256 ^ length xs * unat x"
    "be_val (y # ys) = be_val ys + 256 ^ length xs * unat y"
    using Cons by (simp_all add: be_val_def limbs_append)
  have bounds: "be_val xs < 256 ^ length xs" "be_val ys < 256 ^ length xs"
    using val8_bound [of "rev xs"] val8_bound [of "rev ys"] Cons by (simp_all add: be_val_def)
  have gap: "p + B * a < q + B * b" if "p < B" "a < b" for p q a b B :: nat
  proof -
    have "B * Suc a \<le> B * b" using that(2) by (intro mult_le_mono2) simp
    then show ?thesis using that(1) by simp
  qed
  consider "x < y" | "y < x" | "x = y" by fastforce
  then show ?case
  proof cases
    case 1
    then show ?thesis using gap [OF bounds(1), of "unat x" "unat y"] by (simp add: eq word_less_nat_alt)
  next
    case 2
    then show ?thesis using gap [OF bounds(2), of "unat y" "unat x" "be_val xs"] by (simp add: eq word_less_nat_alt)
  next
    case 3
    then show ?thesis using Cons eq by simp
  qed
qed simp

subsection \<open>The three operations\<close>

lemma length_add_mod:
  assumes "length a = length n" "length b = length n"
  shows "length (add_mod a b n) = length n"
proof -
  obtain s c where add: "add_limbs a b 0 = (s, c)" by fastforce
  obtain r w where sub: "sub_limbs s n 0 = (r, w)" by fastforce
  from add_limbs_val [OF _ _ add] sub_limbs_val [OF _ _ sub] assms add sub show ?thesis
    by (simp add: add_mod_def mask_select_def Let_def)
qed

lemma length_multiply:
  assumes "length a = length n"
  shows "length (multiply a b n) = length n"
  unfolding multiply_def
  by (rule fold_rev_upt_invariant [where P = "\<lambda>k r. length r = length n"])
    (use assms in \<open>simp_all add: multiply_step_def mask_select_def length_add_mod Let_def\<close>)

lemma weak_step_power:
  assumes "length r = length n"
  shows "weak_step key base n k r =
     power_bit (\<lambda>a b. multiply a b n) base (exponent_bit key LIBMPQ_RSA_SIZE k \<noteq> 0) r"
  using assms
  by (simp add: weak_step_def Let_def power_bit_def exponent_bit_cases mask_select_0 mask_select_ones
      length_multiply)

lemma weak_loop_power:
  assumes "length r = length n"
  shows "fold (weak_step key base n) ks r =
     fold (power_bit (\<lambda>a b. multiply a b n) base) (map (\<lambda>k. exponent_bit key LIBMPQ_RSA_SIZE k \<noteq> 0) ks) r"
  using assms
  by (induction ks arbitrary: r) (auto simp: weak_step_power power_bit_def length_multiply)

lemma val8_one [simp]: "val8 (1 # replicate m 0) = 1"
  by simp

subsection \<open>Key validation\<close>

lemma fold_or_zero: "fold (\<lambda>i small. small OR f i) ks x = (0 :: u8) \<longleftrightarrow> x = 0 \<and> (\<forall>k \<in> set ks. f k = 0)"
proof (induction ks arbitrary: x)
  case (Cons k ks)
  have "x OR f k = 0 \<longleftrightarrow> x = 0 \<and> f k = 0" by (rule or_eq_0_iff)
  with Cons show ?case by auto
qed simp

lemma be_val_zero: "be_val bytes = 0 \<longleftrightarrow> (\<forall>b \<in> set bytes. b = 0)"
proof -
  have "val8 xs = 0 \<longleftrightarrow> (\<forall>b \<in> set xs. b = 0)" for xs
    by (induction xs) (auto simp: unat_eq_zero)
  then show ?thesis by (simp add: be_val_def)
qed

lemma be_val_zeros [simp]: "be_val (replicate m 0) = 0"
  by (simp add: be_val_zero)

lemma be_val_snoc: "be_val (xs @ [x]) = unat x + 256 * be_val xs"
  by (simp add: be_val_def)

lemma be_val_Cons: "be_val (x # xs) = be_val xs + 256 ^ length xs * unat x"
  by (simp add: be_val_def limbs_append)

lemma be_val_bound: "be_val xs < 256 ^ length xs"
  using val8_bound [of "rev xs"] by (simp add: be_val_def)

lemma and_exp_u8: "(w :: u8) AND 2 ^ n \<noteq> 0 \<longleftrightarrow> n < 8 \<and> odd (unat w div 2 ^ n)"
proof -
  have "bit (unat w) n \<longleftrightarrow> bit w n" by (simp add: bit_unsigned_iff)
  then show ?thesis
    using and_exp_eq_0_iff_not_bit [of w n] bit_imp_le_length [of w n] by (auto simp: bit_iff_odd)
qed

lemma be_val_odd:
  assumes "xs \<noteq> []"
  shows "odd (be_val xs) \<longleftrightarrow> last xs AND 1 \<noteq> 0"
proof -
  have "be_val xs = unat (last xs) + 256 * be_val (butlast xs)"
    using be_val_snoc [of "butlast xs" "last xs"] assms by simp
  then show ?thesis using and_exp_u8 [of "last xs" 0] by simp
qed

lemma be_val_top:
  assumes "xs \<noteq> []"
  shows "128 * 256 ^ (length xs - 1) \<le> be_val xs \<longleftrightarrow> hd xs AND 0x80 \<noteq> 0"
proof -
  let ?B = "256 ^ (length xs - 1) :: nat" and ?h = "unat (hd xs)"
  have val: "be_val xs = be_val (tl xs) + ?B * ?h" "be_val (tl xs) < ?B"
    using be_val_Cons [of "hd xs" "tl xs"] be_val_bound [of "tl xs"] assms by auto
  have "128 * ?B \<le> be_val xs \<longleftrightarrow> 128 \<le> ?h"
  proof
    assume *: "128 * ?B \<le> be_val xs"
    show "128 \<le> ?h"
    proof (rule ccontr)
      assume "\<not> 128 \<le> ?h"
      then have "?B * ?h \<le> ?B * 127" by (intro mult_le_mono2) simp
      with * val show False by linarith
    qed
  next
    assume "128 \<le> ?h"
    then have "?B * 128 \<le> ?B * ?h" by (rule mult_le_mono2)
    with val show "128 * ?B \<le> be_val xs" by linarith
  qed
  also have "\<dots> \<longleftrightarrow> odd (?h div 2 ^ 7)"
  proof
    assume "128 \<le> ?h"
    then have "?h div 128 = 1" using unat_u8_less [of "hd xs"] by (intro div_nat_eqI) auto
    then show "odd (?h div 2 ^ 7)" by simp
  next
    assume "odd (?h div 2 ^ 7)"
    then have "?h div 128 \<noteq> 0" by (intro notI) simp
    then show "128 \<le> ?h" by (simp add: div_eq_0_iff)
  qed
  also have "\<dots> \<longleftrightarrow> hd xs AND 0x80 \<noteq> 0" using and_exp_u8 [of "hd xs" 7] by simp
  finally show ?thesis .
qed

lemma be_val_lt_3:
  assumes "xs \<noteq> []"
  shows "be_val xs < 3 \<longleftrightarrow> (\<forall>b \<in> set (butlast xs). b = 0) \<and> last xs < 3"
proof -
  have "be_val xs = unat (last xs) + 256 * be_val (butlast xs)"
    using be_val_snoc [of "butlast xs" "last xs"] assms by simp
  then show ?thesis
    using be_val_zero [of "butlast xs"] by (auto simp: word_less_nat_alt)
qed

lemma rsa_key_validate_iff:
  assumes "length key = key_size"
  shows "rsa_key_validate (Some key) key_size ms =
     (let n = be_val (take ms key); e = be_val (drop ms key)
      in if 0 < ms \<and> ms \<le> 256 \<and> key_size = 2 * ms \<and> 128 * 256 ^ (ms - 1) \<le> n \<and> odd n \<and>
            odd e \<and> 3 \<le> e \<and> e < n
         then Inr () else Inl ERROR_FORMAT)"
proof (cases "0 < ms \<and> ms \<le> 256 \<and> key_size = 2 * ms")
  case False
  then show ?thesis by (auto simp: rsa_key_validate_def rsa_sizes Let_def)
next
  case True
  let ?n = "take ms key" and ?e = "drop ms key"
  from True assms have ne: "?n \<noteq> []" "?e \<noteq> []" "length ?n = ms" "length ?e = ms" by auto
  have ends: "hd ?n = key ! 0" "last ?n = key ! (ms - 1)" "last ?e = key ! (key_size - 1)"
    using True assms ne by (auto simp: hd_conv_nth last_conv_nth mult_2)
  have mid: "(\<forall>b \<in> set (butlast ?e). b = 0) \<longleftrightarrow> (\<forall>i \<in> set [ms..<key_size - 1]. key ! i = 0)"
  proof -
    have "butlast ?e = map (\<lambda>i. key ! i) [ms..<key_size - 1]"
      using True assms by (intro nth_equalityI) (auto simp: nth_butlast)
    then show ?thesis by auto
  qed
  show ?thesis
    using True assms be_val_odd [OF ne(1)] be_val_odd [OF ne(2)] be_val_top [OF ne(1)]
      be_val_lt_3 [OF ne(2)] memcmp_less [of ?e ?n]
    by (auto simp: rsa_key_validate_def rsa_sizes Let_def fold_or_zero ne ends mid not_less)
qed

lemma strong_key_validD:
  assumes "libmpq__rsa_strong_key_validate (Some key) LIBMPQ_RSA_STRONG_KEY_SIZE = Inr u" "length key = 512"
  shows "odd (be_val (take 256 key))" "1 < be_val (take 256 key)" "odd (be_val (drop 256 key))"
proof -
  have "rsa_key_validate (Some key) 512 256 = Inr ()"
    using assms(1) by (simp add: libmpq__rsa_strong_key_validate_def rsa_sizes)
  then show "odd (be_val (take 256 key))" "1 < be_val (take 256 key)" "odd (be_val (drop 256 key))"
    using rsa_key_validate_iff [of key 512 256] assms(2) by (auto simp: Let_def split: if_splits)
qed

lemma strong_public_fold:
  assumes "limb_rep n base v" "limb_rep n init 1"
    "started = (e \<noteq> 0)" "started \<Longrightarrow> limb_rep n r (v ^ e)" "\<not> started \<Longrightarrow> r = init"
    "fold (strong_public_step key base n) ks (started, r) = (started', r')"
    "e' = bits_value (map (\<lambda>k. exponent_bit key LIBMPQ_RSA_STRONG_SIZE k \<noteq> 0) ks) e"
  shows "started' = (e' \<noteq> 0) \<and> (started' \<longrightarrow> limb_rep n r' (v ^ e'))"
  using assms(3-)
proof (induction ks arbitrary: started r e)
  case Nil
  then show ?case by (auto simp: bits_value_def)
next
  case (Cons k ks)
  let ?on = "exponent_bit key LIBMPQ_RSA_STRONG_SIZE k \<noteq> 0"
  let ?e = "2 * e + (if ?on then 1 else 0)"
  obtain s2 r2 where step: "strong_public_step key base n k (started, r) = (s2, r2)" by fastforce
  have "s2 = (?e \<noteq> 0) \<and> (s2 \<longrightarrow> limb_rep n r2 (v ^ ?e)) \<and> (\<not> s2 \<longrightarrow> r2 = init)"
  proof (cases started)
    case False
    then show ?thesis
      using Cons.prems(1,3) step schoolbook.mul_rep [OF assms(2,1)]
      by (auto simp: strong_public_step_def Let_def split: if_splits)
  next
    case True
    note sq = schoolbook.mul_rep [OF Cons.prems(2) [OF True] Cons.prems(2) [OF True]]
    show ?thesis
      using True Cons.prems(1) step sq schoolbook.mul_rep [OF sq assms(1)]
      by (auto simp: strong_public_step_def Let_def mult_2 power_add mult.commute [of _ v] split: if_splits)
  qed
  then show ?case
    using Cons.IH [of s2 ?e r2] Cons.prems(4,5) step by (simp add: bits_value_def)
qed

subsection \<open>Montgomery multiplication\<close>

lemma unat_u64_less: "unat (w :: u64) < 18446744073709551616"
  using unsigned_less [of w] by simp

lemma unat_ucast_u64_u32: "unat (ucast (w :: u64) :: u32) = unat w mod 4294967296"
  by (simp add: unsigned_ucast_eq take_bit_eq_mod)

lemma unat_drop_32: "unat (drop_bit 32 (w :: u64)) = unat w div 4294967296"
  by (simp add: unat_drop_bit)

lemma mac_value:
  fixes t l m :: u32 and carry :: u64
  assumes "unat carry < 4294967296"
  shows "unat (ucast t + ucast l * ucast m + carry :: u64) = unat t + unat l * unat m + unat carry"
proof -
  have "unat l \<le> 4294967295" "unat m \<le> 4294967295"
    using unat_u32_less [of l] unat_u32_less [of m] by linarith+
  then have "unat l * unat m \<le> 4294967295 * 4294967295" by (rule mult_le_mono)
  then have "unat t + unat l * unat m + unat carry < 18446744073709551616"
    using unat_u32_less [of t] assms by linarith
  then show ?thesis by (simp add: unat_word_ariths mod_add_left_eq)
qed

lemma mac_row_val:
  assumes "length t = length l" "unat carry < 4294967296" "mac_row t l m carry = (r, c)"
  shows "length r = length t \<and> unat c < 4294967296 \<and>
     val32 r + 4294967296 ^ length t * unat c = val32 t + val32 l * unat m + unat carry"
  using assms
proof (induction t l m carry arbitrary: r c rule: mac_row.induct)
  case (1 x xs y ys m carry)
  let ?v = "ucast x + ucast y * ucast m + carry :: u64"
  note v = mac_value [OF 1(3), of x y m]
  have le: "unat (drop_bit 32 ?v) < 4294967296"
    using unat_u64_less [of ?v] by (simp add: unat_drop_32 div_less_iff_less_mult)
  obtain r' c' where rec: "mac_row xs ys m (drop_bit 32 ?v) = (r', c')" by fastforce
  from 1(1) [OF refl _ le rec] 1(2) have IH: "length r' = length xs" "unat c' < 4294967296"
    "val32 r' + 4294967296 ^ length xs * unat c' = val32 xs + val32 ys * unat m + unat ?v div 4294967296"
    by (auto simp: unat_drop_32)
  have r: "r = ucast ?v # r'" "c = c'" using 1(4) rec by (auto simp: Let_def)
  have "val32 r + 4294967296 ^ length (x # xs) * unat c =
      unat ?v mod 4294967296 + 4294967296 * (val32 r' + 4294967296 ^ length xs * unat c')"
    by (simp add: r unat_ucast_u64_u32 algebra_simps)
  also have "\<dots> = unat ?v + 4294967296 * (val32 xs + val32 ys * unat m)"
    unfolding IH(3) by (simp add: algebra_simps)
  also have "\<dots> = val32 (x # xs) + val32 (y # ys) * unat m + unat carry"
    unfolding v by (simp add: algebra_simps)
  finally show ?case using IH(1,2) r by simp
qed auto

definition mont_total :: "u32 list \<times> u32 \<times> u32 \<Rightarrow> nat" where
  "mont_total st = (case st of (t, high, tip) \<Rightarrow>
     val32 t + 4294967296 ^ length t * (unat high + 4294967296 * unat tip))"

lemma unat_add_u32_u64:
  assumes "unat (b :: u64) < 4294967296"
  shows "unat (ucast (a :: u32) + b) = unat a + unat b"
proof -
  have "unat a + unat b < 18446744073709551616" using unat_u32_less [of a] assms by linarith
  then show ?thesis by (simp add: unat_word_ariths)
qed

lemma unat_drop_32_less: "unat (drop_bit 32 (w :: u64)) < 4294967296"
  using unat_u64_less [of w] by (simp add: unat_drop_32 div_less_iff_less_mult)

lemma split_u64:
  "unat (w :: u64) = unat (ucast w :: u32) + 4294967296 * unat (ucast (drop_bit 32 w) :: u32)"
proof -
  from unat_drop_32_less [of w] show ?thesis by (simp add: unat_ucast_u64_u32 unat_drop_32)
qed

lemma montgomery_multiplier:
  fixes x minv n0 :: u32
  assumes "n0 * minv = - 1"
  shows "(unat x + unat n0 * unat (ucast (ucast x * ucast minv :: u64) :: u32)) mod 4294967296 = 0"
proof -
  have m: "(ucast (ucast x * ucast minv :: u64) :: u32) = x * minv"
    by (simp add: word_unat_eq_iff unat_ucast_u64_u32 unat_word_ariths mod_mod_cancel)
  have "x + n0 * (x * minv) = x + x * (n0 * minv)" by (simp add: ac_simps)
  also have "\<dots> = 0" by (simp add: assms)
  finally have "unat (x + n0 * (x * minv)) = 0" by simp
  then show ?thesis unfolding m by (simp add: unat_word_ariths mod_add_right_eq)
qed

lemma mac_row_first:
  assumes "mac_row (x # xs) (y # ys) m 0 = (r, c)" "(unat x + unat y * unat m) mod 4294967296 = 0"
  shows "hd r = 0"
proof -
  have "hd r = ucast (ucast x + ucast y * ucast m + 0 :: u64)"
    using assms(1) by (auto simp: Let_def split: prod.splits)
  moreover have "unat (ucast (ucast x + ucast y * ucast m + 0 :: u64) :: u32) = 0"
    unfolding unat_ucast_u64_u32 using mac_value [of 0 x y m] assms(2) by simp
  ultimately show ?thesis by (simp add: unat_eq_zero)
qed

lemma montgomery_step_total:
  assumes "length t = length n" "length left = length n" "n \<noteq> []" "hd n * minv = - 1"
    "montgomery_step left n minv r (t, high, 0) = (t', high', tip')"
  shows "length t' = length n \<and> (\<exists>m < 4294967296.
     mont_total (t', high', tip') * 4294967296 = mont_total (t, high, 0) + val32 left * unat r + m * val32 n)"
proof -
  let ?W = "4294967296 :: nat"
  let ?B = "?W ^ length n"
  obtain t1 c1 where row1: "mac_row t left r 0 = (t1, c1)" by fastforce
  define v1 where "v1 = (ucast high + c1 :: u64)"
  define h1 where "h1 = (ucast v1 :: u32)"
  define p1 where "p1 = (ucast (drop_bit 32 v1) :: u32)"
  define m where "m = (ucast (ucast (t1 ! 0) * ucast minv :: u64) :: u32)"
  obtain t2 c2 where row2: "mac_row t1 n m 0 = (t2, c2)" by fastforce
  define v2 where "v2 = (ucast h1 + c2 :: u64)"
  define v3 where "v3 = (ucast p1 + drop_bit 32 v2 :: u64)"
  have st': "t' = tl t2 @ [ucast v2]" "high' = ucast v3" "tip' = ucast (drop_bit 32 v3)"
    using assms(5) row1 row2
    by (auto simp: montgomery_step_def Let_def v1_def h1_def p1_def m_def v2_def v3_def)
  have r1: "length t1 = length n" "unat c1 < ?W" "val32 t1 + ?B * unat c1 = val32 t + val32 left * unat r"
    using mac_row_val [OF _ _ row1] assms by auto
  have r2: "length t2 = length n" "unat c2 < ?W" "val32 t2 + ?B * unat c2 = val32 t1 + val32 n * unat m"
    using mac_row_val [OF _ _ row2] r1 by auto
  have v1: "unat v1 = unat high + unat c1"
    unfolding v1_def by (rule unat_add_u32_u64 [OF r1(2)])
  have hp: "unat h1 + ?W * unat p1 = unat high + unat c1"
    unfolding h1_def p1_def using split_u64 [of v1] v1 by simp
  have v2: "unat v2 = unat h1 + unat c2"
    unfolding v2_def by (rule unat_add_u32_u64 [OF r2(2)])
  have v3: "unat v3 = unat p1 + unat v2 div ?W"
    unfolding v3_def by (simp only: unat_add_u32_u64 [OF unat_drop_32_less] unat_drop_32)
  have "t1 = hd t1 # tl t1" "n = hd n # tl n" using r1(1) assms(3) by (cases t1; cases n; simp)+
  then have "hd t2 = 0"
    using mac_row_first [of "hd t1" "tl t1" "hd n" "tl n" m t2 c2] row2 montgomery_multiplier [OF assms(4), of "hd t1"]
    by (metis m_def hd_conv_nth list.distinct(1))
  then have t2: "val32 t2 = ?W * val32 (tl t2)" "length (tl t2) = length n - 1"
    using r2(1) assms(3) by (cases t2; simp)+
  have "mont_total (t', high', tip') * ?W =
      ?W * val32 (tl t2) + ?B * (unat v2 mod ?W) + ?B * ?W * unat v3"
  proof -
    have B: "?B = ?W * ?W ^ (length n - 1)" using assms(3) by (cases n) auto
    have "length t' = length n" using st' t2 assms(3) by simp
    then have "mont_total (t', high', tip') = val32 t' + ?B * unat v3"
      using split_u64 [of v3] st' by (simp add: mont_total_def)
    moreover have "val32 t' = val32 (tl t2) + ?W ^ (length n - 1) * (unat v2 mod ?W)"
      using st' t2 by (simp add: limbs_append unat_ucast_u64_u32)
    ultimately show ?thesis unfolding B by (simp add: algebra_simps)
  qed
  also have "\<dots> = val32 t2 + ?B * (unat v2 mod ?W + ?W * (unat v2 div ?W) + ?W * unat p1)"
  proof -
    have "?W * x + ?B * a + ?B * ?W * (p + b) = ?W * x + ?B * (a + ?W * b + ?W * p)" for x a b p
      by (simp add: algebra_simps)
    then show ?thesis unfolding t2(1) v3 .
  qed
  also have "\<dots> = val32 t2 + ?B * (unat v2 + ?W * unat p1)"
    by (simp only: mod_mult_div_eq)
  also have "\<dots> = val32 t1 + val32 n * unat m + ?B * (unat h1 + ?W * unat p1)"
    unfolding v2 using r2(3) by (simp add: algebra_simps)
  also have "\<dots> = mont_total (t, high, 0) + val32 left * unat r + unat m * val32 n"
    unfolding hp mont_total_def using r1(3) assms(1) by (simp add: algebra_simps)
  finally show ?thesis
    using st' t2 assms(3) by (auto intro!: exI [of _ "unat m"])
qed

lemma mont_total_small:
  assumes "mont_total (t, high, tip) < 2 * val32 n" "length t = length n"
  shows "tip = 0 \<and> unat high \<le> 1"
proof -
  let ?B = "4294967296 ^ length n :: nat" and ?h = "unat high + 4294967296 * unat tip"
  have "?B * ?h \<le> mont_total (t, high, tip)" using assms(2) by (simp add: mont_total_def)
  with assms(1) val32_bound [of n] have "?B * ?h < 2 * ?B" by linarith
  then have h: "?h < 2" by (simp add: mult.commute [of 2])
  then have "unat tip = 0" "unat high \<le> 1" by linarith+
  then show ?thesis by (simp add: unat_eq_zero)
qed

lemma montgomery_step_bound:
  fixes T l r m n W :: nat
  assumes "T' * W = T + l * r + m * n" "T < 2 * n" "l < n" "r < W" "m < W"
  shows "T' < 2 * n"
proof -
  have "l * r \<le> n * (W - 1)" using assms by (intro mult_le_mono) auto
  moreover have "m * n \<le> n * (W - 1)" using assms by (subst mult.commute) (intro mult_le_mono; auto)
  moreover have "n * (W - 1) + n = n * W" using assms(4) by (cases W) auto
  ultimately have "T' * W < 2 * n * W" using assms(1,2) by linarith
  then show ?thesis by simp
qed

lemma montgomery_fold:
  assumes "length left = length n" "n \<noteq> []" "hd n * minv = - 1" "val32 left < val32 n"
    "fold (montgomery_step left n minv) right (replicate (length n) 0, 0, 0) = (t, high, tip)"
  shows "length t = length n \<and> mont_total (t, high, tip) < 2 * val32 n \<and>
     (\<exists>k. mont_total (t, high, tip) * 4294967296 ^ length right = val32 left * val32 right + k * val32 n)"
  using assms(5)
proof (induction right arbitrary: t high tip rule: rev_induct)
  case Nil
  then show ?case using assms(4) by (auto simp: mont_total_def)
next
  case (snoc r right)
  let ?W = "4294967296 :: nat"
  obtain t1 h1 p1 where st: "fold (montgomery_step left n minv) right (replicate (length n) 0, 0, 0) = (t1, h1, p1)"
    by (metis prod_cases3)
  from snoc.IH [OF st] obtain k where IH: "length t1 = length n" "mont_total (t1, h1, p1) < 2 * val32 n"
    "mont_total (t1, h1, p1) * ?W ^ length right = val32 left * val32 right + k * val32 n" by blast
  have p1: "p1 = 0" using mont_total_small [OF IH(2,1)] by simp
  have "montgomery_step left n minv r (t1, h1, 0) = (t, high, tip)" using snoc.prems st p1 by simp
  from montgomery_step_total [OF IH(1) assms(1-3) this] obtain m where m: "length t = length n" "m < ?W"
    "mont_total (t, high, tip) * ?W = mont_total (t1, h1, p1) + val32 left * unat r + m * val32 n"
    by (auto simp: p1)
  have "mont_total (t, high, tip) < 2 * val32 n"
    using montgomery_step_bound [OF m(3) IH(2) assms(4) unat_u32_less m(2)] .
  moreover have "mont_total (t, high, tip) * ?W ^ length (right @ [r]) =
      val32 left * val32 (right @ [r]) + (k + m * ?W ^ length right) * val32 n"
  proof -
    have "mont_total (t, high, tip) * ?W ^ length (right @ [r]) =
        (mont_total (t, high, tip) * ?W) * ?W ^ length right" by simp
    also have "\<dots> = mont_total (t1, h1, p1) * ?W ^ length right +
        (val32 left * unat r + m * val32 n) * ?W ^ length right"
      unfolding m(3) by (simp add: algebra_simps)
    also have "\<dots> = val32 left * val32 (right @ [r]) + (k + m * ?W ^ length right) * val32 n"
      unfolding IH(3) by (simp add: limbs_append algebra_simps)
    finally show ?thesis .
  qed
  ultimately show ?case using m(1) by blast
qed

lemma sub_word:
  fixes s n borrow :: u32
  defines "v \<equiv> ucast s - ucast n - ucast borrow :: u64"
  assumes "unat borrow \<le> 1"
  shows "unat (ucast (drop_bit 63 v) :: u32) \<le> 1"
    "unat (ucast v :: u32) + unat n + unat borrow = unat s + 4294967296 * unat (ucast (drop_bit 63 v) :: u32)"
proof -
  have bounds: "unat s < 4294967296" "unat n < 4294967296" by (rule unat_u32_less)+
  have "unat n + unat borrow < 18446744073709551616" using bounds assms(2) by linarith
  then have nb: "unat (ucast n + ucast borrow :: u64) = unat n + unat borrow"
    by (simp add: unat_word_ariths)
  have v: "unat v = (if unat n + unat borrow \<le> unat s then unat s - (unat n + unat borrow)
     else unat s + 18446744073709551616 - (unat n + unat borrow))"
    unfolding v_def diff_diff_eq by (simp add: unat_sub_if' nb word_size)
  have d: "unat (drop_bit 63 v) = (if unat n + unat borrow \<le> unat s then 0 else 1)"
    unfolding unat_drop_bit v using bounds assms(2)
    by (auto intro!: div_nat_eqI simp del: unat_u32_less)
  then have d': "unat (ucast (drop_bit 63 v) :: u32) = (if unat n + unat borrow \<le> unat s then 0 else 1)"
    by (simp add: unat_ucast_u64_u32)
  then show "unat (ucast (drop_bit 63 v) :: u32) \<le> 1" by simp
  have "unat v mod 4294967296 = (if unat n + unat borrow \<le> unat s then unat s - (unat n + unat borrow)
     else unat s + 4294967296 - (unat n + unat borrow))"
  proof (cases "unat n + unat borrow \<le> unat s")
    case True
    then show ?thesis using bounds by (simp add: v del: unat_u32_less)
  next
    case False
    then have "unat v = (unat s + 4294967296 - (unat n + unat borrow)) + 4294967295 * 4294967296"
      "unat s + 4294967296 - (unat n + unat borrow) < 4294967296"
      using bounds assms(2) by (auto simp: v simp del: unat_u32_less)
    then show ?thesis using False by (simp only: mod_mult_self1 mod_less if_False)
  qed
  then show "unat (ucast v :: u32) + unat n + unat borrow =
      unat s + 4294967296 * unat (ucast (drop_bit 63 v) :: u32)"
    unfolding d' unat_ucast_u64_u32 [of v] using bounds assms(2) by (auto simp del: unat_u32_less)
qed

lemma sub_words_val:
  assumes "length s = length n" "unat borrow \<le> 1" "sub_words s n borrow = (r, c)"
  shows "length r = length s \<and> unat c \<le> 1 \<and>
     val32 r + val32 n + unat borrow = val32 s + 4294967296 ^ length s * unat c"
  using assms
proof (induction s n borrow arbitrary: r c rule: sub_words.induct)
  case (1 x xs y ys borrow)
  let ?v = "ucast x - ucast y - ucast borrow :: u64"
  let ?d = "ucast (drop_bit 63 ?v) :: u32"
  note limb = sub_word [OF 1(3), of x y]
  obtain r' c' where rec: "sub_words xs ys ?d = (r', c')" by fastforce
  from 1(1) [OF refl _ limb(1) rec] 1(2) have IH: "length r' = length xs" "unat c' \<le> 1"
    "val32 r' + val32 ys + unat ?d = val32 xs + 4294967296 ^ length xs * unat c'" by auto
  have r: "r = ucast ?v # r'" "c = c'" using 1(4) rec by (auto simp: Let_def)
  have "val32 r + val32 (y # ys) + unat borrow + 4294967296 * unat ?d =
      (unat (ucast ?v :: u32) + unat y + unat borrow) + 4294967296 * (val32 r' + val32 ys + unat ?d)"
    by (simp add: r)
  also have "\<dots> = unat x + 4294967296 * (val32 xs + 4294967296 ^ length xs * unat c') + 4294967296 * unat ?d"
    unfolding limb(2) IH(3) by simp
  finally show ?case using IH(1,2) r by (simp add: algebra_simps)
qed auto

lemma word_select_0: "length xs = length ys \<Longrightarrow> word_select 0 xs ys = ys"
  by (induction xs ys rule: list_induct2) (simp_all add: word_select_def)

lemma word_select_ones: "length xs = length ys \<Longrightarrow> word_select (- 1) xs ys = xs"
  by (induction xs ys rule: list_induct2) (simp_all add: word_select_def)

definition mont_ok :: "u32 list \<Rightarrow> u32 \<Rightarrow> bool" where
  "mont_ok n minv \<longleftrightarrow> n \<noteq> [] \<and> odd (val32 n) \<and> hd n * minv = - 1"

definition mont_R :: "u32 list \<Rightarrow> nat" where "mont_R n = 4294967296 ^ length n"

lemma montgomery_multiply_val:
  assumes "mont_ok n minv" "length left = length n" "length right = length n" "val32 left < val32 n"
  shows "length (montgomery_multiply left right n minv) = length n \<and>
     val32 (montgomery_multiply left right n minv) < val32 n \<and>
     (val32 (montgomery_multiply left right n minv) * mont_R n) mod val32 n =
       (val32 left * val32 right) mod val32 n"
proof -
  obtain t high tip where run: "fold (montgomery_step left n minv) right (replicate (length n) 0, 0, 0) = (t, high, tip)"
    by (metis prod_cases3)
  let ?T = "mont_total (t, high, tip)" and ?B = "4294967296 ^ length n :: nat"
  from montgomery_fold [OF assms(2) _ _ assms(4) run] assms(1,3) obtain k where T: "length t = length n"
    "?T < 2 * val32 n" "?T * ?B = val32 left * val32 right + k * val32 n"
    by (auto simp: mont_ok_def)
  have tip: "tip = 0" "high = 0 \<or> high = 1"
    using mont_total_small [OF T(2,1)] le_1_word_cases by auto
  have total: "?T = val32 t + ?B * unat high" using T(1) tip(1) by (simp add: mont_total_def)
  obtain r w where sub: "sub_words t n 0 = (r, w)" by fastforce
  have r: "length r = length n" "w = 0 \<or> w = 1" "val32 r + val32 n = val32 t + ?B * unat w"
    using sub_words_val [OF _ _ sub] T(1) le_1_word_cases [of w] by auto
  have bounds: "val32 t < ?B" "val32 r < ?B" "val32 n < ?B"
    using val32_bound [of t] val32_bound [of r] val32_bound [of n] T(1) r(1) by auto
  let ?out = "montgomery_multiply left right n minv"
  have out: "?out = (if high \<noteq> 0 \<or> w = 0 then r else t)"
    using r(1,2) T(1) tip(2)
    by (auto simp: montgomery_multiply_def run sub word_select_0 word_select_ones)
  have val: "val32 ?out = (if val32 n \<le> ?T then ?T - val32 n else ?T)" 
    using tip(2) r(2,3) total bounds T(2) by (auto simp: out)
  have "(val32 ?out * ?B) mod val32 n = (?T * ?B) mod val32 n"
  proof (cases "val32 n \<le> ?T")
    case True
    then have "?T * ?B = (?T - val32 n) * ?B + ?B * val32 n"
      using add_mult_distrib [of "?T - val32 n" "val32 n" ?B] by (simp only: le_add_diff_inverse2 mult.commute [of ?B])
    with True show ?thesis by (simp add: val)
  qed (simp add: val)
  moreover have "length ?out = length n" using T(1) r(1) by (simp add: out)
  moreover have "val32 ?out < val32 n" using T(2) by (auto simp: val)
  ultimately show ?thesis using T(3) by (simp add: mont_R_def)
qed

lemma mod_mult_cancel:
  fixes a b c n :: nat
  assumes "(a * c) mod n = (b * c) mod n" "coprime c n"
  shows "a mod n = b mod n"
proof -
  have "(int a * int c) mod int n = (int b * int c) mod int n"
    using assms(1) by (metis of_nat_mult zmod_int)
  then have "int n dvd (int a - int b) * int c"
    by (simp add: mod_eq_dvd_iff left_diff_distrib)
  moreover have "coprime (int n) (int c)" using assms(2) by (simp add: coprime_commute)
  ultimately have "int n dvd int a - int b" by (simp add: coprime_dvd_mult_left_iff)
  then have "int a mod int n = int b mod int n" by (simp add: mod_eq_dvd_iff)
  then show ?thesis by (simp flip: zmod_int)
qed

lemma mont_R_coprime: "odd (val32 n) \<Longrightarrow> coprime (mont_R n) (val32 n)"
proof -
  have "mont_R n = 2 ^ (32 * length n)" by (simp add: mont_R_def power_mult)
  then show "odd (val32 n) \<Longrightarrow> coprime (mont_R n) (val32 n)" by simp
qed

definition mont_rep :: "u32 list \<Rightarrow> u32 \<Rightarrow> u32 list \<Rightarrow> nat \<Rightarrow> bool" where
  "mont_rep n minv x v \<longleftrightarrow> mont_ok n minv \<and> length x = length n \<and> val32 x < val32 n \<and>
     val32 x mod val32 n = (v * mont_R n) mod val32 n"

interpretation montgomery: modular_multiplier "mont_rep n minv"
  "\<lambda>a b. montgomery_multiply a b n minv" for n minv
proof
  fix a b u v
  assume "mont_rep n minv a u" "mont_rep n minv b v"
  then have rep: "mont_ok n minv" "length a = length n" "length b = length n" "val32 a < val32 n"
    "val32 a mod val32 n = (u * mont_R n) mod val32 n" "val32 b mod val32 n = (v * mont_R n) mod val32 n"
    by (auto simp: mont_rep_def)
  let ?m = "montgomery_multiply a b n minv" and ?N = "val32 n" and ?R = "mont_R n"
  note mul = montgomery_multiply_val [OF rep(1-4)]
  have "(val32 ?m * ?R) mod ?N = ((val32 a mod ?N) * (val32 b mod ?N)) mod ?N"
    using mul by (simp add: mod_mult_eq)
  also have "\<dots> = (u * ?R * (v * ?R)) mod ?N" unfolding rep(5,6) by (simp add: mod_mult_eq)
  also have "\<dots> = (u * v * ?R * ?R) mod ?N" by (simp add: ac_simps)
  finally have "val32 ?m mod ?N = (u * v * ?R) mod ?N"
    using mod_mult_cancel [of "val32 ?m" ?R ?N "u * v * ?R"] mont_R_coprime rep(1) by (simp add: mont_ok_def)
  with mul rep(1) show "mont_rep n minv ?m (u * v)" by (simp add: mont_rep_def)
qed

lemma montgomery_inverse_correct:
  assumes "odd (unat n0)"
  shows "n0 * montgomery_inverse n0 = - 1"
proof -
  define step where "step x = x * (2 - n0 * x)" for x :: u32
  have square: "1 - n0 * step x = (1 - n0 * x) ^ 2" for x
    by (simp add: step_def power2_eq_square algebra_simps)
  have "1 - n0 * (step ^^ k) 1 = (1 - n0) ^ (2 ^ k)" for k
  proof (induction k)
    case (Suc k)
    have "1 - n0 * (step ^^ Suc k) 1 = ((1 - n0) ^ 2 ^ k) ^ 2" using Suc square by simp
    also have "\<dots> = (1 - n0) ^ 2 ^ Suc k" by (simp add: power_mult [symmetric] mult.commute)
    finally show ?case .
  qed simp
  from this [of 5] have five: "1 - n0 * (step ^^ 5) 1 = (1 - n0) ^ 32" by simp
  have "bit n0 0" using assms by (simp flip: bit_0 add: bit_unsigned_iff)
  then have "odd n0" by (simp add: bit_0)
  then obtain k where "n0 = 2 * k + 1" by (elim oddE)
  then have "(1 - n0) ^ 32 = (2 * (- k)) ^ 32" by simp
  also have "\<dots> = 2 ^ 32 * (- k) ^ 32" by (simp only: power_mult_distrib)
  also have "(2 :: u32) ^ 32 = 0" by simp
  also have "0 * (- k) ^ 32 = 0" by simp
  finally have "n0 * (step ^^ 5) 1 = 1" using five by simp
  then show ?thesis
    by (simp add: montgomery_inverse_def step_def [abs_def])
qed

subsection \<open>Between bytes and words\<close>

lemma val8_le32_bytes: "val8 (le32_bytes v) = unat v"
proof -
  have "val8 (le32_bytes v) = unat v mod 256 + 256 * (unat v div 256 mod 256 +
      256 * (unat v div 256 div 256 mod 256 + 256 * (unat v div 256 div 256 div 256 mod 256)))"
    by (simp add: le32_bytes_def unat_ucast_u32_u8 unat_drop_bit div_mult2_eq [symmetric])
  also have "unat v div 256 div 256 div 256 mod 256 = unat v div 256 div 256 div 256"
    using unat_u32_less [of v] by (simp add: div_mult2_eq [symmetric] div_less_iff_less_mult)
  finally show ?thesis by simp
qed

lemma val8_words: "val8 (concat (map le32_bytes ws)) = val32 ws"
  by (induction ws) (simp_all add: limbs_append val8_le32_bytes)

lemma load_le32_val: "4 \<le> length bs \<Longrightarrow> unat (libmpq__load_le32 (Some bs)) = val8 (take 4 bs)"
  using le32.bytes_load [of bs] val8_le32_bytes by metis

lemma words_of_bytes:
  "length bs = 4 * w \<Longrightarrow> val32 (map (\<lambda>i. libmpq__load_le32 (Some (drop (4 * i) bs))) [0..<w]) = val8 bs"
proof (induction w arbitrary: bs)
  case (Suc w)
  have "map (\<lambda>i. libmpq__load_le32 (Some (drop (4 * i) bs))) [0..<Suc w] =
      libmpq__load_le32 (Some bs) # map (\<lambda>i. libmpq__load_le32 (Some (drop (4 * i) (drop 4 bs)))) [0..<w]"
    by (simp add: upt_conv_Cons map_Suc_upt [symmetric] add.commute del: upt_Suc)
  moreover have "val8 bs = val8 (take 4 bs) + 4294967296 * val8 (drop 4 bs)"
    using limbs_append [of 256 "take 4 bs" "drop 4 bs"] Suc.prems by simp
  ultimately show ?case
    using Suc.IH [of "drop 4 bs"] Suc.prems by (simp add: load_le32_val del: upt_Suc drop_drop)
qed simp

lemma montgomery_r_squared_val:
  assumes "n \<noteq> []" "1 < val32 n"
  shows "length (montgomery_r_squared n) = length n \<and>
     val32 (montgomery_r_squared n) = (mont_R n * mont_R n) mod val32 n"
proof -
  let ?bytes = "concat (map le32_bytes n)" and ?one = "1 # replicate (length n * 4 - 1) 0 :: u8 list"
  have len: "length ?bytes = 4 * length n" by (simp add: concat_map_width_length)
  have init: "length ?one = length ?bytes" using assms(1) len by (cases n) auto
  have "length (((\<lambda>v. add_mod v v ?bytes) ^^ k) ?one) = length ?bytes \<and>
      val8 (((\<lambda>v. add_mod v v ?bytes) ^^ k) ?one) = 2 ^ k mod val32 n" for k
  proof (induction k)
    case 0
    then show ?case using init assms(2) by simp
  next
    case (Suc k)
    let ?v = "((\<lambda>v. add_mod v v ?bytes) ^^ k) ?one"
    have "val8 ?v < val8 ?bytes" using Suc assms(2) by (simp add: val8_words)
    from add_mod_val [OF _ _ this this] Suc show ?case
      by (simp add: val8_words mod_add_eq mult_2)
  qed
  from this [of "length n * 64"] len
  have "length (montgomery_r_squared n) = length n"
    "val32 (montgomery_r_squared n) = 2 ^ (length n * 64) mod val32 n"
    by (simp_all add: montgomery_r_squared_def Let_def words_of_bytes)
  moreover have "mont_R n * mont_R n = 2 ^ (length n * 64)"
    by (simp add: mont_R_def power_mult mult.commute [of "length n"] flip: power_mult_distrib)
  ultimately show ?thesis by simp
qed

lemma be_words_Suc: "be_words bytes (Suc w) = libmpq__load_be32 (Some (drop (4 * w) bytes)) # be_words bytes w"
  by (simp add: be_words_def upt_conv_Cons map_Suc_upt [symmetric] del: upt_Suc)

lemma load_be32_val: "4 \<le> length bs \<Longrightarrow> unat (libmpq__load_be32 (Some bs)) = be_val (take 4 bs)"
proof -
  assume "4 \<le> length bs"
  then have "rev (le32_bytes (libmpq__load_be32 (Some bs))) = take 4 bs"
    using be32.bytes_load [of bs] by (simp add: be32_bytes_def)
  then have "rev (take 4 bs) = le32_bytes (libmpq__load_be32 (Some bs))" by (metis rev_rev_ident)
  then show ?thesis by (simp add: be_val_def val8_le32_bytes)
qed

lemma be_val_append: "be_val (xs @ ys) = be_val ys + 256 ^ length ys * be_val xs"
  by (simp add: be_val_def limbs_append)

lemma be_words_val:
  "4 * w \<le> length bytes \<Longrightarrow> length (be_words bytes w) = w \<and> val32 (be_words bytes w) = be_val (take (4 * w) bytes)"
proof (induction w)
  case 0
  then show ?case by (simp add: be_words_def be_val_def)
next
  case (Suc w)
  have "be_val (take (4 * Suc w) bytes) =
      be_val (take 4 (drop (4 * w) bytes)) + 4294967296 * be_val (take (4 * w) bytes)"
    using be_val_append [of "take (4 * w) bytes" "take 4 (drop (4 * w) bytes)"] Suc.prems
    by (simp add: take_add add.commute [of 4])
  with Suc show ?case by (simp add: be_words_Suc load_be32_val)
qed

lemma be_val_words: "be_val (concat (map be32_bytes (rev ws))) = val32 ws"
proof (induction ws)
  case (Cons w ws)
  have "be_val (be32_bytes w) = unat w" by (simp add: be_val_def be32_bytes_def val8_le32_bytes)
  with Cons show ?case by (simp add: be_val_append)
qed (simp add: be_val_def)

subsection \<open>The Montgomery exponentiation\<close>

lemma val32_one [simp]: "val32 (1 # replicate m 0) = 1"
  by simp

lemma mont_enter:
  assumes "mont_ok n minv" "1 < val32 n" "length x = length n" "val32 x < val32 n"
  shows "mont_rep n minv (montgomery_multiply x (montgomery_r_squared n) n minv) (val32 x)"
proof -
  have r2: "length (montgomery_r_squared n) = length n"
    "val32 (montgomery_r_squared n) = (mont_R n * mont_R n) mod val32 n"
    using montgomery_r_squared_val assms(1,2) by (auto simp: mont_ok_def)
  let ?m = "montgomery_multiply x (montgomery_r_squared n) n minv"
  note mul = montgomery_multiply_val [OF assms(1,3) r2(1) assms(4)]
  have "(val32 ?m * mont_R n) mod val32 n = (val32 x * mont_R n * mont_R n) mod val32 n"
    using mul by (simp add: r2(2) mod_mult_right_eq mult.assoc)
  then have "val32 ?m mod val32 n = (val32 x * mont_R n) mod val32 n"
    using mod_mult_cancel [of "val32 ?m" "mont_R n" "val32 n"] mont_R_coprime assms(1)
    by (simp add: mont_ok_def)
  with mul assms(1) show ?thesis by (simp add: mont_rep_def)
qed

lemma mont_leave:
  assumes "mont_rep n minv x v"
  shows "length (montgomery_multiply x (1 # replicate (length n - 1) 0) n minv) = length n \<and>
     val32 (montgomery_multiply x (1 # replicate (length n - 1) 0) n minv) = v mod val32 n"
proof -
  let ?m = "montgomery_multiply x (1 # replicate (length n - 1) 0) n minv"
  have rep: "mont_ok n minv" "length x = length n" "val32 x < val32 n"
    "val32 x mod val32 n = (v * mont_R n) mod val32 n" using assms by (auto simp: mont_rep_def)
  have "length (1 # replicate (length n - 1) 0 :: u32 list) = length n"
    using rep(1) by (cases n) (auto simp: mont_ok_def)
  from montgomery_multiply_val [OF rep(1,2) this rep(3)]
  have mul: "length ?m = length n" "val32 ?m < val32 n"
    "(val32 ?m * mont_R n) mod val32 n = (v * mont_R n) mod val32 n"
    using rep(4) by simp_all
  from mod_mult_cancel [OF mul(3) mont_R_coprime] rep(1) mul show ?thesis by (simp add: mont_ok_def)
qed

lemma strong_private_fold:
  assumes "mont_rep n minv base v" "mont_rep n minv r (v ^ e)"
  shows "mont_rep n minv (fold (strong_private_step key base n minv) ks r)
     (v ^ bits_value (map (\<lambda>k. exponent_bit key LIBMPQ_RSA_STRONG_SIZE k \<noteq> 0) ks) e)"
  using assms(2)
proof (induction ks arbitrary: r e)
  case Nil
  then show ?case by (simp add: bits_value_def)
next
  case (Cons k ks)
  let ?on = "exponent_bit key LIBMPQ_RSA_STRONG_SIZE k \<noteq> 0"
  note square = montgomery.mul_rep [OF Cons.prems Cons.prems]
  note both = montgomery.mul_rep [OF square assms(1)]
  have "strong_private_step key base n minv k r = power_bit (\<lambda>a b. montgomery_multiply a b n minv) base ?on r"
    using square both
    by (simp add: strong_private_step_def Let_def power_bit_def exponent_bit_cases word_select_0
        word_select_ones mont_rep_def)
  with montgomery.power_bits [OF assms(1) Cons.prems, of "[?on]"]
  have "mont_rep n minv (strong_private_step key base n minv k r) (v ^ bits_value [?on] e)" by simp
  from Cons.IH [OF this] show ?case by (simp add: bits_value_def)
qed

subsection \<open>Properties\<close>

text \<open>a raw key passes validation exactly when its halves are a full-width odd modulus and an odd
  exponent between three and the modulus; every other key is a format error.\<close>

theorem rsa_key_validate_correct:
  assumes "length key = key_size"
  shows "rsa_key_validate (Some key) key_size ms =
     (let n = be_val (take ms key); e = be_val (drop ms key)
      in if 0 < ms \<and> ms \<le> 256 \<and> key_size = 2 * ms \<and> 128 * 256 ^ (ms - 1) \<le> n \<and> odd n \<and>
            odd e \<and> 3 \<le> e \<and> e < n
         then Inr () else Inl ERROR_FORMAT)"
  by (rule rsa_key_validate_iff [OF assms])

theorem rsa_key_validate_correct_witness:
  "rsa_key_validate (Some [0x8F, 0x03]) 2 1 = Inr () \<and> rsa_key_validate (Some [0x8F, 0x02]) 2 1 = Inl ERROR_FORMAT"
  using rsa_key_validate_correct [of "[0x8F, 0x03]" 2 1] rsa_key_validate_correct [of "[0x8F, 0x02]" 2 1]
  by (simp add: be_val_def)

text \<open>the weak RSA operation computes modular exponentiation: for a 128-byte key of modulus and
  exponent with a modulus above one, it rejects inputs that are not below the modulus and otherwise
  returns 64 bytes that stand for the input to the power of the exponent, modulo the modulus.\<close>

theorem rsa_weak_operation_correct:
  assumes "length key = 128" "length input = 64" "1 < be_val (take 64 key)"
  shows "case libmpq__rsa_weak_operation key input of
       Inl e \<Rightarrow> e = ERROR_FORMAT \<and> be_val (take 64 key) \<le> be_val input
     | Inr out \<Rightarrow> be_val input < be_val (take 64 key) \<and> length out = 64 \<and>
         be_val out = be_val input ^ be_val (drop 64 key) mod be_val (take 64 key)"
proof (cases "be_val input < be_val (take 64 key)")
  case False
  then show ?thesis
    using assms memcmp_less [of input "take 64 key"]
    by (simp add: libmpq__rsa_weak_operation_def rsa_sizes)
next
  case True
  let ?n = "rev (take 64 key)" and ?base = "rev input"
  let ?r = "fold (power_bit (\<lambda>a b. multiply a b ?n) ?base) (exponent_bits key 64) (1 # replicate 63 0)"
  have result: "libmpq__rsa_weak_operation key input = Inr (rev ?r)"
    using assms True memcmp_less [of input "take 64 key"]
    by (simp add: libmpq__rsa_weak_operation_def rsa_sizes weak_loop_power exponent_bits_def
        del: upt_rec_numeral)
  have "limb_rep ?n ?base (be_val input)" "limb_rep ?n (1 # replicate 63 0) (be_val input ^ 0)"
    using assms True by (auto simp: limb_rep_def be_val_def)
  from schoolbook.power_bits [OF this, of "exponent_bits key 64"] exponent_bits_value [of key 64] assms(1)
  have "limb_rep ?n ?r (be_val input ^ be_val (drop 64 key))" by simp
  with assms(1) True show ?thesis
    by (simp add: result limb_rep_def) (simp add: be_val_def)
qed

theorem rsa_weak_operation_correct_witness:
  "\<exists>out. libmpq__rsa_weak_operation (replicate 63 0 @ [5] @ replicate 63 0 @ [3]) (replicate 63 0 @ [2]) = Inr out \<and>
     be_val out = 2 ^ 3 mod 5"
  using rsa_weak_operation_correct [of "replicate 63 0 @ [5] @ replicate 63 0 @ [3]" "replicate 63 0 @ [2]"]
  by (auto simp: be_val_snoc be_val_zeros split: sum.splits)

text \<open>C33: the strong public operation computes modular exponentiation on every validated key, for
  inputs below the modulus, and rejects the others; the start at the first set exponent bit and the
  skipped multiplications do not change the result.\<close>

theorem rsa_strong_public_correct:
  assumes "libmpq__rsa_strong_key_validate (Some key) LIBMPQ_RSA_STRONG_KEY_SIZE = Inr ()"
    "length key = 512" "length input = 256"
  shows "case libmpq__rsa_strong_public_operation (Some key) (Some input) (Some 256) of
       Inl e \<Rightarrow> e = ERROR_FORMAT \<and> be_val (take 256 key) \<le> be_val input
     | Inr out \<Rightarrow> be_val input < be_val (take 256 key) \<and> length out = 256 \<and>
         be_val out = be_val input ^ be_val (drop 256 key) mod be_val (take 256 key)"
proof (cases "be_val input < be_val (take 256 key)")
  case False
  then show ?thesis
    using assms memcmp_less [of input "take 256 key"]
    by (simp add: libmpq__rsa_strong_public_operation_def) (simp add: rsa_sizes)
next
  case True
  let ?n = "rev (take 256 key)" and ?base = "rev input" and ?one = "1 # replicate 255 0 :: u8 list"
  note valid = strong_key_validD [OF assms(1,2)]
  obtain started r where run: "fold (strong_public_step key ?base ?n) [0..<2048] (False, ?one) = (started, r)"
    by fastforce
  have "limb_rep ?n ?base (be_val input)" "limb_rep ?n ?one 1"
    using assms True valid by (auto simp: limb_rep_def be_val_def)
  from strong_public_fold [OF this _ _ _ run refl, of 0] exponent_bits_value [of key 256] assms(2) valid(3)
  have "started" "limb_rep ?n r (be_val input ^ be_val (drop 256 key))"
    by (auto simp: exponent_bits_def rsa_sizes simp del: upt_rec_numeral dest: odd_pos)
  with assms True run memcmp_less [of input "take 256 key"] show ?thesis
    by (simp add: libmpq__rsa_strong_public_operation_def del: upt_rec_numeral)
      (simp add: rsa_sizes limb_rep_def be_val_def del: upt_rec_numeral)
qed

definition sample_strong_key :: "u8 list" where
  "sample_strong_key = (0x80 # replicate 254 0 @ [1]) @ replicate 255 0 @ [3]"

lemma sample_strong_key_valid:
  "libmpq__rsa_strong_key_validate (Some sample_strong_key) LIBMPQ_RSA_STRONG_KEY_SIZE = Inr ()"
  "length sample_strong_key = 512" "be_val (drop 256 sample_strong_key) = 3"
  "be_val (replicate 255 0 @ [2]) < be_val (take 256 sample_strong_key)"
proof -
  have n: "take 256 sample_strong_key = 0x80 # replicate 254 0 @ [1]"
    and e: "drop 256 sample_strong_key = replicate 255 0 @ [3]"
    by (simp_all add: sample_strong_key_def)
  show len: "length sample_strong_key = 512" by (simp add: sample_strong_key_def)
  show e3: "be_val (drop 256 sample_strong_key) = 3" by (simp add: e be_val_snoc)
  have n_val: "be_val (take 256 sample_strong_key) = 1 + 128 * 256 ^ 255"
    unfolding n be_val_Cons be_val_snoc by simp
  show "be_val (replicate 255 0 @ [2]) < be_val (take 256 sample_strong_key)"
    unfolding n_val be_val_snoc be_val_zeros by simp
  show "libmpq__rsa_strong_key_validate (Some sample_strong_key) LIBMPQ_RSA_STRONG_KEY_SIZE = Inr ()"
    using rsa_key_validate_iff [of sample_strong_key 512 256] len
    by (simp add: libmpq__rsa_strong_key_validate_def rsa_sizes e3 n_val Let_def)
qed

theorem rsa_strong_public_correct_witness:
  "\<exists>out. libmpq__rsa_strong_public_operation (Some sample_strong_key) (Some (replicate 255 0 @ [2])) (Some 256) = Inr out \<and>
     be_val out = 2 ^ 3 mod be_val (take 256 sample_strong_key)"
  using rsa_strong_public_correct [OF sample_strong_key_valid(1,2), of "replicate 255 0 @ [2]"]
    sample_strong_key_valid(3,4)
  by (auto simp: be_val_snoc be_val_zeros split: sum.splits)

text \<open>C32: the strong private operation, with its Newton inverse, its Montgomery products and its
  fixed sequence of iterations, computes modular exponentiation on every validated key, for inputs
  below the modulus, and rejects the others.\<close>

theorem rsa_strong_private_correct:
  assumes "libmpq__rsa_strong_key_validate (Some key) LIBMPQ_RSA_STRONG_KEY_SIZE = Inr ()"
    "length key = 512" "length input = 256"
  shows "case libmpq__rsa_strong_private_operation (Some key) (Some input) (Some 256) of
       Inl e \<Rightarrow> e = ERROR_FORMAT \<and> be_val (take 256 key) \<le> be_val input
     | Inr out \<Rightarrow> be_val input < be_val (take 256 key) \<and> length out = 256 \<and>
         be_val out = be_val input ^ be_val (drop 256 key) mod be_val (take 256 key)"
proof (cases "be_val input < be_val (take 256 key)")
  case False
  then show ?thesis
    using assms memcmp_less [of input "take 256 key"]
    by (simp add: libmpq__rsa_strong_private_operation_def) (simp add: rsa_sizes)
next
  case True
  define n where "n = be_words key 64"
  define x where "x = be_words input 64"
  define minv where "minv = montgomery_inverse (n ! 0)"
  let ?one = "1 # replicate 63 0 :: u32 list"
  have n: "length n = 64" "val32 n = be_val (take 256 key)"
    using be_words_val [of 64 key] assms(2) by (auto simp: n_def)
  have x: "length x = 64" "val32 x = be_val input"
    using be_words_val [of 64 input] assms(3) by (auto simp: x_def)
  note valid = strong_key_validD [OF assms(1,2)]
  have "n \<noteq> []" using n(1) by auto
  moreover from this have "n ! 0 = hd n" by (simp add: hd_conv_nth)
  moreover have "odd (unat (hd n))"
  proof -
    have "odd (val32 n)" using valid(1) n(2) by simp
    then show ?thesis using \<open>n \<noteq> []\<close> by (cases n) simp_all
  qed
  ultimately have ok: "mont_ok n minv"
    using montgomery_inverse_correct [of "hd n"] valid(1) n(2) by (simp add: mont_ok_def minv_def)
  let ?b = "montgomery_multiply x (montgomery_r_squared n) n minv"
  let ?r = "fold (strong_private_step key ?b n minv) [0..<2048]
     (montgomery_multiply ?one (montgomery_r_squared n) n minv)"
  have b: "mont_rep n minv ?b (be_val input)"
    using mont_enter [OF ok _ _, of x] n x valid(2) True by simp
  have "mont_rep n minv (montgomery_multiply ?one (montgomery_r_squared n) n minv) (be_val input ^ 0)"
    using mont_enter [OF ok _ _, of ?one] n valid(2) by simp
  from strong_private_fold [OF b this, of key "[0..<2048]"] exponent_bits_value [of key 256] assms(2)
  have "mont_rep n minv ?r (be_val input ^ be_val (drop 256 key))"
    by (simp add: exponent_bits_def rsa_sizes del: upt_rec_numeral)
  from mont_leave [OF this] n
  have out: "length (montgomery_multiply ?r ?one n minv) = 64"
    "val32 (montgomery_multiply ?r ?one n minv) = be_val input ^ be_val (drop 256 key) mod be_val (take 256 key)"
    by simp_all
  have "libmpq__rsa_strong_private_operation (Some key) (Some input) (Some 256) =
      Inr (concat (map be32_bytes (rev (montgomery_multiply ?r ?one n minv))))"
    using assms True memcmp_less [of input "take 256 key"]
    by (simp add: libmpq__rsa_strong_private_operation_def del: upt_rec_numeral)
      (simp add: rsa_sizes Let_def n_def x_def minv_def del: upt_rec_numeral)
  with True out show ?thesis by (simp add: be_val_words concat_map_width_length)
qed

theorem rsa_strong_private_correct_witness:
  "\<exists>out. libmpq__rsa_strong_private_operation (Some sample_strong_key) (Some (replicate 255 0 @ [2])) (Some 256) = Inr out \<and>
     be_val out = 2 ^ 3 mod be_val (take 256 sample_strong_key)"
  using rsa_strong_private_correct [OF sample_strong_key_valid(1,2), of "replicate 255 0 @ [2]"]
    sample_strong_key_valid(3,4)
  by (auto simp: be_val_snoc be_val_zeros split: sum.splits)

text \<open>the PKCS1 encoding is the 64-byte block 00 01, a run of 27 bytes FF, 00, the MD5 DigestInfo
  prefix and the digest.\<close>

theorem rsa_md5_encode_layout:
  assumes "length digest = 16"
  shows "libmpq__rsa_md5_encode digest = [0, 1] @ replicate 27 0xFF @ [0] @ rsa_md5_prefix @ digest"
  using assms
  by (simp add: libmpq__rsa_md5_encode_def rsa_sizes rsa_md5_prefix_def write_at_def Let_def
      numeral_eq_Suc)

theorem rsa_md5_encode_layout_witness:
  "libmpq__rsa_md5_encode (replicate 16 7) =
     [0, 1] @ replicate 27 0xFF @ [0] @ rsa_md5_prefix @ replicate 16 7"
  by (rule rsa_md5_encode_layout) simp

end
