(* ===== verification/Mpq_Mpqe.thy ===== *)
theory Mpq_Mpqe
  imports Mpq_Tables
begin

text \<open>
  The MPQE layer, \<^verbatim>\<open>src/mpq-mpqe.c\<close>: key derivation from the authentication code and the transformation
  of one 64-byte chunk at its stream position. The straight-line updates of the code's local
  arrays are lists of (target, left, right, count) and of (word, word) pairs that a fold applies
  in the order of the statements. The main results: the transformation is the Salsa20 core of the
  key with the chunk number as its counter, exclusive-ored into the chunk, and so its own inverse.
\<close>

subsection \<open>Key derivation\<close>

definition LIBMPQ_MPQE_CHUNK_SIZE :: nat where "LIBMPQ_MPQE_CHUNK_SIZE = 64"
definition LIBMPQ_MPQE_AUTH_CODE_MINIMUM :: nat where "LIBMPQ_MPQE_AUTH_CODE_MINIMUM = 32"

definition libmpq__mpqe_clear :: "u8 list \<Rightarrow> u8 list" where
  "libmpq__mpqe_clear buffer = map (\<lambda>_. 0) buffer"

definition rol32 :: "u32 \<Rightarrow> nat \<Rightarrow> u32" where
  "rol32 value n = (push_bit n value OR drop_bit (32 - n) value)"

text \<open>The characters \<^verbatim>\<open>"expand 32-byte k"\<close> and 48 digits zero.\<close>

definition template_key :: "u8 list" where
  "template_key = [0x65, 0x78, 0x70, 0x61, 0x6E, 0x64, 0x20, 0x33, 0x32, 0x2D, 0x62, 0x79, 0x74,
     0x65, 0x20, 0x6B] @ replicate 48 0x30"

definition source_words :: "nat list" where "source_words = [3, 7, 2, 6, 1, 5, 0, 4]"
definition target_words :: "nat list" where "target_words = [0, 2, 3, 5, 6, 8, 9, 11]"

definition libmpq__mpqe_key :: "out_ptr \<Rightarrow> ptr \<Rightarrow> nat \<Rightarrow> u8 list result" where
  "libmpq__mpqe_key key auth_code auth_code_size =
     (case (key, auth_code) of
        (Some _, Some auth) \<Rightarrow>
          if auth_code_size < LIBMPQ_MPQE_AUTH_CODE_MINIMUM then Inl ERROR_DECRYPT
          else Inr (fold (\<lambda>i derived_key.
                 libmpq__store_le32 derived_key ((4 + target_words ! i) * 4)
                   (libmpq__load_le32 (Some (drop (source_words ! i * 4) auth)))) [0..<8] template_key)
      | _ \<Rightarrow> Inl ERROR_DECRYPT)"

subsection \<open>The chunk transformation\<close>

definition mpqe_key_mirror :: "u8 list \<Rightarrow> u64 \<Rightarrow> u32 list" where
  "mpqe_key_mirror key chunk_number =
     (let key_mirror = map (\<lambda>i. libmpq__load_le32 (Some (drop (i * 4) key))) [0..<16]
      in key_mirror[5 := ucast (drop_bit 32 chunk_number), 8 := ucast chunk_number])"

definition mpqe_shuffle :: "u32 list \<Rightarrow> u32 list" where
  "mpqe_shuffle key_mirror =
     (replicate 16 0)
       [14 := key_mirror ! 0, 12 := key_mirror ! 1, 5 := key_mirror ! 2, 15 := key_mirror ! 3,
        10 := key_mirror ! 4, 7 := key_mirror ! 5, 11 := key_mirror ! 6, 9 := key_mirror ! 7,
        3 := key_mirror ! 8, 6 := key_mirror ! 9, 8 := key_mirror ! 10, 13 := key_mirror ! 11,
        2 := key_mirror ! 12, 4 := key_mirror ! 13, 1 := key_mirror ! 14, 0 := key_mirror ! 15]"

definition mpqe_op :: "nat \<times> nat \<times> nat \<times> nat \<Rightarrow> u32 list \<Rightarrow> u32 list" where
  "mpqe_op = (\<lambda>(t, a, b, n) s. s[t := s ! t XOR rol32 (s ! a + s ! b) n])"

definition mpqe_first_half :: "(nat \<times> nat \<times> nat \<times> nat) list" where
  "mpqe_first_half =
     [(10, 14, 2, 7), (3, 10, 14, 9), (2, 3, 10, 13), (14, 2, 3, 18),
      (7, 12, 4, 7), (6, 7, 12, 9), (4, 6, 7, 13), (12, 4, 6, 18),
      (11, 5, 1, 7), (8, 11, 5, 9), (1, 8, 11, 13), (5, 1, 8, 18),
      (9, 15, 0, 7), (13, 9, 15, 9), (0, 13, 9, 13), (15, 0, 13, 18)]"

definition mpqe_second_half :: "(nat \<times> nat \<times> nat \<times> nat) list" where
  "mpqe_second_half =
     [(4, 14, 9, 7), (8, 4, 14, 9), (9, 8, 4, 13), (14, 9, 8, 18),
      (1, 12, 10, 7), (13, 1, 12, 9), (10, 13, 1, 13), (12, 10, 13, 18),
      (0, 5, 7, 7), (3, 0, 5, 9), (7, 3, 0, 13), (5, 7, 3, 18),
      (2, 15, 11, 7), (6, 2, 15, 9), (11, 6, 2, 13), (15, 11, 6, 18)]"

definition mpqe_double_round :: "u32 list \<Rightarrow> u32 list" where
  "mpqe_double_round s = fold mpqe_op mpqe_second_half (fold mpqe_op mpqe_first_half s)"

definition mpqe_mirror_words :: "(nat \<times> nat) list" where
  "mpqe_mirror_words =
     [(14, 0), (4, 13), (8, 10), (9, 7), (10, 4), (12, 1), (1, 14), (13, 11),
      (3, 8), (7, 5), (5, 2), (0, 15), (2, 12), (6, 9), (11, 6), (15, 3)]"

definition libmpq__mpqe_transform_chunk :: "u8 list \<Rightarrow> u8 list \<Rightarrow> u64 \<Rightarrow> u8 list" where
  "libmpq__mpqe_transform_chunk chunk key pos =
     (let chunk_number = pos div 64;
          key_mirror = mpqe_key_mirror key chunk_number;
          shuffled = (mpqe_double_round ^^ 10) (mpqe_shuffle key_mirror);
          mirror = map (\<lambda>i. libmpq__load_le32 (Some (drop (i * 4) chunk))) [0..<16];
          mirror = map2 (\<lambda>m (s, k). m XOR (shuffled ! s + key_mirror ! k)) mirror mpqe_mirror_words
      in fold (\<lambda>i chunk. libmpq__store_le32 chunk (i * 4) (mirror ! i)) [0..<16] chunk)"

subsection \<open>Salsa20, as its specification defines it\<close>

definition quarterround :: "u32 \<Rightarrow> u32 \<Rightarrow> u32 \<Rightarrow> u32 \<Rightarrow> u32 \<times> u32 \<times> u32 \<times> u32" where
  "quarterround y0 y1 y2 y3 =
     (let z1 = y1 XOR rol32 (y0 + y3) 7;
          z2 = y2 XOR rol32 (z1 + y0) 9;
          z3 = y3 XOR rol32 (z2 + z1) 13;
          z0 = y0 XOR rol32 (z3 + z2) 18
      in (z0, z1, z2, z3))"

definition on_quarter :: "nat \<Rightarrow> nat \<Rightarrow> nat \<Rightarrow> nat \<Rightarrow> u32 list \<Rightarrow> u32 list" where
  "on_quarter a b c d x =
     (case quarterround (x ! a) (x ! b) (x ! c) (x ! d) of
        (z0, z1, z2, z3) \<Rightarrow> x[a := z0, b := z1, c := z2, d := z3])"

definition columnround :: "u32 list \<Rightarrow> u32 list" where
  "columnround x = on_quarter 15 3 7 11 (on_quarter 10 14 2 6 (on_quarter 5 9 13 1 (on_quarter 0 4 8 12 x)))"

definition rowround :: "u32 list \<Rightarrow> u32 list" where
  "rowround x = on_quarter 15 12 13 14 (on_quarter 10 11 8 9 (on_quarter 5 6 7 4 (on_quarter 0 1 2 3 x)))"

definition salsa20_core :: "u32 list \<Rightarrow> u32 list" where
  "salsa20_core x = map2 (+) (((rowround \<circ> columnround) ^^ 10) x) x"

text \<open>Where the code keeps word \<open>j\<close> of the Salsa20 state.\<close>

definition mpqe_place :: "u32 list \<Rightarrow> u32 list" where
  "mpqe_place s = map (\<lambda>(i, _). s ! i) mpqe_mirror_words"

lemma list_16:
  assumes "length s = 16"
  shows "s = [s ! 0, s ! 1, s ! 2, s ! 3, s ! 4, s ! 5, s ! 6, s ! 7, s ! 8, s ! 9, s ! 10, s ! 11, s ! 12, s ! 13, s ! 14, s ! 15]"
  using assms by (intro nth_equalityI) (auto simp: less_Suc_eq numeral_eq_Suc)

lemma half_columnround_words:
  "mpqe_place (fold mpqe_op mpqe_first_half [a0, a1, a2, a3, a4, a5, a6, a7, a8, a9, a10, a11, a12, a13, a14, a15]) = columnround (mpqe_place [a0, a1, a2, a3, a4, a5, a6, a7, a8, a9, a10, a11, a12, a13, a14, a15])"
  by (simp add: mpqe_place_def mpqe_mirror_words_def columnround_def on_quarter_def quarterround_def
      mpqe_first_half_def mpqe_op_def Let_def)

lemma half_rowround_words:
  "mpqe_place (fold mpqe_op mpqe_second_half [a0, a1, a2, a3, a4, a5, a6, a7, a8, a9, a10, a11, a12, a13, a14, a15]) = rowround (mpqe_place [a0, a1, a2, a3, a4, a5, a6, a7, a8, a9, a10, a11, a12, a13, a14, a15])"
  by (simp add: mpqe_place_def mpqe_mirror_words_def rowround_def on_quarter_def quarterround_def
      mpqe_second_half_def mpqe_op_def Let_def)

lemma half_columnround:
  "length s = 16 \<Longrightarrow> mpqe_place (fold mpqe_op mpqe_first_half s) = columnround (mpqe_place s)"
  by (subst (1 2) list_16) (assumption | rule half_columnround_words)+

lemma half_rowround:
  "length s = 16 \<Longrightarrow> mpqe_place (fold mpqe_op mpqe_second_half s) = rowround (mpqe_place s)"
  by (subst (1 2) list_16) (assumption | rule half_rowround_words)+

lemma length_mpqe_ops: "length (fold mpqe_op ops s) = length s"
  by (induction ops arbitrary: s) (auto simp: mpqe_op_def)

lemma length_mpqe_double_round: "length (mpqe_double_round s) = length s"
  by (simp add: mpqe_double_round_def length_mpqe_ops)

lemma rounds_salsa20:
  "length s = 16 \<Longrightarrow> length ((mpqe_double_round ^^ k) s) = 16 \<and>
     mpqe_place ((mpqe_double_round ^^ k) s) = ((rowround \<circ> columnround) ^^ k) (mpqe_place s)"
  by (induction k)
    (simp_all add: length_mpqe_double_round,
     simp add: mpqe_double_round_def half_rowround half_columnround length_mpqe_ops)

text \<open>The Salsa20 input block: constants, key and counter in the order of the specification.\<close>

definition salsa20_block :: "u32 list \<Rightarrow> u32 list" where
  "salsa20_block key_mirror = map (\<lambda>(_, k). key_mirror ! k) mpqe_mirror_words"

lemma replicate_words:
  "replicate 16 x = [x, x, x, x, x, x, x, x, x, x, x, x, x, x, x, x]"
  "replicate 12 x = [x, x, x, x, x, x, x, x, x, x, x, x]"
  by (simp_all add: numeral_eq_Suc)

lemma shuffle_words:
  "mpqe_shuffle km = [km ! 15, km ! 14, km ! 12, km ! 8, km ! 13, km ! 2, km ! 9, km ! 5,
     km ! 10, km ! 7, km ! 4, km ! 6, km ! 1, km ! 11, km ! 0, km ! 3]"
  unfolding mpqe_shuffle_def replicate_words
  by simp

lemma place_shuffle: "mpqe_place (mpqe_shuffle km) = salsa20_block km"
  by (simp add: mpqe_place_def shuffle_words salsa20_block_def mpqe_mirror_words_def)

definition mpqe_keystream :: "u8 list \<Rightarrow> u64 \<Rightarrow> u32 list" where
  "mpqe_keystream key chunk_number = salsa20_core (salsa20_block (mpqe_key_mirror key chunk_number))"

lemma length_on_quarter [simp]: "length (on_quarter a b c d x) = length x"
  by (simp add: on_quarter_def split: prod.split)

lemma length_rounds: "length x = 16 \<Longrightarrow> length (((rowround \<circ> columnround) ^^ k) x) = 16"
  by (induction k) (simp_all add: rowround_def columnround_def)

lemma length_keystream [simp]: "length (mpqe_keystream key n) = 16"
  by (simp add: mpqe_keystream_def salsa20_core_def length_rounds salsa20_block_def mpqe_mirror_words_def)

lemma length_key_mirror [simp]: "length (mpqe_key_mirror key n) = 16"
  by (simp add: mpqe_key_mirror_def Let_def)

lemma mirror_keystream:
  assumes "i < 16"
  shows "(mpqe_double_round ^^ 10) (mpqe_shuffle (mpqe_key_mirror key n)) ! fst (mpqe_mirror_words ! i) +
      mpqe_key_mirror key n ! snd (mpqe_mirror_words ! i) = mpqe_keystream key n ! i"
proof -
  let ?k = "mpqe_key_mirror key n" and ?b = "salsa20_block (mpqe_key_mirror key n)"
  have i: "i < length mpqe_mirror_words" using assms by (simp add: mpqe_mirror_words_def)
  have len: "length (mpqe_shuffle ?k) = 16" by (simp add: mpqe_shuffle_def)
  have b: "length ?b = 16" by (simp add: salsa20_block_def mpqe_mirror_words_def)
  have "(mpqe_double_round ^^ 10) (mpqe_shuffle ?k) ! fst (mpqe_mirror_words ! i) =
      mpqe_place ((mpqe_double_round ^^ 10) (mpqe_shuffle ?k)) ! i"
    using i by (simp add: mpqe_place_def case_prod_beta)
  also have "\<dots> = ((rowround \<circ> columnround) ^^ 10) ?b ! i"
    using rounds_salsa20 [OF len, of 10] by (simp add: place_shuffle)
  finally show ?thesis
    using i assms b length_rounds [OF b, of 10]
    by (simp add: mpqe_keystream_def salsa20_core_def salsa20_block_def case_prod_beta)
qed

interpretation word_codec: wire_table 4 le32_bytes libmpq__load_le32 libmpq__store_le32
  by unfold_locales simp

text \<open>A chunk as its sixteen little-endian words.\<close>

definition chunk_words :: "u8 list \<Rightarrow> u32 list" where
  "chunk_words chunk = map (\<lambda>i. libmpq__load_le32 (Some (drop (i * 4) chunk))) [0..<16]"

lemma length_chunk_words [simp]: "length (chunk_words chunk) = 16"
  by (simp add: chunk_words_def)

lemma transform_chunk_keystream:
  assumes "length chunk = 64"
  shows "libmpq__mpqe_transform_chunk chunk key pos =
     concat (map le32_bytes (map2 (XOR) (chunk_words chunk) (mpqe_keystream key (pos div 64))))"
proof -
  let ?k = "mpqe_key_mirror key (pos div 64)"
  let ?m = "map2 (\<lambda>m (s, k). m XOR ((mpqe_double_round ^^ 10) (mpqe_shuffle ?k) ! s + ?k ! k))
      (chunk_words chunk) mpqe_mirror_words"
  have sixteen: "length mpqe_mirror_words = 16" by (simp add: mpqe_mirror_words_def)
  then have words: "?m = map2 (XOR) (chunk_words chunk) (mpqe_keystream key (pos div 64))"
    by (intro nth_equalityI) (simp_all add: case_prod_beta mirror_keystream)
  have "libmpq__mpqe_transform_chunk chunk key pos =
      fold (\<lambda>i chunk. libmpq__store_le32 chunk (i * 4) (?m ! i)) [0..<16] chunk"
    unfolding libmpq__mpqe_transform_chunk_def Let_def chunk_words_def by (rule refl)
  also have "\<dots> = write_at chunk 0 (concat (map le32_bytes ?m))"
    using word_codec.store_loop [of ?m chunk 16] assms sixteen by simp
  also have "\<dots> = concat (map le32_bytes ?m)"
    using word_codec.length_table [of ?m] assms sixteen by (intro write_at_full) simp
  finally show ?thesis using words by simp
qed

lemma chunk_words_transform:
  assumes "length chunk = 64"
  shows "chunk_words (libmpq__mpqe_transform_chunk chunk key pos) =
     map2 (XOR) (chunk_words chunk) (mpqe_keystream key (pos div 64))"
  using word_codec.load_table
    [of "map2 (XOR) (chunk_words chunk) (mpqe_keystream key (pos div 64))" "[]"]
  by (simp add: transform_chunk_keystream [OF assms] chunk_words_def)

lemma concat_chunk_words: "length chunk = 64 \<Longrightarrow> concat (map le32_bytes (chunk_words chunk)) = chunk"
  using word_codec.bytes_of_loaded_table [of 16 chunk] by (simp add: chunk_words_def)

lemma length_transform_chunk [simp]:
  "length chunk = 64 \<Longrightarrow> length (libmpq__mpqe_transform_chunk chunk key pos) = 64"
  using word_codec.length_table
    [of "map2 (XOR) (chunk_words chunk) (mpqe_keystream key (pos div 64))"]
  by (simp add: transform_chunk_keystream)

lemma map2_xor_cancel:
  "length xs = length ks \<Longrightarrow> map2 (XOR) (map2 (XOR) xs ks) ks = (xs :: u32 list)"
  by (intro nth_equalityI) simp_all

lemma transform_chunk_involution:
  assumes "length chunk = 64"
  shows "libmpq__mpqe_transform_chunk (libmpq__mpqe_transform_chunk chunk key pos) key pos = chunk"
  using assms
  by (simp add: transform_chunk_keystream [of "libmpq__mpqe_transform_chunk chunk key pos"]
      chunk_words_transform map2_xor_cancel concat_chunk_words)

interpretation mpqe: buffer_cipher
  "\<lambda>(key, pos) chunk. libmpq__mpqe_transform_chunk chunk key pos"
  "\<lambda>(key, pos) chunk. libmpq__mpqe_transform_chunk chunk key pos"
  "\<lambda>chunk. length chunk = 64"
  by unfold_locales (auto simp: transform_chunk_involution)

subsection \<open>Properties\<close>

text \<open>The input block that the Salsa20 specification builds from a 256-bit key, a 64-bit nonce and
  a 64-bit block counter: the constant \<^verbatim>\<open>"expand 32-byte k"\<close> on the diagonal, the key around it.\<close>

definition auth_word :: "u8 list \<Rightarrow> nat \<Rightarrow> u32" where
  "auth_word auth i = libmpq__load_le32 (Some (drop (i * 4) auth))"

definition salsa20_input :: "(nat \<Rightarrow> u32) \<Rightarrow> u32 \<Rightarrow> u32 \<Rightarrow> u64 \<Rightarrow> u32 list" where
  "salsa20_input k n0 n1 counter =
     [0x61707865, k 0, k 1, k 2,
      k 3, 0x3320646E, n0, n1,
      ucast counter, ucast (drop_bit 32 counter), 0x79622D32, k 4,
      k 5, k 6, k 7, 0x6B206574]"

text \<open>The derived key written out as sixteen words.\<close>

definition derived_words :: "u8 list \<Rightarrow> u32 list" where
  "derived_words auth =
     [0x61707865, 0x3320646E, 0x79622D32, 0x6B206574,
      auth_word auth 3, 0x30303030, auth_word auth 7, auth_word auth 2,
      0x30303030, auth_word auth 6, auth_word auth 1, 0x30303030,
      auth_word auth 5, auth_word auth 0, 0x30303030, auth_word auth 4]"

lemma template_words:
  "template_key = concat (map le32_bytes
     ([0x61707865, 0x3320646E, 0x79622D32, 0x6B206574] @ replicate 12 0x30303030))"
  by code_simp

lemma store_word_table:
  assumes "i < length es"
  shows "libmpq__store_le32 (concat (map le32_bytes es)) (i * 4) v = concat (map le32_bytes (es[i := v]))"
proof -
  have len: "length (concat (map le32_bytes xs)) = 4 * length xs" for xs
    by (rule word_codec.length_table)
  have split: "es = take i es @ es ! i # drop (Suc i) es"
    using assms by (rule id_take_nth_drop)
  have "i * 4 + 4 \<le> length (concat (map le32_bytes es))"
    using assms unfolding len by simp
  then have "libmpq__store_le32 (concat (map le32_bytes es)) (i * 4) v =
      write_at (concat (map le32_bytes es)) (i * 4) (le32_bytes v)"
    by (rule le32.store_write)
  also have "\<dots> = concat (map le32_bytes (take i es)) @ le32_bytes v @
      concat (map le32_bytes (drop (Suc i) es))"
    using assms by (subst (1) split) (simp add: write_at_def len [of "take i es"] min_def mult.commute)
  also have "\<dots> = concat (map le32_bytes (es[i := v]))"
    using assms by (simp add: upd_conv_take_nth_drop)
  finally show ?thesis .
qed

lemma store_words_fold:
  assumes "\<And>i. i \<in> set is \<Longrightarrow> f i < length es"
  shows "fold (\<lambda>i d. libmpq__store_le32 d (f i * 4) (g i)) is (concat (map le32_bytes es)) =
     concat (map le32_bytes (fold (\<lambda>i es. es[f i := g i]) is es))"
  using assms by (induction "is" arbitrary: es) (auto simp: store_word_table)

lemma derived_words_fold:
  "fold (\<lambda>i es. es[4 + target_words ! i := auth_word auth (source_words ! i)]) [0..<8]
     ([0x61707865, 0x3320646E, 0x79622D32, 0x6B206574] @ replicate 12 0x30303030) = derived_words auth"
  by (simp add: derived_words_def source_words_def target_words_def upt_rec replicate_words)

lemma mpqe_key_words:
  assumes "32 \<le> length auth"
  shows "libmpq__mpqe_key (Some k) (Some auth) (length auth) =
     Inr (concat (map le32_bytes (derived_words auth)))"
proof -
  have "4 + target_words ! i < 16" if "i \<in> set [0..<8]" for i
    using that by (auto simp: target_words_def less_Suc_eq numeral_eq_Suc)
  then show ?thesis
    using assms store_words_fold [of "[0..<8]" "\<lambda>i. 4 + target_words ! i"
        "[0x61707865, 0x3320646E, 0x79622D32, 0x6B206574] @ replicate 12 0x30303030"
        "\<lambda>i. auth_word auth (source_words ! i)"]
    unfolding derived_words_fold template_words [symmetric]
    by (simp add: libmpq__mpqe_key_def LIBMPQ_MPQE_AUTH_CODE_MINIMUM_def auth_word_def)
qed

lemma salsa20_block_auth:
  "salsa20_block (mpqe_key_mirror (concat (map le32_bytes (derived_words auth))) n) =
     salsa20_input (auth_word auth) 0x30303030 0x30303030 n"
proof -
  have "map (\<lambda>i. libmpq__load_le32 (Some (drop (i * 4) (concat (map le32_bytes (derived_words auth))))))
      [0..<length (derived_words auth)] = derived_words auth"
    using word_codec.load_table [of "derived_words auth" "[]"] unfolding append_Nil2 .
  moreover have "length (derived_words auth) = 16"
    by (simp add: derived_words_def)
  ultimately show ?thesis
    unfolding mpqe_key_mirror_def Let_def
    by (simp add: salsa20_block_def mpqe_mirror_words_def salsa20_input_def derived_words_def
        del: upt_rec_numeral)
qed

text \<open>C34: With the key that the derivation makes of an authentication code of at least 32 bytes, the
  transformation of a 64-byte chunk is the Salsa20 stream cipher with a 256-bit key: it
  exclusive-ors the words of the chunk with the Salsa20 core of the specification's input block, in
  which the first eight words of the code are the key, eight characters zero the nonce and the
  chunk number the counter. Applied twice at one stream position it gives the chunk back.\<close>

theorem mpqe_transform_salsa20:
  assumes "length chunk = 64" "32 \<le> length auth"
  shows "\<exists>key. libmpq__mpqe_key (Some k) (Some auth) (length auth) = Inr key \<and>
     chunk_words (libmpq__mpqe_transform_chunk chunk key pos) = map2 (XOR) (chunk_words chunk)
       (salsa20_core (salsa20_input (auth_word auth) 0x30303030 0x30303030 (pos div 64))) \<and>
     libmpq__mpqe_transform_chunk (libmpq__mpqe_transform_chunk chunk key pos) key pos = chunk"
  using assms
  by (simp add: mpqe_key_words chunk_words_transform transform_chunk_involution mpqe_keystream_def
      salsa20_block_auth)

theorem mpqe_transform_salsa20_witness:
  "\<exists>key. libmpq__mpqe_key (Some 0) (Some (replicate 32 7)) 32 = Inr key \<and>
     chunk_words (libmpq__mpqe_transform_chunk (replicate 64 1) key 128) =
       map2 (XOR) (chunk_words (replicate 64 1))
         (salsa20_core (salsa20_input (auth_word (replicate 32 7)) 0x30303030 0x30303030 2)) \<and>
     libmpq__mpqe_transform_chunk (libmpq__mpqe_transform_chunk (replicate 64 1) key 128) key 128 =
       replicate 64 1"
proof -
  have "(128 :: u64) div 64 = 2" by simp
  then show ?thesis
    using mpqe_transform_salsa20 [of "replicate 64 1" "replicate 32 7" 0 128] by simp
qed

end
