(* ===== verification/Mpq_Source.thy ===== *)
theory Mpq_Source
  imports Mpq_Mpqe
begin

text \<open>
  The archive source layer, \<^verbatim>\<open>src/mpq-source.c\<close>: a byte source over an open file or a caller's
  read callback, with the optional MPQE layer that decrypts whole chunks under any byte range. The
  functions that a backend's table points to are named by tags and dispatched by the
  \<open>io_\<close>-functions; the opaque context is a tagged value. A \<^verbatim>\<open>FILE\<close> is described by what the C library
  answers: its bytes, and whether seeking, reading, closing and \<^verbatim>\<open>fstat\<close> succeed. A caller's callback
  is a function of the offset and the size that gives a return code and the bytes stored. Errors
  are integers, since a callback's negative codes pass through unchanged. Offsets and sizes are
  natural numbers: the range check at the head of the read functions keeps every sum below the
  source size, a 64-bit value. The functions that allocate return the log of the source block, the
  backend block and the FILE stream that they acquired and released (the log's other two kinds, the
  handle and the checksum array of a file stream, are those of \<^verbatim>\<open>src/mpq-stream.c\<close>).
\<close>

subsection \<open>Backends\<close>

type_synonym 'a io = "int + 'a"

record c_file =
  contents :: "u8 list"
  seek_ok :: "nat \<Rightarrow> bool"
  read_ok :: "nat \<Rightarrow> nat \<Rightarrow> bool"
  seek_end_ok :: bool
  tell :: int
  close_ok :: bool
  fstat :: "(u64 \<times> u64) option"

type_synonym libmpq_read_at_fn = "nat \<Rightarrow> nat \<Rightarrow> int \<times> u8 list"

record mpq_file_backend_s =
  stream :: c_file
  file_size :: nat
  owned :: bool

record mpq_custom_backend_s =
  callback :: "libmpq_read_at_fn option"
  custom_size :: nat

datatype backend_context =
    Null_context | File_context mpq_file_backend_s | Custom_context mpq_custom_backend_s

datatype backend_fn = File_fn | Custom_fn

record mpq_io_backend_s =
  context_of :: backend_context
  backend_size :: nat
  read_at :: "backend_fn option"
  identity :: "backend_fn option"
  close_fn :: "backend_fn option"
  discard_fn :: "backend_fn option"
  clone_fn :: "backend_fn option"

record mpq_source_s =
  backend :: mpq_io_backend_s
  src_size :: nat
  key :: "u8 list"
  mpqe :: bool
  allocated :: bool

definition INT64_MAX :: nat where "INT64_MAX = 2 ^ 63 - 1"

fun file_context :: "backend_context \<Rightarrow> mpq_file_backend_s option" where
  "file_context (File_context b) = Some b"
| "file_context _ = None"

fun custom_context :: "backend_context \<Rightarrow> mpq_custom_backend_s option" where
  "custom_context (Custom_context b) = Some b"
| "custom_context _ = None"

definition libmpq__file_seek_set :: "c_file \<Rightarrow> nat \<Rightarrow> int" where
  "libmpq__file_seek_set f off =
     (if off > INT64_MAX then error_code ERROR_SEEK
      else if seek_ok f off then 0 else error_code ERROR_SEEK)"

definition libmpq__file_tell :: "c_file \<Rightarrow> int" where
  "libmpq__file_tell f = (if tell f < 0 then error_code ERROR_SEEK else tell f)"

definition file_backend_seek :: "mpq_file_backend_s \<Rightarrow> nat \<Rightarrow> int" where
  "file_backend_seek b off = libmpq__file_seek_set (stream b) off"

text \<open>The number of bytes \<^verbatim>\<open>fread\<close> delivers after a seek to \<open>off\<close>.\<close>

definition fread_at :: "c_file \<Rightarrow> nat \<Rightarrow> nat \<Rightarrow> u8 list" where
  "fread_at f off n = (if read_ok f off n then take n (drop off (contents f)) else [])"

definition file_backend_read_at :: "backend_context \<Rightarrow> nat \<Rightarrow> ptr \<Rightarrow> nat \<Rightarrow> ptr io" where
  "file_backend_read_at ctx off buffer n =
     (case file_context ctx of
        None \<Rightarrow> Inl (error_code ERROR_EXIST)
      | Some b \<Rightarrow>
          if buffer = None \<and> n \<noteq> 0 then Inl (error_code ERROR_EXIST)
          else if off > file_size b \<or> n > file_size b - off then Inl (error_code ERROR_READ)
          else if n = 0 then Inr buffer
          else if file_backend_seek b off \<noteq> 0 then Inl (error_code ERROR_SEEK)
          else if length (fread_at (stream b) off n) \<noteq> n then Inl (error_code ERROR_READ)
          else Inr (map_option (\<lambda>buf. write_at buf 0 (fread_at (stream b) off n)) buffer))"

definition libmpq__file_identity :: "c_file \<Rightarrow> (u64 \<times> u64) io" where
  "libmpq__file_identity f =
     (case fstat f of None \<Rightarrow> Inl (error_code ERROR_OPEN) | Some ids \<Rightarrow> Inr ids)"

definition file_backend_identity :: "backend_context \<Rightarrow> (u64 \<times> u64) io" where
  "file_backend_identity ctx =
     (case file_context ctx of
        None \<Rightarrow> Inl (error_code ERROR_EXIST)
      | Some b \<Rightarrow> libmpq__file_identity (stream b))"

definition custom_backend_read_at :: "backend_context \<Rightarrow> nat \<Rightarrow> ptr \<Rightarrow> nat \<Rightarrow> ptr io" where
  "custom_backend_read_at ctx off buffer n =
     (case custom_context ctx of
        None \<Rightarrow> Inl (error_code ERROR_EXIST)
      | Some b \<Rightarrow>
         (case callback b of
            None \<Rightarrow> Inl (error_code ERROR_EXIST)
          | Some f \<Rightarrow>
              if off > INT64_MAX then Inl (error_code ERROR_READ)
              else case f off n of (result, bytes) \<Rightarrow>
                if result > 0 then Inl (error_code ERROR_READ)
                else if result < 0 then Inl result
                else Inr (map_option (\<lambda>buf. write_at buf 0 bytes) buffer)))"

fun io_read_at :: "backend_fn \<Rightarrow> backend_context \<Rightarrow> nat \<Rightarrow> ptr \<Rightarrow> nat \<Rightarrow> ptr io" where
  "io_read_at File_fn = file_backend_read_at"
| "io_read_at Custom_fn = custom_backend_read_at"

definition backend_read_at :: "mpq_io_backend_s \<Rightarrow> nat \<Rightarrow> ptr \<Rightarrow> nat \<Rightarrow> ptr io" where
  "backend_read_at b off buffer n =
     (if buffer = None \<and> n \<noteq> 0 then Inl (error_code ERROR_EXIST)
      else case read_at b of
        None \<Rightarrow> Inl (error_code ERROR_EXIST)
      | Some fn \<Rightarrow>
          if off > backend_size b \<or> n > backend_size b - off then Inl (error_code ERROR_READ)
          else if n = 0 then Inr buffer
          else io_read_at fn (context_of b) off buffer n)"

subsection \<open>Resources\<close>

datatype resource = Source_block | Backend_block | File_stream | Stream_block | Checksum_array

datatype event = Acquire resource | Release resource

type_synonym log = "event list"

text \<open>How many resources of a kind are held after a log of events.\<close>

fun held :: "resource \<Rightarrow> log \<Rightarrow> int" where
  "held r [] = 0"
| "held r (Acquire r' # es) = (if r = r' then 1 else 0) + held r es"
| "held r (Release r' # es) = (if r = r' then -1 else 0) + held r es"

lemma held_append [simp]: "held r (xs @ ys) = held r xs + held r ys"
  by (induction r xs rule: held.induct) auto

definition file_backend_close :: "backend_context \<Rightarrow> int \<times> log" where
  "file_backend_close ctx =
     (case file_context ctx of
        None \<Rightarrow> (0, [])
      | Some b \<Rightarrow>
          (if owned b \<and> \<not> close_ok (stream b) then error_code ERROR_CLOSE else 0,
           (if owned b then [Release File_stream] else []) @ [Release Backend_block]))"

definition file_backend_discard :: "backend_context \<Rightarrow> log" where
  "file_backend_discard ctx =
     (case file_context ctx of
        None \<Rightarrow> []
      | Some b \<Rightarrow> (if owned b then [Release File_stream] else []) @ [Release Backend_block])"

text \<open>\<^verbatim>\<open>free(NULL)\<close> does nothing.\<close>

definition custom_backend_close :: "backend_context \<Rightarrow> int \<times> log" where
  "custom_backend_close ctx = (0, if ctx = Null_context then [] else [Release Backend_block])"

definition custom_backend_discard :: "backend_context \<Rightarrow> log" where
  "custom_backend_discard ctx = (if ctx = Null_context then [] else [Release Backend_block])"

fun io_close :: "backend_fn \<Rightarrow> backend_context \<Rightarrow> int \<times> log" where
  "io_close File_fn = file_backend_close"
| "io_close Custom_fn = custom_backend_close"

fun io_discard :: "backend_fn \<Rightarrow> backend_context \<Rightarrow> log" where
  "io_discard File_fn = file_backend_discard"
| "io_discard Custom_fn = custom_backend_discard"

definition custom_backend_clone ::
  "(resource \<Rightarrow> bool) \<Rightarrow> backend_context \<Rightarrow> out_ptr \<Rightarrow> mpq_io_backend_s io \<times> log" where
  "custom_backend_clone alloc ctx clone =
     (case (custom_context ctx, clone) of
        (Some source, Some _) \<Rightarrow>
          if \<not> alloc Backend_block then (Inl (error_code ERROR_MALLOC), [])
          else (Inr \<lparr>context_of = Custom_context source, backend_size = custom_size source,
              read_at = Some Custom_fn, identity = None, close_fn = Some Custom_fn,
              discard_fn = Some Custom_fn, clone_fn = Some Custom_fn\<rparr>,
            [Acquire Backend_block])
      | _ \<Rightarrow> (Inl (error_code ERROR_EXIST), []))"

text \<open>The zeroed source of \<^verbatim>\<open>calloc\<close> and \<^verbatim>\<open>memset\<close>.\<close>

definition zero_source :: mpq_source_s where
  "zero_source = \<lparr>backend = \<lparr>context_of = Null_context, backend_size = 0, read_at = None,
       identity = None, close_fn = None, discard_fn = None, clone_fn = None\<rparr>,
     src_size = 0, key = replicate LIBMPQ_MPQE_CHUNK_SIZE 0, mpqe = False, allocated = False\<rparr>"

definition source_set_file_backend ::
  "(resource \<Rightarrow> bool) \<Rightarrow> mpq_source_s \<Rightarrow> c_file option \<Rightarrow> nat \<Rightarrow> bool \<Rightarrow> mpq_source_s io \<times> log" where
  "source_set_file_backend alloc source f n own =
     (case f of
        None \<Rightarrow> (Inl (error_code ERROR_EXIST), [])
      | Some f \<Rightarrow>
          if \<not> alloc Backend_block then (Inl (error_code ERROR_MALLOC), [])
          else (Inr (source\<lparr>
              backend := (backend source)\<lparr>
                context_of := File_context \<lparr>stream = f, file_size = n, owned = own\<rparr>,
                backend_size := n, read_at := Some File_fn, identity := Some File_fn,
                close_fn := Some File_fn, discard_fn := Some File_fn\<rparr>,
              src_size := n\<rparr>),
            [Acquire Backend_block]))"

definition source_set_custom_backend ::
  "(resource \<Rightarrow> bool) \<Rightarrow> mpq_source_s \<Rightarrow> libmpq_read_at_fn option \<Rightarrow> nat \<Rightarrow> mpq_source_s io \<times> log" where
  "source_set_custom_backend alloc source f n =
     (if f = None then (Inl (error_code ERROR_EXIST), [])
      else if \<not> alloc Backend_block then (Inl (error_code ERROR_MALLOC), [])
      else (Inr (source\<lparr>
          backend := (backend source)\<lparr>
            context_of := Custom_context \<lparr>callback = f, custom_size = n\<rparr>,
            backend_size := n, read_at := Some Custom_fn,
            close_fn := Some Custom_fn, discard_fn := Some Custom_fn, clone_fn := Some Custom_fn\<rparr>,
          src_size := n\<rparr>),
        [Acquire Backend_block]))"

subsection \<open>Opening\<close>

text \<open>What \<^verbatim>\<open>fopen\<close> answers for reading: the file, or whether \<^verbatim>\<open>errno\<close> is \<^verbatim>\<open>ENOENT\<close>.\<close>

type_synonym fopen_fn = "string \<Rightarrow> bool + c_file"

definition libmpq__file_open :: "fopen_fn \<Rightarrow> string option \<Rightarrow> bool + c_file" where
  "libmpq__file_open fopen path =
     (case path of None \<Rightarrow> Inl False | Some name \<Rightarrow> if name = [] then Inl False else fopen name)"

definition libmpq__source_open_common ::
  "(resource \<Rightarrow> bool) \<Rightarrow> fopen_fn \<Rightarrow> out_ptr \<Rightarrow> string option \<Rightarrow> mpq_source_s io \<times> log" where
  "libmpq__source_open_common alloc fopen source path =
     (if source = None \<or> path = None then (Inl (error_code ERROR_EXIST), [])
      else if \<not> alloc Source_block then (Inl (error_code ERROR_MALLOC), [])
      else case libmpq__file_open fopen path of
        Inl enoent \<Rightarrow>
          (Inl (if enoent then error_code ERROR_EXIST else error_code ERROR_OPEN),
           [Acquire Source_block, Release Source_block])
      | Inr f \<Rightarrow>
          if \<not> seek_end_ok f \<or> libmpq__file_tell f < 0 then
            (Inl (error_code ERROR_SEEK),
             [Acquire Source_block, Acquire File_stream, Release File_stream, Release Source_block])
          else
           (case source_set_file_backend alloc (zero_source\<lparr>allocated := True\<rparr>) (Some f)
               (nat (libmpq__file_tell f)) True of
              (Inl e, log) \<Rightarrow>
                (Inl e, [Acquire Source_block, Acquire File_stream] @ log @
                   [Release File_stream, Release Source_block])
            | (Inr s, log) \<Rightarrow> (Inr s, [Acquire Source_block, Acquire File_stream] @ log)))"

definition libmpq__source_borrow_file ::
  "(resource \<Rightarrow> bool) \<Rightarrow> out_ptr \<Rightarrow> c_file option \<Rightarrow> nat \<Rightarrow> mpq_source_s io \<times> log" where
  "libmpq__source_borrow_file alloc source f n =
     (if source = None then (Inl (error_code ERROR_EXIST), [])
      else source_set_file_backend alloc zero_source f n False)"

definition libmpq__source_open_file ::
  "(resource \<Rightarrow> bool) \<Rightarrow> fopen_fn \<Rightarrow> out_ptr \<Rightarrow> string option \<Rightarrow> mpq_source_s io \<times> log" where
  "libmpq__source_open_file alloc fopen source path = libmpq__source_open_common alloc fopen source path"

definition libmpq__source_open_io ::
  "(resource \<Rightarrow> bool) \<Rightarrow> out_ptr \<Rightarrow> libmpq_read_at_fn option \<Rightarrow> nat \<Rightarrow> mpq_source_s io \<times> log" where
  "libmpq__source_open_io alloc source f n =
     (if source = None \<or> f = None then (Inl (error_code ERROR_EXIST), [])
      else if \<not> alloc Source_block then (Inl (error_code ERROR_MALLOC), [])
      else case source_set_custom_backend alloc (zero_source\<lparr>allocated := True\<rparr>) f n of
        (Inl e, log) \<Rightarrow> (Inl e, [Acquire Source_block] @ log @ [Release Source_block])
      | (Inr s, log) \<Rightarrow> (Inr s, [Acquire Source_block] @ log))"

text \<open>The common tail of the two MPQE openers: open the plain source, then store the key.\<close>

definition open_mpqe_with ::
  "out_ptr \<Rightarrow> ptr \<Rightarrow> nat \<Rightarrow> mpq_source_s io \<times> log \<Rightarrow> mpq_source_s io \<times> log" where
  "open_mpqe_with source auth_code auth_code_size opened =
     (if source = None then (Inl (error_code ERROR_EXIST), [])
      else case libmpq__mpqe_key (Some 0) auth_code auth_code_size of
        Inl e \<Rightarrow> (Inl (error_code e), [])
      | Inr k \<Rightarrow>
         (case opened of
            (Inl e, log) \<Rightarrow> (Inl e, log)
          | (Inr s, log) \<Rightarrow> (Inr (s\<lparr>mpqe := True, key := k\<rparr>), log)))"

definition libmpq__source_open_mpqe ::
  "(resource \<Rightarrow> bool) \<Rightarrow> fopen_fn \<Rightarrow> out_ptr \<Rightarrow> string option \<Rightarrow> ptr \<Rightarrow> nat \<Rightarrow> mpq_source_s io \<times> log" where
  "libmpq__source_open_mpqe alloc fopen source path auth_code auth_code_size =
     open_mpqe_with source auth_code auth_code_size (libmpq__source_open_common alloc fopen source path)"

definition libmpq__source_open_mpqe_io ::
  "(resource \<Rightarrow> bool) \<Rightarrow> out_ptr \<Rightarrow> libmpq_read_at_fn option \<Rightarrow> nat \<Rightarrow> ptr \<Rightarrow> nat \<Rightarrow> mpq_source_s io \<times> log" where
  "libmpq__source_open_mpqe_io alloc source f n auth_code auth_code_size =
     open_mpqe_with source auth_code auth_code_size (libmpq__source_open_io alloc source f n)"

subsection \<open>Closing and cloning\<close>

definition libmpq__source_close :: "mpq_source_s option \<Rightarrow> int \<times> log" where
  "libmpq__source_close source =
     (case source of
        None \<Rightarrow> (error_code ERROR_EXIST, [])
      | Some s \<Rightarrow>
         (case (case close_fn (backend s) of None \<Rightarrow> (0, []) | Some fn \<Rightarrow> io_close fn (context_of (backend s))) of
            (result, log) \<Rightarrow> (result, log @ (if allocated s then [Release Source_block] else []))))"

definition libmpq__source_discard :: "mpq_source_s option \<Rightarrow> log" where
  "libmpq__source_discard source =
     (case source of
        None \<Rightarrow> []
      | Some s \<Rightarrow>
         (case discard_fn (backend s) of
            Some fn \<Rightarrow> io_discard fn (context_of (backend s))
          | None \<Rightarrow> (case close_fn (backend s) of
                None \<Rightarrow> [] | Some fn \<Rightarrow> snd (io_close fn (context_of (backend s))))) @
         (if allocated s then [Release Source_block] else []))"

definition libmpq__source_clone ::
  "(resource \<Rightarrow> bool) \<Rightarrow> fopen_fn \<Rightarrow> out_ptr \<Rightarrow> mpq_source_s option \<Rightarrow> string option \<Rightarrow> mpq_source_s io \<times> log"
where
  "libmpq__source_clone alloc fopen clone source path =
     (case source of
        None \<Rightarrow> (Inl (error_code ERROR_EXIST), [])
      | Some s \<Rightarrow>
          if clone = None then (Inl (error_code ERROR_EXIST), [])
          else if clone_fn (backend s) \<noteq> None then
            if \<not> alloc Source_block then (Inl (error_code ERROR_MALLOC), [])
            else case custom_backend_clone alloc (context_of (backend s)) clone of
              (Inl e, log) \<Rightarrow>
                (Inl e, [Acquire Source_block] @ log @
                   libmpq__source_discard (Some (zero_source\<lparr>allocated := True\<rparr>)))
            | (Inr b, log) \<Rightarrow>
                (Inr (zero_source\<lparr>allocated := True, backend := b, src_size := backend_size b,
                   mpqe := mpqe s, key := (if mpqe s then key s else key zero_source)\<rparr>),
                 [Acquire Source_block] @ log)
          else
            if path = None then (Inl (error_code ERROR_EXIST), [])
            else case libmpq__source_open_common alloc fopen clone path of
              (Inl e, log) \<Rightarrow> (Inl e, log @ libmpq__source_discard None)
            | (Inr c, log) \<Rightarrow>
                (Inr (c\<lparr>mpqe := mpqe s, key := (if mpqe s then key s else key c)\<rparr>), log))"

subsection \<open>Reading\<close>

definition LIBMPQ_MPQE_READ_BUFFER_SIZE :: nat where
  "LIBMPQ_MPQE_READ_BUFFER_SIZE = LIBMPQ_MPQE_CHUNK_SIZE * 64"

text \<open>\<open>x & ~63\<close> and its use to round up.\<close>

definition chunk_floor :: "nat \<Rightarrow> nat" where
  "chunk_floor x = x - x mod LIBMPQ_MPQE_CHUNK_SIZE"

definition chunk_ceiling :: "nat \<Rightarrow> nat" where
  "chunk_ceiling x = chunk_floor (x + (LIBMPQ_MPQE_CHUNK_SIZE - 1))"

text \<open>The loop that decrypts the chunks of the batch in place.\<close>

definition mpqe_decrypt_batch :: "u8 list \<Rightarrow> u8 list \<Rightarrow> nat \<Rightarrow> nat \<Rightarrow> u8 list" where
  "mpqe_decrypt_batch chunks k chunk_offset decrypt_size =
     fold (\<lambda>i chunks. write_at chunks (i * LIBMPQ_MPQE_CHUNK_SIZE)
         (libmpq__mpqe_transform_chunk
           (take LIBMPQ_MPQE_CHUNK_SIZE (drop (i * LIBMPQ_MPQE_CHUNK_SIZE) chunks)) k
           (of_nat (chunk_offset + i * LIBMPQ_MPQE_CHUNK_SIZE))))
       [0..<decrypt_size div LIBMPQ_MPQE_CHUNK_SIZE] chunks"

text \<open>The physical bytes of a batch: as many whole chunks as the request needs, at most a buffer
  full, cut at the end of the source.\<close>

definition mpqe_physical :: "mpq_source_s \<Rightarrow> nat \<Rightarrow> nat \<Rightarrow> nat" where
  "mpqe_physical source chunk_offset required =
     (let remaining = src_size source - chunk_offset;
          rounded_required = min (chunk_ceiling required) LIBMPQ_MPQE_READ_BUFFER_SIZE
      in if remaining < rounded_required then remaining else rounded_required)"

text \<open>One turn of the read loop: the number of bytes it copies and those bytes.\<close>

definition mpqe_read_batch :: "mpq_source_s \<Rightarrow> nat \<Rightarrow> nat \<Rightarrow> nat \<Rightarrow> (nat \<times> u8 list) io" where
  "mpqe_read_batch source off n copied =
     (let request_offset = off + copied;
          chunk_offset = chunk_floor request_offset;
          required = off + n - chunk_offset;
          batch_start = request_offset - chunk_offset;
          physical = mpqe_physical source chunk_offset required
      in if required > SIZE_MAX - (LIBMPQ_MPQE_CHUNK_SIZE - 1) then Inl (error_code ERROR_SIZE)
      else if physical > LIBMPQ_MPQE_READ_BUFFER_SIZE then Inl (error_code ERROR_SIZE)
      else if chunk_offset \<ge> src_size source \<or> physical \<le> batch_start then
        Inl (error_code ERROR_READ)
      else case backend_read_at (backend source) chunk_offset
          (Some (replicate LIBMPQ_MPQE_READ_BUFFER_SIZE 0)) physical of
        Inl e \<Rightarrow> Inl e
      | Inr None \<Rightarrow> Inl (error_code ERROR_EXIST)
      | Inr (Some chunks) \<Rightarrow>
          let available = min (physical - batch_start) (n - copied)
          in Inr (available, take available (drop batch_start
               (mpqe_decrypt_batch chunks (key source) chunk_offset (chunk_ceiling physical)))))"

lemma mpqe_read_batch_progress:
  assumes "mpqe_read_batch source off n copied = Inr (available, bytes)" "copied < n"
  shows "0 < available"
  using assms unfolding mpqe_read_batch_def Let_def
  by (simp split: if_split_asm sum.split_asm option.split_asm) linarith

function source_mpqe_loop :: "mpq_source_s \<Rightarrow> nat \<Rightarrow> nat \<Rightarrow> nat \<Rightarrow> u8 list \<Rightarrow> u8 list io" where
  "source_mpqe_loop source off n copied buffer =
     (if copied < n then
        case mpqe_read_batch source off n copied of
          Inl e \<Rightarrow> Inl e
        | Inr (available, bytes) \<Rightarrow>
            source_mpqe_loop source off n (copied + available) (write_at buffer copied bytes)
      else Inr buffer)"
  by pat_completeness auto

termination
  by (relation "measure (\<lambda>(source, off, n, copied, buffer). n - copied)")
    (auto dest: mpqe_read_batch_progress)

declare source_mpqe_loop.simps [simp del]

definition source_mpqe_read_at :: "mpq_source_s \<Rightarrow> nat \<Rightarrow> u8 list \<Rightarrow> nat \<Rightarrow> u8 list io" where
  "source_mpqe_read_at source off buffer n = source_mpqe_loop source off n 0 buffer"

definition libmpq__source_read_at :: "mpq_source_s option \<Rightarrow> nat \<Rightarrow> ptr \<Rightarrow> nat \<Rightarrow> ptr io" where
  "libmpq__source_read_at source off buffer n =
     (case source of
        None \<Rightarrow> Inl (error_code ERROR_EXIST)
      | Some s \<Rightarrow>
          if buffer = None \<and> n \<noteq> 0 \<or> read_at (backend s) = None then Inl (error_code ERROR_EXIST)
          else if off > src_size s \<or> n > src_size s - off then Inl (error_code ERROR_READ)
          else if n = 0 then Inr buffer
          else if mpqe s then map_sum id Some (source_mpqe_read_at s off (the buffer) n)
          else backend_read_at (backend s) off buffer n)"

definition libmpq__source_size :: "mpq_source_s option \<Rightarrow> nat" where
  "libmpq__source_size source = (case source of None \<Rightarrow> 0 | Some s \<Rightarrow> src_size s)"

definition libmpq__source_is_mpqe :: "mpq_source_s option \<Rightarrow> bool" where
  "libmpq__source_is_mpqe source = (case source of None \<Rightarrow> False | Some s \<Rightarrow> mpqe s)"

fun io_identity :: "backend_fn \<Rightarrow> backend_context \<Rightarrow> (u64 \<times> u64) io" where
  "io_identity File_fn ctx = file_backend_identity ctx"
| "io_identity Custom_fn ctx = Inl (error_code ERROR_EXIST)"

definition libmpq__source_file_identity ::
  "mpq_source_s option \<Rightarrow> out_ptr \<Rightarrow> out_ptr \<Rightarrow> (u64 \<times> u64) io" where
  "libmpq__source_file_identity source device inode =
     (case source of
        None \<Rightarrow> Inl (error_code ERROR_EXIST)
      | Some s \<Rightarrow>
          if device = None \<or> inode = None \<or> context_of (backend s) = Null_context
          then Inl (error_code ERROR_EXIST)
          else case identity (backend s) of
            None \<Rightarrow> Inl (error_code ERROR_EXIST)
          | Some fn \<Rightarrow> io_identity fn (context_of (backend s)))"

subsection \<open>The keystream byte by byte\<close>

lemma le32_bytes_xor: "le32_bytes (a XOR b) = map2 (XOR) (le32_bytes a) (le32_bytes b)"
  by (simp add: le32_bytes_def unsigned_xor_eq drop_bit_xor take_bit_xor)

lemma concat_le32_xor:
  "length ws = length ks \<Longrightarrow> concat (map le32_bytes (map2 (XOR) ws ks)) =
     map2 (XOR) (concat (map le32_bytes ws)) (concat (map le32_bytes ks))"
  by (induction ws ks rule: list_induct2) (simp_all add: le32_bytes_xor)

text \<open>Byte \<open>i\<close> of the key stream, and the logical bytes of an MPQE img.\<close>

definition mpqe_pad :: "u8 list \<Rightarrow> nat \<Rightarrow> u8" where
  "mpqe_pad k i = concat (map le32_bytes (mpqe_keystream k (of_nat (i div 64)))) ! (i mod 64)"

definition mpqe_plain :: "u8 list \<Rightarrow> u8 list \<Rightarrow> u8 list" where
  "mpqe_plain k img = map (\<lambda>i. img ! i XOR mpqe_pad k i) [0..<length img]"

lemma mpqe_plain_involution: "mpqe_plain k (mpqe_plain k img) = img"
  by (rule nth_equalityI) (simp_all add: mpqe_plain_def)

lemma length_mpqe_plain [simp]: "length (mpqe_plain k img) = length img"
  by (simp add: mpqe_plain_def)

lemma unat_of_nat_u64: "n < 2 ^ 64 \<Longrightarrow> unat (of_nat n :: u64) = n"
  by (simp add: unat_of_nat take_bit_nat_eq_self_iff)

lemma chunk_number:
  assumes "64 * c < 2 ^ 64"
  shows "(of_nat (64 * c) :: u64) div 64 = of_nat c"
proof -
  have "unat ((of_nat (64 * c) :: u64) div 64) = (64 * c) div 64"
    using unat_of_nat_u64 [OF assms] by (simp add: unat_div_distrib del: of_nat_mult)
  also have "\<dots> = unat (of_nat c :: u64)"
    using assms by (simp add: unat_of_nat_u64)
  finally show ?thesis by (simp only: word_unat_eq_iff)
qed

lemma transform_chunk_nth:
  assumes "length chunk = 64" "64 * c < 2 ^ 64" "i < 64"
  shows "libmpq__mpqe_transform_chunk chunk k (of_nat (64 * c)) ! i = chunk ! i XOR mpqe_pad k (64 * c + i)"
proof -
  let ?ks = "concat (map le32_bytes (mpqe_keystream k (of_nat c)))"
  have "length ?ks = 64" by (simp add: word_codec.length_table)
  moreover have "libmpq__mpqe_transform_chunk chunk k (of_nat (64 * c)) = map2 (XOR) chunk ?ks"
    using assms
    by (simp only: transform_chunk_keystream chunk_number concat_le32_xor length_chunk_words
        length_keystream concat_chunk_words)
  ultimately show ?thesis using assms by (simp add: mpqe_pad_def)
qed

lemma chunk_floor_eq: "chunk_floor x = 64 * (x div 64)"
  by (simp add: chunk_floor_def LIBMPQ_MPQE_CHUNK_SIZE_def minus_mod_eq_mult_div)

lemma chunk_ceiling_eq: "chunk_ceiling x = 64 * ((x + 63) div 64)"
  by (simp add: chunk_ceiling_def chunk_floor_eq LIBMPQ_MPQE_CHUNK_SIZE_def)

lemma decrypt_batch_nth:
  assumes "64 * q \<le> length chunks" "64 * (c + q) \<le> 2 ^ 64"
  shows "length (mpqe_decrypt_batch chunks k (64 * c) (64 * q)) = length chunks \<and>
    (\<forall>i < length chunks. mpqe_decrypt_batch chunks k (64 * c) (64 * q) ! i =
       (if i < 64 * q then chunks ! i XOR mpqe_pad k (64 * c + i) else chunks ! i))"
  using assms
proof (induction q)
  case 0
  then show ?case by (simp add: mpqe_decrypt_batch_def)
next
  case (Suc q)
  let ?d = "mpqe_decrypt_batch chunks k (64 * c) (64 * q)"
  let ?t = "libmpq__mpqe_transform_chunk (take 64 (drop (q * 64) ?d)) k (of_nat (64 * (c + q)))"
  have IH: "length ?d = length chunks" "\<And>i. i < length chunks \<Longrightarrow> ?d ! i =
       (if i < 64 * q then chunks ! i XOR mpqe_pad k (64 * c + i) else chunks ! i)"
    using Suc by auto
  have chunk: "length (take 64 (drop (q * 64) ?d)) = 64"
    using Suc.prems IH(1) by simp
  have step: "mpqe_decrypt_batch chunks k (64 * c) (64 * Suc q) = write_at ?d (q * 64) ?t"
    by (simp add: mpqe_decrypt_batch_def LIBMPQ_MPQE_CHUNK_SIZE_def algebra_simps)
  have "?t ! i = chunks ! (64 * q + i) XOR mpqe_pad k (64 * c + (64 * q + i))" if "i < 64" for i
    using transform_chunk_nth [OF chunk _ that, of "c + q" k] that Suc.prems IH(2) [of "64 * q + i"] IH(1)
    by (simp add: algebra_simps)
  then show ?case
    using Suc.prems IH chunk unfolding step by (auto simp: nth_write_at)
qed

subsection \<open>The contract of an exact random-access reader\<close>

locale exact_reader =
  fixes read :: "nat \<Rightarrow> ptr \<Rightarrow> nat \<Rightarrow> ptr io" and img :: "u8 list"
  assumes read_exact: "off + n \<le> length img \<Longrightarrow> off \<le> INT64_MAX \<Longrightarrow> off + n \<le> Suc INT64_MAX \<Longrightarrow> n \<le> length buf \<Longrightarrow>
      read off (Some buf) n = Inr (Some (write_at buf 0 (take n (drop off img))))"
    and read_beyond: "length img < off + n \<Longrightarrow> read off (Some buf) n = Inl (error_code ERROR_READ)"
begin

lemma read_bytes:
  assumes "off + length buf \<le> length img" "off \<le> INT64_MAX" "off + length buf \<le> Suc INT64_MAX"
  shows "read off (Some buf) (length buf) = Inr (Some (take (length buf) (drop off img)))"
  using assms by (simp add: read_exact write_at_full)

lemma read_in_range:
  "read off (Some buf) n = Inr r \<Longrightarrow> off + n \<le> length img"
  using read_beyond [of off n buf] by (cases "length img < off + n") auto

text \<open>Two adjacent reads deliver the bytes of one read over both ranges.\<close>

lemma read_adjacent:
  assumes "off + (m + n) \<le> length img" "off + (m + n) \<le> Suc INT64_MAX" "off + m \<le> INT64_MAX"
  shows "\<exists>a b. read off (Some (replicate m 0)) m = Inr (Some a) \<and>
     read (off + m) (Some (replicate n 0)) n = Inr (Some b) \<and>
     read off (Some (replicate (m + n) 0)) (m + n) = Inr (Some (a @ b))"
  using read_bytes [of off "replicate m 0"] read_bytes [of "off + m" "replicate n 0"]
    read_bytes [of off "replicate (m + n) 0"] assms
  by (simp add: take_add add.commute)

end

text \<open>An MPQE source over a backend that reads exactly reads exactly the decrypted image.\<close>

lemma physical_bounds:
  assumes "off + n \<le> src_size s" "copied < n"
  defines "c \<equiv> chunk_floor (off + copied)"
  shows "c < src_size s" "mpqe_physical s c (off + n - c) \<le> LIBMPQ_MPQE_READ_BUFFER_SIZE"
    "off + copied - c < mpqe_physical s c (off + n - c)"
    "c + mpqe_physical s c (off + n - c) \<le> src_size s"
proof -
  have floor: "c \<le> off + copied" "off + copied < c + 64"
    unfolding c_def chunk_floor_eq using mult_div_mod_eq [of 64 "off + copied"] mod_less_divisor [of 64 "off + copied"] by linarith+
  then show "c < src_size s" using assms by linarith
  have "off + n - c \<le> chunk_ceiling (off + n - c)"
    unfolding chunk_ceiling_eq by simp
  then show "off + copied - c < mpqe_physical s c (off + n - c)"
    using assms(1,2) floor
    by (auto simp: mpqe_physical_def Let_def LIBMPQ_MPQE_READ_BUFFER_SIZE_def LIBMPQ_MPQE_CHUNK_SIZE_def)
  show "mpqe_physical s c (off + n - c) \<le> LIBMPQ_MPQE_READ_BUFFER_SIZE"
    by (simp add: mpqe_physical_def Let_def)
  show "c + mpqe_physical s c (off + n - c) \<le> src_size s"
    using \<open>c < src_size s\<close> by (auto simp: mpqe_physical_def Let_def min_def)
qed

lemma chunk_ceiling_bound:
  assumes "64 * m + x \<le> 64 * k"
  shows "64 * m + chunk_ceiling x \<le> 64 * k"
proof -
  have "64 * ((x + 63) div 64) \<le> x + 63" by simp
  then have "64 * (m + (x + 63) div 64) < 64 * Suc k"
    using assms by simp
  then have "m + (x + 63) div 64 \<le> k" unfolding mult_less_cancel1 by simp
  then show ?thesis unfolding chunk_ceiling_eq by simp
qed

locale mpqe_source = physical: exact_reader "backend_read_at (backend s)" img
  for s :: mpq_source_s and img :: "u8 list" +
  assumes mpqe: "mpqe s" and sized: "src_size s = length img" and callable: "read_at (backend s) \<noteq> None"
begin

lemma read_batch:
  assumes "off + n \<le> length img" "off + n \<le> Suc INT64_MAX" "copied < n"
  shows "\<exists>available. 0 < available \<and> available \<le> n - copied \<and> mpqe_read_batch s off n copied =
     Inr (available, take available (drop (off + copied) (mpqe_plain (key s) img)))"
proof -
  define c where "c = chunk_floor (off + copied)"
  define p where "p = mpqe_physical s c (off + n - c)"
  define chunks where "chunks = write_at (replicate LIBMPQ_MPQE_READ_BUFFER_SIZE 0) 0 (take p (drop c img))"
  define plain where "plain = mpqe_decrypt_batch chunks (key s) c (chunk_ceiling p)"
  define available where "available = min (p - (off + copied - c)) (n - copied)"
  note bounds = physical_bounds [of off n s copied, folded c_def, folded p_def]
  have bs: "c < length img" "p \<le> 4096" "off + copied - c < p" "c + p \<le> length img"
    using bounds assms sized by (simp_all add: LIBMPQ_MPQE_READ_BUFFER_SIZE_def LIBMPQ_MPQE_CHUNK_SIZE_def)
  have le: "c \<le> off + copied" by (simp add: c_def chunk_floor_def)
  have m: "c = 64 * ((off + copied) div 64)" by (simp add: c_def chunk_floor_eq)
  have "c + chunk_ceiling (off + n - c) \<le> 64 * 2 ^ 57"
    using assms(2,3) le unfolding m
    by (intro chunk_ceiling_bound) (simp add: INT64_MAX_def)
  moreover have "p \<le> chunk_ceiling (off + n - c)"
    by (simp add: p_def mpqe_physical_def Let_def)
  ultimately have lim: "c \<le> INT64_MAX" "c + p \<le> Suc INT64_MAX"
    using le assms(2,3) by (simp_all add: INT64_MAX_def)
  have "backend_read_at (backend s) c (Some (replicate LIBMPQ_MPQE_READ_BUFFER_SIZE 0)) p = Inr (Some chunks)"
    unfolding chunks_def using bs lim
    by (intro physical.read_exact)
      (simp_all add: LIBMPQ_MPQE_READ_BUFFER_SIZE_def LIBMPQ_MPQE_CHUNK_SIZE_def)
  moreover have "\<not> off + n - c > SIZE_MAX - (LIBMPQ_MPQE_CHUNK_SIZE - 1)"
    using assms by (simp add: SIZE_MAX_def LIBMPQ_MPQE_CHUNK_SIZE_def INT64_MAX_def)
  ultimately have batch: "mpqe_read_batch s off n copied =
      Inr (available, take available (drop (off + copied - c) plain))"
    using bs bounds(2) assms(1,3) sized unfolding mpqe_read_batch_def Let_def
    by (simp add: c_def [symmetric] p_def [symmetric] plain_def available_def)
  have pos: "0 < available" "available \<le> n - copied" "available \<le> p - (off + copied - c)"
    using bs(3) assms(3) by (auto simp: available_def)
  have chunks: "length chunks = 4096" "\<And>i. i < p \<Longrightarrow> chunks ! i = img ! (c + i)"
    using bs by (simp_all add: chunks_def LIBMPQ_MPQE_READ_BUFFER_SIZE_def LIBMPQ_MPQE_CHUNK_SIZE_def
        nth_write_at)
  have q: "64 * ((p + 63) div 64) \<le> length chunks"
    using chunk_ceiling_bound [of 0 p 64] bs(2) chunks(1) by (simp add: chunk_ceiling_eq)
  then have "64 * ((off + copied) div 64 + (p + 63) div 64) \<le> 2 ^ 64"
    using lim(1) chunks(1) m by (simp add: INT64_MAX_def)
  note dec = decrypt_batch_nth [OF q this, of "key s", folded m chunk_ceiling_eq plain_def]
  have len: "length plain = 4096" using dec chunks(1) by simp
  have nth: "plain ! i = mpqe_plain (key s) img ! (c + i)" if "i < p" for i
  proof -
    have "i < chunk_ceiling p" using that unfolding chunk_ceiling_eq by linarith
    then show ?thesis using that dec chunks bs by (simp add: mpqe_plain_def)
  qed
  have "take available (drop (off + copied - c) plain) =
      take available (drop (off + copied) (mpqe_plain (key s) img))"
    using pos bs le len assms by (intro nth_equalityI) (auto simp: nth)
  then show ?thesis using batch pos by auto
qed

lemma read_loop:
  assumes "off + n \<le> length img" "off + n \<le> Suc INT64_MAX" "copied \<le> n" "n \<le> length buf"
  shows "source_mpqe_loop s off n copied buf =
     Inr (write_at buf copied (take (n - copied) (drop (off + copied) (mpqe_plain (key s) img))))"
  using assms(3,4)
proof (induction "n - copied" arbitrary: copied buf rule: less_induct)
  case less
  let ?img = "mpqe_plain (key s) img"
  show ?case
  proof (cases "copied < n")
    case True
    then obtain a where a: "0 < a" "a \<le> n - copied"
        "mpqe_read_batch s off n copied = Inr (a, take a (drop (off + copied) ?img))"
      using read_batch [OF assms(1,2)] by blast
    let ?bs = "take a (drop (off + copied) ?img)"
    have len: "length ?bs = a" using a assms(1) by simp
    have "source_mpqe_loop s off n copied buf =
        source_mpqe_loop s off n (copied + a) (write_at buf copied ?bs)"
      using True a by (subst source_mpqe_loop.simps) simp
    also have "\<dots> = Inr (write_at (write_at buf copied ?bs) (copied + a)
        (take (n - (copied + a)) (drop (off + (copied + a)) ?img)))"
      using True a len less.prems by (intro less.hyps) simp_all
    also have "\<dots> = Inr (write_at buf copied (?bs @ take (n - (copied + a)) (drop (off + (copied + a)) ?img)))"
      using write_at_append [of copied ?bs "take (n - (copied + a)) (drop (off + (copied + a)) ?img)" buf]
        a len less.prems assms(1) by simp
    also have "?bs @ take (n - (copied + a)) (drop (off + (copied + a)) ?img) =
        take (n - copied) (drop (off + copied) ?img)"
      using a take_add [of a "n - (copied + a)" "drop (off + copied) ?img"] by (simp add: add_ac)
    finally show ?thesis .
  next
    case False
    then show ?thesis using less.prems by (subst source_mpqe_loop.simps) simp
  qed
qed

end

sublocale mpqe_source \<subseteq> logical: exact_reader "libmpq__source_read_at (Some s)" "mpqe_plain (key s) img"
proof unfold_locales
  fix off n :: nat and buf :: "u8 list"
  assume "off + n \<le> length (mpqe_plain (key s) img)" "off \<le> INT64_MAX" "off + n \<le> Suc INT64_MAX"
    "n \<le> length buf"
  then show "libmpq__source_read_at (Some s) off (Some buf) n =
      Inr (Some (write_at buf 0 (take n (drop off (mpqe_plain (key s) img)))))"
    using read_loop [of off n 0 buf] mpqe sized callable
    by (auto simp: libmpq__source_read_at_def source_mpqe_read_at_def)
next
  fix off n :: nat and buf :: "u8 list"
  assume "length (mpqe_plain (key s) img) < off + n"
  then show "libmpq__source_read_at (Some s) off (Some buf) n = Inl (error_code ERROR_READ)"
    using sized callable by (auto simp: libmpq__source_read_at_def)
qed

context mpqe_source
begin

lemmas read_plain = logical.read_exact

end

text \<open>A plain source reads what its backend reads.\<close>

locale plain_source = physical: exact_reader "backend_read_at (backend s)" img
  for s :: mpq_source_s and img :: "u8 list" +
  assumes plain: "\<not> mpqe s" and sized: "src_size s = length img" and callable: "read_at (backend s) \<noteq> None"

sublocale plain_source \<subseteq> logical: exact_reader "libmpq__source_read_at (Some s)" img
proof unfold_locales
  fix off n :: nat and buf :: "u8 list"
  assume "off + n \<le> length img" "off \<le> INT64_MAX" "off + n \<le> Suc INT64_MAX" "n \<le> length buf"
  then show "libmpq__source_read_at (Some s) off (Some buf) n =
      Inr (Some (write_at buf 0 (take n (drop off img))))"
    using physical.read_exact [of off n buf] plain sized callable
    by (auto simp: libmpq__source_read_at_def)
next
  fix off n :: nat and buf :: "u8 list"
  assume "length img < off + n"
  then show "libmpq__source_read_at (Some s) off (Some buf) n = Inl (error_code ERROR_READ)"
    using sized callable by (auto simp: libmpq__source_read_at_def)
qed

subsection \<open>The sources that the openers build\<close>

text \<open>A file that the C library serves without faults, and a callback that keeps its contract.\<close>

definition sound_file :: "u8 list \<Rightarrow> c_file" where
  "sound_file img = \<lparr>contents = img, seek_ok = \<lambda>_. True, read_ok = \<lambda>_ _. True, seek_end_ok = True,
     tell = int (length img), close_ok = True, fstat = None\<rparr>"

definition sound_callback :: "u8 list \<Rightarrow> libmpq_read_at_fn" where
  "sound_callback img = (\<lambda>off n. (0, take n (drop off img)))"

definition file_source :: "c_file \<Rightarrow> nat \<Rightarrow> bool \<Rightarrow> mpq_source_s" where
  "file_source f n own = zero_source\<lparr>allocated := own, backend := \<lparr>
     context_of = File_context \<lparr>stream = f, file_size = n, owned = own\<rparr>, backend_size = n,
     read_at = Some File_fn, identity = Some File_fn, close_fn = Some File_fn,
     discard_fn = Some File_fn, clone_fn = None\<rparr>, src_size := n\<rparr>"

definition io_source :: "libmpq_read_at_fn \<Rightarrow> nat \<Rightarrow> mpq_source_s" where
  "io_source f n = zero_source\<lparr>allocated := True, backend := \<lparr>
     context_of = Custom_context \<lparr>callback = Some f, custom_size = n\<rparr>, backend_size = n,
     read_at = Some Custom_fn, identity = None, close_fn = Some Custom_fn,
     discard_fn = Some Custom_fn, clone_fn = Some Custom_fn\<rparr>, src_size := n\<rparr>"

lemma source_simps [simp]:
  "src_size (file_source f n own) = n" "src_size (io_source cb n) = n"
  "\<not> mpqe (file_source f n own)" "\<not> mpqe (io_source cb n)"
  "read_at (backend (file_source f n own)) = Some File_fn"
  "read_at (backend (io_source cb n)) = Some Custom_fn"
  by (simp_all add: file_source_def io_source_def zero_source_def)

lemma file_source_exact:
  assumes "\<And>off. off \<le> INT64_MAX \<Longrightarrow> seek_ok f off"
    and "\<And>off n. off + n \<le> length (contents f) \<Longrightarrow> read_ok f off n"
  shows "exact_reader (backend_read_at (backend (file_source f (length (contents f)) own))) (contents f)"
  using assms
  by unfold_locales (auto simp: file_source_def zero_source_def backend_read_at_def
      file_backend_read_at_def file_backend_seek_def libmpq__file_seek_set_def fread_at_def)

lemma io_source_exact:
  assumes "\<And>off n. off + n \<le> length img \<Longrightarrow> cb off n = (0, take n (drop off img))"
  shows "exact_reader (backend_read_at (backend (io_source cb (length img)))) img"
  using assms
  by unfold_locales (auto simp: io_source_def zero_source_def backend_read_at_def
      custom_backend_read_at_def)

interpretation sound_file: plain_source "file_source (sound_file img) (length img) own" img for img own
  using file_source_exact [of "sound_file img" own]
  by (auto simp: plain_source_def plain_source_axioms_def sound_file_def)

interpretation sound_io: plain_source "io_source (sound_callback img) (length img)" img for img
  using io_source_exact [of img "sound_callback img"]
  by (auto simp: plain_source_def plain_source_axioms_def sound_callback_def)

interpretation sound_mpqe: mpqe_source
  "(io_source (sound_callback img) (length img))\<lparr>mpqe := True, key := k\<rparr>" img for img k
  using io_source_exact [of img "sound_callback img"]
  by (auto simp: mpqe_source_def mpqe_source_axioms_def sound_callback_def)

lemma open_io_source:
  assumes "alloc Source_block" "alloc Backend_block"
  shows "libmpq__source_open_io alloc (Some p) (Some cb) n =
     (Inr (io_source cb n), [Acquire Source_block, Acquire Backend_block])"
  using assms
  by (simp add: libmpq__source_open_io_def source_set_custom_backend_def io_source_def zero_source_def)

lemma open_file_source:
  assumes "alloc Source_block" "alloc Backend_block" "name \<noteq> []" "fopen name = Inr f"
    and "seek_end_ok f" "tell f = int n"
  shows "libmpq__source_open_file alloc fopen (Some p) (Some name) =
     (Inr (file_source f n True), [Acquire Source_block, Acquire File_stream, Acquire Backend_block])"
  using assms
  by (simp add: libmpq__source_open_file_def libmpq__source_open_common_def libmpq__file_open_def
      libmpq__file_tell_def source_set_file_backend_def file_source_def zero_source_def)

subsection \<open>Sources that may fail but do not lie\<close>

text \<open>A source over an image: its file may be cut short and its seeks and reads may fail; its callback may fail
  with whatever bytes in the buffer, but when it reports success it has stored the requested bytes.\<close>

definition truthful :: "mpq_source_s \<Rightarrow> u8 list \<Rightarrow> bool" where
  "truthful s img \<longleftrightarrow> src_size s = length img \<and> length img \<le> INT64_MAX \<and>
     (\<forall>b. file_context (context_of (backend s)) = Some b \<longrightarrow> (\<exists>k. contents (stream b) = take k img)) \<and>
     (\<forall>b f off n bs. custom_context (context_of (backend s)) = Some b \<and> callback b = Some f \<and> off + n \<le> length img \<and>
        f off n = (0, bs) \<longrightarrow> bs = take n (drop off img))"

lemmas read_defs = backend_read_at_def file_backend_read_at_def custom_backend_read_at_def
lemmas read_splits = if_split_asm option.split_asm sum.split_asm prod.split_asm

lemma backend_read_neg: "backend_read_at b off buf n = Inl e \<Longrightarrow> e < 0"
  by (cases "read_at b"; cases "the (read_at b)")
    (auto simp: read_defs split: read_splits)

lemma backend_read_truthful:
  assumes "truthful s img" "backend_read_at (backend s) off (Some buf) n = Inr r" "off + n \<le> length img" "n \<le> length buf"
  shows "r = Some (write_at buf 0 (take n (drop off img)))"
proof (cases "n = 0")
  case True
  then show ?thesis using assms(2) by (auto simp: backend_read_at_def split: read_splits)
next
  case False
  then obtain fn where io: "io_read_at fn (context_of (backend s)) off (Some buf) n = Inr r"
    using assms(2) by (auto simp: backend_read_at_def split: read_splits)
  show ?thesis
  proof (cases fn)
    case File_fn
    with io False obtain b where b: "file_context (context_of (backend s)) = Some b" "length (fread_at (stream b) off n) = n"
        "r = Some (write_at buf 0 (fread_at (stream b) off n))"
      by (auto simp: file_backend_read_at_def split: read_splits)
    obtain k where "contents (stream b) = take k img" using assms(1) b(1) by (auto simp: truthful_def)
    then have "fread_at (stream b) off n = take n (drop off (take k img))"
      using b(2) False by (auto simp: fread_at_def)
    moreover from this b(2) have "take n (drop off (take k img)) = take n (drop off img)"
      unfolding drop_take take_take by (auto simp: min_def split: if_split_asm)
    ultimately show ?thesis using b(3) by simp
  next
    case Custom_fn
    with io obtain b f bs where b: "custom_context (context_of (backend s)) = Some b" "callback b = Some f"
        "f off n = (0, bs)" "r = Some (write_at buf 0 bs)"
      by (auto simp: custom_backend_read_at_def split: read_splits)
    then show ?thesis using assms(1,3) unfolding truthful_def by blast
  qed
qed

text \<open>The source with the same key and size whose backend never fails.\<close>

definition flawless :: "mpq_source_s \<Rightarrow> u8 list \<Rightarrow> mpq_source_s" where
  "flawless s img = (io_source (sound_callback img) (length img))\<lparr>mpqe := True, key := key s\<rparr>"

lemma flawless_batch:
  assumes "truthful s img" "mpqe_read_batch s off n copied = Inr x" "off + n \<le> length img" "copied < n"
  shows "mpqe_read_batch (flawless s img) off n copied = Inr x"
proof -
  have fl: "src_size (flawless s img) = src_size s" "key (flawless s img) = key s" "src_size s = length img" "length img \<le> INT64_MAX"
    using assms(1) by (simp_all add: flawless_def truthful_def)
  define c where "c = chunk_floor (off + copied)"
  define p where "p = mpqe_physical s c (off + n - c)"
  note bounds = physical_bounds [of off n s copied, folded c_def, folded p_def]
  have bs: "c + p \<le> length img" "p \<le> length (replicate LIBMPQ_MPQE_READ_BUFFER_SIZE (0 :: u8))"
    using bounds assms(3,4) fl(3) by simp_all
  have same: "mpqe_physical (flawless s img) c (off + n - c) = p" by (simp add: p_def mpqe_physical_def fl)
  have "backend_read_at (backend (flawless s img)) c (Some (replicate LIBMPQ_MPQE_READ_BUFFER_SIZE 0)) p =
      Inr (Some (write_at (replicate LIBMPQ_MPQE_READ_BUFFER_SIZE 0) 0 (take p (drop c img))))"
    using sound_mpqe.physical.read_exact [of c p img "replicate LIBMPQ_MPQE_READ_BUFFER_SIZE 0" "key s"] bs fl(4)
    by (simp add: flawless_def)
  moreover have "r = Some (write_at (replicate LIBMPQ_MPQE_READ_BUFFER_SIZE 0) 0 (take p (drop c img)))"
    if "backend_read_at (backend s) c (Some (replicate LIBMPQ_MPQE_READ_BUFFER_SIZE 0)) p = Inr r" for r
    using backend_read_truthful [OF assms(1) that bs] .
  ultimately show ?thesis
    using assms(2) unfolding mpqe_read_batch_def Let_def fl(1,2) c_def [symmetric] p_def [symmetric] same
    by (auto split: read_splits)
qed

lemma flawless_loop:
  assumes "source_mpqe_loop s off n copied buf = Inr r" "truthful s img" "off + n \<le> length img"
  shows "source_mpqe_loop (flawless s img) off n copied buf = Inr r"
  using assms
proof (induction s off n copied buf rule: source_mpqe_loop.induct)
  case (1 s off n copied buf)
  show ?case
  proof (cases "copied < n")
    case True
    then obtain a bs where b: "mpqe_read_batch s off n copied = Inr (a, bs)"
        "source_mpqe_loop s off n (copied + a) (write_at buf copied bs) = Inr r"
      using "1.prems"(1) by (subst (asm) source_mpqe_loop.simps) (auto split: sum.split_asm prod.split_asm)
    show ?thesis
      using True flawless_batch [OF "1.prems"(2) b(1) "1.prems"(3) True] "1.IH" [OF True b(1) refl b(2) "1.prems"(2,3)]
      by (subst source_mpqe_loop.simps) simp
  next
    case False
    then show ?thesis using "1.prems"(1) by (subst source_mpqe_loop.simps, subst (asm) source_mpqe_loop.simps) simp
  qed
qed

lemma read_loop_neg: "source_mpqe_loop s off n copied buf = Inl e \<Longrightarrow> e < 0"
proof (induction s off n copied buf rule: source_mpqe_loop.induct)
  case (1 s off n copied buf)
  have batch: "mpqe_read_batch s off n copied = Inl e \<Longrightarrow> e < 0"
    unfolding mpqe_read_batch_def Let_def by (auto dest: backend_read_neg split: read_splits)
  from "1.prems" show ?case
    by (subst (asm) source_mpqe_loop.simps)
      (auto dest: batch "1.IH" split: read_splits)
qed

text \<open>What a log leaves behind when the opener failed, and after the source it made is released.\<close>

definition balanced :: "mpq_source_s io \<times> log \<Rightarrow> bool" where
  "balanced opened = (case opened of
     (Inl e, log) \<Rightarrow> \<forall>r. held r log = 0
   | (Inr s, log) \<Rightarrow> \<forall>r. held r (log @ snd (libmpq__source_close (Some s))) = 0 \<and>
       held r (log @ libmpq__source_discard (Some s)) = 0)"

lemmas release_defs = libmpq__source_close_def libmpq__source_discard_def file_backend_close_def
  file_backend_discard_def custom_backend_close_def custom_backend_discard_def

lemma balanced_open_common: "balanced (libmpq__source_open_common alloc fopen p path)"
  by (auto simp: balanced_def libmpq__source_open_common_def source_set_file_backend_def zero_source_def
      release_defs split: sum.split)

lemma balanced_open_io: "balanced (libmpq__source_open_io alloc p cb n)"
  by (auto simp: balanced_def libmpq__source_open_io_def source_set_custom_backend_def zero_source_def
      release_defs)

lemma balanced_borrow: "balanced (libmpq__source_borrow_file alloc p f n)"
  by (auto simp: balanced_def libmpq__source_borrow_file_def source_set_file_backend_def zero_source_def
      release_defs split: option.split)

lemma release_mpqe_key:
  "libmpq__source_close (Some (s\<lparr>mpqe := m, key := k\<rparr>)) = libmpq__source_close (Some s)"
  "libmpq__source_discard (Some (s\<lparr>mpqe := m, key := k\<rparr>)) = libmpq__source_discard (Some s)"
  by (simp_all add: libmpq__source_close_def libmpq__source_discard_def split: option.split)

lemma balanced_open_mpqe_with: "balanced opened \<Longrightarrow> balanced (open_mpqe_with p auth n opened)"
  by (auto simp: balanced_def open_mpqe_with_def release_mpqe_key split: sum.split prod.split)

lemma balanced_clone: "balanced (libmpq__source_clone alloc fopen p s path)"
proof (cases s)
  case None
  then show ?thesis by (simp add: libmpq__source_clone_def balanced_def)
next
  case (Some s')
  show ?thesis
  proof (cases "clone_fn (backend s')")
    case None
    then show ?thesis
      using Some balanced_open_common [of alloc fopen p path]
      by (auto simp: libmpq__source_clone_def balanced_def release_mpqe_key libmpq__source_discard_def
          [of None] split: sum.split prod.split)
  next
    case (Some fn)
    then show ?thesis
      using \<open>s = Some s'\<close>
      by (auto simp: libmpq__source_clone_def balanced_def custom_backend_clone_def zero_source_def
          release_defs split: option.split)
  qed
qed

subsection \<open>Properties\<close>

text \<open>C35: An MPQE source opened over a caller's callback that serves an image exactly (the contract
  of \<^verbatim>\<open>libmpq_read_at_fn\<close>) reads the decrypted image: for every byte range inside it, aligned to
  chunks or not and across any number of internal batches, the read succeeds and stores exactly the
  bytes of the image exclusive-ored with the key stream of the derived key at their positions, and
  leaves the rest of the buffer as it was.\<close>

theorem mpqe_read_decrypts:
  assumes "\<And>off n. off + n \<le> length img \<Longrightarrow> cb off n = (0, take n (drop off img))"
    and "32 \<le> length auth" "alloc Source_block" "alloc Backend_block"
    and "off + n \<le> length img" "off \<le> INT64_MAX" "off + n \<le> Suc INT64_MAX" "n \<le> length buf"
  shows "\<exists>s log k. libmpq__source_open_mpqe_io alloc (Some p) (Some cb) (length img) (Some auth) (length auth) =
       (Inr s, log) \<and> libmpq__mpqe_key (Some 0) (Some auth) (length auth) = Inr k \<and>
     libmpq__source_read_at (Some s) off (Some buf) n =
       Inr (Some (write_at buf 0 (take n (drop off (mpqe_plain k img)))))"
proof -
  obtain k where k: "libmpq__mpqe_key (Some 0) (Some auth) (length auth) = Inr k"
    using mpqe_key_words [OF assms(2), of 0] by blast
  let ?s = "(io_source cb (length img))\<lparr>mpqe := True, key := k\<rparr>"
  have "exact_reader (backend_read_at (backend ?s)) img"
    using io_source_exact [of img cb] assms(1) by simp
  then have "mpqe_source ?s img"
    by (simp add: mpqe_source_def mpqe_source_axioms_def)
  from mpqe_source.read_plain [OF this] assms show ?thesis
    using k by (simp add: libmpq__source_open_mpqe_io_def open_mpqe_with_def open_io_source)
qed

theorem mpqe_read_decrypts_witness:
  "\<exists>s log k. libmpq__source_open_mpqe_io (\<lambda>_. True) (Some 0) (Some (sound_callback (replicate 100 5))) 100
       (Some (replicate 32 7)) 32 = (Inr s, log) \<and>
     libmpq__mpqe_key (Some 0) (Some (replicate 32 7)) 32 = Inr k \<and>
     libmpq__source_read_at (Some s) 60 (Some (replicate 9 0)) 8 =
       Inr (Some (write_at (replicate 9 0) 0 (take 8 (drop 60 (mpqe_plain k (replicate 100 5))))))"
  using mpqe_read_decrypts [of "replicate 100 5" "sound_callback (replicate 100 5)" "replicate 32 7"
      "\<lambda>_. True" 60 8 "replicate 9 0" 0]
  by (simp add: sound_callback_def INT64_MAX_def)

text \<open>C36: Faults never turn into wrong data. Whatever fails, a file that is cut short or whose seeks and reads
  fail, a callback that fails with anything in the buffer, a read through the source layer, plain or
  MPQE, either fails with a negative code or returns exactly the requested bytes of the image,
  decrypted for an MPQE source, at the front of the caller's buffer, and leaves the rest of the buffer
  as it was. The only thing asked of a callback is what its documentation asks: when it reports
  success, it has stored the requested bytes.\<close>

theorem source_read_truthful:
  assumes "truthful s img" "n \<le> length buf"
  shows "case libmpq__source_read_at (Some s) off (Some buf) n of
       Inl e \<Rightarrow> e < 0
     | Inr None \<Rightarrow> False
     | Inr (Some r) \<Rightarrow> off + n \<le> length img \<and>
         r = take n (drop off (if mpqe s then mpqe_plain (key s) img else img)) @ drop n buf"
proof (cases "libmpq__source_read_at (Some s) off (Some buf) n")
  case (Inl e)
  then have "e < 0"
    by (auto simp: libmpq__source_read_at_def source_mpqe_read_at_def map_sum_def
        dest: backend_read_neg read_loop_neg split: read_splits)
  with Inl show ?thesis by simp
next
  case (Inr r)
  let ?img = "if mpqe s then mpqe_plain (key s) img else img"
  have size: "src_size s = length img" "length img \<le> INT64_MAX" using assms(1) by (simp_all add: truthful_def)
  have range: "off + n \<le> length img"
    using Inr size by (auto simp: libmpq__source_read_at_def split: read_splits)
  have len: "length (take n (drop off ?img)) = n" using range by simp
  have "r = Some (write_at buf 0 (take n (drop off ?img)))"
  proof (cases "mpqe s \<and> n \<noteq> 0")
    case True
    with Inr obtain b where b: "r = Some b" "source_mpqe_loop s off n 0 buf = Inr b"
      by (cases "source_mpqe_loop s off n 0 buf")
        (auto simp: libmpq__source_read_at_def source_mpqe_read_at_def split: read_splits)
    from flawless_loop [OF b(2) assms(1) range] show ?thesis
      using sound_mpqe.read_loop [of off n img 0 buf "key s"] range size assms(2) b(1) True by (simp add: flawless_def)
  next
    case False
    with Inr have "r = Some buf \<and> n = 0 \<or> backend_read_at (backend s) off (Some buf) n = Inr r \<and> \<not> mpqe s"
      by (auto simp: libmpq__source_read_at_def split: read_splits)
    then show ?thesis using backend_read_truthful [OF assms(1) _ range assms(2)] by auto
  qed
  then show ?thesis using Inr range len by (simp add: write_at_def)
qed

text \<open>A callback over six bytes that fails for every range beyond the fourth.\<close>

definition flaky_source :: mpq_source_s where
  "flaky_source = io_source (\<lambda>off n. if off + n \<le> 4 then (0, take n (drop off [10, 11, 12, 13, 14, 15])) else (-5, [])) 6"

theorem source_read_truthful_witness:
  "libmpq__source_read_at (Some flaky_source) 1 (Some [1, 2, 3, 4]) 3 = Inr (Some [11, 12, 13, 4]) \<and>
   (case libmpq__source_read_at (Some flaky_source) 1 (Some [1, 2, 3, 4]) 4 of Inl e \<Rightarrow> e < 0 | Inr r \<Rightarrow> False)"
proof -
  have ok: "truthful flaky_source [10, 11, 12, 13, 14, 15]"
    by (auto simp: truthful_def flaky_source_def io_source_def zero_source_def INT64_MAX_def)
  have "\<exists>r. libmpq__source_read_at (Some flaky_source) 1 (Some [1, 2, 3, 4]) 3 = Inr r"
    "\<exists>e. libmpq__source_read_at (Some flaky_source) 1 (Some [1, 2, 3, 4]) 4 = Inl e"
    by (simp_all add: libmpq__source_read_at_def flaky_source_def io_source_def zero_source_def read_defs INT64_MAX_def)
  then show ?thesis
    using source_read_truthful [OF ok, of 3 "[1, 2, 3, 4]" 1] source_read_truthful [OF ok, of 4 "[1, 2, 3, 4]" 1]
    by (auto simp: flaky_source_def split: option.split_asm)
qed

text \<open>No opener of a source leaks the source block, the backend block or the FILE stream. Whatever fails on
  the way (allocation of the source or of its backend, opening, seeking, a bad authentication code), a
  failed opener has released those it had acquired, and the source of a successful one is released completely, once, by closing it as well
  as by discarding it. This holds for owned and borrowed
  files, callbacks, both MPQE variants and clones.\<close>

theorem source_open_balanced:
  "balanced (libmpq__source_open_file alloc fopen p path) \<and>
   balanced (libmpq__source_borrow_file alloc p f n) \<and>
   balanced (libmpq__source_open_io alloc p cb n) \<and>
   balanced (libmpq__source_open_mpqe alloc fopen p path auth m) \<and>
   balanced (libmpq__source_open_mpqe_io alloc p cb n auth m) \<and>
   balanced (libmpq__source_clone alloc fopen p s path)"
  unfolding libmpq__source_open_file_def libmpq__source_open_mpqe_def libmpq__source_open_mpqe_io_def
  by (intro conjI balanced_open_common balanced_borrow balanced_open_io
      balanced_open_mpqe_with balanced_clone)

end
