(* ===== verification/Mpq_Attributes.thy ===== *)
theory Mpq_Attributes
  imports Mpq_Tables
begin

text \<open>
  The \<^verbatim>\<open>(attributes)\<close> member, \<^verbatim>\<open>src/mpq-attributes.c\<close>: the layout of its arrays, the parser with its
  three accepted layouts, the decoder of one entry, the serializer and its variant with patch bits,
  and the comparison of checksums. Counts and offsets are natural numbers: the code computes them in
  64 bits from 32-bit counts, so that no sum wraps. \<open>view\<close> values borrow the payload, which the
  model keeps in the record.
\<close>

subsection \<open>Records and constants\<close>

record mpq_file_attributes_s =
  attr_flags :: u32
  crc32 :: u32
  filetime :: u64
  md5 :: "u8 list"
  patch_bit :: int

definition zero_attributes :: mpq_file_attributes_s where
  "zero_attributes = \<lparr>attr_flags = 0, crc32 = 0, filetime = 0, md5 = replicate 16 0, patch_bit = 0\<rparr>"

record mpq_attributes_s =
  data :: "u8 list"
  view_flags :: u32
  entries :: nat
  self :: nat
  patch_bits :: nat
  patch_self_omitted :: bool
  offsets :: "nat list"

definition LIBMPQ_ATTRIBUTE_CRC32 :: u32 where "LIBMPQ_ATTRIBUTE_CRC32 = 0x01"
definition LIBMPQ_ATTRIBUTE_FILETIME :: u32 where "LIBMPQ_ATTRIBUTE_FILETIME = 0x02"
definition LIBMPQ_ATTRIBUTE_MD5 :: u32 where "LIBMPQ_ATTRIBUTE_MD5 = 0x04"
definition LIBMPQ_ATTRIBUTE_PATCH_BIT :: u32 where "LIBMPQ_ATTRIBUTE_PATCH_BIT = 0x08"
definition LIBMPQ_ATTRIBUTES_VERSION :: u32 where "LIBMPQ_ATTRIBUTES_VERSION = 100"
definition LIBMPQ_ATTRIBUTES_ALL :: u32 where "LIBMPQ_ATTRIBUTES_ALL = 0x0F"
definition LIBMPQ_VERIFY_FILE_CRC32 :: u32 where "LIBMPQ_VERIFY_FILE_CRC32 = 0x02"
definition LIBMPQ_VERIFY_FILE_MD5 :: u32 where "LIBMPQ_VERIFY_FILE_MD5 = 0x04"

lemmas attribute_flags = LIBMPQ_ATTRIBUTE_CRC32_def LIBMPQ_ATTRIBUTE_FILETIME_def
  LIBMPQ_ATTRIBUTE_MD5_def LIBMPQ_ATTRIBUTE_PATCH_BIT_def LIBMPQ_ATTRIBUTES_ALL_def

subsection \<open>Layout\<close>

definition attribute_widths :: "nat list" where "attribute_widths = [4, 8, 16]"

text \<open>One turn of the loop: store the running size as the offset, add the array if present.\<close>

definition array_layout_step :: "nat \<Rightarrow> u32 \<Rightarrow> nat \<Rightarrow> nat \<times> nat list \<Rightarrow> nat \<times> nat list" where
  "array_layout_step count flgs i st =
     (case st of (n, offs) \<Rightarrow>
        (if flgs AND push_bit i 1 \<noteq> 0 then n + count * attribute_widths ! i else n,
         if n \<le> SIZE_MAX then offs[i := n] else offs))"

definition array_layout :: "nat \<Rightarrow> u32 \<Rightarrow> mpq_attributes_s \<Rightarrow> nat \<times> mpq_attributes_s" where
  "array_layout count flgs view =
     (case fold (array_layout_step count flgs) [0..<3] (8, offsets view) of
        (n, offs) \<Rightarrow> (n, view\<lparr>offsets := (if n \<le> SIZE_MAX then offs[3 := n] else offs)\<rparr>))"

definition match_layout ::
  "u8 list \<Rightarrow> nat \<Rightarrow> nat \<Rightarrow> nat \<Rightarrow> mpq_attributes_s \<Rightarrow> bool \<Rightarrow> bool \<times> mpq_attributes_s" where
  "match_layout dat n count ents view legacy =
     (case array_layout ents (view_flags view) view of
        (base, view) \<Rightarrow>
          let bits = (ents + 7) div 8;
              short_bits = (count + 6) div 8
          in if base > n then (False, view)
          else
            let view = view\<lparr>entries := ents\<rparr>
            in if view_flags view AND LIBMPQ_ATTRIBUTE_PATCH_BIT = 0 then (base = n, view)
            else if base + bits = n then (True, view\<lparr>patch_bits := ents\<rparr>)
            else if base + short_bits = n then
              (True, view\<lparr>patch_bits := short_bits * 8, patch_self_omitted := True\<rparr>)
            else if \<not> legacy then (False, view)
            else if base = n then (True, view)
            else if base + count * 4 \<noteq> n then (False, view)
            else (list_all (\<lambda>b. b = 0) (take (n - base) (drop base dat)), view))"

definition zero_view :: mpq_attributes_s where
  "zero_view = \<lparr>data = [], view_flags = 0, entries = 0, self = 0, patch_bits = 0,
     patch_self_omitted = False, offsets = [0, 0, 0, 0]\<rparr>"

definition libmpq__attributes_parse :: "ptr \<Rightarrow> nat \<Rightarrow> nat \<Rightarrow> nat \<Rightarrow> mpq_attributes_s result" where
  "libmpq__attributes_parse dat n count slf =
     (case dat of
        None \<Rightarrow> Inl ERROR_FORMAT
      | Some bs \<Rightarrow>
          if n < 8 \<or> count = 0 \<or> slf \<ge> count \<or> libmpq__load_le32 dat \<noteq> LIBMPQ_ATTRIBUTES_VERSION
          then Inl ERROR_FORMAT
          else
            let candidate = zero_view\<lparr>view_flags := libmpq__load_le32 (at bs 4)\<rparr>
            in if view_flags candidate AND NOT LIBMPQ_ATTRIBUTES_ALL \<noteq> 0 then Inl ERROR_FORMAT
            else
              let candidate = candidate\<lparr>data := bs, self := slf\<rparr>;
                  (ok1, candidate1) = match_layout bs n count count candidate False;
                  (ok2, candidate2) = match_layout bs n count (count - 1) candidate1 False;
                  (ok3, candidate3) = match_layout bs n count count candidate2 True
              in if ok1 then Inr candidate1
                 else if ok2 then Inr candidate2
                 else if ok3 then Inr candidate3
                 else Inl ERROR_FORMAT)"

subsection \<open>Decoding one entry\<close>

text \<open>The four statements of the decoder, one per array.\<close>

definition get_crc :: "mpq_attributes_s \<Rightarrow> nat \<Rightarrow> mpq_file_attributes_s \<Rightarrow> mpq_file_attributes_s" where
  "get_crc view index r =
     (if attr_flags r AND LIBMPQ_ATTRIBUTE_CRC32 \<noteq> 0
      then r\<lparr>crc32 := libmpq__load_le32 (at (data view) (offsets view ! 0 + index * 4))\<rparr> else r)"

definition get_filetime :: "mpq_attributes_s \<Rightarrow> nat \<Rightarrow> mpq_file_attributes_s \<Rightarrow> mpq_file_attributes_s" where
  "get_filetime view index r =
     (if attr_flags r AND LIBMPQ_ATTRIBUTE_FILETIME \<noteq> 0
      then r\<lparr>filetime := libmpq__load_le64 (at (data view) (offsets view ! 1 + index * 8))\<rparr> else r)"

definition get_md5 :: "mpq_attributes_s \<Rightarrow> nat \<Rightarrow> mpq_file_attributes_s \<Rightarrow> mpq_file_attributes_s" where
  "get_md5 view index r =
     (if attr_flags r AND LIBMPQ_ATTRIBUTE_MD5 \<noteq> 0 then
        let digest = take 16 (drop (offsets view ! 2 + index * 16) (data view));
            nonzero = fold (\<lambda>b n. n OR b) digest 0
        in r\<lparr>md5 := digest,
             attr_flags := (if nonzero = 0 then attr_flags r AND NOT LIBMPQ_ATTRIBUTE_MD5 else attr_flags r)\<rparr>
      else r)"

definition get_patch_bit :: "mpq_attributes_s \<Rightarrow> nat \<Rightarrow> mpq_file_attributes_s \<Rightarrow> mpq_file_attributes_s" where
  "get_patch_bit view index r =
     (if view_flags view AND LIBMPQ_ATTRIBUTE_PATCH_BIT \<noteq> 0 then
        if index < patch_bits view then
          r\<lparr>attr_flags := attr_flags r OR LIBMPQ_ATTRIBUTE_PATCH_BIT,
            patch_bit := (if data view ! (offsets view ! 3 + index div 8) AND
              drop_bit (index mod 8) 0x80 \<noteq> 0 then 1 else 0)\<rparr>
        else if index = self view \<and> patch_self_omitted view then
          r\<lparr>attr_flags := attr_flags r OR LIBMPQ_ATTRIBUTE_PATCH_BIT\<rparr>
        else r
      else r)"

definition libmpq__attributes_get :: "mpq_attributes_s \<Rightarrow> nat \<Rightarrow> mpq_file_attributes_s" where
  "libmpq__attributes_get view index =
     (if index \<ge> entries view then zero_attributes
      else get_patch_bit view index (get_md5 view index (get_filetime view index (get_crc view index
        (zero_attributes\<lparr>attr_flags := view_flags view AND NOT LIBMPQ_ATTRIBUTE_PATCH_BIT\<rparr>)))))"

subsection \<open>Serializing\<close>

definition serialize_step ::
  "mpq_file_attributes_s list \<Rightarrow> nat \<Rightarrow> u32 \<Rightarrow> nat list \<Rightarrow> nat \<Rightarrow> u8 list \<Rightarrow> u8 list" where
  "serialize_step ents slf flgs offs i raw =
     (if i = slf then raw
      else
        let raw = (if flgs AND LIBMPQ_ATTRIBUTE_CRC32 \<noteq> 0
                   then libmpq__store_le32 raw (offs ! 0 + i * 4) (crc32 (ents ! i)) else raw);
            raw = (if flgs AND LIBMPQ_ATTRIBUTE_FILETIME \<noteq> 0
                   then libmpq__store_le64 raw (offs ! 1 + i * 8) (filetime (ents ! i)) else raw);
            raw = (if flgs AND LIBMPQ_ATTRIBUTE_MD5 \<noteq> 0
                   then write_at raw (offs ! 2 + i * 16) (take 16 (md5 (ents ! i))) else raw)
        in raw)"

definition libmpq__attributes_serialize ::
  "(nat \<Rightarrow> bool) \<Rightarrow> mpq_file_attributes_s list \<Rightarrow> nat \<Rightarrow> nat \<Rightarrow> u32 \<Rightarrow> u8 list result" where
  "libmpq__attributes_serialize alloc ents count slf flgs =
     (if count = 0 \<or> slf \<ge> count \<or> flgs AND NOT LIBMPQ_ATTRIBUTES_ALL \<noteq> 0 then Inl ERROR_FORMAT
      else case array_layout count flgs zero_view of
        (base, layout) \<Rightarrow>
          let len = (if flgs AND LIBMPQ_ATTRIBUTE_PATCH_BIT \<noteq> 0 then base + (count + 6) div 8 else base)
          in if len > SIZE_MAX \<or> len > UINT32_MAX then Inl ERROR_SIZE
          else if list_ex (\<lambda>i. patch_bit (ents ! i) \<noteq> 0) [0..<count] then Inl ERROR_FORMAT
          else if \<not> alloc len then Inl ERROR_MALLOC
          else
            let raw = replicate len 0;
                raw = libmpq__store_le32 raw 0 LIBMPQ_ATTRIBUTES_VERSION;
                raw = libmpq__store_le32 raw 4 flgs
            in Inr (fold (serialize_step ents slf flgs (offsets layout)) [0..<count] raw))"

text \<open>Setting the bits of the patch array; a bit outside it is refused.\<close>

definition patch_bit_step ::
  "mpq_file_attributes_s list \<Rightarrow> nat \<Rightarrow> nat \<Rightarrow> nat \<Rightarrow> u8 list result \<Rightarrow> u8 list result" where
  "patch_bit_step ents slf bits_offset i st =
     (case st of
        Inl e \<Rightarrow> Inl e
      | Inr dat \<Rightarrow>
          if patch_bit (ents ! i) = 0 then Inr dat
          else if i = slf \<or> bits_offset > length dat \<or> i div 8 \<ge> length dat - bits_offset then
            Inl ERROR_FORMAT
          else Inr (dat[bits_offset + i div 8 :=
            dat ! (bits_offset + i div 8) OR drop_bit (i mod 8) 0x80]))"

definition sizeof_file_attributes :: nat where "sizeof_file_attributes = 40"

definition libmpq__attributes_serialize_patch_bits ::
  "(nat \<Rightarrow> bool) \<Rightarrow> mpq_file_attributes_s list \<Rightarrow> nat \<Rightarrow> nat \<Rightarrow> u32 \<Rightarrow> u8 list result" where
  "libmpq__attributes_serialize_patch_bits alloc ents count slf flgs =
     (if count = 0 \<or> count * sizeof_file_attributes > SIZE_MAX then Inl ERROR_SIZE
      else if \<not> alloc (count * sizeof_file_attributes) then Inl ERROR_MALLOC
      else
        let copy = map (\<lambda>e. e\<lparr>patch_bit := 0\<rparr>) (take count ents)
        in case libmpq__attributes_serialize alloc copy count slf flgs of
          Inl e \<Rightarrow> Inl e
        | Inr dat \<Rightarrow>
            if flgs AND LIBMPQ_ATTRIBUTE_PATCH_BIT = 0 then Inr dat
            else
              let bits_offset = 8 + (if flgs AND LIBMPQ_ATTRIBUTE_CRC32 \<noteq> 0 then count * 4 else 0) +
                    (if flgs AND LIBMPQ_ATTRIBUTE_FILETIME \<noteq> 0 then count * 8 else 0) +
                    (if flgs AND LIBMPQ_ATTRIBUTE_MD5 \<noteq> 0 then count * 16 else 0)
              in fold (patch_bit_step ents slf bits_offset) [0..<count] (Inr dat))"

subsection \<open>Comparing checksums\<close>

definition libmpq__attributes_compare_file ::
  "mpq_file_attributes_s \<Rightarrow> u32 \<Rightarrow> u32 \<Rightarrow> u8 list \<Rightarrow> u32 \<Rightarrow> u32" where
  "libmpq__attributes_compare_file attributes verify_flags crc digest mismatches =
     (let m = (if verify_flags AND LIBMPQ_VERIFY_FILE_CRC32 \<noteq> 0 \<and>
                  attr_flags attributes AND LIBMPQ_ATTRIBUTE_CRC32 \<noteq> 0 \<and> crc \<noteq> crc32 attributes
               then mismatches OR LIBMPQ_VERIFY_FILE_CRC32 else mismatches)
      in if verify_flags AND LIBMPQ_VERIFY_FILE_MD5 \<noteq> 0 \<and>
            attr_flags attributes AND LIBMPQ_ATTRIBUTE_MD5 \<noteq> 0 \<and>
            take 16 digest \<noteq> take 16 (md5 attributes)
         then m OR LIBMPQ_VERIFY_FILE_MD5 else m)"

subsection \<open>The layout in closed form\<close>

definition section_size :: "u32 \<Rightarrow> u32 \<Rightarrow> nat \<Rightarrow> nat" where
  "section_size flgs f n = (if flgs AND f \<noteq> 0 then n else 0)"

definition layout_offsets :: "nat \<Rightarrow> u32 \<Rightarrow> nat list" where
  "layout_offsets count flgs =
     (let a = 8 + section_size flgs LIBMPQ_ATTRIBUTE_CRC32 (count * 4);
          b = a + section_size flgs LIBMPQ_ATTRIBUTE_FILETIME (count * 8)
      in [8, a, b, b + section_size flgs LIBMPQ_ATTRIBUTE_MD5 (count * 16)])"

definition layout_base :: "nat \<Rightarrow> u32 \<Rightarrow> nat" where
  "layout_base count flgs = layout_offsets count flgs ! 3"

lemma array_layout_eq:
  assumes "count \<le> UINT32_MAX" "length (offsets view) = 4"
  shows "array_layout count flgs view =
     (layout_base count flgs, view\<lparr>offsets := layout_offsets count flgs\<rparr>)"
proof -
  obtain o0 o1 o2 o3 where o: "offsets view = [o0, o1, o2, o3]"
    using assms(2) by (auto simp: length_Suc_conv numeral_eq_Suc)
  show ?thesis
    using assms(1) unfolding array_layout_def o
    by (simp add: array_layout_step_def attribute_widths_def layout_base_def layout_offsets_def
        section_size_def upt_rec attribute_flags Let_def SIZE_MAX_def UINT32_MAX_def)
qed

text \<open>A view is sound when every byte the decoder reads of it lies inside the payload.\<close>

definition view_ok :: "mpq_attributes_s \<Rightarrow> bool" where
  "view_ok view \<longleftrightarrow>
     (view_flags view AND LIBMPQ_ATTRIBUTE_CRC32 \<noteq> 0 \<longrightarrow>
        offsets view ! 0 + entries view * 4 \<le> length (data view)) \<and>
     (view_flags view AND LIBMPQ_ATTRIBUTE_FILETIME \<noteq> 0 \<longrightarrow>
        offsets view ! 1 + entries view * 8 \<le> length (data view)) \<and>
     (view_flags view AND LIBMPQ_ATTRIBUTE_MD5 \<noteq> 0 \<longrightarrow>
        offsets view ! 2 + entries view * 16 \<le> length (data view)) \<and>
     (\<forall>i < min (entries view) (patch_bits view). offsets view ! 3 + i div 8 < length (data view))"

lemma section_bounds:
  "flgs AND LIBMPQ_ATTRIBUTE_CRC32 \<noteq> 0 \<Longrightarrow> layout_offsets n flgs ! 0 + n * 4 \<le> layout_base n flgs"
  "flgs AND LIBMPQ_ATTRIBUTE_FILETIME \<noteq> 0 \<Longrightarrow> layout_offsets n flgs ! 1 + n * 8 \<le> layout_base n flgs"
  "flgs AND LIBMPQ_ATTRIBUTE_MD5 \<noteq> 0 \<Longrightarrow> layout_offsets n flgs ! 2 + n * 16 \<le> layout_base n flgs"
  by (simp_all add: layout_base_def layout_offsets_def section_size_def Let_def)

lemma length_layout_offsets [simp]: "length (layout_offsets n flgs) = 4"
  by (simp add: layout_offsets_def Let_def)

lemma match_layout_cases:
  assumes "count \<le> UINT32_MAX" "ents \<le> count" "length (offsets view) = 4"
  shows "match_layout dat n count ents view legacy =
    (let base = layout_base ents (view_flags view);
         v = view\<lparr>offsets := layout_offsets ents (view_flags view)\<rparr>
     in if base > n then (False, v)
     else if view_flags view AND LIBMPQ_ATTRIBUTE_PATCH_BIT = 0 then (base = n, v\<lparr>entries := ents\<rparr>)
     else if base + (ents + 7) div 8 = n then (True, v\<lparr>entries := ents, patch_bits := ents\<rparr>)
     else if base + (count + 6) div 8 = n then
       (True, v\<lparr>entries := ents, patch_bits := (count + 6) div 8 * 8, patch_self_omitted := True\<rparr>)
     else (legacy \<and> (base = n \<or> base + count * 4 = n \<and> list_all (\<lambda>b. b = 0) (take (n - base) (drop base dat))),
        v\<lparr>entries := ents\<rparr>))"
  using assms by (simp add: match_layout_def array_layout_eq Let_def)

lemma match_layout_ok:
  assumes "match_layout dat (length dat) count ents view legacy = (True, v)"
    and "count \<le> UINT32_MAX" "ents \<le> count" "length (offsets view) = 4" "patch_bits view = 0"
    and "data view = dat"
  shows "view_ok v \<and> data v = dat \<and> self v = self view \<and> view_flags v = view_flags view \<and>
     entries v = ents \<and> offsets v = layout_offsets ents (view_flags view)"
proof -
  have div: "i div 8 < (ents + 7) div 8" if "i < ents" for i using that by linarith
  have short: "i div 8 < m" if "i < m * 8" for i m :: nat using that by (simp add: div_less_iff_less_mult)
  have base: "layout_base ents (view_flags view) \<le> length dat"
    using assms by (simp add: match_layout_cases Let_def split: if_split_asm)
  show ?thesis
    using assms section_bounds [of "view_flags view" ents] base
    by (auto simp: match_layout_cases Let_def view_ok_def layout_base_def dest!: div short
        split: if_split_asm)
qed

lemma match_layout_fail:
  assumes "match_layout dat n count ents view legacy = (False, v)"
    and "count \<le> UINT32_MAX" "ents \<le> count" "length (offsets view) = 4"
  shows "length (offsets v) = 4 \<and> patch_bits v = patch_bits view \<and> data v = data view \<and>
    view_flags v = view_flags view \<and> self v = self view"
  using assms by (auto simp: match_layout_cases Let_def split: if_split_asm)

lemma parse_view_ok:
  assumes "libmpq__attributes_parse (Some dat) (length dat) count slf = Inr view" "count \<le> UINT32_MAX"
  shows "view_ok view \<and> data view = dat \<and> self view = slf \<and> slf < count \<and>
     (entries view = count \<or> entries view = count - 1)"
proof -
  let ?c = "zero_view\<lparr>view_flags := libmpq__load_le32 (at dat 4), data := dat, self := slf\<rparr>"
  obtain ok1 v1 ok2 v2 ok3 v3 where m:
    "match_layout dat (length dat) count count ?c False = (ok1, v1)"
    "match_layout dat (length dat) count (count - 1) v1 False = (ok2, v2)"
    "match_layout dat (length dat) count count v2 True = (ok3, v3)"
    by (metis surj_pair)
  have slf: "slf < count" and
    cases: "ok1 \<and> view = v1 \<or> \<not> ok1 \<and> ok2 \<and> view = v2 \<or> \<not> ok1 \<and> \<not> ok2 \<and> ok3 \<and> view = v3"
    using assms(1) m by (auto simp: libmpq__attributes_parse_def Let_def split: if_split_asm)
  have c: "length (offsets ?c) = 4" "patch_bits ?c = 0" "data ?c = dat" "self ?c = slf"
    by (simp_all add: zero_view_def)
  have 1: "length (offsets v1) = 4 \<and> patch_bits v1 = 0 \<and> data v1 = dat \<and> self v1 = slf" if "\<not> ok1"
    using match_layout_fail [of dat _ count count ?c False v1] m(1) that assms(2) c by simp
  have 2: "length (offsets v2) = 4 \<and> patch_bits v2 = 0 \<and> data v2 = dat \<and> self v2 = slf"
    if "\<not> ok1" "\<not> ok2"
    using match_layout_fail [of dat _ count "count - 1" v1 False v2] m(2) that assms(2) 1 by simp
  from cases show ?thesis
    using match_layout_ok [of dat count count ?c False v1] match_layout_ok [of dat count "count - 1" v1 False v2]
      match_layout_ok [of dat count count v2 True v3] m c 1 2 assms(2) slf by auto
qed
subsection \<open>The serialized bytes\<close>

definition array_section :: "u32 \<Rightarrow> u32 \<Rightarrow> u8 list \<Rightarrow> u8 list" where
  "array_section flgs f bs = (if flgs AND f \<noteq> 0 then bs else [])"

definition attributes_bytes ::
  "u32 \<Rightarrow> u32 list \<Rightarrow> u64 list \<Rightarrow> u8 list list \<Rightarrow> u8 list \<Rightarrow> u8 list" where
  "attributes_bytes flgs crcs stamps digests bits =
     le32_bytes LIBMPQ_ATTRIBUTES_VERSION @ le32_bytes flgs @
     array_section flgs LIBMPQ_ATTRIBUTE_CRC32 (concat (map le32_bytes crcs)) @
     array_section flgs LIBMPQ_ATTRIBUTE_FILETIME (concat (map le64_bytes stamps)) @
     array_section flgs LIBMPQ_ATTRIBUTE_MD5 (concat digests) @
     bits"

text \<open>The arrays of a table of \<open>count\<close> entries.\<close>

definition arrays_ok :: "nat \<Rightarrow> u32 list \<Rightarrow> u64 list \<Rightarrow> u8 list list \<Rightarrow> bool" where
  "arrays_ok count crcs stamps digests \<longleftrightarrow> length crcs = count \<and> length stamps = count \<and>
     length digests = count \<and> (\<forall>d \<in> set digests. length d = 16)"

lemma arrays_okD:
  assumes "arrays_ok count crcs stamps digests"
  shows "length crcs = count" "length stamps = count" "length digests = count"
    "\<And>d. d \<in> set digests \<Longrightarrow> length d = 16"
    "length (concat (map le32_bytes crcs)) = count * 4" "length (concat (map le64_bytes stamps)) = count * 8"
    "length (concat digests) = count * 16"
  using assms concat_map_width_length [of crcs le32_bytes 4] concat_map_width_length [of stamps le64_bytes 8]
    concat_map_width_length [of digests "\<lambda>d. d" 16]
  by (auto simp: arrays_ok_def)

lemma length_attributes_bytes:
  "arrays_ok count crcs stamps digests \<Longrightarrow>
     length (attributes_bytes flgs crcs stamps digests bits) = layout_base count flgs + length bits"
  by (simp add: attributes_bytes_def array_section_def arrays_okD layout_base_def layout_offsets_def
      section_size_def Let_def)

lemma store_crc:
  assumes "arrays_ok count crcs stamps digests" "i < count" "flgs AND LIBMPQ_ATTRIBUTE_CRC32 \<noteq> 0"
  shows "libmpq__store_le32 (attributes_bytes flgs crcs stamps digests bits)
       (layout_offsets count flgs ! 0 + i * 4) v =
     attributes_bytes flgs (crcs[i := v]) stamps digests bits"
proof -
  note D = arrays_okD [OF assms(1)]
  let ?a = "le32_bytes LIBMPQ_ATTRIBUTES_VERSION @ le32_bytes flgs"
  let ?b = "array_section flgs LIBMPQ_ATTRIBUTE_FILETIME (concat (map le64_bytes stamps)) @
     array_section flgs LIBMPQ_ATTRIBUTE_MD5 (concat digests) @ bits"
  have p: "layout_offsets count flgs ! 0 + i * 4 = length ?a + i * 4"
    by (simp add: layout_offsets_def Let_def)
  have eq: "attributes_bytes flgs xs stamps digests bits = ?a @ concat (map le32_bytes xs) @ ?b" for xs
    using assms(3) by (simp add: attributes_bytes_def array_section_def)
  have "(length ?a + i * 4) + 4 \<le> length (?a @ concat (map le32_bytes crcs) @ ?b)"
    using assms(2) D by simp
  then show ?thesis
    using write_at_table [of crcs le32_bytes 4 v i _ ?a ?b] assms(2) D
    unfolding eq p by (subst le32.store_write) simp_all
qed

lemma store_time:
  assumes "arrays_ok count crcs stamps digests" "i < count" "flgs AND LIBMPQ_ATTRIBUTE_FILETIME \<noteq> 0"
  shows "libmpq__store_le64 (attributes_bytes flgs crcs stamps digests bits)
       (layout_offsets count flgs ! 1 + i * 8) v =
     attributes_bytes flgs crcs (stamps[i := v]) digests bits"
proof -
  note D = arrays_okD [OF assms(1)]
  let ?a = "le32_bytes LIBMPQ_ATTRIBUTES_VERSION @ le32_bytes flgs @
    array_section flgs LIBMPQ_ATTRIBUTE_CRC32 (concat (map le32_bytes crcs))"
  let ?b = "array_section flgs LIBMPQ_ATTRIBUTE_MD5 (concat digests) @ bits"
  have p: "layout_offsets count flgs ! 1 + i * 8 = length ?a + i * 8"
    by (simp add: layout_offsets_def Let_def section_size_def array_section_def D)
  have eq: "attributes_bytes flgs crcs xs digests bits = ?a @ concat (map le64_bytes xs) @ ?b" for xs
    using assms(3) by (simp add: attributes_bytes_def array_section_def)
  have "(length ?a + i * 8) + 8 \<le> length (?a @ concat (map le64_bytes stamps) @ ?b)"
    using assms(2) D by simp
  then show ?thesis
    using write_at_table [of stamps le64_bytes 8 v i _ ?a ?b] assms(2) D
    unfolding eq p by (subst le64.store_write) simp_all
qed

lemma store_digest:
  assumes "arrays_ok count crcs stamps digests" "i < count" "flgs AND LIBMPQ_ATTRIBUTE_MD5 \<noteq> 0"
    and "length v = 16"
  shows "write_at (attributes_bytes flgs crcs stamps digests bits) (layout_offsets count flgs ! 2 + i * 16) v =
     attributes_bytes flgs crcs stamps (digests[i := v]) bits"
proof -
  note D = arrays_okD [OF assms(1)]
  let ?a = "le32_bytes LIBMPQ_ATTRIBUTES_VERSION @ le32_bytes flgs @
    array_section flgs LIBMPQ_ATTRIBUTE_CRC32 (concat (map le32_bytes crcs)) @
    array_section flgs LIBMPQ_ATTRIBUTE_FILETIME (concat (map le64_bytes stamps))"
  have p: "layout_offsets count flgs ! 2 + i * 16 = length ?a + i * 16"
    by (simp add: layout_offsets_def Let_def section_size_def array_section_def D)
  have eq: "attributes_bytes flgs crcs stamps xs bits = ?a @ concat (map (\<lambda>d. d) xs) @ bits" for xs
    using assms(3) by (simp add: attributes_bytes_def array_section_def)
  show ?thesis
    using write_at_table [of digests "\<lambda>d. d" 16 v i _ ?a bits] assms(2,4) D unfolding eq p by simp
qed

lemma serialize_step_bytes:
  assumes "arrays_ok count crcs stamps digests" "i < count" "i \<noteq> slf" "length (md5 (ents ! i)) = 16"
  shows "serialize_step ents slf flgs (layout_offsets count flgs) i
       (attributes_bytes flgs crcs stamps digests bits) =
     attributes_bytes flgs (crcs[i := crc32 (ents ! i)]) (stamps[i := filetime (ents ! i)])
       (digests[i := md5 (ents ! i)]) bits"
proof -
  have ok: "arrays_ok count (crcs[i := a]) stamps digests"
    "arrays_ok count (crcs[i := a]) (stamps[i := b]) digests" for a b
    using assms(1) by (simp_all add: arrays_ok_def)
  have skip: "flgs AND LIBMPQ_ATTRIBUTE_CRC32 = 0 \<Longrightarrow>
      attributes_bytes flgs (crcs[i := a]) ts ds bits = attributes_bytes flgs crcs ts ds bits"
    "flgs AND LIBMPQ_ATTRIBUTE_FILETIME = 0 \<Longrightarrow>
      attributes_bytes flgs cs (stamps[i := b]) ds bits = attributes_bytes flgs cs stamps ds bits"
    "flgs AND LIBMPQ_ATTRIBUTE_MD5 = 0 \<Longrightarrow>
      attributes_bytes flgs cs ts (digests[i := d]) bits = attributes_bytes flgs cs ts digests bits"
    for a b d cs ts ds
    by (simp_all add: attributes_bytes_def array_section_def)
  have "(if flgs AND LIBMPQ_ATTRIBUTE_CRC32 \<noteq> 0 then libmpq__store_le32
        (attributes_bytes flgs crcs stamps digests bits) (layout_offsets count flgs ! 0 + i * 4) (crc32 (ents ! i))
      else attributes_bytes flgs crcs stamps digests bits) =
      attributes_bytes flgs (crcs[i := crc32 (ents ! i)]) stamps digests bits"
    using store_crc [OF assms(1,2)] skip(1) by simp
  moreover have "(if flgs AND LIBMPQ_ATTRIBUTE_FILETIME \<noteq> 0 then libmpq__store_le64
        (attributes_bytes flgs (crcs[i := crc32 (ents ! i)]) stamps digests bits)
        (layout_offsets count flgs ! 1 + i * 8) (filetime (ents ! i))
      else attributes_bytes flgs (crcs[i := crc32 (ents ! i)]) stamps digests bits) =
      attributes_bytes flgs (crcs[i := crc32 (ents ! i)]) (stamps[i := filetime (ents ! i)]) digests bits"
    using store_time [OF ok(1) assms(2)] skip(2) by simp
  ultimately show ?thesis
    using store_digest [OF ok(2) assms(2), of flgs "md5 (ents ! i)"] skip(3) assms(3,4)
    by (simp add: serialize_step_def Let_def)
qed
text \<open>The entries that are written: the record of the attributes member itself stays zero.\<close>

definition written :: "mpq_file_attributes_s list \<Rightarrow> nat \<Rightarrow> nat \<Rightarrow> nat \<Rightarrow> mpq_file_attributes_s list" where
  "written ents count slf n = map (\<lambda>i. if i < n \<and> i \<noteq> slf then ents ! i else zero_attributes) [0..<count]"

definition written_bytes :: "mpq_file_attributes_s list \<Rightarrow> u32 \<Rightarrow> u8 list \<Rightarrow> u8 list" where
  "written_bytes es flgs bits = attributes_bytes flgs (map crc32 es) (map filetime es) (map md5 es) bits"

lemma length_written [simp]: "length (written ents count slf n) = count"
  by (simp add: written_def)

lemma nth_written:
  "i < count \<Longrightarrow> written ents count slf n ! i = (if i < n \<and> i \<noteq> slf then ents ! i else zero_attributes)"
  by (simp add: written_def)

lemma written_Suc:
  "n < count \<Longrightarrow> written ents count slf (Suc n) =
     (if n = slf then written ents count slf n else (written ents count slf n)[n := ents ! n])"
  by (auto intro!: nth_equalityI simp: nth_written nth_list_update less_Suc_eq)

lemma arrays_written:
  assumes "\<And>i. i < count \<Longrightarrow> length (md5 (ents ! i)) = 16"
  shows "arrays_ok count (map crc32 (written ents count slf n)) (map filetime (written ents count slf n))
     (map md5 (written ents count slf n))"
  using assms by (auto simp: arrays_ok_def written_def zero_attributes_def)

lemma serialize_loop:
  assumes "\<And>i. i < count \<Longrightarrow> length (md5 (ents ! i)) = 16" "n \<le> count"
  shows "fold (serialize_step ents slf flgs (layout_offsets count flgs)) [0..<n]
       (written_bytes (written ents count slf 0) flgs bits) =
     written_bytes (written ents count slf n) flgs bits"
  using assms(2)
proof (induction n)
  case (Suc n)
  show ?case
  proof (cases "n = slf")
    case True
    with Suc show ?thesis by (simp add: serialize_step_def written_Suc)
  next
    case False
    with Suc show ?thesis
      using serialize_step_bytes [where i = n and slf = slf and ents = ents, OF arrays_written [OF assms(1)]]
        assms(1) [of n]
      by (simp add: written_Suc written_bytes_def map_update)
  qed
qed simp

lemma concat_replicate: "concat (replicate n (replicate m x)) = replicate (n * m) x"
  by (induction n) (simp_all add: replicate_add)

lemma zero_scalar_bytes: "le32_bytes 0 = replicate 4 0" "le64_bytes 0 = replicate 8 0"
  by (simp_all add: le32_bytes_def le64_bytes_def numeral_eq_Suc)

lemma serialize_init:
  "libmpq__store_le32 (libmpq__store_le32 (replicate (layout_base count flgs + m) 0) 0
     LIBMPQ_ATTRIBUTES_VERSION) 4 flgs = written_bytes (written ents count slf 0) flgs (replicate m 0)"
proof -
  let ?k = "section_size flgs LIBMPQ_ATTRIBUTE_CRC32 (count * 4) +
    section_size flgs LIBMPQ_ATTRIBUTE_FILETIME (count * 8) +
    section_size flgs LIBMPQ_ATTRIBUTE_MD5 (count * 16) + m"
  have z: "written ents count slf 0 = replicate count zero_attributes"
    by (simp add: written_def map_replicate_const)
  have "written_bytes (written ents count slf 0) flgs (replicate m 0) =
      le32_bytes LIBMPQ_ATTRIBUTES_VERSION @ le32_bytes flgs @ replicate ?k 0"
    unfolding written_bytes_def attributes_bytes_def z
    by (simp add: array_section_def section_size_def zero_attributes_def zero_scalar_bytes
        concat_replicate replicate_add [symmetric])
  moreover have "layout_base count flgs + m = 8 + ?k"
    by (simp add: layout_base_def layout_offsets_def Let_def)
  ultimately show ?thesis
    by (simp add: le32.store_write write_at_def replicate_add)
qed

definition patch_bytes :: "nat \<Rightarrow> u32 \<Rightarrow> nat" where
  "patch_bytes count flgs = section_size flgs LIBMPQ_ATTRIBUTE_PATCH_BIT ((count + 6) div 8)"

lemma serialize_bytes:
  assumes "0 < count" "slf < count" "flgs AND NOT LIBMPQ_ATTRIBUTES_ALL = 0"
    and "layout_base count flgs + patch_bytes count flgs \<le> UINT32_MAX" "count \<le> UINT32_MAX"
    and "\<And>i. i < count \<Longrightarrow> patch_bit (ents ! i) = 0" "\<And>i. i < count \<Longrightarrow> length (md5 (ents ! i)) = 16"
    and "alloc (layout_base count flgs + patch_bytes count flgs)"
  shows "libmpq__attributes_serialize alloc ents count slf flgs =
     Inr (written_bytes (written ents count slf count) flgs (replicate (patch_bytes count flgs) 0))"
proof -
  let ?len = "layout_base count flgs + patch_bytes count flgs"
  have len: "(if flgs AND LIBMPQ_ATTRIBUTE_PATCH_BIT \<noteq> 0 then layout_base count flgs + (count + 6) div 8
      else layout_base count flgs) = ?len"
    by (simp add: patch_bytes_def section_size_def)
  have "?len \<le> SIZE_MAX" using assms(4) by (simp add: SIZE_MAX_def UINT32_MAX_def)
  moreover have "array_layout count flgs zero_view =
      (layout_base count flgs, zero_view\<lparr>offsets := layout_offsets count flgs\<rparr>)"
    by (rule array_layout_eq) (simp_all add: assms zero_view_def)
  ultimately show ?thesis
    using assms serialize_loop [of count ents count slf flgs "replicate (patch_bytes count flgs) 0"]
    unfolding libmpq__attributes_serialize_def Let_def
    by (simp add: len serialize_init [of count flgs _ ents slf] list_ex_iff)
qed
subsection \<open>Reading back\<close>

definition written_view :: "mpq_file_attributes_s list \<Rightarrow> nat \<Rightarrow> nat \<Rightarrow> u32 \<Rightarrow> u8 list \<Rightarrow> mpq_attributes_s" where
  "written_view es count slf flgs bits =
     \<lparr>data = written_bytes es flgs bits, view_flags = flgs, entries = count, self = slf,
      patch_bits = (if flgs AND LIBMPQ_ATTRIBUTE_PATCH_BIT = 0 then 0
        else if (count + 7) div 8 = (count + 6) div 8 then count else (count + 6) div 8 * 8),
      patch_self_omitted = (flgs AND LIBMPQ_ATTRIBUTE_PATCH_BIT \<noteq> 0 \<and> (count + 7) div 8 \<noteq> (count + 6) div 8),
      offsets = layout_offsets count flgs\<rparr>"

text \<open>A table of \<open>count\<close> entries with full digests.\<close>

definition table_ok :: "nat \<Rightarrow> mpq_file_attributes_s list \<Rightarrow> bool" where
  "table_ok count es \<longleftrightarrow> length es = count \<and> (\<forall>e \<in> set es. length (md5 e) = 16)"

lemma table_arrays: "table_ok count es \<Longrightarrow> arrays_ok count (map crc32 es) (map filetime es) (map md5 es)"
  by (auto simp: table_ok_def arrays_ok_def)

lemma parse_written:
  assumes "table_ok count es" "0 < count" "slf < count" "count \<le> UINT32_MAX"
    and "flgs AND NOT LIBMPQ_ATTRIBUTES_ALL = 0" "length bits = patch_bytes count flgs"
  shows "libmpq__attributes_parse (Some (written_bytes es flgs bits)) (length (written_bytes es flgs bits)) count slf =
     Inr (written_view es count slf flgs bits)"
proof -
  let ?d = "written_bytes es flgs bits"
  let ?c = "zero_view\<lparr>view_flags := flgs, data := ?d, self := slf\<rparr>"
  have len: "length ?d = layout_base count flgs + patch_bytes count flgs"
    using length_attributes_bytes [OF table_arrays [OF assms(1)]] assms(6) by (simp add: written_bytes_def)
  have "8 \<le> layout_base count flgs" by (simp add: layout_base_def layout_offsets_def Let_def)
  moreover have "libmpq__load_le32 (Some ?d) = LIBMPQ_ATTRIBUTES_VERSION"
    by (simp add: written_bytes_def attributes_bytes_def le32.load_bytes)
  moreover have "libmpq__load_le32 (at ?d 4) = flgs"
    by (simp add: written_bytes_def attributes_bytes_def le32.load_bytes)
  moreover have "match_layout ?d (length ?d) count count ?c False = (True, written_view es count slf flgs bits)"
    using assms(4) unfolding len
    by (subst match_layout_cases)
      (auto simp: zero_view_def written_view_def Let_def patch_bytes_def section_size_def)
  ultimately show ?thesis
    using assms(2,3,5) len by (simp add: libmpq__attributes_parse_def Let_def split: prod.split)
qed

lemma load_crc:
  assumes "table_ok count es" "i < count" "flgs AND LIBMPQ_ATTRIBUTE_CRC32 \<noteq> 0"
  shows "libmpq__load_le32 (at (written_bytes es flgs bits) (layout_offsets count flgs ! 0 + i * 4)) = crc32 (es ! i)"
proof -
  let ?a = "le32_bytes LIBMPQ_ATTRIBUTES_VERSION @ le32_bytes flgs"
  let ?b = "array_section flgs LIBMPQ_ATTRIBUTE_FILETIME (concat (map le64_bytes (map filetime es))) @
     array_section flgs LIBMPQ_ATTRIBUTE_MD5 (concat (map md5 es)) @ bits"
  have eq: "written_bytes es flgs bits = ?a @ concat (map le32_bytes (map crc32 es)) @ ?b"
    using assms(3) by (simp add: written_bytes_def attributes_bytes_def array_section_def)
  obtain rest where "drop (layout_offsets count flgs ! 0 + i * 4) (written_bytes es flgs bits) =
      le32_bytes (map crc32 es ! i) @ rest"
    using drop_table [of "map crc32 es" le32_bytes 4 i _ ?a ?b] assms(1,2) unfolding eq
    by (auto simp: layout_offsets_def Let_def table_ok_def)
  then show ?thesis using assms(1,2) by (simp add: le32.load_bytes table_ok_def)
qed

lemma load_time:
  assumes "table_ok count es" "i < count" "flgs AND LIBMPQ_ATTRIBUTE_FILETIME \<noteq> 0"
  shows "libmpq__load_le64 (at (written_bytes es flgs bits) (layout_offsets count flgs ! 1 + i * 8)) = filetime (es ! i)"
proof -
  let ?a = "le32_bytes LIBMPQ_ATTRIBUTES_VERSION @ le32_bytes flgs @
    array_section flgs LIBMPQ_ATTRIBUTE_CRC32 (concat (map le32_bytes (map crc32 es)))"
  let ?b = "array_section flgs LIBMPQ_ATTRIBUTE_MD5 (concat (map md5 es)) @ bits"
  have eq: "written_bytes es flgs bits = ?a @ concat (map le64_bytes (map filetime es)) @ ?b"
    using assms(3) by (simp add: written_bytes_def attributes_bytes_def array_section_def)
  have "layout_offsets count flgs ! 1 + i * 8 = length ?a + i * 8"
    using arrays_okD [OF table_arrays [OF assms(1)]]
    by (simp add: layout_offsets_def Let_def section_size_def array_section_def)
  then obtain rest where "drop (layout_offsets count flgs ! 1 + i * 8) (written_bytes es flgs bits) =
      le64_bytes (map filetime es ! i) @ rest"
    using drop_table [of "map filetime es" le64_bytes 8 i _ ?a ?b] assms(1,2) unfolding eq
    by (auto simp: table_ok_def)
  then show ?thesis using assms(1,2) by (simp add: le64.load_bytes table_ok_def)
qed

lemma load_digest:
  assumes "table_ok count es" "i < count" "flgs AND LIBMPQ_ATTRIBUTE_MD5 \<noteq> 0"
  shows "take 16 (drop (layout_offsets count flgs ! 2 + i * 16) (written_bytes es flgs bits)) = md5 (es ! i)"
proof -
  let ?a = "le32_bytes LIBMPQ_ATTRIBUTES_VERSION @ le32_bytes flgs @
    array_section flgs LIBMPQ_ATTRIBUTE_CRC32 (concat (map le32_bytes (map crc32 es))) @
    array_section flgs LIBMPQ_ATTRIBUTE_FILETIME (concat (map le64_bytes (map filetime es)))"
  have eq: "written_bytes es flgs bits = ?a @ concat (map md5 es) @ bits"
    using assms(3) by (simp add: written_bytes_def attributes_bytes_def array_section_def)
  have "layout_offsets count flgs ! 2 + i * 16 = length ?a + i * 16"
    using arrays_okD [OF table_arrays [OF assms(1)]]
    by (simp add: layout_offsets_def Let_def section_size_def array_section_def)
  then obtain rest where "drop (layout_offsets count flgs ! 2 + i * 16) (written_bytes es flgs bits) =
      md5 (es ! i) @ rest"
    using drop_table [of es md5 16 i _ ?a bits] assms(1,2) unfolding eq
    by (auto simp: table_ok_def)
  then show ?thesis using assms(1,2) by (simp add: table_ok_def)
qed

lemma patch_byte:
  assumes "table_ok count es" "i div 8 < length bits"
  shows "written_bytes es flgs bits ! (layout_offsets count flgs ! 3 + i div 8) = bits ! (i div 8)"
proof -
  let ?a = "le32_bytes LIBMPQ_ATTRIBUTES_VERSION @ le32_bytes flgs @
    array_section flgs LIBMPQ_ATTRIBUTE_CRC32 (concat (map le32_bytes (map crc32 es))) @
    array_section flgs LIBMPQ_ATTRIBUTE_FILETIME (concat (map le64_bytes (map filetime es))) @
    array_section flgs LIBMPQ_ATTRIBUTE_MD5 (concat (map md5 es))"
  have "layout_offsets count flgs ! 3 = length ?a"
    using arrays_okD [OF table_arrays [OF assms(1)]]
    by (simp add: layout_offsets_def Let_def section_size_def array_section_def)
  moreover have "written_bytes es flgs bits = ?a @ bits"
    by (simp add: written_bytes_def attributes_bytes_def)
  ultimately show ?thesis by (simp only: nth_append_length_plus)
qed

lemma digest_nonzero: "fold (\<lambda>b n. n OR b) ds (acc :: u8) = 0 \<longleftrightarrow> acc = 0 \<and> (\<forall>b \<in> set ds. b = 0)"
  by (induction ds arbitrary: acc) (auto simp: or_eq_0_iff)

text \<open>What a table tells of an entry: the selected fields, an all-zero digest as an absent one, and
  the patch marker where the patch array covers the entry.\<close>

definition stored_attributes ::
  "mpq_file_attributes_s \<Rightarrow> u32 \<Rightarrow> bool \<Rightarrow> int \<Rightarrow> mpq_file_attributes_s" where
  "stored_attributes e flgs covered pbit =
     (let f = flgs AND NOT LIBMPQ_ATTRIBUTE_PATCH_BIT;
          f = (if \<forall>b \<in> set (md5 e). b = 0 then f AND NOT LIBMPQ_ATTRIBUTE_MD5 else f);
          f = (if covered then f OR LIBMPQ_ATTRIBUTE_PATCH_BIT else f)
      in \<lparr>attr_flags = f,
          crc32 = (if flgs AND LIBMPQ_ATTRIBUTE_CRC32 \<noteq> 0 then crc32 e else 0),
          filetime = (if flgs AND LIBMPQ_ATTRIBUTE_FILETIME \<noteq> 0 then filetime e else 0),
          md5 = (if flgs AND LIBMPQ_ATTRIBUTE_MD5 \<noteq> 0 then md5 e else replicate 16 0),
          patch_bit = (if covered then pbit else 0)\<rparr>)"

lemma stored_uncovered: "stored_attributes e flgs False p = stored_attributes e flgs False q"
  by (simp add: stored_attributes_def)

text \<open>The mask of an entry's patch bit, most significant bit first.\<close>

definition patch_test :: "u8 list \<Rightarrow> nat \<Rightarrow> bool" where
  "patch_test bits i \<longleftrightarrow> bits ! (i div 8) AND drop_bit (i mod 8) 0x80 \<noteq> 0"

definition covered :: "nat \<Rightarrow> u32 \<Rightarrow> nat \<Rightarrow> nat \<Rightarrow> bool" where
  "covered count flgs slf i \<longleftrightarrow>
     flgs AND LIBMPQ_ATTRIBUTE_PATCH_BIT \<noteq> 0 \<and> (i div 8 < (count + 6) div 8 \<or> i = slf)"

lemma patch_bits_covers:
  assumes "i < (count :: nat)"
  shows "i < (if (count + 7) div 8 = (count + 6) div 8 then count else (count + 6) div 8 * 8) \<longleftrightarrow>
     i div 8 < (count + 6) div 8"
  using assms by (auto simp: div_less_iff_less_mult)

lemma and_not_patch:
  "(flgs AND NOT LIBMPQ_ATTRIBUTE_PATCH_BIT) AND LIBMPQ_ATTRIBUTE_CRC32 = flgs AND LIBMPQ_ATTRIBUTE_CRC32"
  "(flgs AND NOT LIBMPQ_ATTRIBUTE_PATCH_BIT) AND LIBMPQ_ATTRIBUTE_FILETIME = flgs AND LIBMPQ_ATTRIBUTE_FILETIME"
  "(flgs AND NOT LIBMPQ_ATTRIBUTE_PATCH_BIT) AND LIBMPQ_ATTRIBUTE_MD5 = flgs AND LIBMPQ_ATTRIBUTE_MD5"
  by (simp_all add: attribute_flags and.assoc)

lemma and_not_md5_absent:
  "flgs AND LIBMPQ_ATTRIBUTE_MD5 = 0 \<Longrightarrow> (flgs AND NOT LIBMPQ_ATTRIBUTE_PATCH_BIT) AND NOT LIBMPQ_ATTRIBUTE_MD5 =
     flgs AND NOT LIBMPQ_ATTRIBUTE_PATCH_BIT"
  by (rule bit_eqI) (metis (no_types) bit_and_iff bit_not_iff bit_0_eq bot_apply bot_bool_def)

lemma get_written:
  assumes "table_ok count es" "i < count" "slf < count" "length bits = patch_bytes count flgs"
  shows "libmpq__attributes_get (written_view es count slf flgs bits) i =
     stored_attributes (es ! i) flgs (covered count flgs slf i)
       (if i div 8 < (count + 6) div 8 \<and> patch_test bits i then 1 else 0)"
proof -
  let ?v = "written_view es count slf flgs bits"
  have v: "data ?v = written_bytes es flgs bits" "view_flags ?v = flgs" "entries ?v = count"
    "offsets ?v = layout_offsets count flgs" "self ?v = slf"
    by (simp_all add: written_view_def)
  have pb: "i < patch_bits ?v \<longleftrightarrow> i div 8 < (count + 6) div 8"
    and om: "patch_self_omitted ?v \<longleftrightarrow> (count + 7) div 8 \<noteq> (count + 6) div 8"
    if "flgs AND LIBMPQ_ATTRIBUTE_PATCH_BIT \<noteq> 0"
    using patch_bits_covers [OF assms(2)] that by (simp_all add: written_view_def)
  have byte: "written_bytes es flgs bits ! (layout_offsets count flgs ! 3 + i div 8) = bits ! (i div 8)"
    if "flgs AND LIBMPQ_ATTRIBUTE_PATCH_BIT \<noteq> 0" "i div 8 < (count + 6) div 8"
    using patch_byte [OF assms(1), of i bits flgs] that assms(4) by (simp add: patch_bytes_def section_size_def)
  have full: "(count + 7) div 8 \<noteq> (count + 6) div 8" if "\<not> i div 8 < (count + 6) div 8"
    using that assms(2) by linarith
  note loads = load_crc [OF assms(1,2)] load_time [OF assms(1,2), unfolded One_nat_def] load_digest [OF assms(1,2)]
  let ?f = "flgs AND NOT LIBMPQ_ATTRIBUTE_PATCH_BIT"
  let ?crc = "if flgs AND LIBMPQ_ATTRIBUTE_CRC32 \<noteq> 0 then crc32 (es ! i) else 0"
  let ?time = "if flgs AND LIBMPQ_ATTRIBUTE_FILETIME \<noteq> 0 then filetime (es ! i) else 0"
  let ?md5 = "if flgs AND LIBMPQ_ATTRIBUTE_MD5 \<noteq> 0 then md5 (es ! i) else replicate 16 0"
  let ?g = "if \<forall>b \<in> set (md5 (es ! i)). b = 0 then ?f AND NOT LIBMPQ_ATTRIBUTE_MD5 else ?f"
  have 1: "get_filetime ?v i (get_crc ?v i (zero_attributes\<lparr>attr_flags := ?f\<rparr>)) =
      zero_attributes\<lparr>attr_flags := ?f, crc32 := ?crc, filetime := ?time\<rparr>"
    by (simp add: get_filetime_def get_crc_def v and_not_patch loads) (simp add: zero_attributes_def)
  have 2: "get_md5 ?v i (zero_attributes\<lparr>attr_flags := ?f, crc32 := ?crc, filetime := ?time\<rparr>) =
      \<lparr>attr_flags = ?g, crc32 = ?crc, filetime = ?time, md5 = ?md5, patch_bit = 0\<rparr>"
    by (simp add: get_md5_def v and_not_patch and_not_md5_absent loads digest_nonzero zero_attributes_def Let_def)
  have "\<not> count \<le> i" using assms(2) by simp
  then have "libmpq__attributes_get ?v i = get_patch_bit ?v i
      \<lparr>attr_flags = ?g, crc32 = ?crc, filetime = ?time, md5 = ?md5, patch_bit = 0\<rparr>"
    by (simp only: libmpq__attributes_get_def v 1 2 if_False)
  also have "\<dots> = stored_attributes (es ! i) flgs (covered count flgs slf i)
      (if i div 8 < (count + 6) div 8 \<and> patch_test bits i then 1 else 0)"
    using pb om byte full
    by (cases "flgs AND LIBMPQ_ATTRIBUTE_PATCH_BIT = 0"; cases "i div 8 < (count + 6) div 8")
      (simp_all add: get_patch_bit_def v stored_attributes_def covered_def patch_test_def Let_def)
  finally show ?thesis .
qed
subsection \<open>Patch bits\<close>

lemma patch_mask:
  assumes "k < 8"
  shows "drop_bit k (0x80 :: u8) = push_bit (7 - k) 1"
proof -
  consider "k = 0" | "k = 1" | "k = 2" | "k = 3" | "k = 4" | "k = 5" | "k = 6" | "k = 7"
    using assms by linarith
  then show ?thesis by cases (simp_all add: drop_bit_Suc)
qed

lemma patch_test_bit: "patch_test bits i \<longleftrightarrow> bit (bits ! (i div 8)) (7 - i mod 8)"
proof -
  have "drop_bit (i mod 8) (0x80 :: u8) = push_bit (7 - i mod 8) 1" by (rule patch_mask) simp
  then show ?thesis
    by (simp add: patch_test_def bit_iff_and_push_bit_not_eq_0)
qed

lemma patch_test_set:
  assumes "n div 8 < length bits"
  shows "patch_test (bits[n div 8 := bits ! (n div 8) OR drop_bit (n mod 8) 0x80]) i \<longleftrightarrow>
     patch_test bits i \<or> i = n"
proof -
  have mask: "drop_bit (n mod 8) (0x80 :: u8) = push_bit (7 - n mod 8) 1" by (rule patch_mask) simp
  have "7 - i mod 8 = 7 - n mod 8 \<longleftrightarrow> i mod 8 = n mod 8"
    using mod_less_divisor [of 8 i] mod_less_divisor [of 8 n] by linarith
  then have "i = n \<longleftrightarrow> i div 8 = n div 8 \<and> 7 - i mod 8 = 7 - n mod 8"
    using mult_div_mod_eq [of 8 i] mult_div_mod_eq [of 8 n] by metis
  then show ?thesis
    using assms unfolding patch_test_bit mask
    by (auto simp: nth_list_update bit_or_iff bit_exp_iff)
qed

text \<open>The bits can be stored: no entry outside the array, and not the member's own, has a marker.\<close>

definition patchable :: "mpq_file_attributes_s list \<Rightarrow> nat \<Rightarrow> nat \<Rightarrow> bool" where
  "patchable ents count slf \<longleftrightarrow>
     (\<forall>i < count. patch_bit (ents ! i) \<noteq> 0 \<longrightarrow> i \<noteq> slf \<and> i div 8 < (count + 6) div 8)"

lemma patch_step_bytes:
  assumes "table_ok count es" "length bits = (count + 6) div 8"
  shows "patch_bit_step ents slf (layout_offsets count flgs ! 3) n (Inr (written_bytes es flgs bits)) =
     (if patch_bit (ents ! n) = 0 then Inr (written_bytes es flgs bits)
      else if n = slf \<or> n div 8 \<ge> length bits then Inl ERROR_FORMAT
      else Inr (written_bytes es flgs (bits[n div 8 := bits ! (n div 8) OR drop_bit (n mod 8) 0x80])))"
proof -
  have len: "length (written_bytes es flgs bits) = layout_offsets count flgs ! 3 + length bits"
    using length_attributes_bytes [OF table_arrays [OF assms(1)]]
    by (simp add: written_bytes_def layout_base_def)
  obtain a where a: "length a = layout_offsets count flgs ! 3" "\<And>bs. written_bytes es flgs bs = a @ bs"
  proof
    show "length (written_bytes es flgs []) = layout_offsets count flgs ! 3"
      using length_attributes_bytes [OF table_arrays [OF assms(1)]]
      by (simp add: written_bytes_def layout_base_def)
    show "written_bytes es flgs bs = written_bytes es flgs [] @ bs" for bs
      by (simp add: written_bytes_def attributes_bytes_def)
  qed
  show ?thesis
    unfolding patch_bit_step_def a(2) using a(1) by (simp add: list_update_append nth_append)
qed

lemma patch_loop:
  assumes "table_ok count es" "patchable ents count slf" "n \<le> count"
  shows "\<exists>bits. fold (patch_bit_step ents slf (layout_offsets count flgs ! 3)) [0..<n]
       (Inr (written_bytes es flgs (replicate ((count + 6) div 8) 0))) = Inr (written_bytes es flgs bits) \<and>
     length bits = (count + 6) div 8 \<and>
     (\<forall>i. i div 8 < (count + 6) div 8 \<longrightarrow> patch_test bits i = (i < n \<and> patch_bit (ents ! i) \<noteq> 0))"
  using assms(3)
proof (induction n)
  case 0
  then show ?case by (intro exI [of _ "replicate ((count + 6) div 8) 0"]) (simp add: patch_test_def)
next
  case (Suc n)
  then obtain bits where b: "fold (patch_bit_step ents slf (layout_offsets count flgs ! 3)) [0..<n]
       (Inr (written_bytes es flgs (replicate ((count + 6) div 8) 0))) = Inr (written_bytes es flgs bits)"
     "length bits = (count + 6) div 8"
     "\<And>i. i div 8 < (count + 6) div 8 \<Longrightarrow> patch_test bits i = (i < n \<and> patch_bit (ents ! i) \<noteq> 0)"
    by auto
  show ?case
  proof (cases "patch_bit (ents ! n) = 0")
    case True
    then show ?thesis
      using b patch_step_bytes [OF assms(1) b(2), of ents slf flgs n]
      by (intro exI [of _ bits]) (auto simp: less_Suc_eq)
  next
    case False
    then have "n \<noteq> slf" "n div 8 < (count + 6) div 8"
      using assms(2) Suc.prems by (auto simp: patchable_def)
    then show ?thesis
      using b patch_step_bytes [OF assms(1) b(2), of ents slf flgs n] False
      by (intro exI [of _ "bits[n div 8 := bits ! (n div 8) OR drop_bit (n mod 8) 0x80]"])
        (auto simp: less_Suc_eq patch_test_set)
  qed
qed

lemma map_written_copy:
  assumes "\<And>e. f (e\<lparr>patch_bit := 0\<rparr>) = f e" "length ents = count"
  shows "map f (written (map (\<lambda>e. e\<lparr>patch_bit := 0\<rparr>) (take count ents)) count slf n) =
     map f (written ents count slf n)"
  using assms by (intro nth_equalityI) (simp_all add: nth_written)

lemma serialize_patch_bits_bytes:
  assumes "0 < count" "slf < count" "flgs AND NOT LIBMPQ_ATTRIBUTES_ALL = 0"
    and "layout_base count flgs + patch_bytes count flgs \<le> UINT32_MAX" "count \<le> UINT32_MAX"
    and "table_ok count ents" "patchable ents count slf" "\<And>n. alloc n"
  shows "\<exists>bits. libmpq__attributes_serialize_patch_bits alloc ents count slf flgs =
       Inr (written_bytes (written ents count slf count) flgs bits) \<and> length bits = patch_bytes count flgs \<and>
     (flgs AND LIBMPQ_ATTRIBUTE_PATCH_BIT \<noteq> 0 \<longrightarrow>
       (\<forall>i. i div 8 < (count + 6) div 8 \<longrightarrow> patch_test bits i = (i < count \<and> patch_bit (ents ! i) \<noteq> 0)))"
proof -
  let ?copy = "map (\<lambda>e. e\<lparr>patch_bit := 0\<rparr>) (take count ents)"
  have len: "length ents = count" "\<And>i. i < count \<Longrightarrow> length (md5 (ents ! i)) = 16"
    using assms(6) by (auto simp: table_ok_def)
  have same: "written_bytes (written ?copy count slf count) flgs bits =
      written_bytes (written ents count slf count) flgs bits" for bits
  proof -
    have "map crc32 (written ?copy count slf count) = map crc32 (written ents count slf count)"
      "map filetime (written ?copy count slf count) = map filetime (written ents count slf count)"
      "map md5 (written ?copy count slf count) = map md5 (written ents count slf count)"
      by (rule map_written_copy; simp add: len(1))+
    then show ?thesis by (simp only: written_bytes_def)
  qed
  have ser: "libmpq__attributes_serialize alloc ?copy count slf flgs =
      Inr (written_bytes (written ents count slf count) flgs (replicate (patch_bytes count flgs) 0))"
    using serialize_bytes [of count slf flgs ?copy alloc] assms len unfolding same by simp
  have off: "8 + (if flgs AND LIBMPQ_ATTRIBUTE_CRC32 \<noteq> 0 then count * 4 else 0) +
      (if flgs AND LIBMPQ_ATTRIBUTE_FILETIME \<noteq> 0 then count * 8 else 0) +
      (if flgs AND LIBMPQ_ATTRIBUTE_MD5 \<noteq> 0 then count * 16 else 0) = layout_offsets count flgs ! 3"
    by (simp add: layout_offsets_def section_size_def Let_def)
  have big: "\<not> count * sizeof_file_attributes > SIZE_MAX"
    using assms(5) by (simp add: sizeof_file_attributes_def SIZE_MAX_def UINT32_MAX_def)
  have tab: "table_ok count (written ents count slf count)"
    using len by (auto simp: table_ok_def written_def zero_attributes_def)
  show ?thesis
  proof (cases "flgs AND LIBMPQ_ATTRIBUTE_PATCH_BIT = 0")
    case True
    then show ?thesis
      using ser assms(1,8) big
      by (intro exI [of _ "replicate (patch_bytes count flgs) 0"])
        (simp add: libmpq__attributes_serialize_patch_bits_def Let_def)
  next
    case False
    then show ?thesis
      using ser assms(1,8) big patch_loop [OF tab assms(7) order_refl, of flgs]
      unfolding libmpq__attributes_serialize_patch_bits_def Let_def off
      by (simp add: patch_bytes_def section_size_def)
  qed
qed
subsection \<open>Properties\<close>

text \<open>C37: Round trip of the attributes member. Serializing a table of entries (with patch markers only
  on entries that the patch array covers, not on the member itself) succeeds, the parser accepts the
  bytes, and decoding any entry gives back the selected fields: CRC32 and file time as stored, the
  digest with an all-zero digest reported as absent, and the patch marker where the array covers the
  entry. The member's own entry reads back as zero.\<close>

theorem attributes_roundtrip:
  assumes "0 < count" "slf < count" "flgs AND NOT LIBMPQ_ATTRIBUTES_ALL = 0"
    and "layout_base count flgs + patch_bytes count flgs \<le> UINT32_MAX" "count \<le> UINT32_MAX"
    and "length ents = count" "\<forall>e \<in> set ents. length (md5 e) = 16" "patchable ents count slf"
    and "\<And>n. alloc n"
  shows "\<exists>dat view. libmpq__attributes_serialize_patch_bits alloc ents count slf flgs = Inr dat \<and>
     libmpq__attributes_parse (Some dat) (length dat) count slf = Inr view \<and>
     (\<forall>i < count. libmpq__attributes_get view i =
        stored_attributes (if i = slf then zero_attributes else ents ! i) flgs (covered count flgs slf i)
          (if patch_bit (ents ! i) \<noteq> 0 then 1 else 0))"
proof -
  have tab: "table_ok count ents" using assms(6,7) by (simp add: table_ok_def)
  obtain bits where b: "libmpq__attributes_serialize_patch_bits alloc ents count slf flgs =
       Inr (written_bytes (written ents count slf count) flgs bits)" "length bits = patch_bytes count flgs"
     "flgs AND LIBMPQ_ATTRIBUTE_PATCH_BIT \<noteq> 0 \<Longrightarrow>
       \<forall>i. i div 8 < (count + 6) div 8 \<longrightarrow> patch_test bits i = (i < count \<and> patch_bit (ents ! i) \<noteq> 0)"
    using serialize_patch_bits_bytes [of count slf flgs ents alloc] assms tab by blast
  have w: "table_ok count (written ents count slf count)"
    using tab by (auto simp: table_ok_def written_def zero_attributes_def)
  have "libmpq__attributes_get (written_view (written ents count slf count) count slf flgs bits) i =
        stored_attributes (if i = slf then zero_attributes else ents ! i) flgs (covered count flgs slf i)
          (if patch_bit (ents ! i) \<noteq> 0 then 1 else 0)" if "i < count" for i
  proof (cases "covered count flgs slf i")
    case True
    moreover have "patch_bit (ents ! i) = 0" if "\<not> i div 8 < (count + 6) div 8"
      using that assms(8) \<open>i < count\<close> by (auto simp: patchable_def)
    ultimately show ?thesis
      using get_written [OF w that assms(2) b(2)] b(3) that
      by (auto simp: nth_written covered_def)
  next
    case False
    then show ?thesis
      using get_written [OF w that assms(2) b(2)] that
      by (auto simp: nth_written intro: stored_uncovered)
  qed
  then show ?thesis
    using b(1) parse_written [OF w assms(1,2,5,3) b(2)] by blast
qed

theorem attributes_roundtrip_witness:
  "\<exists>dat view. libmpq__attributes_serialize_patch_bits (\<lambda>_. True)
       [zero_attributes\<lparr>crc32 := 7, patch_bit := 1\<rparr>, zero_attributes] 2 1 0xF = Inr dat \<and>
     libmpq__attributes_parse (Some dat) (length dat) 2 1 = Inr view \<and>
     (\<forall>i < 2. libmpq__attributes_get view i =
        stored_attributes (if i = 1 then zero_attributes
            else [zero_attributes\<lparr>crc32 := 7, patch_bit := 1\<rparr>, zero_attributes] ! i) 0xF (covered 2 0xF 1 i)
          (if patch_bit ([zero_attributes\<lparr>crc32 := 7, patch_bit := 1\<rparr>, zero_attributes] ! i) \<noteq> 0 then 1 else 0))"
  by (rule attributes_roundtrip)
    (simp_all add: attribute_flags UINT32_MAX_def layout_base_def layout_offsets_def section_size_def
      patch_bytes_def patchable_def zero_attributes_def Let_def less_2_cases_iff)

text \<open>C38: Whatever bytes the member holds, a view that the parser accepts is sound: for every entry
  that the decoder serves, the bytes of its CRC32, file time, digest and patch bit lie inside the
  payload, and the entries number the block table's or one less. So decoding any entry of a
  corrupted member reads no byte outside it.\<close>

theorem attributes_parse_safe:
  assumes "libmpq__attributes_parse (Some dat) (length dat) count slf = Inr view" "count \<le> UINT32_MAX"
  shows "view_ok view \<and> data view = dat \<and> self view = slf \<and> slf < count \<and>
     (entries view = count \<or> entries view = count - 1)"
  using assms by (rule parse_view_ok)

theorem attributes_parse_safe_witness:
  "\<exists>view. libmpq__attributes_parse (Some (written_bytes [zero_attributes] 1 []))
     (length (written_bytes [zero_attributes] 1 [])) 1 0 = Inr view \<and> view_ok view"
proof -
  have "libmpq__attributes_parse (Some (written_bytes [zero_attributes] 1 []))
      (length (written_bytes [zero_attributes] 1 [])) 1 0 = Inr (written_view [zero_attributes] 1 0 1 [])"
    by (rule parse_written)
      (simp_all add: table_ok_def zero_attributes_def UINT32_MAX_def attribute_flags patch_bytes_def section_size_def)
  then show ?thesis
    using attributes_parse_safe [of "written_bytes [zero_attributes] 1 []" 1 0]
    by (simp add: UINT32_MAX_def)
qed

end
