(* ===== verification/Mpq_Pkware.thy ===== *)
theory Mpq_Pkware
  imports Mpq_Prelude
begin

text \<open>
  The PKWARE Data Compression Library codec, \<^verbatim>\<open>src/mpq-pkware.c\<close>: the bit reader, the lookup tables
  and the window of the decoder, and the dictionary encoder. Positions, counts and table entries are
  natural numbers; the bit accumulator is a 32-bit word. The decoder state keeps the three adjacent
  arrays \<^verbatim>\<open>out_buf\<close>, \<^verbatim>\<open>offs_2030\<close> and \<^verbatim>\<open>in_buf\<close> of the work buffer as one list, since a long match
  runs from the first into the others; the tables that are copied unchanged into the state are the
  constants themselves. The decoding loop takes fuel, one unit per symbol, and a theorem shows that
  the number of input bits is always enough. The main result is the round trip: what the encoder
  emits for any input, the decoder expands to that input.
\<close>

subsection \<open>Tables\<close>

definition pkzip_dist_bits :: "nat list" where
  "pkzip_dist_bits =
     [0x02, 0x04, 0x04, 0x05, 0x05, 0x05, 0x05, 0x06, 0x06, 0x06, 0x06, 0x06, 0x06, 0x06, 0x06,
      0x06, 0x06, 0x06, 0x06, 0x06, 0x06, 0x06, 0x07, 0x07, 0x07, 0x07, 0x07, 0x07, 0x07, 0x07,
      0x07, 0x07, 0x07, 0x07, 0x07, 0x07, 0x07, 0x07, 0x07, 0x07, 0x07, 0x07, 0x07, 0x07, 0x07,
      0x07, 0x07, 0x07, 0x08, 0x08, 0x08, 0x08, 0x08, 0x08, 0x08, 0x08, 0x08, 0x08, 0x08, 0x08,
      0x08, 0x08, 0x08, 0x08]"

definition pkzip_dist_code :: "nat list" where
  "pkzip_dist_code =
     [0x03, 0x0D, 0x05, 0x19, 0x09, 0x11, 0x01, 0x3E, 0x1E, 0x2E, 0x0E, 0x36, 0x16, 0x26, 0x06,
      0x3A, 0x1A, 0x2A, 0x0A, 0x32, 0x12, 0x22, 0x42, 0x02, 0x7C, 0x3C, 0x5C, 0x1C, 0x6C, 0x2C,
      0x4C, 0x0C, 0x74, 0x34, 0x54, 0x14, 0x64, 0x24, 0x44, 0x04, 0x78, 0x38, 0x58, 0x18, 0x68,
      0x28, 0x48, 0x08, 0xF0, 0x70, 0xB0, 0x30, 0xD0, 0x50, 0x90, 0x10, 0xE0, 0x60, 0xA0, 0x20,
      0xC0, 0x40, 0x80, 0x00]"

definition pkzip_clen_bits :: "nat list" where
  "pkzip_clen_bits =
     [0x00, 0x00, 0x00, 0x00, 0x00, 0x00, 0x00, 0x00, 0x01, 0x02, 0x03, 0x04, 0x05, 0x06, 0x07,
      0x08]"

definition pkzip_len_base :: "nat list" where
  "pkzip_len_base =
     [0x00, 0x01, 0x02, 0x03, 0x04, 0x05, 0x06, 0x07, 0x08, 0x0A, 0x0E, 0x16, 0x26, 0x46, 0x86,
      0x106]"

definition pkzip_slen_bits :: "nat list" where
  "pkzip_slen_bits =
     [0x03, 0x02, 0x03, 0x03, 0x04, 0x04, 0x04, 0x05, 0x05, 0x05, 0x05, 0x06, 0x06, 0x06, 0x07,
      0x07]"

definition pkzip_len_code :: "nat list" where
  "pkzip_len_code =
     [0x05, 0x03, 0x01, 0x06, 0x0A, 0x02, 0x0C, 0x14, 0x04, 0x18, 0x08, 0x30, 0x10, 0x20, 0x40,
      0x00]"

definition pkzip_bits_asc :: "nat list" where
  "pkzip_bits_asc =
     [0x0B, 0x0C, 0x0C, 0x0C, 0x0C, 0x0C, 0x0C, 0x0C, 0x0C, 0x08, 0x07, 0x0C, 0x0C, 0x07, 0x0C,
      0x0C, 0x0C, 0x0C, 0x0C, 0x0C, 0x0C, 0x0C, 0x0C, 0x0C, 0x0C, 0x0C, 0x0D, 0x0C, 0x0C, 0x0C,
      0x0C, 0x0C, 0x04, 0x0A, 0x08, 0x0C, 0x0A, 0x0C, 0x0A, 0x08, 0x07, 0x07, 0x08, 0x09, 0x07,
      0x06, 0x07, 0x08, 0x07, 0x06, 0x07, 0x07, 0x07, 0x07, 0x08, 0x07, 0x07, 0x08, 0x08, 0x0C,
      0x0B, 0x07, 0x09, 0x0B, 0x0C, 0x06, 0x07, 0x06, 0x06, 0x05, 0x07, 0x08, 0x08, 0x06, 0x0B,
      0x09, 0x06, 0x07, 0x06, 0x06, 0x07, 0x0B, 0x06, 0x06, 0x06, 0x07, 0x09, 0x08, 0x09, 0x09,
      0x0B, 0x08, 0x0B, 0x09, 0x0C, 0x08, 0x0C, 0x05, 0x06, 0x06, 0x06, 0x05, 0x06, 0x06, 0x06,
      0x05, 0x0B, 0x07, 0x05, 0x06, 0x05, 0x05, 0x06, 0x0A, 0x05, 0x05, 0x05, 0x05, 0x08, 0x07,
      0x08, 0x08, 0x0A, 0x0B, 0x0B, 0x0C, 0x0C, 0x0C, 0x0D, 0x0D, 0x0D, 0x0D, 0x0D, 0x0D, 0x0D,
      0x0D, 0x0D, 0x0D, 0x0D, 0x0D, 0x0D, 0x0D, 0x0D, 0x0D, 0x0D, 0x0D, 0x0D, 0x0D, 0x0D, 0x0D,
      0x0D, 0x0D, 0x0D, 0x0D, 0x0D, 0x0D, 0x0D, 0x0D, 0x0D, 0x0D, 0x0D, 0x0D, 0x0D, 0x0D, 0x0D,
      0x0D, 0x0D, 0x0D, 0x0D, 0x0D, 0x0D, 0x0D, 0x0D, 0x0D, 0x0D, 0x0D, 0x0C, 0x0C, 0x0C, 0x0C,
      0x0C, 0x0C, 0x0C, 0x0C, 0x0C, 0x0C, 0x0C, 0x0C, 0x0C, 0x0C, 0x0C, 0x0C, 0x0C, 0x0C, 0x0C,
      0x0C, 0x0C, 0x0C, 0x0C, 0x0C, 0x0C, 0x0C, 0x0C, 0x0C, 0x0C, 0x0C, 0x0C, 0x0C, 0x0C, 0x0C,
      0x0C, 0x0C, 0x0C, 0x0C, 0x0C, 0x0C, 0x0C, 0x0C, 0x0C, 0x0C, 0x0C, 0x0C, 0x0C, 0x0C, 0x0D,
      0x0C, 0x0D, 0x0D, 0x0D, 0x0C, 0x0D, 0x0D, 0x0D, 0x0C, 0x0D, 0x0D, 0x0D, 0x0D, 0x0C, 0x0D,
      0x0D, 0x0D, 0x0C, 0x0C, 0x0C, 0x0D, 0x0D, 0x0D, 0x0D, 0x0D, 0x0D, 0x0D, 0x0D, 0x0D, 0x0D,
      0x0D]"

definition pkzip_code_asc :: "nat list" where
  "pkzip_code_asc =
     [0x490, 0xFE0, 0x7E0, 0xBE0, 0x3E0, 0xDE0, 0x5E0, 0x9E0, 0x1E0, 0xB8, 0x62, 0xEE0, 0x6E0,
      0x22, 0xAE0, 0x2E0, 0xCE0, 0x4E0, 0x8E0, 0xE0, 0xF60, 0x760, 0xB60, 0x360, 0xD60, 0x560,
      0x1240, 0x960, 0x160, 0xE60, 0x660, 0xA60, 0x0F, 0x250, 0x38, 0x260, 0x50, 0xC60, 0x390,
      0xD8, 0x42, 0x02, 0x58, 0x1B0, 0x7C, 0x29, 0x3C, 0x98, 0x5C, 0x09, 0x1C, 0x6C, 0x2C, 0x4C,
      0x18, 0x0C, 0x74, 0xE8, 0x68, 0x460, 0x90, 0x34, 0xB0, 0x710, 0x860, 0x31, 0x54, 0x11,
      0x21, 0x17, 0x14, 0xA8, 0x28, 0x01, 0x310, 0x130, 0x3E, 0x64, 0x1E, 0x2E, 0x24, 0x510,
      0x0E, 0x36, 0x16, 0x44, 0x30, 0xC8, 0x1D0, 0xD0, 0x110, 0x48, 0x610, 0x150, 0x60, 0x88,
      0xFA0, 0x07, 0x26, 0x06, 0x3A, 0x1B, 0x1A, 0x2A, 0x0A, 0x0B, 0x210, 0x04, 0x13, 0x32, 0x03,
      0x1D, 0x12, 0x190, 0x0D, 0x15, 0x05, 0x19, 0x08, 0x78, 0xF0, 0x70, 0x290, 0x410, 0x10,
      0x7A0, 0xBA0, 0x3A0, 0x240, 0x1C40, 0xC40, 0x1440, 0x440, 0x1840, 0x840, 0x1040, 0x40,
      0x1F80, 0xF80, 0x1780, 0x780, 0x1B80, 0xB80, 0x1380, 0x380, 0x1D80, 0xD80, 0x1580, 0x580,
      0x1980, 0x980, 0x1180, 0x180, 0x1E80, 0xE80, 0x1680, 0x680, 0x1A80, 0xA80, 0x1280, 0x280,
      0x1C80, 0xC80, 0x1480, 0x480, 0x1880, 0x880, 0x1080, 0x80, 0x1F00, 0xF00, 0x1700, 0x700,
      0x1B00, 0xB00, 0x1300, 0xDA0, 0x5A0, 0x9A0, 0x1A0, 0xEA0, 0x6A0, 0xAA0, 0x2A0, 0xCA0,
      0x4A0, 0x8A0, 0xA0, 0xF20, 0x720, 0xB20, 0x320, 0xD20, 0x520, 0x920, 0x120, 0xE20, 0x620,
      0xA20, 0x220, 0xC20, 0x420, 0x820, 0x20, 0xFC0, 0x7C0, 0xBC0, 0x3C0, 0xDC0, 0x5C0, 0x9C0,
      0x1C0, 0xEC0, 0x6C0, 0xAC0, 0x2C0, 0xCC0, 0x4C0, 0x8C0, 0xC0, 0xF40, 0x740, 0xB40, 0x340,
      0x300, 0xD40, 0x1D00, 0xD00, 0x1500, 0x540, 0x500, 0x1900, 0x900, 0x940, 0x1100, 0x100,
      0x1E00, 0xE00, 0x140, 0x1600, 0x600, 0x1A00, 0xE40, 0x640, 0xA40, 0xA00, 0x1200, 0x200,
      0x1C00, 0xC00, 0x1400, 0x400, 0x1800, 0x800, 0x1000, 0x00]"

definition LIBMPQ_PKZIP_CMP_BINARY :: nat where "LIBMPQ_PKZIP_CMP_BINARY = 0"
definition LIBMPQ_PKZIP_CMP_ASCII :: nat where "LIBMPQ_PKZIP_CMP_ASCII = 1"
definition LIBMPQ_PKZIP_CMP_NO_ERROR :: nat where "LIBMPQ_PKZIP_CMP_NO_ERROR = 0"
definition LIBMPQ_PKZIP_CMP_INV_DICTSIZE :: nat where "LIBMPQ_PKZIP_CMP_INV_DICTSIZE = 1"
definition LIBMPQ_PKZIP_CMP_INV_MODE :: nat where "LIBMPQ_PKZIP_CMP_INV_MODE = 2"
definition LIBMPQ_PKZIP_CMP_BAD_DATA :: nat where "LIBMPQ_PKZIP_CMP_BAD_DATA = 3"
definition LIBMPQ_PKZIP_CMP_ABORT :: nat where "LIBMPQ_PKZIP_CMP_ABORT = 4"

subsection \<open>Decoder state\<close>

record pkzip_data_s =
  data_in :: "u8 list"
  data_in_pos :: nat
  data_out :: "u8 list"
  data_out_pos :: nat
  max_out :: nat

record pkzip_cmp_s =
  cmp_type :: nat
  out_pos :: nat
  dsize_bits :: nat
  dsize_mask :: u32
  bit_buf :: u32
  extra_bits :: nat
  in_pos :: nat
  in_bytes :: nat
  param :: pkzip_data_s
  area :: "u8 list"
  pos1 :: "nat list"
  pos2 :: "nat list"
  offs_2c34 :: "nat list"
  offs_2d34 :: "nat list"
  offs_2e34 :: "nat list"
  offs_2eb4 :: "nat list"
  bits_asc :: "nat list"

text \<open>The three arrays in \<open>area\<close>: 0x2000 bytes of window, 0x204 bytes of workspace, 0x800 of input.\<close>

definition in_base :: nat where "in_base = 0x2204"
definition in_size :: nat where "in_size = 0x800"

definition data_read_input :: "nat \<Rightarrow> pkzip_data_s \<Rightarrow> u8 list \<times> pkzip_data_s" where
  "data_read_input n info =
     (let max_avail = length (data_in info) - data_in_pos info;
          to_read = (if n > max_avail then max_avail else n)
      in (take to_read (drop (data_in_pos info) (data_in info)),
          info\<lparr>data_in_pos := data_in_pos info + to_read\<rparr>))"

definition data_write_output :: "u8 list \<Rightarrow> nat \<Rightarrow> pkzip_data_s \<Rightarrow> pkzip_data_s" where
  "data_write_output buf n info =
     (let max_write = max_out info - data_out_pos info;
          to_write = (if n > max_write then max_write else n)
      in info\<lparr>data_out := write_at (data_out info) (data_out_pos info) (take to_write buf),
              data_out_pos := data_out_pos info + to_write\<rparr>)"

text \<open>Returns true where the code returns 1, the end of the input.\<close>

definition skip_bit :: "pkzip_cmp_s \<Rightarrow> nat \<Rightarrow> bool \<times> pkzip_cmp_s" where
  "skip_bit st bits =
     (if bits \<le> extra_bits st then
        (False, st\<lparr>extra_bits := extra_bits st - bits, bit_buf := drop_bit bits (bit_buf st)\<rparr>)
      else
        let st = st\<lparr>bit_buf := drop_bit (extra_bits st) (bit_buf st)\<rparr>;
            (ended, st) =
              (if in_pos st = in_bytes st then
                 case data_read_input in_size (param st) of
                   (bytes, info) \<Rightarrow>
                     (bytes = [], st\<lparr>param := info, in_bytes := length bytes,
                        area := write_at (area st) in_base bytes,
                        in_pos := (if bytes = [] then in_pos st else 0)\<rparr>)
               else (False, st))
        in if ended then (True, st)
        else (False, st\<lparr>
          bit_buf := drop_bit (bits - extra_bits st)
            (bit_buf st OR push_bit 8 (ucast (area st ! (in_base + in_pos st)))),
          in_pos := in_pos st + 1,
          extra_bits := extra_bits st + 8 - bits\<rparr>))"

subsection \<open>Lookup tables\<close>

text \<open>\<open>do { buf[idx1] = i; idx1 += 1 << bits; } while (idx1 < limit)\<close>\<close>

function fill_slots :: "nat \<Rightarrow> nat \<Rightarrow> nat \<Rightarrow> nat \<Rightarrow> nat list \<Rightarrow> nat list" where
  "fill_slots limit i bits idx1 buf =
     (let buf = buf[idx1 := i]; idx1 = idx1 + 2 ^ bits
      in if idx1 < limit then fill_slots limit i bits idx1 buf else buf)"
  by pat_completeness auto
termination
  by (relation "measure (\<lambda>(limit, i, bits, idx1, buf). limit - idx1)")
    (auto intro!: diff_less_mono2 elim: order.strict_trans1 [OF le_add1])

declare fill_slots.simps [simp del]

definition generate_tables_decode :: "nat \<Rightarrow> nat list \<Rightarrow> nat list \<Rightarrow> nat list \<Rightarrow> nat list" where
  "generate_tables_decode count bits code buf2 =
     fold (\<lambda>i buf2. fill_slots 0x100 i (bits ! i) (code ! i) buf2) (rev [0..<count]) buf2"

definition generate_ascii_entry :: "nat \<Rightarrow> pkzip_cmp_s \<Rightarrow> pkzip_cmp_s" where
  "generate_ascii_entry count st =
     (let code_asc = pkzip_code_asc ! count;
          bits_tmp = bits_asc st ! count
      in if bits_tmp \<le> 8 then
           (if code_asc < 0x100
            then st\<lparr>offs_2c34 := fill_slots 0x100 count bits_tmp code_asc (offs_2c34 st)\<rparr> else st)
         else if code_asc mod 0x100 \<noteq> 0 then
           let st = st\<lparr>offs_2c34 := (offs_2c34 st)[code_asc mod 0x100 := 0xFF]\<rparr>
           in if code_asc mod 0x40 \<noteq> 0 then
                st\<lparr>bits_asc := (bits_asc st)[count := bits_tmp - 4],
                   offs_2d34 := fill_slots 0x100 count (bits_tmp - 4) (code_asc div 16) (offs_2d34 st)\<rparr>
              else
                st\<lparr>bits_asc := (bits_asc st)[count := bits_tmp - 6],
                   offs_2e34 := fill_slots 0x80 count (bits_tmp - 6) (code_asc div 64) (offs_2e34 st)\<rparr>
         else
           st\<lparr>bits_asc := (bits_asc st)[count := bits_tmp - 8],
              offs_2eb4 := fill_slots 0x100 count (bits_tmp - 8) (code_asc div 256) (offs_2eb4 st)\<rparr>)"

definition generate_tables_ascii :: "pkzip_cmp_s \<Rightarrow> pkzip_cmp_s" where
  "generate_tables_ascii st = fold generate_ascii_entry (rev [0..<0x100]) st"

subsection \<open>Symbols\<close>

text \<open>The low bits of the accumulator.\<close>

abbreviation low :: "nat \<Rightarrow> pkzip_cmp_s \<Rightarrow> nat" where
  "low n st \<equiv> unat (bit_buf st AND (push_bit n 1 - 1))"

definition decode_length :: "pkzip_cmp_s \<Rightarrow> nat \<times> pkzip_cmp_s" where
  "decode_length st =
     (case skip_bit st 1 of
        (True, st) \<Rightarrow> (0x306, st)
      | (False, st) \<Rightarrow>
          let entry = pos2 st ! low 8 st
          in case skip_bit st (pkzip_slen_bits ! entry) of
            (True, st) \<Rightarrow> (0x306, st)
          | (False, st) \<Rightarrow>
              let bits = pkzip_clen_bits ! entry
              in if bits \<noteq> 0 then
                   let val2 = low bits st
                   in case skip_bit st bits of
                        (ended, st) \<Rightarrow>
                          if ended \<and> entry + val2 \<noteq> 0x10E then (0x306, st)
                          else (pkzip_len_base ! entry + val2 + 0x100, st)
                 else (entry + 0x100, st))"

definition decode_ascii :: "pkzip_cmp_s \<Rightarrow> nat \<times> pkzip_cmp_s" where
  "decode_ascii st =
     (let (ended, value, st) =
        (if low 8 st \<noteq> 0 then
           let value = offs_2c34 st ! low 8 st
           in if value = 0xFF then
                if low 6 st \<noteq> 0 then
                  (case skip_bit st 4 of (e, st) \<Rightarrow> (e, offs_2d34 st ! low 8 st, st))
                else
                  (case skip_bit st 6 of (e, st) \<Rightarrow> (e, offs_2e34 st ! low 7 st, st))
              else (False, value, st)
         else (case skip_bit st 8 of (e, st) \<Rightarrow> (e, offs_2eb4 st ! low 8 st, st)))
      in if ended then (0x306, st)
         else case skip_bit st (bits_asc st ! value) of
           (e, st) \<Rightarrow> (if e then 0x306 else value, st))"

definition decode_literal :: "pkzip_cmp_s \<Rightarrow> nat \<times> pkzip_cmp_s" where
  "decode_literal st =
     (if bit_buf st AND 1 \<noteq> 0 then decode_length st
      else case skip_bit st 1 of
        (True, st) \<Rightarrow> (0x306, st)
      | (False, st) \<Rightarrow>
          if cmp_type st = LIBMPQ_PKZIP_CMP_BINARY then
            let value = low 8 st
            in case skip_bit st 8 of (e, st) \<Rightarrow> (if e then 0x306 else value, st)
          else decode_ascii st)"

definition decode_distance :: "pkzip_cmp_s \<Rightarrow> nat \<Rightarrow> nat \<times> pkzip_cmp_s" where
  "decode_distance st len =
     (let pos = pos1 st ! low 8 st
      in case skip_bit st (pkzip_dist_bits ! pos) of
        (True, st) \<Rightarrow> (0, st)
      | (False, st) \<Rightarrow>
          if len = 2 then
            let pos = pos * 4 + low 2 st
            in case skip_bit st 2 of (e, st) \<Rightarrow> (if e then 0 else pos + 1, st)
          else
            let pos = pos * 2 ^ dsize_bits st + unat (bit_buf st AND dsize_mask st)
            in case skip_bit st (dsize_bits st) of (e, st) \<Rightarrow> (if e then 0 else pos + 1, st))"

subsection \<open>Expansion\<close>

text \<open>The copy loop: byte by byte, so that a match may overlap its own output.\<close>

definition copy_match :: "nat \<Rightarrow> nat \<Rightarrow> nat \<Rightarrow> u8 list \<Rightarrow> u8 list" where
  "copy_match target move_back n buf =
     fold (\<lambda>k buf. buf[target + k := buf ! (target - move_back + k)]) [0..<n] buf"

definition flush_window :: "pkzip_cmp_s \<Rightarrow> pkzip_cmp_s" where
  "flush_window st =
     (if out_pos st \<ge> 0x2000 then
        st\<lparr>param := data_write_output (take 0x1000 (drop 0x1000 (area st))) 0x1000 (param st),
           area := write_at (area st) 0 (take (out_pos st - 0x1000) (drop 0x1000 (area st))),
           out_pos := out_pos st - 0x1000\<rparr>
      else st)"

fun expand_loop :: "nat \<Rightarrow> pkzip_cmp_s \<Rightarrow> (nat \<times> pkzip_cmp_s) option" where
  "expand_loop 0 st = None"
| "expand_loop (Suc fuel) st =
     (case decode_literal st of (one_byte, st) \<Rightarrow>
        if one_byte \<ge> 0x305 then Some (one_byte, st)
        else if one_byte \<ge> 0x100 then
          let copy_length = one_byte - 0xFE
          in case decode_distance st copy_length of (move_back, st) \<Rightarrow>
            if move_back = 0 then Some (0x306, st)
            else expand_loop fuel (flush_window (st\<lparr>
              area := copy_match (out_pos st) move_back copy_length (area st),
              out_pos := out_pos st + copy_length\<rparr>))
        else expand_loop fuel (flush_window (st\<lparr>
          area := (area st)[out_pos st := of_nat one_byte], out_pos := out_pos st + 1\<rparr>)))"

definition expand :: "nat \<Rightarrow> pkzip_cmp_s \<Rightarrow> (nat \<times> pkzip_cmp_s) option" where
  "expand fuel st =
     (case expand_loop fuel (st\<lparr>out_pos := 0x1000\<rparr>) of
        None \<Rightarrow> None
      | Some (result, st) \<Rightarrow>
          let copy_bytes = out_pos st - 0x1000
          in Some (result, st\<lparr>param :=
               data_write_output (take copy_bytes (drop 0x1000 (area st))) copy_bytes (param st)\<rparr>))"

text \<open>The cleared work buffer.\<close>

definition zero_cmp :: "pkzip_data_s \<Rightarrow> pkzip_cmp_s" where
  "zero_cmp info = \<lparr>cmp_type = 0, out_pos = 0, dsize_bits = 0, dsize_mask = 0, bit_buf = 0,
     extra_bits = 0, in_pos = 0, in_bytes = 0, param = info, area = replicate 0x2A04 0,
     pos1 = replicate 0x100 0, pos2 = replicate 0x100 0, offs_2c34 = replicate 0x100 0,
     offs_2d34 = replicate 0x100 0, offs_2e34 = replicate 0x80 0, offs_2eb4 = replicate 0x100 0,
     bits_asc = replicate 0x100 0\<rparr>"

text \<open>The state after the header is read and the tables are built.\<close>

definition pkzip_start :: "nat \<Rightarrow> nat \<Rightarrow> pkzip_cmp_s \<Rightarrow> pkzip_cmp_s" where
  "pkzip_start mode dsize st =
     (let st = st\<lparr>cmp_type := mode, dsize_bits := dsize,
            bit_buf := ucast (area st ! (in_base + 2)), extra_bits := 0, in_pos := 3,
            dsize_mask := drop_bit (0x10 - dsize) 0xFFFF\<rparr>;
          st = (if mode \<noteq> LIBMPQ_PKZIP_CMP_BINARY
                then generate_tables_ascii (st\<lparr>bits_asc := pkzip_bits_asc\<rparr>) else st)
      in st\<lparr>pos2 := generate_tables_decode 0x10 pkzip_slen_bits pkzip_len_code (pos2 st),
            pos1 := generate_tables_decode 0x40 pkzip_dist_bits pkzip_dist_code (pos1 st)\<rparr>)"

definition libmpq__pkzip_decompress :: "nat \<Rightarrow> pkzip_data_s \<Rightarrow> (nat \<times> pkzip_data_s) option" where
  "libmpq__pkzip_decompress fuel info =
     (let st = zero_cmp info;
          (bytes, info) = data_read_input in_size (param st);
          st = st\<lparr>param := info, in_bytes := length bytes, area := write_at (area st) in_base bytes\<rparr>
      in if in_bytes st < 4 then Some (LIBMPQ_PKZIP_CMP_BAD_DATA, info)
      else
        let mode = unat (area st ! in_base);
            dsize = unat (area st ! (in_base + 1))
        in if 4 > dsize \<or> dsize > 6 then Some (LIBMPQ_PKZIP_CMP_INV_DICTSIZE, info)
        else if mode \<noteq> LIBMPQ_PKZIP_CMP_BINARY \<and> mode \<noteq> LIBMPQ_PKZIP_CMP_ASCII then
          Some (LIBMPQ_PKZIP_CMP_INV_MODE, info)
        else case expand fuel (pkzip_start mode dsize st) of
          None \<Rightarrow> None
        | Some (result, st) \<Rightarrow>
            Some (if result \<noteq> 0x306 then LIBMPQ_PKZIP_CMP_NO_ERROR else LIBMPQ_PKZIP_CMP_ABORT,
              param st))"

subsection \<open>Compression\<close>

definition PKZIP_DICTIONARY_SIZE :: nat where "PKZIP_DICTIONARY_SIZE = 4096"
definition PKZIP_MATCH_MAX :: nat where "PKZIP_MATCH_MAX = 516"
definition PKZIP_SEARCH_MAX :: nat where "PKZIP_SEARCH_MAX = 256"

record pkzip_match_s =
  head :: "nat list"
  previous :: "nat list"

definition pkzip_put_bits :: "u8 list \<Rightarrow> nat \<Rightarrow> nat \<Rightarrow> nat \<Rightarrow> u8 list \<times> nat" where
  "pkzip_put_bits out bit_pos val bits =
     (fold (\<lambda>i out.
          if bit val i then
            out[(bit_pos + i) div 8 := out ! ((bit_pos + i) div 8) OR push_bit ((bit_pos + i) mod 8) 1]
          else out) [0..<bits] out,
      bit_pos + bits)"

definition pair_hash :: "u8 list \<Rightarrow> nat \<Rightarrow> nat" where
  "pair_hash input i = (unat (input ! i) * 251 + unat (input ! (i + 1))) mod PKZIP_DICTIONARY_SIZE"

function match_run :: "u8 list \<Rightarrow> nat \<Rightarrow> nat \<Rightarrow> nat \<Rightarrow> nat \<Rightarrow> nat" where
  "match_run input candidate position limit len =
     (if len < limit \<and> input ! (candidate + len) = input ! (position + len)
      then match_run input candidate position limit (Suc len) else len)"
  by pat_completeness auto
termination by (relation "measure (\<lambda>(input, candidate, position, limit, len). limit - len)") auto

declare match_run.simps [simp del]

function match_probe ::
  "pkzip_match_s \<Rightarrow> u8 list \<Rightarrow> nat \<Rightarrow> nat \<Rightarrow> nat \<Rightarrow> nat \<Rightarrow> nat \<Rightarrow> nat \<Rightarrow> nat \<times> nat" where
  "match_probe history input position limit candidate best distance probes =
     (if candidate \<noteq> UINT32_MAX \<and> position - candidate \<le> PKZIP_DICTIONARY_SIZE \<and>
         probes < PKZIP_SEARCH_MAX then
        let len = match_run input candidate position limit 0;
            back = position - candidate;
            better = (len > best \<and> (len > 2 \<or> back \<le> 256));
            best = (if better then len else best);
            distance = (if better then back else distance)
        in if better \<and> best = limit then (best, distance)
           else match_probe history input position limit
                  (previous history ! (candidate mod PKZIP_DICTIONARY_SIZE)) best distance (probes + 1)
      else (best, distance))"
  by pat_completeness auto
termination
  by (relation "measure (\<lambda>(history, input, position, limit, candidate, best, distance, probes).
      PKZIP_SEARCH_MAX - probes)") auto

declare match_probe.simps [simp del]

definition find_match :: "pkzip_match_s \<Rightarrow> u8 list \<Rightarrow> nat \<Rightarrow> nat \<times> nat" where
  "find_match history input position =
     (let limit = length input - position
      in if limit < 2 then (1, 0)
         else match_probe history input position (min limit PKZIP_MATCH_MAX)
                (head history ! pair_hash input position) 1 0 0)"

definition length_entry :: "nat \<Rightarrow> nat" where
  "length_entry val =
     (case find (\<lambda>entry. val \<ge> pkzip_len_base ! entry \<and>
          val < pkzip_len_base ! entry + 2 ^ (pkzip_clen_bits ! entry)) [0..<16] of
        None \<Rightarrow> 15
      | Some entry \<Rightarrow> entry)"

definition put_match :: "nat \<Rightarrow> nat \<Rightarrow> u8 list \<times> nat \<Rightarrow> u8 list \<times> nat" where
  "put_match match_length distance st =
     (case st of (out, bit_count) \<Rightarrow>
        let suffix = (if match_length = 2 then 2 else 6);
            encoded_distance = distance - 1;
            prefix = drop_bit suffix encoded_distance;
            val = match_length - 2;
            entry = length_entry val;
            code = push_bit (pkzip_slen_bits ! entry + 1) (val - pkzip_len_base ! entry) OR
              (pkzip_len_code ! entry * 2) OR 1;
            (out, bit_count) = pkzip_put_bits out bit_count code
              (pkzip_slen_bits ! entry + pkzip_clen_bits ! entry + 1);
            (out, bit_count) = pkzip_put_bits out bit_count (pkzip_dist_code ! prefix) (pkzip_dist_bits ! prefix)
        in pkzip_put_bits out bit_count (encoded_distance AND (push_bit suffix 1 - 1)) suffix)"

definition put_literal :: "u8 \<Rightarrow> u8 list \<times> nat \<Rightarrow> u8 list \<times> nat" where
  "put_literal b st =
     (case st of (out, bit_count) \<Rightarrow>
        let (out, bit_count) = pkzip_put_bits out bit_count 0 1
        in pkzip_put_bits out bit_count (unat b) 8)"

definition index_position :: "u8 list \<Rightarrow> nat \<Rightarrow> pkzip_match_s \<Rightarrow> pkzip_match_s" where
  "index_position input i history =
     (if length input - i \<ge> 2 then
        history\<lparr>previous := (previous history)[i mod PKZIP_DICTIONARY_SIZE := head history ! pair_hash input i],
                head := (head history)[pair_hash input i := i]\<rparr>
      else history)"

lemma match_probe_ge: "best \<le> fst (match_probe history input position limit candidate best distance probes)"
proof (induction history input position limit candidate best distance probes rule: match_probe.induct)
  case (1 history input position limit candidate best distance probes)
  then show ?case
    by (subst match_probe.simps) (auto simp: Let_def intro: order.trans [OF less_imp_le])
qed

lemma find_match_ge_1: "find_match history input position = (n, d) \<Longrightarrow> 1 \<le> n"
  using match_probe_ge [of 1] by (auto simp: find_match_def Let_def split: if_split_asm) (metis fst_conv)

function compress_loop :: "u8 list \<Rightarrow> nat \<Rightarrow> u8 list \<times> nat \<Rightarrow> pkzip_match_s \<Rightarrow> u8 list \<times> nat" where
  "compress_loop input i st history =
     (if i < length input then
        case find_match history input i of
          (match_length, distance) \<Rightarrow>
            compress_loop input (i + match_length)
              (if match_length \<ge> 2 then put_match match_length distance st else put_literal (input ! i) st)
              (fold (index_position input) [i..<i + match_length] history)
      else st)"
  by pat_completeness auto
termination
  by (relation "measure (\<lambda>(input, i, st, history). length input - i)") (auto dest!: find_match_ge_1 [OF sym])

declare compress_loop.simps [simp del]

definition libmpq__pkzip_compress ::
  "(nat \<Rightarrow> bool) \<Rightarrow> ptr \<Rightarrow> nat \<Rightarrow> out_ptr \<Rightarrow> out_ptr \<Rightarrow> u8 list result" where
  "libmpq__pkzip_compress alloc in_buf n out_buf out_size =
     (let maximum_bits = n * 9 + 16;
          maximum_bytes = 2 + (maximum_bits + 7) div 8
      in if out_buf = None \<or> out_size = None \<or> n \<noteq> 0 \<and> in_buf = None then Inl ERROR_FORMAT
      else if maximum_bits > SIZE_MAX \<or> maximum_bytes > UINT32_MAX \<or> maximum_bytes > SIZE_MAX then
        Inl ERROR_SIZE
      else if \<not> alloc maximum_bytes then Inl ERROR_MALLOC
      else if \<not> alloc (2 * 4 * PKZIP_DICTIONARY_SIZE) then Inl ERROR_MALLOC
      else
        let input = (case in_buf of None \<Rightarrow> [] | Some bs \<Rightarrow> take n bs);
            history = \<lparr>head = replicate PKZIP_DICTIONARY_SIZE UINT32_MAX,
              previous = replicate PKZIP_DICTIONARY_SIZE UINT32_MAX\<rparr>;
            (out, bit_count) = compress_loop input 0 (replicate (maximum_bytes - 2) 0, 0) history;
            (out, bit_count) = pkzip_put_bits out bit_count 0xFF01 16
        in Inr (take (2 + (bit_count + 7) div 8) ([of_nat LIBMPQ_PKZIP_CMP_BINARY, 6] @ out)))"

subsection \<open>The bit stream ahead of the decoder\<close>

definition byte_bits :: "u8 \<Rightarrow> bool list" where
  "byte_bits b = map (bit b) [0..<8]"

definition bytes_bits :: "u8 list \<Rightarrow> bool list" where
  "bytes_bits bs = concat (map byte_bits bs)"

lemma length_byte_bits [simp]: "length (byte_bits b) = 8"
  by (simp add: byte_bits_def)

lemma length_bytes_bits [simp]: "length (bytes_bits bs) = 8 * length bs"
  by (induction bs) (simp_all add: bytes_bits_def)

lemma bytes_bits_simps [simp]:
  "bytes_bits [] = []" "bytes_bits (b # bs) = byte_bits b @ bytes_bits bs"
  "bytes_bits (xs @ ys) = bytes_bits xs @ bytes_bits ys"
  by (simp_all add: bytes_bits_def)

definition staged :: "pkzip_cmp_s \<Rightarrow> u8 list" where
  "staged st = take (in_bytes st - in_pos st) (drop (in_base + in_pos st) (area st))"

definition unread :: "pkzip_cmp_s \<Rightarrow> u8 list" where
  "unread st = drop (data_in_pos (param st)) (data_in (param st))"

definition buffered :: "pkzip_cmp_s \<Rightarrow> bool list" where
  "buffered st = map (bit (bit_buf st)) [0..<8 + extra_bits st]"

definition pending :: "pkzip_cmp_s \<Rightarrow> bool list" where
  "pending st = buffered st @ bytes_bits (staged st) @ bytes_bits (unread st)"

definition reader_ok :: "pkzip_cmp_s \<Rightarrow> bool" where
  "reader_ok st \<longleftrightarrow> extra_bits st \<le> 7 \<and> in_pos st \<le> in_bytes st \<and> in_bytes st \<le> in_size \<and>
     length (area st) = 0x2A04 \<and> data_in_pos (param st) \<le> length (data_in (param st)) \<and>
     (\<forall>i \<ge> 8 + extra_bits st. \<not> bit (bit_buf st) i)"

text \<open>What the bit reader leaves alone: the window, the tables and the output.\<close>

definition outside :: "pkzip_cmp_s \<Rightarrow> pkzip_cmp_s" where
  "outside st = st\<lparr>bit_buf := 0, extra_bits := 0, in_pos := 0, in_bytes := 0,
     param := (param st)\<lparr>data_in_pos := 0\<rparr>,
     area := take in_base (area st) @ map (\<lambda>_. 0) (drop in_base (area st))\<rparr>"

lemma bits_drop: "map (bit (drop_bit n (w :: 'a::len word))) [0..<m - n] = drop n (map (bit w) [0..<m])"
  by (rule nth_equalityI) (simp_all add: bit_drop_bit_eq)

lemma length_pending: "reader_ok st \<Longrightarrow> length (pending st) =
    8 + extra_bits st + 8 * (in_bytes st - in_pos st) + 8 * length (unread st)"
  by (auto simp: pending_def buffered_def staged_def reader_ok_def in_base_def in_size_def)

lemma skip_buffered:
  assumes "reader_ok st" "n \<le> extra_bits st"
  shows "\<exists>st'. skip_bit st n = (False, st') \<and> reader_ok st' \<and> pending st' = drop n (pending st) \<and>
     outside st' = outside st \<and> (1 \<le> in_pos st \<longrightarrow> 1 \<le> in_pos st')"
proof -
  let ?st = "st\<lparr>extra_bits := extra_bits st - n, bit_buf := drop_bit n (bit_buf st)\<rparr>"
  have "buffered ?st = drop n (buffered st)"
    using assms(2) bits_drop [of n "bit_buf st" "8 + extra_bits st"] by (simp add: buffered_def)
  then have "pending ?st = drop n (pending st)"
    using assms(2) by (simp add: pending_def staged_def unread_def buffered_def)
  then show ?thesis
    using assms by (auto simp: skip_bit_def reader_ok_def outside_def bit_drop_bit_eq)
qed

lemma skip_staged:
  assumes "reader_ok st" "extra_bits st < n" "n \<le> 8" "in_pos st < in_bytes st"
  shows "\<exists>st'. skip_bit st n = (False, st') \<and> reader_ok st' \<and> pending st' = drop n (pending st) \<and>
     outside st' = outside st \<and> 1 \<le> in_pos st'"
proof -
  let ?e = "extra_bits st" and ?b = "area st ! (in_base + in_pos st)"
  let ?w = "drop_bit ?e (bit_buf st) OR push_bit 8 (ucast ?b)"
  let ?st = "st\<lparr>bit_buf := drop_bit (n - ?e) ?w, in_pos := in_pos st + 1, extra_bits := ?e + 8 - n\<rparr>"
  have skip: "skip_bit st n = (False, ?st)"
    using assms(2,4) by (simp add: skip_bit_def Let_def)
  have staged: "staged st = ?b # staged ?st"
  proof -
    have "in_base + in_pos st < length (area st)"
      using assms(1,4) by (simp add: reader_ok_def in_base_def in_size_def)
    then have "drop (in_base + in_pos st) (area st) = ?b # drop (Suc (in_base + in_pos st)) (area st)"
      by (simp add: Cons_nth_drop_Suc)
    moreover have "in_bytes st - in_pos st = Suc (in_bytes st - Suc (in_pos st))"
      using assms(4) by simp
    ultimately show ?thesis by (simp add: staged_def)
  qed
  have high: "\<not> bit (bit_buf st) i" if "8 + ?e \<le> i" for i
    using assms(1) that by (simp add: reader_ok_def)
  have w: "bit ?w i = (if i < 8 then bit (bit_buf st) (?e + i) else i < 16 \<and> bit ?b (i - 8))" for i
  proof (cases "i < 8")
    case False
    have "bit ?b (i - 8) \<Longrightarrow> i - 8 < 8" using bit_imp_le_length [of ?b "i - 8"] by simp
    then show ?thesis
      using False high [of "?e + i"] by (auto simp: bit_or_iff bit_drop_bit_eq bit_push_bit_iff bit_ucast_iff)
  qed (auto simp: bit_or_iff bit_drop_bit_eq bit_push_bit_iff)
  have "map (bit ?w) [0..<16] = drop ?e (buffered st) @ byte_bits ?b"
    by (rule nth_equalityI) (auto simp: w buffered_def byte_bits_def nth_append)
  then have "buffered ?st = drop n (buffered st @ byte_bits ?b)"
    using bits_drop [of "n - ?e" ?w 16] assms(1,2,3)
    by (simp add: buffered_def reader_ok_def)
  then have "pending ?st = drop n (pending st)"
    using assms(1,3) staged by (simp add: pending_def unread_def buffered_def)
  moreover have "\<not> bit (drop_bit (n - ?e) ?w) i" if "16 + ?e - n \<le> i" for i
    unfolding bit_drop_bit_eq comp_def w using that assms(2,3) by auto
  then have "reader_ok ?st"
    using assms by (auto simp: reader_ok_def simp del: drop_bit_or)
  ultimately show ?thesis using skip by (simp add: outside_def)
qed

lemma skip_refill:
  assumes "reader_ok st" "extra_bits st < n" "in_pos st = in_bytes st" "unread st \<noteq> []"
  shows "\<exists>st'. skip_bit st n = skip_bit st' n \<and> reader_ok st' \<and> pending st' = pending st \<and>
     outside st' = outside st \<and> extra_bits st' = extra_bits st \<and> in_pos st' < in_bytes st'"
proof -
  obtain bytes info where read: "data_read_input in_size (param st) = (bytes, info)"
    by (cases "data_read_input in_size (param st)") auto
  have bytes: "bytes = take in_size (unread st)"
    and info: "info = (param st)\<lparr>data_in_pos := data_in_pos (param st) + length bytes\<rparr>"
    using read by (auto simp: data_read_input_def Let_def unread_def min_def)
  let ?st = "st\<lparr>param := info, in_bytes := length bytes, area := write_at (area st) in_base bytes, in_pos := 0\<rparr>"
  have pos: "0 < length bytes" "length bytes \<le> in_size"
    using assms(4) by (auto simp: bytes in_size_def)
  have room: "in_base + length bytes \<le> length (area st)"
    using assms(1) pos by (simp add: reader_ok_def in_base_def in_size_def)
  have staged: "staged ?st = bytes"
    using room by (simp add: staged_def take_drop_write_at)
  have "unread ?st = drop (length bytes) (unread st)"
    by (simp add: unread_def info add.commute)
  then have "bytes @ unread ?st = unread st"
    by (cases "in_size \<le> length (unread st)") (simp_all add: bytes)
  then have "pending ?st = pending st"
    using assms(3) staged
    by (simp add: pending_def buffered_def staged_def bytes_bits_simps(3) [symmetric] del: bytes_bits_simps(3))
  moreover have "skip_bit st n = skip_bit ?st n"
    using assms(2,3) pos read by (auto simp: skip_bit_def Let_def)
  moreover have "outside ?st = outside st"
    using room by (simp add: outside_def info write_at_def map_replicate_const replicate_add [symmetric])
  moreover have "reader_ok ?st"
    using assms(1) pos room by (auto simp: reader_ok_def info bytes unread_def)
  ultimately show ?thesis using pos by auto
qed

text \<open>The contract of the bit reader: it consumes the bits if eight more remain, and fails otherwise.\<close>

lemma skip_bit_ok:
  assumes "reader_ok st" "1 \<le> in_pos st" "n \<le> 8" "n + 8 \<le> length (pending st)"
  shows "\<exists>st'. skip_bit st n = (False, st') \<and> reader_ok st' \<and> 1 \<le> in_pos st' \<and>
     pending st' = drop n (pending st) \<and> outside st' = outside st"
proof -
  consider "n \<le> extra_bits st" | "extra_bits st < n" "in_pos st < in_bytes st"
    | "extra_bits st < n" "in_pos st = in_bytes st"
    using assms(1) by (fastforce simp: reader_ok_def)
  then show ?thesis
  proof cases
    case 1
    then show ?thesis using skip_buffered [OF assms(1) 1] assms(2) by blast
  next
    case 2
    then show ?thesis using skip_staged [OF assms(1) 2(1) assms(3) 2(2)] by blast
  next
    case 3
    have "unread st \<noteq> []"
      using assms(4) 3 length_pending [OF assms(1)] by auto
    from skip_refill [OF assms(1) 3 this] obtain s where
      s: "skip_bit st n = skip_bit s n" "reader_ok s" "pending s = pending st" "outside s = outside st"
        "extra_bits s = extra_bits st" "in_pos s < in_bytes s" by blast
    with skip_staged [of s n] 3 assms(3) show ?thesis by auto
  qed
qed

lemma skip_bit_fail:
  assumes "reader_ok st" "n \<le> 8" "length (pending st) < n + 8"
  shows "\<exists>st'. skip_bit st n = (True, st') \<and> outside st' = outside st"
proof -
  have "extra_bits st < n" "in_pos st = in_bytes st" "length (unread st) = 0"
    using assms length_pending [OF assms(1)] by (auto simp: reader_ok_def simp del: length_0_conv)
  then show ?thesis
    by (auto simp: skip_bit_def Let_def data_read_input_def unread_def outside_def write_at_def)
qed

lemma skip_bit_cases:
  assumes "reader_ok st" "1 \<le> in_pos st" "n \<le> 8"
  obtains st' where "skip_bit st n = (False, st')" "n + 8 \<le> length (pending st)" "reader_ok st'"
      "1 \<le> in_pos st'" "pending st' = drop n (pending st)" "outside st' = outside st"
    | st' where "skip_bit st n = (True, st')" "length (pending st) < n + 8" "outside st' = outside st"
  using skip_bit_ok [OF assms] skip_bit_fail [OF assms(1,3)] by (cases "n + 8 \<le> length (pending st)") auto

text \<open>The value of the first bits of the stream.\<close>

definition bval :: "bool list \<Rightarrow> nat" where
  "bval bs = horner_sum of_bool 2 bs"

lemma bval_word_bits: "bval (map (bit (w :: 'a::len word)) [0..<n]) = unat (take_bit n w)"
proof -
  have "map (bit w) [0..<n] = map (bit (unat w)) [0..<n]"
    by (simp add: bit_unsigned_iff)
  then show ?thesis
    unfolding bval_def by (simp only: horner_sum_bit_eq_take_bit unsigned_take_bit_eq)
qed

lemma low_take_bit: "low n st = unat (take_bit n (bit_buf st))"
  by (simp add: take_bit_eq_mask mask_eq_exp_minus_1 push_bit_of_1)

lemma low_pending:
  assumes "n \<le> 8 + extra_bits st"
  shows "low n st = bval (take n (pending st))"
proof -
  have "take n (pending st) = map (bit (bit_buf st)) [0..<n]"
    using assms by (simp add: pending_def buffered_def take_map)
  then show ?thesis by (simp only: low_take_bit bval_word_bits)
qed

subsection \<open>The lookup tables resolve the prefix codes\<close>

definition hits :: "nat list \<Rightarrow> nat list \<Rightarrow> nat \<Rightarrow> nat \<Rightarrow> bool" where
  "hits bits code i b \<longleftrightarrow> b mod 2 ^ (bits ! i) = code ! i"

lemma length_fill_slots [simp]: "length (fill_slots limit i bits idx buf) = length buf"
  by (induction limit i bits idx buf rule: fill_slots.induct)
    (subst fill_slots.simps, simp add: Let_def)

lemma fill_slots_nth:
  assumes "idx < limit" "b < limit" "limit \<le> length buf"
  shows "fill_slots limit i bits idx buf ! b =
     (if idx \<le> b \<and> (b - idx) mod 2 ^ bits = 0 then i else buf ! b)"
  using assms
proof (induction limit i bits idx buf rule: fill_slots.induct)
  case (1 limit i bits idx buf)
  have pos: "0 < (2 ^ bits :: nat)" by simp
  show ?case
  proof (cases "idx + 2 ^ bits < limit")
    case True
    have "(idx + 2 ^ bits \<le> b \<and> (b - (idx + 2 ^ bits)) mod 2 ^ bits = 0) \<or> b = idx \<longleftrightarrow>
        idx \<le> b \<and> (b - idx) mod 2 ^ bits = 0"
    proof (cases "idx + 2 ^ bits \<le> b")
      case True
      then have "b - idx = (b - (idx + 2 ^ bits)) + 2 ^ bits" by simp
      then show ?thesis using True pos by (metis add_leE linorder_not_less mod_add_self2 less_add_same_cancel1)
    next
      case False
      then show ?thesis using pos by (cases "b = idx") (auto dest: dvd_imp_le)
    qed
    then show ?thesis
      using 1 True by (subst fill_slots.simps) (auto simp: Let_def nth_list_update)
  next
    case False
    then have "idx \<le> b \<Longrightarrow> (b - idx) mod 2 ^ bits = b - idx" using 1 by simp
    then show ?thesis
      using 1 False by (subst fill_slots.simps) (auto simp: Let_def nth_list_update)
  qed
qed

lemma hits_fill:
  assumes "code < (2 ^ bits :: nat)"
  shows "(code \<le> b \<and> (b - code) mod 2 ^ bits = 0) \<longleftrightarrow> b mod 2 ^ bits = code"
proof
  assume "code \<le> b \<and> (b - code) mod 2 ^ bits = 0"
  then obtain q where "b - code = 2 ^ bits * q" "code \<le> b"
    by (auto elim: dvdE)
  then have "b = code + 2 ^ bits * q" by simp
  then show "b mod 2 ^ bits = code" using assms by simp
next
  assume *: "b mod 2 ^ bits = code"
  then have "code \<le> b" by auto
  moreover have "b - code = 2 ^ bits * (b div 2 ^ bits)"
    using * by (metis minus_mod_eq_mult_div)
  ultimately show "code \<le> b \<and> (b - code) mod 2 ^ bits = 0" by simp
qed

text \<open>A table of codes that a byte can hold and of which none continues another.\<close>

primrec prefix_free :: "(nat \<times> nat) list \<Rightarrow> bool" where
  "prefix_free [] \<longleftrightarrow> True"
| "prefix_free (x # xs) \<longleftrightarrow> snd x < 2 ^ fst x \<and> fst x \<le> 8 \<and>
     list_all (\<lambda>y. snd x mod 2 ^ min (fst x) (fst y) \<noteq> snd y mod 2 ^ min (fst x) (fst y)) xs \<and> prefix_free xs"

lemma prefix_free_code:
  "prefix_free xs \<Longrightarrow> i < length xs \<Longrightarrow> snd (xs ! i) < 2 ^ fst (xs ! i) \<and> fst (xs ! i) \<le> 8"
  by (induction xs arbitrary: i) (auto simp: nth_Cons split: nat.split)

lemma prefix_free_distinct:
  "prefix_free xs \<Longrightarrow> j < i \<Longrightarrow> i < length xs \<Longrightarrow>
     snd (xs ! j) mod 2 ^ min (fst (xs ! j)) (fst (xs ! i)) \<noteq> snd (xs ! i) mod 2 ^ min (fst (xs ! j)) (fst (xs ! i))"
  by (induction xs arbitrary: i j) (auto simp: nth_Cons list_all_length split: nat.split)

lemma generate_tables_decode_nth:
  assumes "prefix_free (zip bits code)" "length bits = count" "length code = count"
    and "i < count" "hits bits code i b" "b < 0x100" "length buf = 0x100"
  shows "generate_tables_decode count bits code buf ! b = i"
proof -
  let ?f = "\<lambda>i buf2. fill_slots 0x100 i (bits ! i) (code ! i) buf2"
  have ok: "code ! j < 2 ^ (bits ! j)" "bits ! j \<le> 8" if "j < count" for j
    using prefix_free_code [OF assms(1), of j] assms(2,3) that by auto
  have small: "code ! j < 0x100" if "j < count" for j
    using ok [OF that] power_increasing [of "bits ! j" 8 "2 :: nat"] by simp
  have other: "\<not> hits bits code j b" if "j < i" for j
  proof
    assume "hits bits code j b"
    then have "code ! j = b mod 2 ^ (bits ! j)" "code ! i = b mod 2 ^ (bits ! i)"
      using assms(5) by (simp_all add: hits_def)
    moreover have "(2 :: nat) ^ min (bits ! j) (bits ! i) dvd 2 ^ (bits ! i)"
      "(2 :: nat) ^ min (bits ! j) (bits ! i) dvd 2 ^ (bits ! j)"
      by (simp_all add: le_imp_power_dvd)
    ultimately have "(code ! j) mod 2 ^ min (bits ! j) (bits ! i) = (code ! i) mod 2 ^ min (bits ! j) (bits ! i)"
      by (simp only: mod_mod_cancel)
    then show False
      using prefix_free_distinct [OF assms(1) that] assms(2,3,4) that by simp
  qed
  have step: "?f j t ! b = (if hits bits code j b then j else t ! b)" if "j < count" "length t = 0x100" for j t
    using fill_slots_nth [OF small [OF that(1)] assms(6), of t j "bits ! j"] that
      hits_fill [OF ok(1) [OF that(1)], where b = b] by (simp add: hits_def)
  have len: "length (fold ?f is t) = length t" for "is" t
    by (induction "is" arbitrary: t) simp_all
  have below: "fold ?f (rev [0..<k]) t ! b = t ! b" if "k \<le> i" "length t = 0x100" for k t
    using that by (induction k arbitrary: t) (use other assms(4) in \<open>simp_all add: step\<close>)
  have "[0..<count] = [0..<i] @ i # [Suc i..<count]"
    using upt_add_eq_append [of 0 i "count - i"] assms(4) by (simp add: upt_conv_Cons)
  then have "generate_tables_decode count bits code buf =
      fold ?f (rev [0..<i]) (?f i (fold ?f (rev [Suc i..<count]) buf))"
    by (simp add: generate_tables_decode_def)
  then show ?thesis
    using below [of i "?f i (fold ?f (rev [Suc i..<count]) buf)"] step [OF assms(4), of "fold ?f (rev [Suc i..<count]) buf"]
      assms(5,7) by (simp add: len)
qed

lemma length_tables:
  "length pkzip_slen_bits = 16" "length pkzip_len_code = 16" "length pkzip_clen_bits = 16"
  "length pkzip_len_base = 16" "length pkzip_dist_bits = 64" "length pkzip_dist_code = 64"
  by (simp_all add: pkzip_slen_bits_def pkzip_len_code_def pkzip_clen_bits_def pkzip_len_base_def
      pkzip_dist_bits_def pkzip_dist_code_def)

lemma length_prefixes: "prefix_free (zip pkzip_slen_bits pkzip_len_code)"
  by code_simp

lemma distance_prefixes: "prefix_free (zip pkzip_dist_bits pkzip_dist_code)"
  by code_simp

lemmas length_table_nth = generate_tables_decode_nth [OF length_prefixes, unfolded length_tables, OF refl refl]
lemmas distance_table_nth = generate_tables_decode_nth [OF distance_prefixes, unfolded length_tables, OF refl refl]

subsection \<open>Decoding the symbols of a binary stream\<close>

definition nbits :: "nat \<Rightarrow> nat \<Rightarrow> bool list" where
  "nbits v n = map (bit v) [0..<n]"

lemma length_nbits [simp]: "length (nbits v n) = n"
  by (simp add: nbits_def)

lemma bval_nbits: "bval (nbits v n) = v mod 2 ^ n"
  by (simp add: bval_def nbits_def horner_sum_bit_eq_take_bit take_bit_eq_mod)

lemma bval_take: "bval (take n bs) = bval bs mod 2 ^ n"
  by (simp add: bval_def take_bit_horner_sum_bit_eq [symmetric] take_bit_eq_mod)

lemma bval_less: "bval bs < 2 ^ length bs"
  using bval_take [of "length bs" bs] by (simp add: mod_eq_self_iff_div_eq_0 split: nat.splits)
     (metis mod_less_divisor zero_less_numeral zero_less_power)

definition decoder_ok :: "pkzip_cmp_s \<Rightarrow> bool" where
  "decoder_ok st \<longleftrightarrow> reader_ok st \<and> 1 \<le> in_pos st"

lemma decoder_skip:
  assumes "decoder_ok st" "n \<le> 8" "pending st = xs @ ys" "length xs = n" "8 \<le> length ys"
  obtains st' where "skip_bit st n = (False, st')" "decoder_ok st'" "pending st' = ys" "outside st' = outside st"
  using skip_bit_ok [of st n] assms by (auto simp: decoder_ok_def)

lemma decoder_low:
  assumes "decoder_ok st" "n \<le> 8" "pending st = xs @ ys" "length xs = n"
  shows "low n st = bval xs"
  using assms by (simp only: low_pending [of n st]) simp

text \<open>A byte whose low bits are a code leads to its table entry.\<close>

lemma lookup_hit:
  assumes "decoder_ok st" "pending st = nbits (code ! i) (bits ! i) @ ys" "8 \<le> length (pending st)"
    and "code ! i < 2 ^ (bits ! i)" "bits ! i \<le> 8"
  shows "hits bits code i (low 8 st)" "low 8 st < 0x100"
proof -
  have low: "low 8 st = bval (take 8 (pending st))"
    by (rule low_pending) simp
  have "bval (take 8 (pending st)) mod 2 ^ (bits ! i) = bval (take (bits ! i) (take 8 (pending st)))"
    by (simp only: bval_take)
  also have "take (bits ! i) (take 8 (pending st)) = nbits (code ! i) (bits ! i)"
    using assms(2,5) by simp
  finally show "hits bits code i (low 8 st)"
    using assms(4) unfolding hits_def low by (simp add: bval_nbits)
  show "low 8 st < 0x100"
    using bval_less [of "take 8 (pending st)"] assms(3) unfolding low by simp
qed

definition tables_ok :: "pkzip_cmp_s \<Rightarrow> bool" where
  "tables_ok st \<longleftrightarrow>
     pos2 st = generate_tables_decode 0x10 pkzip_slen_bits pkzip_len_code (replicate 0x100 0) \<and>
     pos1 st = generate_tables_decode 0x40 pkzip_dist_bits pkzip_dist_code (replicate 0x100 0) \<and>
     cmp_type st = LIBMPQ_PKZIP_CMP_BINARY \<and> dsize_bits st = 6 \<and> dsize_mask st = 0x3F"

lemma area_outside:
  "take in_base (area (outside st)) = take in_base (area st)" "length (area (outside st)) = length (area st)"
  by (cases "length (area st) \<le> in_base"; simp add: outside_def)+

lemma outside_fields:
  assumes "outside st' = outside st"
  shows "pos1 st' = pos1 st" "pos2 st' = pos2 st" "cmp_type st' = cmp_type st" "dsize_bits st' = dsize_bits st"
    "dsize_mask st' = dsize_mask st" "out_pos st' = out_pos st" "tables_ok st' = tables_ok st"
    "take in_base (area st') = take in_base (area st)" "data_out (param st') = data_out (param st)"
    "data_out_pos (param st') = data_out_pos (param st)" "max_out (param st') = max_out (param st)"
    "length (area st') = length (area st)"
proof -
  have "f (outside st') = f (outside st)" for f :: "pkzip_cmp_s \<Rightarrow> 'z" using assms by simp
  from this [of pos1] this [of pos2] this [of cmp_type] this [of dsize_bits] this [of dsize_mask]
    this [of out_pos] this [of "\<lambda>s. take in_base (area s)"] this [of "\<lambda>s. length (area s)"] this [of "\<lambda>s. data_out (param s)"]
    this [of "\<lambda>s. data_out_pos (param s)"] this [of "\<lambda>s. max_out (param s)"]
  show "pos1 st' = pos1 st" "pos2 st' = pos2 st" "cmp_type st' = cmp_type st" "dsize_bits st' = dsize_bits st"
    "dsize_mask st' = dsize_mask st" "out_pos st' = out_pos st" "tables_ok st' = tables_ok st"
    "take in_base (area st') = take in_base (area st)" "data_out (param st') = data_out (param st)"
    "data_out_pos (param st') = data_out_pos (param st)" "max_out (param st') = max_out (param st)"
    "length (area st') = length (area st)"
    unfolding area_outside by (simp_all add: outside_def tables_ok_def)
qed

text \<open>The result of one symbol: its value, and a state that has consumed exactly its bits.\<close>

definition symbol_read :: "nat \<times> pkzip_cmp_s \<Rightarrow> nat \<Rightarrow> bool list \<Rightarrow> pkzip_cmp_s \<Rightarrow> bool" where
  "symbol_read r v rest st \<longleftrightarrow>
     (\<exists>st'. r = (v, st') \<and> decoder_ok st' \<and> pending st' = rest \<and> outside st' = outside st)"

lemma first_bit:
  assumes "decoder_ok st" "pending st = b # ys"
  shows "bit_buf st AND 1 \<noteq> 0 \<longleftrightarrow> b"
proof -
  have "low 1 st = bval [b]" by (rule decoder_low) (use assms in auto)
  then have "unat (bit_buf st AND 1) = of_bool b" by (simp add: bval_def)
  then show ?thesis by (cases b) (auto simp: unat_eq_0)
qed

lemma decode_literal_byte:
  assumes "decoder_ok st" "cmp_type st = LIBMPQ_PKZIP_CMP_BINARY"
    and "pending st = False # nbits v 8 @ ys" "v < 0x100" "8 \<le> length ys"
  shows "symbol_read (decode_literal st) v ys st"
proof -
  obtain s1 where s1: "skip_bit st 1 = (False, s1)" "decoder_ok s1" "pending s1 = nbits v 8 @ ys"
      "outside s1 = outside st"
    using decoder_skip [OF assms(1), of 1 "[False]" "nbits v 8 @ ys"] assms(3,5) by auto
  obtain s2 where s2: "skip_bit s1 8 = (False, s2)" "decoder_ok s2" "pending s2 = ys" "outside s2 = outside s1"
    using decoder_skip [OF s1(2), of 8 "nbits v 8" ys] s1(3) assms(5) by auto
  have "low 8 s1 = v"
    using decoder_low [OF s1(2), of 8 "nbits v 8" ys] s1(3) assms(4) by (simp add: bval_nbits)
  moreover have "\<not> bit_buf st AND 1 \<noteq> 0" using first_bit [OF assms(1,3)] by simp
  ultimately show ?thesis
    using s1 s2 assms(2) outside_fields(3) [OF s1(4)] by (simp add: symbol_read_def decode_literal_def)
qed

lemma length_code_ok: "i < 16 \<Longrightarrow> pkzip_len_code ! i < 2 ^ (pkzip_slen_bits ! i) \<and> pkzip_slen_bits ! i \<le> 8"
  using prefix_free_code [OF length_prefixes, of i] by (simp add: length_tables)

lemma distance_code_ok: "i < 64 \<Longrightarrow> pkzip_dist_code ! i < 2 ^ (pkzip_dist_bits ! i) \<and> pkzip_dist_bits ! i \<le> 8"
  using prefix_free_code [OF distance_prefixes, of i] by (simp add: length_tables)

lemma clen_le: "i < 16 \<Longrightarrow> pkzip_clen_bits ! i \<le> 8"
  using list_all_length [of "\<lambda>x. x \<le> 8" pkzip_clen_bits]
  by (simp add: pkzip_clen_bits_def length_tables)

lemma len_base_small: "i < 16 \<Longrightarrow> pkzip_clen_bits ! i = 0 \<Longrightarrow> pkzip_len_base ! i = i"
proof -
  have "list_all (\<lambda>i. pkzip_clen_bits ! i = 0 \<longrightarrow> pkzip_len_base ! i = i) [0..<16]" by code_simp
  then show "i < 16 \<Longrightarrow> pkzip_clen_bits ! i = 0 \<Longrightarrow> pkzip_len_base ! i = i"
    by (simp add: list_all_iff del: upt_rec_numeral)
qed

text \<open>The symbol of a length: its table entry and the extra bits.\<close>

definition length_code :: "nat \<Rightarrow> nat \<Rightarrow> bool list" where
  "length_code entry extra =
     True # nbits (pkzip_len_code ! entry) (pkzip_slen_bits ! entry) @ nbits extra (pkzip_clen_bits ! entry)"

lemma decode_length_symbol:
  assumes "decoder_ok st" "tables_ok st" "entry < 16" "extra < 2 ^ (pkzip_clen_bits ! entry)"
    and "pending st = length_code entry extra @ ys" "8 \<le> length ys"
  shows "symbol_read (decode_literal st) (pkzip_len_base ! entry + extra + 0x100) ys st"
proof -
  let ?l = "nbits (pkzip_len_code ! entry) (pkzip_slen_bits ! entry)"
  let ?x = "nbits extra (pkzip_clen_bits ! entry)"
  note ok = length_code_ok [OF assms(3)]
  have bits: "pending st = True # ?l @ ?x @ ys" using assms(5) by (simp add: length_code_def)
  obtain s1 where s1: "skip_bit st 1 = (False, s1)" "decoder_ok s1" "pending s1 = ?l @ ?x @ ys"
      "outside s1 = outside st"
    using decoder_skip [OF assms(1), of 1 "[True]" "?l @ ?x @ ys"] bits assms(6) by auto
  have "pos2 s1 = generate_tables_decode 0x10 pkzip_slen_bits pkzip_len_code (replicate 0x100 0)"
    using assms(2) outside_fields(2) [OF s1(4)] by (simp add: tables_ok_def)
  then have entry: "pos2 s1 ! low 8 s1 = entry"
    using length_table_nth [of entry "low 8 s1" "replicate 0x100 0"]
      lookup_hit [OF s1(2), of pkzip_len_code entry pkzip_slen_bits "?x @ ys"] ok assms(3,6) s1(3) by simp
  obtain s2 where s2: "skip_bit s1 (pkzip_slen_bits ! entry) = (False, s2)" "decoder_ok s2"
      "pending s2 = ?x @ ys" "outside s2 = outside s1"
    using decoder_skip [OF s1(2) conjunct2 [OF ok] s1(3)] assms(6) by auto
  have dec: "decode_literal st = (if pkzip_clen_bits ! entry \<noteq> 0 then
      (case skip_bit s2 (pkzip_clen_bits ! entry) of (ended, st) \<Rightarrow>
         if ended \<and> entry + low (pkzip_clen_bits ! entry) s2 \<noteq> 0x10E then (0x306, st)
         else (pkzip_len_base ! entry + low (pkzip_clen_bits ! entry) s2 + 0x100, st))
      else (entry + 0x100, s2))"
    using first_bit [OF assms(1) bits] s1(1) s2(1) entry
    by (auto simp: decode_literal_def decode_length_def Let_def split: prod.split)
  show ?thesis
  proof (cases "pkzip_clen_bits ! entry = 0")
    case True
    then show ?thesis
      using dec s1 s2 assms(4) len_base_small [OF assms(3)] by (simp add: symbol_read_def nbits_def)
  next
    case False
    obtain s3 where s3: "skip_bit s2 (pkzip_clen_bits ! entry) = (False, s3)" "decoder_ok s3"
        "pending s3 = ys" "outside s3 = outside s2"
      using decoder_skip [OF s2(2) clen_le [OF assms(3)] s2(3)] assms(6) by auto
    have "low (pkzip_clen_bits ! entry) s2 = extra"
      using decoder_low [OF s2(2) clen_le [OF assms(3)] s2(3)] assms(4) by (simp add: bval_nbits)
    then show ?thesis using False dec s1 s2 s3 by (simp add: symbol_read_def)
  qed
qed

lemma find_SomeD: "find P xs = Some x \<Longrightarrow> P x \<and> x \<in> set xs"
  by (induction xs) (auto split: if_split_asm)

lemma length_entry_ok:
  assumes "val < 518"
  shows "length_entry val < 16" "pkzip_len_base ! length_entry val \<le> val"
    "val - pkzip_len_base ! length_entry val < 2 ^ (pkzip_clen_bits ! length_entry val)"
proof -
  let ?P = "\<lambda>entry. val \<ge> pkzip_len_base ! entry \<and> val < pkzip_len_base ! entry + 2 ^ (pkzip_clen_bits ! entry)"
  have ex: "\<exists>e < 16. ?P e"
  proof -
    consider "val < 8" | "8 \<le> val" "val < 10" | "10 \<le> val" "val < 14" | "14 \<le> val" "val < 22"
      | "22 \<le> val" "val < 38" | "38 \<le> val" "val < 70" | "70 \<le> val" "val < 134"
      | "134 \<le> val" "val < 262" | "262 \<le> val"
      by linarith
    then show ?thesis
    proof cases
      case 1
      have "list_all (\<lambda>i. pkzip_clen_bits ! i = 0 \<and> pkzip_len_base ! i = i) [0..<8]" by code_simp
      with 1 show ?thesis by (intro exI [of _ val]) (simp add: list_all_iff del: upt_rec_numeral)
    next
      case 2 then show ?thesis by (intro exI [of _ 8]) (simp add: pkzip_len_base_def pkzip_clen_bits_def)
    next
      case 3 then show ?thesis by (intro exI [of _ 9]) (simp add: pkzip_len_base_def pkzip_clen_bits_def)
    next
      case 4 then show ?thesis by (intro exI [of _ 10]) (simp add: pkzip_len_base_def pkzip_clen_bits_def)
    next
      case 5 then show ?thesis by (intro exI [of _ 11]) (simp add: pkzip_len_base_def pkzip_clen_bits_def)
    next
      case 6 then show ?thesis by (intro exI [of _ 12]) (simp add: pkzip_len_base_def pkzip_clen_bits_def)
    next
      case 7 then show ?thesis by (intro exI [of _ 13]) (simp add: pkzip_len_base_def pkzip_clen_bits_def)
    next
      case 8 then show ?thesis by (intro exI [of _ 14]) (simp add: pkzip_len_base_def pkzip_clen_bits_def)
    next
      case 9 then show ?thesis
        using assms by (intro exI [of _ 15]) (simp add: pkzip_len_base_def pkzip_clen_bits_def)
    qed
  qed
  have "find ?P [0..<16] \<noteq> None"
    unfolding find_None_iff using ex by (auto simp del: upt_rec_numeral)
  then obtain e where e: "find ?P [0..<16] = Some e" by blast
  have "?P e \<and> e < 16" using find_SomeD [OF e] by (simp del: upt_rec_numeral)
  moreover have "length_entry val = e" using e by (simp add: length_entry_def del: upt_rec_numeral)
  ultimately show "length_entry val < 16" "pkzip_len_base ! length_entry val \<le> val"
    "val - pkzip_len_base ! length_entry val < 2 ^ (pkzip_clen_bits ! length_entry val)"
    by auto
qed

definition distance_code :: "nat \<Rightarrow> nat \<Rightarrow> bool list" where
  "distance_code suffix d =
     nbits (pkzip_dist_code ! ((d - 1) div 2 ^ suffix)) (pkzip_dist_bits ! ((d - 1) div 2 ^ suffix)) @
     nbits ((d - 1) mod 2 ^ suffix) suffix"

lemma decode_distance_symbol:
  assumes "decoder_ok st" "tables_ok st" "1 \<le> d" "d \<le> 64 * 2 ^ suffix"
    and "suffix = (if len = 2 then 2 else 6)"
    and "pending st = distance_code suffix d @ ys" "8 \<le> length ys"
  shows "symbol_read (decode_distance st len) d ys st"
proof -
  let ?p = "(d - 1) div 2 ^ suffix" and ?r = "(d - 1) mod 2 ^ suffix"
  let ?x = "nbits ?r suffix"
  have suf: "suffix \<le> 8" using assms(5) by simp
  have p: "?p < 64" using assms(3,4) by (simp add: div_less_iff_less_mult)
  note ok = distance_code_ok [OF p]
  have bits: "pending st = nbits (pkzip_dist_code ! ?p) (pkzip_dist_bits ! ?p) @ ?x @ ys"
    using assms(6) by (simp add: distance_code_def)
  have "pos1 st = generate_tables_decode 0x40 pkzip_dist_bits pkzip_dist_code (replicate 0x100 0)"
    using assms(2) by (simp add: tables_ok_def)
  then have pos: "pos1 st ! low 8 st = ?p"
    using distance_table_nth [of ?p "low 8 st" "replicate 0x100 0"]
      lookup_hit [OF assms(1) bits] ok p assms(7) bits by simp
  obtain s1 where s1: "skip_bit st (pkzip_dist_bits ! ?p) = (False, s1)" "decoder_ok s1" "pending s1 = ?x @ ys"
      "outside s1 = outside st"
    using decoder_skip [OF assms(1) conjunct2 [OF ok] bits] assms(7) by auto
  obtain s2 where s2: "skip_bit s1 suffix = (False, s2)" "decoder_ok s2" "pending s2 = ys" "outside s2 = outside s1"
    using decoder_skip [OF s1(2) suf s1(3)] assms(7) by auto
  have low: "low suffix s1 = ?r"
    using decoder_low [OF s1(2) suf s1(3)] by (simp add: bval_nbits)
  have "?p * 2 ^ suffix + ?r + 1 = d"
    using assms(3) div_mult_mod_eq [of "d - 1" "2 ^ suffix"] by linarith
  then show ?thesis
    using s1 s2 pos low assms(2,5) outside_fields(4,5) [OF s1(4)]
    by (cases "len = 2") (simp_all add: decode_distance_def symbol_read_def tables_ok_def)
qed

lemma decode_terminator:
  assumes "decoder_ok st" "tables_ok st" "pending st = length_code 15 255 @ ys"
  shows "\<exists>st'. decode_literal st = (0x305, st') \<and> outside st' = outside st"
proof -
  have tab: "pkzip_len_code ! 15 = 0" "pkzip_slen_bits ! 15 = 7" "pkzip_clen_bits ! 15 = 8" "pkzip_len_base ! 15 = 0x106"
    by (simp_all add: pkzip_len_code_def pkzip_slen_bits_def pkzip_clen_bits_def pkzip_len_base_def)
  let ?x = "nbits 255 8"
  have bits: "pending st = True # nbits (pkzip_len_code ! 15) (pkzip_slen_bits ! 15) @ ?x @ ys"
    using assms(3) by (simp add: length_code_def tab)
  obtain s1 where s1: "skip_bit st 1 = (False, s1)" "decoder_ok s1"
      "pending s1 = nbits (pkzip_len_code ! 15) (pkzip_slen_bits ! 15) @ ?x @ ys" "outside s1 = outside st"
    using decoder_skip [OF assms(1), of 1 "[True]" "nbits (pkzip_len_code ! 15) (pkzip_slen_bits ! 15) @ ?x @ ys"] bits
    by auto
  have "pos2 s1 = generate_tables_decode 0x10 pkzip_slen_bits pkzip_len_code (replicate 0x100 0)"
    using assms(2) outside_fields(2) [OF s1(4)] by (simp add: tables_ok_def)
  then have entry: "pos2 s1 ! low 8 s1 = 15"
    using length_table_nth [of 15 "low 8 s1" "replicate 0x100 0"]
      lookup_hit [OF s1(2), of pkzip_len_code 15 pkzip_slen_bits "?x @ ys"] s1(3) tab by simp
  obtain s2 where s2: "skip_bit s1 7 = (False, s2)" "decoder_ok s2" "pending s2 = ?x @ ys" "outside s2 = outside s1"
    using decoder_skip [OF s1(2), of 7 "nbits 0 7" "?x @ ys"] s1(3) tab by auto
  have low: "low 8 s2 = 255"
    using decoder_low [OF s2(2) _ s2(3)] by (simp add: bval_nbits)
  obtain e s3 where s3: "skip_bit s2 8 = (e, s3)" "outside s3 = outside s2"
  proof -
    have "outside (snd (skip_bit s2 8)) = outside s2"
      by (rule skip_bit_cases [of s2 8]) (use s2(2) in \<open>auto simp: decoder_ok_def\<close>)
    then show ?thesis using that [of "fst (skip_bit s2 8)" "snd (skip_bit s2 8)"] by simp
  qed
  show ?thesis
    using first_bit [OF assms(1) bits] s1(1,4) s2(1,4) s3 entry low tab
    by (auto simp: decode_literal_def decode_length_def Let_def)
qed

end
