(* ===== verification/Mpq_Pkware_Expand.thy ===== *)
theory Mpq_Pkware_Expand
  imports Mpq_Pkware
begin

text \<open>
  The expansion of a PKWARE stream as the interpretation of a sequence of tokens. The relation
  \<open>window\<close> says that the sliding window and the caller's buffer together hold the output so far, and
  each turn of the decoding loop is one token applied to that output. The result is
  \<open>decompress_tokens\<close>: a stream that is the coded tokens and the end marker expands to what the
  tokens denote.
\<close>

subsection \<open>The window\<close>

definition recent :: "u8 list \<Rightarrow> nat \<Rightarrow> u8 list \<Rightarrow> bool" where
  "recent buf pos out \<longleftrightarrow> 0x1000 \<le> pos \<and>
     (\<forall>d. 1 \<le> d \<and> d \<le> 0x1000 \<and> d \<le> length out \<longrightarrow> buf ! (pos - d) = out ! (length out - d))"

lemma recentD:
  "recent buf pos out \<Longrightarrow> 1 \<le> d \<Longrightarrow> d \<le> 0x1000 \<Longrightarrow> d \<le> length out \<Longrightarrow> buf ! (pos - d) = out ! (length out - d)"
  by (simp add: recent_def)

lemma recent_put:
  assumes "recent buf pos out" "pos < length buf"
  shows "recent (buf[pos := b]) (Suc pos) (out @ [b])"
  unfolding recent_def
proof (intro conjI allI impI)
  fix d assume d: "1 \<le> d \<and> d \<le> 0x1000 \<and> d \<le> length (out @ [b])"
  show "buf[pos := b] ! (Suc pos - d) = (out @ [b]) ! (length (out @ [b]) - d)"
  proof (cases "d = 1")
    case True
    then show ?thesis using assms(2) by simp
  next
    case False
    with d have e: "1 \<le> d - 1" "d - 1 \<le> 0x1000" "d - 1 \<le> length out" by auto
    have old: "buf ! (pos - (d - 1)) = out ! (length out - (d - 1))"
      by (rule recentD [OF assms(1) e])
    have "Suc pos - d = pos - (d - 1)" "length (out @ [b]) - d = length out - (d - 1)"
      "pos - (d - 1) \<noteq> pos" "length out - (d - 1) < length out"
      using e False assms(1) by (auto simp: recent_def)
    then show ?thesis using old by (simp only: nth_append nth_list_update_neq if_True not_sym)
  qed
qed (use assms in \<open>simp add: recent_def\<close>)

fun lz_copy :: "u8 list \<Rightarrow> nat \<Rightarrow> nat \<Rightarrow> u8 list" where
  "lz_copy out back 0 = out"
| "lz_copy out back (Suc n) = lz_copy out back n @ [lz_copy out back n ! (length (lz_copy out back n) - back)]"

lemma length_lz_copy [simp]: "length (lz_copy out back n) = length out + n"
  by (induction n) simp_all

lemma length_copy_match [simp]: "length (copy_match pos back n buf) = length buf"
  unfolding copy_match_def by (induction n) simp_all

lemma copy_match_recent:
  assumes "recent buf pos out" "1 \<le> back" "back \<le> 0x1000" "back \<le> length out" "pos + n \<le> length buf"
  shows "recent (copy_match pos back n buf) (pos + n) (lz_copy out back n) \<and>
    (\<forall>i. i < pos \<or> pos + n \<le> i \<longrightarrow> copy_match pos back n buf ! i = buf ! i)"
  using assms(5)
proof (induction n)
  case 0
  then show ?case using assms(1) by (simp add: copy_match_def)
next
  case (Suc n)
  let ?buf = "copy_match pos back n buf" and ?out = "lz_copy out back n"
  have rec: "recent ?buf (pos + n) ?out" using Suc by simp
  have "pos - back + n = (pos + n) - back" using assms(1,3) by (simp add: recent_def)
  moreover have "?buf ! ((pos + n) - back) = ?out ! (length ?out - back)"
    using rec assms(2,3,4) by (simp add: recent_def)
  ultimately have "copy_match pos back (Suc n) buf = ?buf[pos + n := ?out ! (length ?out - back)]"
    by (simp add: copy_match_def)
  then show ?case
    using recent_put [OF rec, of "?out ! (length ?out - back)"] Suc by simp
qed

text \<open>The decoder has produced \<open>out\<close>: the tail of it is in the window, the rest is written.\<close>

definition window :: "pkzip_cmp_s \<Rightarrow> u8 list \<Rightarrow> bool" where
  "window st out \<longleftrightarrow> recent (area st) (out_pos st) out \<and> out_pos st \<le> 0x2205 \<and>
     out_pos st - 0x1000 \<le> length out \<and>
     take (out_pos st - 0x1000) (drop 0x1000 (area st)) = drop (length out - (out_pos st - 0x1000)) out \<and>
     data_out_pos (param st) = length out - (out_pos st - 0x1000) \<and>
     take (length out - (out_pos st - 0x1000)) (data_out (param st)) = take (length out - (out_pos st - 0x1000)) out \<and>
     max_out (param st) = length (data_out (param st)) \<and> length (area st) = 0x2A04"

lemma windowD:
  assumes "window st out"
  shows "recent (area st) (out_pos st) out" "out_pos st \<le> 0x2205" "out_pos st - 0x1000 \<le> length out"
    "take (out_pos st - 0x1000) (drop 0x1000 (area st)) = drop (length out - (out_pos st - 0x1000)) out"
    "data_out_pos (param st) = length out - (out_pos st - 0x1000)"
    "take (length out - (out_pos st - 0x1000)) (data_out (param st)) = take (length out - (out_pos st - 0x1000)) out"
    "max_out (param st) = length (data_out (param st))" "length (area st) = 0x2A04"
  using assms by (simp_all only: window_def)

lemma window_outside:
  assumes "outside st' = outside st" "window st out" "out_pos st < 0x2000"
  shows "window st' out"
proof -
  note f = outside_fields [OF assms(1)]
  have nth: "area st' ! i = area st ! i" if "i < in_base" for i
    using f(8) that by (metis nth_take)
  have "recent (area st') (out_pos st) out"
    using assms(2,3) nth by (auto simp: window_def recent_def in_base_def)
  moreover have "take (out_pos st - 0x1000) (drop 0x1000 (area st')) = take (out_pos st - 0x1000) (drop 0x1000 (area st))"
    using windowD(8) [OF assms(2)] assms(3) f(12) by (intro nth_equalityI) (auto simp: nth in_base_def)
  ultimately show ?thesis
    using assms(2) f by (simp add: window_def)
qed

lemma decoder_area:
  assumes "decoder_ok st" "length a = length (area st)" "\<And>i. 0x2205 \<le> i \<Longrightarrow> i < length (area st) \<Longrightarrow> a ! i = area st ! i"
    and "data_in i' = data_in (param st)" "data_in_pos i' = data_in_pos (param st)"
  shows "decoder_ok (st\<lparr>area := a, out_pos := p, param := i'\<rparr>)"
    "pending (st\<lparr>area := a, out_pos := p, param := i'\<rparr>) = pending st"
proof -
  have "drop (in_base + in_pos st) a = drop (in_base + in_pos st) (area st)"
    using assms(1,2,3) by (intro nth_equalityI) (auto simp: in_base_def decoder_ok_def)
  then show "decoder_ok (st\<lparr>area := a, out_pos := p, param := i'\<rparr>)"
    "pending (st\<lparr>area := a, out_pos := p, param := i'\<rparr>) = pending st"
    using assms by (simp_all add: decoder_ok_def reader_ok_def pending_def buffered_def staged_def unread_def)
qed

lemma write_output_ok:
  assumes "max_out info = length (data_out info)" "data_out_pos info + length buf \<le> max_out info"
  shows "data_write_output buf (length buf) info =
     info\<lparr>data_out := write_at (data_out info) (data_out_pos info) buf, data_out_pos := data_out_pos info + length buf\<rparr>"
  using assms by (simp add: data_write_output_def Let_def)

lemma flush_window_ok:
  assumes "decoder_ok st" "window st out" "length out \<le> max_out (param st)"
  shows "decoder_ok (flush_window st) \<and> pending (flush_window st) = pending st \<and>
     window (flush_window st) out \<and> out_pos (flush_window st) < 0x2000 \<and>
     tables_ok (flush_window st) = tables_ok st \<and> max_out (param (flush_window st)) = max_out (param st)"
proof (cases "0x2000 \<le> out_pos st")
  case False
  then show ?thesis using assms by (simp add: flush_window_def)
next
  case True
  let ?n = "out_pos st - 0x1000"
  let ?half = "take 0x1000 (drop 0x1000 (area st))"
  let ?info = "data_write_output ?half 0x1000 (param st)"
  let ?a = "write_at (area st) 0 (take ?n (drop 0x1000 (area st)))"
  note W = windowD [OF assms(2)]
  have half: "length ?half = 0x1000" using W(8) by simp
  have a: "?a ! i = (if i < ?n then area st ! (0x1000 + i) else area st ! i)" if "i < length (area st)" for i
    using that W(2,8) by (simp add: nth_write_at)
  have len: "length ?a = length (area st)" using W(2,8) by simp
  have fw: "flush_window st = st\<lparr>area := ?a, out_pos := out_pos st - 0x1000, param := ?info\<rparr>"
    using True by (simp add: flush_window_def)
  have info: "?info = (param st)\<lparr>data_out := write_at (data_out (param st)) (data_out_pos (param st)) ?half,
      data_out_pos := data_out_pos (param st) + 0x1000\<rparr>"
    using write_output_ok [of "param st" ?half] half W assms(3) True by simp
  have nth: "area st ! (0x1000 + j) = out ! (length out - ?n + j)" if "j < ?n" for j
  proof -
    have "take ?n (drop 0x1000 (area st)) ! j = drop (length out - ?n) out ! j" using W(4) by simp
    then show ?thesis using that W(2,3,8) by simp
  qed
  have "recent ?a ?n out"
    using W(1,2,8) True unfolding recent_def
    by (auto simp: a)
  moreover have "take (?n - 0x1000) (drop 0x1000 ?a) = drop (length out - (?n - 0x1000)) out"
  proof (rule nth_equalityI)
    show "length (take (?n - 0x1000) (drop 0x1000 ?a)) = length (drop (length out - (?n - 0x1000)) out)"
      using W(2,3,8) len by simp
    fix j assume "j < length (take (?n - 0x1000) (drop 0x1000 ?a))"
    then have j: "j < ?n - 0x1000" by simp
    then have "0x1000 + j < ?n" by linarith
    with j show "take (?n - 0x1000) (drop 0x1000 ?a) ! j = drop (length out - (?n - 0x1000)) out ! j"
      using W(2,3,8) len nth [of "0x1000 + j"] a [of "0x1000 + j"] True by (simp add: add_ac)
  qed
  moreover have "take (length out - (?n - 0x1000)) (data_out ?info) = take (length out - (?n - 0x1000)) out"
  proof -
    let ?p = "length out - ?n"
    have "?half = take 0x1000 (take ?n (drop 0x1000 (area st)))" using True by (simp add: min_def)
    then have h: "?half = take 0x1000 (drop ?p out)" using W(4) by simp
    have p: "length out - (?n - 0x1000) = ?p + 0x1000" "?p \<le> length (data_out (param st))"
      using W(3,7) True assms(3) by auto
    have d: "data_out ?info = write_at (data_out (param st)) ?p ?half" using W(5) by (simp add: info)
    have "take (?p + 0x1000) (write_at (data_out (param st)) ?p ?half) = take ?p (data_out (param st)) @ ?half"
      using p(2) half by (simp add: write_at_def)
    also have "\<dots> = take (?p + 0x1000) out" unfolding W(6) h take_add ..
    finally show ?thesis unfolding p(1) d .
  qed
  ultimately have "window (flush_window st) out"
    using W True len half assms(3) unfolding fw window_def by (simp add: info) linarith
  moreover have "?a ! i = area st ! i" if "0x2205 \<le> i" "i < length (area st)" for i
    using that W(2) a [of i] by auto
  then have "decoder_ok (flush_window st)" "pending (flush_window st) = pending st"
    using decoder_area [OF assms(1) len, where i' = ?info and p = "out_pos st - 0x1000"]
    unfolding fw by (simp_all add: info)
  ultimately show ?thesis
    using W(2) unfolding fw by (simp add: info tables_ok_def)
qed

lemma window_extend:
  assumes "window st out" "recent a (out_pos st + length new) (out @ new)" "length new \<le> 0x1000"
    and "length a = length (area st)" "\<And>i. i < out_pos st \<Longrightarrow> a ! i = area st ! i"
    and "out_pos st + length new \<le> 0x2205"
  shows "window (st\<lparr>area := a, out_pos := out_pos st + length new\<rparr>) (out @ new)"
proof -
  let ?n = "out_pos st - 0x1000" and ?m = "length new"
  note W = windowD [OF assms(1)]
  have pos: "0x1000 \<le> out_pos st" using W(1) by (simp add: recent_def)
  have "take (out_pos st + ?m - 0x1000) (drop 0x1000 a) = drop (length out - ?n) out @ new"
  proof (rule nth_equalityI)
    show "length (take (out_pos st + ?m - 0x1000) (drop 0x1000 a)) = length (drop (length out - ?n) out @ new)"
      using W(3,8) pos assms(4,6) by simp
    fix i assume "i < length (take (out_pos st + ?m - 0x1000) (drop 0x1000 a))"
    then have i: "i < ?n + ?m" using pos by simp
    have l: "take (out_pos st + ?m - 0x1000) (drop 0x1000 a) ! i = a ! (0x1000 + i)"
      using i pos assms(4,6) W(8) by simp
    show "take (out_pos st + ?m - 0x1000) (drop 0x1000 a) ! i = (drop (length out - ?n) out @ new) ! i"
    proof (cases "i < ?n")
      case True
      have "take ?n (drop 0x1000 (area st)) ! i = drop (length out - ?n) out ! i" using W(4) by simp
      then have "area st ! (0x1000 + i) = drop (length out - ?n) out ! i"
        using True W(8) by simp
      then show ?thesis using True W(3) l assms(5) [of "0x1000 + i"] by (simp add: nth_append)
    next
      case False
      let ?d = "?n + ?m - i"
      have "a ! (out_pos st + ?m - ?d) = (out @ new) ! (length (out @ new) - ?d)"
        using assms(2) by (rule recentD) (use False i assms(3) in auto)
      moreover have "out_pos st + ?m - ?d = 0x1000 + i" "length (out @ new) - ?d = length out + (i - ?n)"
        using False i pos by auto
      ultimately have "a ! (0x1000 + i) = new ! (i - ?n)" by (simp only: nth_append_length_plus)
      moreover have "length (drop (length out - ?n) out) = ?n" using W(3) by simp
      ultimately show ?thesis using False l by (simp add: nth_append)
    qed
  qed
  moreover have "drop (length (out @ new) - (out_pos st + ?m - 0x1000)) (out @ new) = drop (length out - ?n) out @ new"
    using W(3) pos by simp
  moreover have "length (out @ new) - (out_pos st + ?m - 0x1000) = length out - ?n"
    using pos by simp
  ultimately show ?thesis
    using assms(2,4,6) W pos unfolding window_def by simp
qed

subsection \<open>Expanding a sequence of tokens\<close>

datatype pk_token = Literal u8 | Match nat nat

fun apply_token :: "u8 list \<Rightarrow> pk_token \<Rightarrow> u8 list" where
  "apply_token out (Literal b) = out @ [b]"
| "apply_token out (Match n d) = lz_copy out d n"

fun token_ok :: "u8 list \<Rightarrow> pk_token \<Rightarrow> bool" where
  "token_ok out (Literal b) \<longleftrightarrow> True"
| "token_ok out (Match n d) \<longleftrightarrow> 2 \<le> n \<and> n \<le> PKZIP_MATCH_MAX \<and> 1 \<le> d \<and> d \<le> length out \<and>
     d \<le> (if n = 2 then 256 else PKZIP_DICTIONARY_SIZE)"

fun tokens_ok :: "u8 list \<Rightarrow> pk_token list \<Rightarrow> bool" where
  "tokens_ok out [] \<longleftrightarrow> True"
| "tokens_ok out (t # ts) \<longleftrightarrow> token_ok out t \<and> tokens_ok (apply_token out t) ts"

fun token_bits :: "pk_token \<Rightarrow> bool list" where
  "token_bits (Literal b) = False # nbits (unat b) 8"
| "token_bits (Match n d) =
     length_code (length_entry (n - 2)) (n - 2 - pkzip_len_base ! length_entry (n - 2)) @
     distance_code (if n = 2 then 2 else 6) d"

definition pk_terminator :: "bool list" where
  "pk_terminator = length_code 15 255"

lemma length_terminator: "length pk_terminator = 16"
  by (simp add: pk_terminator_def length_code_def pkzip_slen_bits_def pkzip_clen_bits_def)

lemma lz_copy_append: "\<exists>new. lz_copy out back n = out @ new \<and> length new = n"
  by (induction n) auto

text \<open>One turn of the expansion loop.\<close>

lemma expand_token:
  assumes "decoder_ok st" "tables_ok st" "window st out" "out_pos st < 0x2000" "token_ok out t"
    and "pending st = token_bits t @ ys" "8 \<le> length ys" "length (apply_token out t) \<le> max_out (param st)"
  shows "\<exists>st'. expand_loop (Suc fuel) st = expand_loop fuel st' \<and> decoder_ok st' \<and> tables_ok st' \<and>
     window st' (apply_token out t) \<and> out_pos st' < 0x2000 \<and> pending st' = ys \<and>
     max_out (param st') = max_out (param st)"
proof (cases t)
  case (Literal b)
  then have bits: "pending st = False # nbits (unat b) 8 @ ys" using assms(6) by simp
  obtain s1 where s1: "decode_literal st = (unat b, s1)" "decoder_ok s1" "pending s1 = ys" "outside s1 = outside st"
    using decode_literal_byte [OF assms(1) _ bits _ assms(7)] assms(2) unat_u8_less [of b]
    by (auto simp: symbol_read_def tables_ok_def)
  note f = outside_fields [OF s1(4)]
  have w1: "window s1 out"
    using window_outside [OF s1(4) assms(3,4)] .
  let ?a = "(area s1)[out_pos s1 := b]"
  let ?s = "s1\<lparr>area := ?a, out_pos := out_pos s1 + 1\<rparr>"
  have pos: "out_pos s1 < 0x2000" "length (area s1) = 0x2A04" "recent (area s1) (out_pos s1) out"
    using f(6) assms(4) windowD [OF w1] by simp_all
  have "window ?s (out @ [b])"
    using window_extend [OF w1, of ?a "[b]"] recent_put [OF pos(3), of b] pos by simp
  moreover have "decoder_ok ?s" "pending ?s = ys"
    using decoder_area [OF s1(2), of ?a "param s1" "out_pos s1 + 1"] pos s1(3) by simp_all
  moreover have "length (out @ [b]) \<le> max_out (param ?s)"
    using assms(8) f(11) Literal by simp
  moreover have "tables_ok ?s" using assms(2) f(7) by (simp add: tables_ok_def)
  moreover have "\<not> 0x100 \<le> unat b" "\<not> 0x305 \<le> unat b" using unat_u8_less [of b] by linarith+
  then have "expand_loop (Suc fuel) st = expand_loop fuel (flush_window ?s)"
    using s1(1) by simp
  ultimately show ?thesis
    using flush_window_ok [of ?s "out @ [b]"] f(11) Literal by auto
next
  case (Match n d)
  let ?e = "length_entry (n - 2)"
  let ?x = "n - 2 - pkzip_len_base ! ?e" and ?suf = "if n = 2 then 2 else 6 :: nat"
  have n: "2 \<le> n" "n \<le> 516" "1 \<le> d" "d \<le> length out" "d \<le> (if n = 2 then 256 else 4096)"
    using assms(5) Match by (simp_all add: PKZIP_MATCH_MAX_def PKZIP_DICTIONARY_SIZE_def split: if_split_asm)
  have e: "?e < 16" "pkzip_len_base ! ?e \<le> n - 2" "?x < 2 ^ (pkzip_clen_bits ! ?e)"
    using length_entry_ok [of "n - 2"] n by simp_all
  have bits: "pending st = length_code ?e ?x @ distance_code ?suf d @ ys"
    using assms(6) Match by simp
  obtain s0 where s0: "decode_literal st = (pkzip_len_base ! ?e + ?x + 0x100, s0)" "decoder_ok s0"
      "pending s0 = distance_code ?suf d @ ys" "outside s0 = outside st"
    using decode_length_symbol [OF assms(1,2) e(1,3) bits] assms(7) by (auto simp: symbol_read_def)
  have val: "pkzip_len_base ! ?e + ?x + 0x100 = n + 0xFE" using e(2) n by simp
  have t0: "tables_ok s0" using outside_fields(7) [OF s0(4)] assms(2) by simp
  obtain s1 where s1: "decode_distance s0 n = (d, s1)" "decoder_ok s1" "pending s1 = ys" "outside s1 = outside s0"
    using decode_distance_symbol [OF s0(2) t0 n(3) _ refl s0(3) assms(7)] n(5) by (auto simp: symbol_read_def split: if_split_asm)
  have out1: "outside s1 = outside st" using s1(4) s0(4) by simp
  note f = outside_fields [OF out1]
  have w1: "window s1 out"
    using window_outside [OF out1 assms(3,4)] .
  let ?a = "copy_match (out_pos s1) d n (area s1)"
  let ?s = "s1\<lparr>area := ?a, out_pos := out_pos s1 + n\<rparr>"
  obtain new where new: "lz_copy out d n = out @ new" "length new = n" using lz_copy_append by blast
  have pos: "out_pos s1 < 0x2000" "length (area s1) = 0x2A04" "recent (area s1) (out_pos s1) out"
    using f(6) assms(4) windowD [OF w1] by simp_all
  have copy: "recent ?a (out_pos s1 + n) (out @ new)"
      "\<And>i. i < out_pos s1 \<or> out_pos s1 + n \<le> i \<Longrightarrow> ?a ! i = area s1 ! i"
    using copy_match_recent [OF pos(3) n(3) _ n(4), of n] n pos new by (auto split: if_split_asm)
  have "window ?s (out @ new)"
    using window_extend [OF w1, of ?a new] copy pos n new(2) by simp
  moreover have "decoder_ok ?s" "pending ?s = ys"
    using decoder_area [OF s1(2), of ?a "param s1" "out_pos s1 + n"] pos copy(2) n(2) s1(3) by simp_all
  moreover have "length (out @ new) \<le> max_out (param ?s)"
    using assms(8) f(11) Match new by simp
  moreover have "tables_ok ?s" using assms(2) f(7) by (simp add: tables_ok_def)
  moreover have "expand_loop (Suc fuel) st = expand_loop fuel (flush_window ?s)"
    using s0(1) s1(1) n unfolding val by (simp add: Let_def)
  ultimately show ?thesis
    using flush_window_ok [of ?s "out @ new"] f(11) Match new by auto
qed

lemma expand_tokens:
  assumes "decoder_ok st" "tables_ok st" "window st out" "out_pos st < 0x2000" "tokens_ok out ts"
    and "pending st = concat (map token_bits ts) @ pk_terminator @ pad"
    and "length (foldl apply_token out ts) \<le> max_out (param st)" "length ts < fuel"
  shows "\<exists>st'. expand_loop fuel st = Some (0x305, st') \<and> window st' (foldl apply_token out ts) \<and>
     out_pos st' < 0x2000 \<and> max_out (param st') = max_out (param st)"
  using assms
proof (induction ts arbitrary: st out fuel)
  case Nil
  then obtain f where fuel: "fuel = Suc f" by (cases fuel) auto
  obtain st' where st': "decode_literal st = (0x305, st')" "outside st' = outside st"
    using decode_terminator [of st pad] Nil by (auto simp: pk_terminator_def)
  then show ?case
    using Nil fuel window_outside [OF st'(2) Nil(3,4)] outside_fields [OF st'(2)] by auto
next
  case (Cons t ts)
  then obtain f where fuel: "fuel = Suc f" "length ts < f" by (cases fuel) auto
  let ?ys = "concat (map token_bits ts) @ pk_terminator @ pad"
  have ys: "pending st = token_bits t @ ?ys" "8 \<le> length ?ys" using Cons.prems(6) by (simp_all add: length_terminator)
  have grow: "length out \<le> length (foldl apply_token out ts)" for out
  proof (induction ts arbitrary: out)
    case (Cons t ts)
    have "length out \<le> length (apply_token out t)" by (cases t) simp_all
    with Cons [of "apply_token out t"] show ?case by simp
  qed simp
  have room: "length (apply_token out t) \<le> max_out (param st)"
    using Cons.prems(7) grow [of "apply_token out t"] by simp
  have tok: "token_ok out t" "tokens_ok (apply_token out t) ts" using Cons.prems(5) by simp_all
  obtain s where s: "expand_loop (Suc f) st = expand_loop f s" "decoder_ok s" "tables_ok s"
      "window s (apply_token out t)" "out_pos s < 0x2000" "pending s = ?ys" "max_out (param s) = max_out (param st)"
    using expand_token [OF Cons.prems(1-4) tok(1) ys room] by blast
  then show ?case
    using Cons.IH [OF s(2-5) tok(2) s(6)] Cons.prems(7) fuel by simp
qed

definition fresh_data :: "u8 list \<Rightarrow> u8 list \<Rightarrow> pkzip_data_s" where
  "fresh_data input out = \<lparr>data_in = input, data_in_pos = 0, data_out = out, data_out_pos = 0, max_out = length out\<rparr>"

lemma decompress_tokens:
  assumes "bytes_bits body = concat (map token_bits ts) @ pk_terminator @ pad" "tokens_ok [] ts"
    and "length (foldl apply_token [] ts) \<le> length room" "length ts < fuel"
  shows "\<exists>info. libmpq__pkzip_decompress fuel (fresh_data ([0, 6] @ body) room) =
       Some (LIBMPQ_PKZIP_CMP_NO_ERROR, info) \<and> data_out_pos info = length (foldl apply_token [] ts) \<and>
     take (data_out_pos info) (data_out info) = foldl apply_token [] ts"
proof -
  let ?in = "[0, 6] @ body" and ?out = "foldl apply_token [] ts"
  define bytes where "bytes = take in_size ?in"
  define info where "info = (fresh_data ?in room)\<lparr>data_in_pos := length bytes\<rparr>"
  define st where "st = (zero_cmp (fresh_data ?in room))\<lparr>param := info, in_bytes := length bytes,
     area := write_at (replicate 0x2A04 0) in_base bytes\<rparr>"
  have body: "2 \<le> length body"
    using arg_cong [OF assms(1), of length] by (simp add: length_terminator)
  have read: "data_read_input in_size (fresh_data ?in room) = (bytes, info)"
    by (auto simp: data_read_input_def fresh_data_def bytes_def info_def Let_def)
  have len: "4 \<le> length bytes" "length bytes \<le> in_size" using body by (auto simp: bytes_def in_size_def)
  have area: "area st ! (in_base + k) = bytes ! k" if "k < length bytes" for k
    using that len by (simp add: st_def nth_write_at in_base_def in_size_def)
  have b: "bytes ! 0 = 0" "bytes ! 1 = 6" "bytes ! 2 = body ! 0"
    using len by (simp_all add: bytes_def in_size_def)
  let ?s = "(pkzip_start 0 6 st)\<lparr>out_pos := 0x1000\<rparr>"
  have fields: "area ?s = area st" "param ?s = info" "bit_buf ?s = ucast (body ! 0)" "extra_bits ?s = 0"
    "in_pos ?s = 3" "in_bytes ?s = length bytes" "out_pos ?s = 0x1000"
    using area [of 2] len b(3) by (simp_all add: pkzip_start_def LIBMPQ_PKZIP_CMP_BINARY_def st_def Let_def)
  have tab: "tables_ok ?s"
    by (simp add: pkzip_start_def LIBMPQ_PKZIP_CMP_BINARY_def st_def zero_cmp_def Let_def tables_ok_def)
  have dec: "decoder_ok ?s"
    using len unfolding decoder_ok_def reader_ok_def fields
    by (auto simp: st_def in_base_def in_size_def info_def fresh_data_def bytes_def bit_ucast_iff dest: bit_imp_le_length)
  have pend: "pending ?s = bytes_bits body"
  proof -
    have "map (bit (ucast (body ! 0) :: u32)) [0..<8] = byte_bits (body ! 0)"
      by (simp add: byte_bits_def bit_ucast_iff)
    moreover have "drop in_base (area st) = bytes @ drop (in_base + length bytes) (replicate 0x2A04 0)"
      unfolding st_def using len by (simp add: drop_write_at in_base_def in_size_def)
    then have "drop (in_base + 3) (area st) = drop 3 (bytes @ drop (in_base + length bytes) (replicate 0x2A04 0))"
      by (metis add.commute drop_drop)
    then have "take (length bytes - 3) (drop (in_base + 3) (area st)) = drop 3 bytes"
      using len by simp
    moreover have "body = body ! 0 # drop 1 body" using body by (cases body) auto
    moreover have "drop 3 bytes @ drop (length bytes) ?in = drop 1 body"
    proof -
      have "bytes @ drop (length bytes) ?in = ?in"
        by (cases "in_size \<le> length ?in") (simp_all add: bytes_def)
      then have "drop 3 (bytes @ drop (length bytes) ?in) = drop 3 ?in" by simp
      then show ?thesis using len by (simp add: numeral_3_eq_3)
    qed
    ultimately show ?thesis
      unfolding pending_def buffered_def staged_def unread_def fields
      by (simp add: info_def fresh_data_def) (metis append.assoc bytes_bits_simps(2,3))
  qed
  have win: "window ?s []"
    unfolding window_def fields recent_def
    using len by (simp add: st_def info_def fresh_data_def in_base_def in_size_def)
  obtain s' where s': "expand_loop fuel ?s = Some (0x305, s')" "window s' ?out" "out_pos s' < 0x2000"
      "max_out (param s') = length room"
    using expand_tokens [OF dec tab win _ assms(2) _ _ assms(4)] pend assms(1,3)
    by (auto simp: fields info_def fresh_data_def)
  note W = windowD [OF s'(2)]
  let ?k = "out_pos s' - 0x1000"
  let ?tail = "take ?k (drop 0x1000 (area s'))"
  let ?info = "data_write_output ?tail ?k (param s')"
  have tail: "length ?tail = ?k" using s'(3) W(8) by simp
  have "libmpq__pkzip_decompress fuel (fresh_data ?in room) = Some (LIBMPQ_PKZIP_CMP_NO_ERROR, ?info)"
  proof -
    have "bytes \<noteq> []" using len by auto
    then have "area st ! in_base = 0" "area st ! Suc in_base = 6" using area [of 0] area [of 1] len b by simp_all
    moreover have "expand fuel (pkzip_start 0 6 st) = Some (0x305, s'\<lparr>param := ?info\<rparr>)"
      using s'(1) by (simp add: expand_def Let_def)
    ultimately show ?thesis
      using read len(1)
      by (simp add: libmpq__pkzip_decompress_def Let_def LIBMPQ_PKZIP_CMP_BINARY_def zero_cmp_def [of "fresh_data (0 # 6 # body) room"])
        (simp add: st_def zero_cmp_def)
  qed
  moreover have "?info = (param s')\<lparr>data_out := write_at (data_out (param s')) (data_out_pos (param s')) ?tail,
      data_out_pos := data_out_pos (param s') + ?k\<rparr>"
    using write_output_ok [of "param s'" ?tail] tail W(3,5,7) s'(4) assms(3) by simp
  moreover have "take (data_out_pos (param s') + ?k) (write_at (data_out (param s')) (data_out_pos (param s')) ?tail) = ?out"
  proof -
    let ?p = "length ?out - ?k"
    have p: "?p \<le> length (data_out (param s'))" "?p + ?k = length ?out" using W(3,7) s'(4) assms(3) by auto
    have "take (?p + ?k) (write_at (data_out (param s')) ?p ?tail) = take ?p (data_out (param s')) @ ?tail"
      using p(1) tail by (simp add: write_at_def)
    also have "\<dots> = ?out" unfolding W(6) W(4) by simp
    finally show ?thesis unfolding W(5) .
  qed
  ultimately show ?thesis using W(3,5) by simp
qed
end
