(* ===== verification/Mpq_Pkware_Roundtrip.thy ===== *)
theory Mpq_Pkware_Roundtrip
  imports Mpq_Pkware_Expand
begin

text \<open>
  The PKWARE encoder emits the stream of a token sequence that denotes its input: the bit writer
  appends codes to a zeroed buffer that is large enough, the hash chains hold earlier positions only,
  and a match found by the search is a copy of what was already produced. With
  \<open>decompress_tokens\<close> this gives the round trip of the two routines of \<^verbatim>\<open>src/mpq-pkware.c\<close>.
\<close>

subsection \<open>The output bit stream\<close>

lemma bytes_bits_nth: "i < 8 * length bs \<Longrightarrow> bytes_bits bs ! i = bit (bs ! (i div 8)) (i mod 8)"
proof (induction bs arbitrary: i)
  case (Cons b bs)
  show ?case
  proof (cases "i < 8")
    case True
    then show ?thesis by (simp add: nth_append byte_bits_def)
  next
    case False
    then have "i div 8 = Suc ((i - 8) div 8)" "i mod 8 = (i - 8) mod 8"
      by (simp_all add: le_div_geq le_mod_geq)
    then show ?thesis using Cons False by (simp add: nth_append)
  qed
qed simp

lemma set_stream_bit:
  assumes "q < 8 * length out"
  shows "bytes_bits (out[q div 8 := out ! (q div 8) OR push_bit (q mod 8) 1]) = (bytes_bits out)[q := True]"
proof (rule nth_equalityI)
  fix i assume "i < length (bytes_bits (out[q div 8 := out ! (q div 8) OR push_bit (q mod 8) 1]))"
  then have i: "i < 8 * length out" by simp
  then have "i div 8 < length out" by (simp add: div_less_iff_less_mult mult.commute)
  moreover have "i = q \<longleftrightarrow> i div 8 = q div 8 \<and> i mod 8 = q mod 8"
    by (metis mult_div_mod_eq)
  ultimately show "bytes_bits (out[q div 8 := out ! (q div 8) OR push_bit (q mod 8) 1]) ! i = (bytes_bits out)[q := True] ! i"
    using i assms by (auto simp: bytes_bits_nth nth_list_update bit_or_iff bit_exp_iff)
qed simp

text \<open>The bits emitted so far; the rest of the buffer is zero.\<close>

definition emitted :: "u8 list \<times> nat \<Rightarrow> nat \<Rightarrow> bool list \<Rightarrow> bool" where
  "emitted st sz bs \<longleftrightarrow> snd st = length bs \<and> length (fst st) = sz \<and> length bs \<le> 8 * sz \<and>
     bytes_bits (fst st) = bs @ replicate (8 * sz - length bs) False"

lemma put_bits_emitted:
  assumes "emitted (out, n) sz bs" "length bs + k \<le> 8 * sz"
  shows "emitted (pkzip_put_bits out n v k) sz (bs @ nbits v k)"
  using assms(2)
proof (induction k)
  case 0
  then show ?case using assms(1) by (simp add: pkzip_put_bits_def nbits_def)
next
  case (Suc k)
  obtain out' where out': "pkzip_put_bits out n v k = (out', n + k)"
    by (simp add: pkzip_put_bits_def)
  have n: "n = length bs" using assms(1) by (simp add: emitted_def)
  have E: "length out' = sz" "bytes_bits out' = bs @ nbits v k @ replicate (8 * sz - (length bs + k)) False"
    using Suc out' by (simp_all add: emitted_def)
  let ?q = "n + k"
  have step: "pkzip_put_bits out n v (Suc k) =
      (if bit v k then out'[?q div 8 := out' ! (?q div 8) OR push_bit (?q mod 8) 1] else out', n + Suc k)"
    using out' by (simp add: pkzip_put_bits_def)
  have split: "replicate (8 * sz - (length bs + k)) False = False # replicate (8 * sz - (length bs + Suc k)) False"
    using Suc.prems by (simp add: Suc_diff_Suc replicate_Suc [symmetric] del: replicate_Suc)
  have "(bytes_bits out')[?q := b] = bs @ nbits v k @ b # replicate (8 * sz - (length bs + Suc k)) False" for b
    using n unfolding E(2) split by (simp add: list_update_append)
  then have "bytes_bits (fst (pkzip_put_bits out n v (Suc k))) =
      bs @ nbits v k @ bit v k # replicate (8 * sz - (length bs + Suc k)) False"
    unfolding step using set_stream_bit [of ?q out'] Suc.prems n E split by simp
  then show ?case
    using Suc.prems n E(1) unfolding step emitted_def by (simp add: nbits_def)
qed

lemma emitted_put_literal:
  assumes "emitted st sz bs" "length bs + 9 \<le> 8 * sz"
  shows "emitted (put_literal b st) sz (bs @ token_bits (Literal b))"
proof -
  obtain out n where st: "st = (out, n)" by (cases st)
  obtain out1 n1 where 1: "pkzip_put_bits out n 0 1 = (out1, n1)" by (cases "pkzip_put_bits out n 0 1")
  have "emitted (out1, n1) sz (bs @ nbits 0 1)"
    using put_bits_emitted [of out n sz bs 1 0] assms st 1 by simp
  then have "emitted (pkzip_put_bits out1 n1 (unat b) 8) sz ((bs @ nbits 0 1) @ nbits (unat b) 8)"
    by (rule put_bits_emitted) (use assms(2) in simp)
  moreover have "nbits 0 1 = [False]" by (simp add: nbits_def)
  ultimately show ?thesis
    unfolding put_literal_def st Let_def by (simp only: prod.case 1 append_assoc append_Cons append_Nil token_bits.simps)
qed

lemma not_bit_small: "(n :: nat) < 2 ^ k \<Longrightarrow> k \<le> j \<Longrightarrow> \<not> bit n j"
  using power_increasing [of k j "2 :: nat"] by (simp add: bit_iff_odd order.strict_trans2)

lemma length_code_bits:
  assumes "entry < 16"
  shows "nbits (push_bit (pkzip_slen_bits ! entry + 1) x OR (pkzip_len_code ! entry * 2) OR 1)
     (pkzip_slen_bits ! entry + pkzip_clen_bits ! entry + 1) = length_code entry x"
proof -
  let ?s = "pkzip_slen_bits ! entry" and ?c = "pkzip_len_code ! entry" and ?x = "pkzip_clen_bits ! entry"
  have c: "\<not> bit ?c j" if "?s \<le> j" for j
    using length_code_ok [OF assms] that not_bit_small by blast
  have double: "bit (?c * 2) i \<longleftrightarrow> 0 < i \<and> bit ?c (i - 1)" for i
    by (simp add: mult.commute [of _ 2] bit_double_iff)
  show ?thesis
  proof (rule nth_equalityI)
    fix i assume "i < length (nbits (push_bit (?s + 1) x OR (?c * 2) OR 1) (?s + ?x + 1))"
    then have i: "i < ?s + ?x + 1" by simp
    have lhs: "nbits (push_bit (?s + 1) x OR (?c * 2) OR 1) (?s + ?x + 1) ! i \<longleftrightarrow>
        (?s + 1 \<le> i \<and> bit x (i - (?s + 1))) \<or> (0 < i \<and> bit ?c (i - 1)) \<or> i = 0"
    proof -
      have "nbits (push_bit (?s + 1) x OR (?c * 2) OR 1) (?s + ?x + 1) ! i =
          bit (push_bit (?s + 1) x OR (?c * 2) OR 1) i"
        using i unfolding nbits_def by (simp del: upt_Suc push_bit_Suc)
      then show ?thesis by (simp only: bit_or_iff bit_push_bit_iff_nat double bit_1_iff)
    qed
    show "nbits (push_bit (?s + 1) x OR (?c * 2) OR 1) (?s + ?x + 1) ! i = length_code entry x ! i"
    proof (cases i)
      case 0
      then show ?thesis using lhs by (simp add: length_code_def)
    next
      case (Suc j)
      then show ?thesis
        using lhs i c [of j] by (cases "j < ?s") (simp_all add: length_code_def nth_append nbits_def)
    qed
  qed (simp add: length_code_def)
qed

lemma emitted_put_match:
  assumes "emitted st sz bs" "length bs + length (token_bits (Match n d)) \<le> 8 * sz" "2 \<le> n" "n \<le> 516"
  shows "emitted (put_match n d st) sz (bs @ token_bits (Match n d))"
proof -
  obtain out k where st: "st = (out, k)" by (cases st)
  let ?e = "length_entry (n - 2)" and ?suf = "if n = 2 then 2 else 6 :: nat"
  let ?x = "n - 2 - pkzip_len_base ! ?e" and ?p = "(d - 1) div 2 ^ ?suf"
  let ?v = "push_bit (pkzip_slen_bits ! ?e + 1) ?x OR (pkzip_len_code ! ?e * 2) OR 1"
  let ?l = "pkzip_slen_bits ! ?e + pkzip_clen_bits ! ?e + 1"
  have e: "?e < 16" using length_entry_ok(1) [of "n - 2"] assms(4) by simp
  have code: "nbits ?v ?l = length_code ?e ?x" by (rule length_code_bits [OF e])
  have len: "length bs + (?l + (pkzip_dist_bits ! ?p + ?suf)) \<le> 8 * sz"
    using assms(2) by (simp add: length_code_def distance_code_def)
  obtain out1 k1 where 1: "pkzip_put_bits out k ?v ?l = (out1, k1)" by (cases "pkzip_put_bits out k ?v ?l")
  have E1: "emitted (out1, k1) sz (bs @ nbits ?v ?l)"
    using put_bits_emitted [of out k sz bs ?l ?v] assms(1) st 1 len by simp
  obtain out2 k2 where 2: "pkzip_put_bits out1 k1 (pkzip_dist_code ! ?p) (pkzip_dist_bits ! ?p) = (out2, k2)"
    by (cases "pkzip_put_bits out1 k1 (pkzip_dist_code ! ?p) (pkzip_dist_bits ! ?p)")
  have E2: "emitted (out2, k2) sz ((bs @ nbits ?v ?l) @ nbits (pkzip_dist_code ! ?p) (pkzip_dist_bits ! ?p))"
    using put_bits_emitted [OF E1, of "pkzip_dist_bits ! ?p" "pkzip_dist_code ! ?p"] 2 len by simp
  have "emitted (pkzip_put_bits out2 k2 ((d - 1) mod 2 ^ ?suf) ?suf) sz
      (((bs @ nbits ?v ?l) @ nbits (pkzip_dist_code ! ?p) (pkzip_dist_bits ! ?p)) @ nbits ((d - 1) mod 2 ^ ?suf) ?suf)"
    by (rule put_bits_emitted [OF E2]) (use len in simp)
  moreover have "(d - 1) AND (push_bit ?suf 1 - 1) = (d - 1) mod 2 ^ ?suf"
    by (simp only: push_bit_of_1 mask_eq_exp_minus_1 [symmetric] take_bit_eq_mask [symmetric] take_bit_eq_mod)
  moreover have "drop_bit ?suf (d - 1) = ?p" by (rule drop_bit_eq_div)
  ultimately show ?thesis
    unfolding put_match_def st Let_def
    by (simp only: prod.case 1 2 code append_assoc token_bits.simps distance_code_def)
qed


subsection \<open>The dictionary search\<close>

lemma match_run_spec:
  "len \<le> match_run input c p limit len \<and> match_run input c p limit len \<le> max len limit \<and>
   (\<forall>k. len \<le> k \<and> k < match_run input c p limit len \<longrightarrow> input ! (c + k) = input ! (p + k))"
proof (induction input c p limit len rule: match_run.induct)
  case (1 input c p limit len)
  show ?case
  proof (cases "len < limit \<and> input ! (c + len) = input ! (p + len)")
    case True
    have eq: "match_run input c p limit len = match_run input c p limit (Suc len)"
      using True by (subst match_run.simps) simp
    have "input ! (c + k) = input ! (p + k)" if "len \<le> k" "k < match_run input c p limit (Suc len)" for k
      using 1 [OF True] True that by (cases "k = len") auto
    then show ?thesis unfolding eq using 1 [OF True] True by (auto simp: max_def)
  next
    case False
    then have "match_run input c p limit len = len" by (subst match_run.simps) auto
    then show ?thesis by auto
  qed
qed

text \<open>A pair of a length and a distance that the decoder can copy.\<close>

definition good_match :: "u8 list \<Rightarrow> nat \<Rightarrow> nat \<Rightarrow> nat \<Rightarrow> nat \<Rightarrow> bool" where
  "good_match input p limit n d \<longleftrightarrow> n = 1 \<or> (2 \<le> n \<and> n \<le> limit \<and> 1 \<le> d \<and> d \<le> p \<and>
     d \<le> (if n = 2 then 256 else PKZIP_DICTIONARY_SIZE) \<and> (\<forall>k < n. input ! (p - d + k) = input ! (p + k)))"

text \<open>The chains hold earlier positions only.\<close>

definition history_ok :: "pkzip_match_s \<Rightarrow> nat \<Rightarrow> bool" where
  "history_ok h p \<longleftrightarrow> length (head h) = PKZIP_DICTIONARY_SIZE \<and> length (previous h) = PKZIP_DICTIONARY_SIZE \<and>
     (\<forall>c \<in> set (head h) \<union> set (previous h). c = UINT32_MAX \<or> c < p)"

lemma dictionary_index: "i mod PKZIP_DICTIONARY_SIZE < PKZIP_DICTIONARY_SIZE"
  by (simp add: PKZIP_DICTIONARY_SIZE_def)

lemma match_probe_good:
  assumes "history_ok h p" "good_match input p limit best d" "c = UINT32_MAX \<or> c < p" "1 \<le> best"
  shows "case match_probe h input p limit c best d probes of (n, d') \<Rightarrow> good_match input p limit n d'"
  using assms
proof (induction h input p limit c best d probes rule: match_probe.induct)
  case (1 h input p limit c best d probes)
  let ?len = "match_run input c p limit 0" and ?gap = "p - c"
  let ?better = "?len > best \<and> (?len > 2 \<or> ?gap \<le> 256)"
  show ?case
  proof (cases "c \<noteq> UINT32_MAX \<and> ?gap \<le> PKZIP_DICTIONARY_SIZE \<and> probes < PKZIP_SEARCH_MAX")
    case False
    then show ?thesis using "1.prems" by (subst match_probe.simps) auto
  next
    case True
    then have c: "c < p" using "1.prems"(3) by simp
    have run: "?len \<le> limit" "\<forall>k < ?len. input ! (c + k) = input ! (p + k)"
      using match_run_spec [of 0 input c p limit] by auto
    let ?n = "if ?better then ?len else best" and ?d = "if ?better then ?gap else d"
    have good: "good_match input p limit ?n ?d"
    proof (cases ?better)
      case b: True
      then have "2 \<le> ?len" using "1.prems"(4) by linarith
      with b run c True show ?thesis by (auto simp: good_match_def)
    qed (use "1.prems"(2) in auto)
    have nxt: "previous h ! (c mod PKZIP_DICTIONARY_SIZE) = UINT32_MAX \<or>
        previous h ! (c mod PKZIP_DICTIONARY_SIZE) < p"
      using "1.prems"(1) dictionary_index [of c] by (auto simp: history_ok_def)
    have n1: "1 \<le> ?n" using "1.prems"(4) by auto
    show ?thesis
    proof (cases "?better \<and> ?n = limit")
      case fin: True
      then have "?better" "?len = limit" by auto
      then have "match_probe h input p limit c best d probes = (?n, ?d)"
        using True by (subst match_probe.simps) (auto simp: Let_def)
      then show ?thesis using good by (simp only: prod.case)
    next
      case more: False
      then have "match_probe h input p limit c best d probes =
          match_probe h input p limit (previous h ! (c mod PKZIP_DICTIONARY_SIZE)) ?n ?d (probes + 1)"
        using True by (subst match_probe.simps) (simp only: Let_def if_True if_False simp_thms)
      with "1.IH" [OF True refl refl refl refl refl more "1.prems"(1) good nxt n1] show ?thesis by (simp only:)
    qed
  qed
qed

lemma pair_hash_less: "pair_hash input i < PKZIP_DICTIONARY_SIZE"
  by (simp add: pair_hash_def PKZIP_DICTIONARY_SIZE_def)

lemma find_match_good:
  assumes "history_ok h p" "p < length input" "find_match h input p = (n, d)"
  shows "good_match input p (min (length input - p) PKZIP_MATCH_MAX) n d" "1 \<le> n" "p + n \<le> length input"
proof -
  let ?l = "min (length input - p) PKZIP_MATCH_MAX"
  have c: "head h ! pair_hash input p = UINT32_MAX \<or> head h ! pair_hash input p < p"
    using assms(1) pair_hash_less [of input p] by (auto simp: history_ok_def)
  show g: "good_match input p ?l n d"
    using assms(3) match_probe_good [OF assms(1) _ c, of input ?l 1 0 0]
    by (auto simp: find_match_def Let_def good_match_def split: if_split_asm prod.split_asm)
  show "1 \<le> n" using assms(3) by (rule find_match_ge_1)
  show "p + n \<le> length input" using g assms(2) by (auto simp: good_match_def)
qed

lemma lz_copy_input:
  assumes "1 \<le> d" "d \<le> p" "p + n \<le> length input" "\<And>k. k < n \<Longrightarrow> input ! (p - d + k) = input ! (p + k)"
  shows "lz_copy (take p input) d n = take (p + n) input"
  using assms(3,4)
proof (induction n)
  case (Suc n)
  have "lz_copy (take p input) d n = take (p + n) input" using Suc by simp
  moreover have "take (p + n) input ! (p + n - d) = input ! (p + n)"
    using assms(1,2) Suc.prems(1) Suc.prems(2) [of n] by (simp add: add.commute)
  ultimately show ?case using Suc.prems(1) assms(2) by (simp add: take_Suc_conv_app_nth min_def)
qed simp

lemma history_ok_index:
  assumes "history_ok h i" shows "history_ok (index_position input i h) (Suc i)"
proof -
  have old: "c = UINT32_MAX \<or> c < Suc i" if "c \<in> set (head h) \<union> set (previous h)" for c
    using assms that by (fastforce simp: history_ok_def)
  have "head h ! pair_hash input i \<in> set (head h)"
    using assms pair_hash_less [of input i] by (simp add: history_ok_def)
  then show ?thesis
    using assms old unfolding history_ok_def index_position_def
    by (auto dest!: set_update_subset_insert [THEN subsetD])
qed

lemma history_ok_fold: "history_ok h i \<Longrightarrow> history_ok (fold (index_position input) [i..<i + n] h) (i + n)"
  by (induction n) (simp_all add: history_ok_index)

lemma length_entry_small: "length_entry 0 = 0" "length_entry (Suc 0) = 1"
  by code_simp+

lemma code_sizes:
  "i < 16 \<Longrightarrow> pkzip_slen_bits ! i \<le> 7 \<and> pkzip_clen_bits ! i \<le> 8" "p < 64 \<Longrightarrow> pkzip_dist_bits ! p \<le> 8"
proof -
  have "list_all (\<lambda>i. pkzip_slen_bits ! i \<le> 7 \<and> pkzip_clen_bits ! i \<le> 8) [0..<16]"
      "list_all (\<lambda>i. pkzip_dist_bits ! i \<le> 8) [0..<64]"
    by code_simp+
  then show "i < 16 \<Longrightarrow> pkzip_slen_bits ! i \<le> 7 \<and> pkzip_clen_bits ! i \<le> 8" "p < 64 \<Longrightarrow> pkzip_dist_bits ! p \<le> 8"
    by (simp_all add: list_all_iff del: upt_rec_numeral)
qed

text \<open>No token takes more than nine bits for each byte it stands for.\<close>

lemma token_bits_length:
  assumes "token_ok out t"
  shows "length (token_bits t) \<le> 9 * (length (apply_token out t) - length out)"
proof (cases t)
  case (Literal b)
  then show ?thesis by simp
next
  case (Match n d)
  let ?e = "length_entry (n - 2)" and ?suf = "if n = 2 then 2 else 6 :: nat"
  have n: "2 \<le> n" "n \<le> 516" "d \<le> 64 * 2 ^ ?suf" "1 \<le> d"
    using assms Match by (auto simp: PKZIP_MATCH_MAX_def PKZIP_DICTIONARY_SIZE_def split: if_split_asm)
  have "(d - 1) div 2 ^ ?suf < 64" using n(3,4) by (simp add: div_less_iff_less_mult split: if_split_asm)
  note dist = code_sizes(2) [OF this]
  have "?e < 16" using length_entry_ok(1) [of "n - 2"] n by simp
  note len = code_sizes(1) [OF this]
  have small: "n = 2 \<or> n = 3 \<Longrightarrow> pkzip_slen_bits ! ?e \<le> 3 \<and> pkzip_clen_bits ! ?e = 0"
    by (auto simp: length_entry_small pkzip_slen_bits_def pkzip_clen_bits_def)
  have size: "length (token_bits t) = 1 + pkzip_slen_bits ! ?e + pkzip_clen_bits ! ?e +
      pkzip_dist_bits ! ((d - 1) div 2 ^ ?suf) + ?suf"
    using Match by (simp add: length_code_def distance_code_def)
  consider "n = 2" | "n = 3" | "4 \<le> n" using n(1) by linarith
  then have "length (token_bits t) \<le> 9 * n"
    by cases (use small len dist in \<open>simp_all only: size\<close>, simp_all)
  then show ?thesis using Match by simp
qed

lemma compress_loop_emits:
  assumes "history_ok h i" "emitted st sz bs" "i \<le> length input"
    and "length bs + 9 * (length input - i) \<le> 8 * sz"
  shows "\<exists>ts. emitted (compress_loop input i st h) sz (bs @ concat (map token_bits ts)) \<and>
     tokens_ok (take i input) ts \<and> foldl apply_token (take i input) ts = input \<and>
     length (concat (map token_bits ts)) \<le> 9 * (length input - i) \<and> length ts \<le> length input - i"
  using assms
proof (induction input i st h arbitrary: bs rule: compress_loop.induct)
  case (1 input i st h)
  show ?case
  proof (cases "i < length input")
    case False
    then have "compress_loop input i st h = st" by (subst compress_loop.simps) simp
    then show ?thesis using "1.prems" False by (intro exI [of _ "[]"]) auto
  next
    case True
    obtain n d where m: "find_match h input i = (n, d)" by (cases "find_match h input i")
    note good = find_match_good [OF "1.prems"(1) True m]
    let ?t = "if n \<ge> 2 then Match n d else Literal (input ! i)"
    let ?st = "if n \<ge> 2 then put_match n d st else put_literal (input ! i) st"
    have step: "compress_loop input i st h =
        compress_loop input (i + n) ?st (fold (index_position input) [i..<i + n] h)"
      using True m by (subst compress_loop.simps) simp
    have len: "length (take i input) = i" using True by simp
    have tok: "token_ok (take i input) ?t"
      using good(1) len by (auto simp: good_match_def)
    have app: "apply_token (take i input) ?t = take (i + n) input"
    proof (cases "2 \<le> n")
      case True
      then show ?thesis using good lz_copy_input [of d i n input] by (auto simp: good_match_def)
    next
      case False
      then have "n = 1" using good(2) by simp
      then show ?thesis using True by (simp add: take_Suc_conv_app_nth)
    qed
    have bits: "length (token_bits ?t) \<le> 9 * n"
      using token_bits_length [OF tok] unfolding app using good(3) len by simp
    have room: "length bs + length (token_bits ?t) \<le> 8 * sz"
      using bits "1.prems"(4) good(3) by (simp add: diff_mult_distrib2)
    have "n \<le> 516" using good(1) by (auto simp: good_match_def PKZIP_MATCH_MAX_def)
    have em: "emitted ?st sz (bs @ token_bits ?t)"
    proof (cases "2 \<le> n")
      case True
      then show ?thesis using emitted_put_match [OF "1.prems"(2) _ True \<open>n \<le> 516\<close>, of d] room by (simp only: if_True)
    next
      case False
      then show ?thesis using emitted_put_literal [OF "1.prems"(2), of "input ! i"] room
        by (simp only: if_False token_bits.simps list.size length_nbits)
    qed
    have left: "length (bs @ token_bits ?t) + 9 * (length input - (i + n)) \<le> 8 * sz"
      using bits "1.prems"(4) good(3) by (simp only: length_append)
    obtain ts where ts: "emitted (compress_loop input i st h) sz ((bs @ token_bits ?t) @ concat (map token_bits ts))"
        "tokens_ok (take (i + n) input) ts" "foldl apply_token (take (i + n) input) ts = input"
        "length (concat (map token_bits ts)) \<le> 9 * (length input - (i + n))" "length ts \<le> length input - (i + n)"
      using "1.IH" [OF True m [symmetric] history_ok_fold [OF "1.prems"(1)] em good(3) left]
      unfolding step by blast
    show ?thesis
    proof (intro exI [of _ "?t # ts"] conjI)
      show "emitted (compress_loop input i st h) sz (bs @ concat (map token_bits (?t # ts)))"
        using ts(1) by (simp only: list.map concat.simps append_assoc)
      show "tokens_ok (take i input) (?t # ts)" using tok ts(2) app by (simp only: tokens_ok.simps)
      show "foldl apply_token (take i input) (?t # ts) = input" using ts(3) app by (simp only: foldl.simps)
      show "length (concat (map token_bits (?t # ts))) \<le> 9 * (length input - i)"
        using ts(4) bits good(3) by (simp add: diff_mult_distrib2)
      show "length (?t # ts) \<le> length input - i" using ts(5) good(2,3) by simp
    qed
  qed
qed

subsection \<open>The encoder emits a token stream\<close>

lemma bytes_bits_zero: "bytes_bits (replicate n 0) = replicate (8 * n) False"
proof (induction n)
  case (Suc n)
  have "byte_bits 0 = replicate 8 False" by (simp add: byte_bits_def numeral_eq_Suc)
  with Suc show ?case by (simp add: replicate_add)
qed simp

lemma bytes_bits_take: "bytes_bits (take n bs) = take (8 * n) (bytes_bits bs)"
proof (induction bs arbitrary: n)
  case (Cons b bs)
  then show ?case by (cases n) simp_all
qed simp

lemma terminator_bits: "nbits 0xFF01 16 = pk_terminator"
  by (simp add: pk_terminator_def length_code_def nbits_def pkzip_slen_bits_def pkzip_len_code_def
      pkzip_clen_bits_def upt_rec bit_iff_odd)

lemma compress_tokens:
  assumes "libmpq__pkzip_compress alloc (Some input) (length input) (Some a) (Some b) = Inr out"
  obtains ts body pad where "out = [0, 6] @ body" "bytes_bits body = concat (map token_bits ts) @ pk_terminator @ pad"
    "tokens_ok [] ts" "foldl apply_token [] ts = input" "length ts \<le> length input"
proof -
  let ?sz = "(length input * 9 + 16 + 7) div 8"
  let ?h = "\<lparr>head = replicate PKZIP_DICTIONARY_SIZE UINT32_MAX, previous = replicate PKZIP_DICTIONARY_SIZE UINT32_MAX\<rparr>"
  obtain o1 n1 where 1: "compress_loop input 0 (replicate ?sz 0, 0) ?h = (o1, n1)" by fastforce
  obtain o2 n2 where 2: "pkzip_put_bits o1 n1 0xFF01 16 = (o2, n2)" by fastforce
  have "history_ok ?h 0" by (auto simp: history_ok_def)
  moreover have "emitted (replicate ?sz 0, 0) ?sz []" by (simp add: emitted_def bytes_bits_zero)
  moreover have sz: "9 * length input + 16 \<le> 8 * ?sz" by simp
  ultimately obtain ts where ts: "emitted (o1, n1) ?sz (concat (map token_bits ts))" "tokens_ok [] ts"
      "foldl apply_token [] ts = input" "length (concat (map token_bits ts)) \<le> 9 * length input"
      "length ts \<le> length input"
    using compress_loop_emits [of ?h 0 "(replicate ?sz 0, 0)" ?sz "[]" input] 1 by auto
  have em: "emitted (o2, n2) ?sz (concat (map token_bits ts) @ pk_terminator)"
    using put_bits_emitted [OF ts(1), of 16 "0xFF01"] ts(4) sz 2 unfolding terminator_bits by simp
  let ?bits = "concat (map token_bits ts) @ pk_terminator" and ?body = "take ((n2 + 7) div 8) o2"
  have out: "out = [0, 6] @ ?body"
    using assms 1 2 by (auto simp: libmpq__pkzip_compress_def Let_def LIBMPQ_PKZIP_CMP_BINARY_def split: if_split_asm)
  have n2: "n2 = length ?bits" "n2 \<le> 8 * ((n2 + 7) div 8)" using em by (simp add: emitted_def) linarith
  have "bytes_bits ?body = take (8 * ((n2 + 7) div 8)) (?bits @ replicate (8 * ?sz - length ?bits) False)"
    using em unfolding bytes_bits_take emitted_def by (simp only: fst_conv)
  also have "\<dots> = ?bits @ take (8 * ((n2 + 7) div 8) - length ?bits) (replicate (8 * ?sz - length ?bits) False)"
    using n2 by (simp only: take_append) simp
  finally show ?thesis using that [OF out _ ts(2,3,5)] by (simp only: append_assoc)
qed

lemma compress_succeeds:
  assumes "\<And>n. alloc n" "9 * length input + 23 \<le> UINT32_MAX"
  shows "\<exists>out. libmpq__pkzip_compress alloc (Some input) (length input) (Some a) (Some b) = Inr out"
proof -
  have "UINT32_MAX \<le> SIZE_MAX" by (simp add: UINT32_MAX_def SIZE_MAX_def)
  then have "\<not> (length input * 9 + 16 > SIZE_MAX \<or> 2 + (length input * 9 + 16 + 7) div 8 > UINT32_MAX \<or>
      2 + (length input * 9 + 16 + 7) div 8 > SIZE_MAX)"
    using assms(2) by linarith
  then show ?thesis using assms(1) by (auto simp: libmpq__pkzip_compress_def Let_def split: prod.split)
qed

text \<open>C6: When memory suffices, \<open>libmpq__pkzip_compress\<close> succeeds on every input whose worst-case
  size fits 32 bits, and \<open>libmpq__pkzip_decompress\<close>, given the stream and a buffer at least as long
  as the input, returns without error, reports exactly the input's length and has written the input.
  The loop needs no more turns than the input has bytes, plus one.\<close>
theorem pkzip_roundtrip:
  assumes "\<And>n. alloc n" "9 * length input + 23 \<le> UINT32_MAX"
    and "length input \<le> length room" "length input < fuel"
  shows "\<exists>out info. libmpq__pkzip_compress alloc (Some input) (length input) (Some a) (Some b) = Inr out \<and>
     libmpq__pkzip_decompress fuel (fresh_data out room) = Some (LIBMPQ_PKZIP_CMP_NO_ERROR, info) \<and>
     data_out_pos info = length input \<and> take (length input) (data_out info) = input"
proof -
  obtain out where out: "libmpq__pkzip_compress alloc (Some input) (length input) (Some a) (Some b) = Inr out"
    using compress_succeeds assms(1,2) by blast
  obtain ts body pad where t: "out = [0, 6] @ body"
      "bytes_bits body = concat (map token_bits ts) @ pk_terminator @ pad"
      "tokens_ok [] ts" "foldl apply_token [] ts = input" "length ts \<le> length input"
    by (rule compress_tokens [OF out])
  then show ?thesis using out decompress_tokens [OF t(2,3), of room fuel] assms(3,4) by auto
qed

theorem pkzip_roundtrip_witness:
  "\<exists>out info. libmpq__pkzip_compress (\<lambda>_. True) (Some [97, 98, 97, 98, 97]) 5 (Some 0) (Some 0) = Inr out \<and>
     libmpq__pkzip_decompress 6 (fresh_data out [0, 0, 0, 0, 0]) = Some (LIBMPQ_PKZIP_CMP_NO_ERROR, info) \<and>
     data_out_pos info = 5 \<and> take 5 (data_out info) = [97, 98, 97, 98, 97]"
proof -
  have len: "length [97, 98, 97, 98, 97 :: u8] = 5" "length [0, 0, 0, 0, 0 :: u8] = 5" by simp_all
  show ?thesis
    by (rule pkzip_roundtrip [of "\<lambda>_. True" "[97, 98, 97, 98, 97]" "[0, 0, 0, 0, 0]" 6 0 0, unfolded len])
      (simp_all add: UINT32_MAX_def)
qed

end
