(* ===== verification/Mpq_Pkware_Safe.thy ===== *)
theory Mpq_Pkware_Safe
  imports Mpq_Pkware_Expand
begin

text \<open>
  The PKWARE decoder on arbitrary input. Every symbol consumes at least one bit of the stream, so
  the loop ends within as many turns as the stream has bits; the table lookups stay within their
  tables, the window stays within the work buffer, and the caller's buffer is never overrun. This
  is the termination claim behind the fuel of the model and the safety claim for hostile archives.
\<close>

subsection \<open>Lookup tables hold valid entries\<close>

definition byte_table :: "nat \<Rightarrow> nat \<Rightarrow> nat list \<Rightarrow> bool" where
  "byte_table n bound t \<longleftrightarrow> length t = n \<and> (\<forall>v \<in> set t. v < bound)"

lemma byte_table_nth: "byte_table n bound t \<Longrightarrow> i < n \<Longrightarrow> t ! i < bound"
  by (auto simp: byte_table_def)

lemma byte_table_update: "byte_table n bound t \<Longrightarrow> v < bound \<Longrightarrow> byte_table n bound (t[i := v])"
  by (auto simp: byte_table_def dest!: set_update_subset_insert [THEN subsetD])

lemma byte_table_zero: "0 < bound \<Longrightarrow> byte_table n bound (replicate n 0)"
  by (simp add: byte_table_def)

lemma byte_table_fill: "byte_table n bound t \<Longrightarrow> i < bound \<Longrightarrow> byte_table n bound (fill_slots limit i bits idx t)"
proof (induction limit i bits idx t rule: fill_slots.induct)
  case (1 limit i bits idx t)
  then show ?case by (subst fill_slots.simps) (simp add: Let_def byte_table_update)
qed

lemma byte_table_decode:
  assumes "byte_table n bound t" "count \<le> bound"
  shows "byte_table n bound (generate_tables_decode count bits code t)"
proof -
  have "byte_table n bound (fold (\<lambda>i t. fill_slots 0x100 i (bits ! i) (code ! i) t) js t)"
    if "\<forall>j \<in> set js. j < bound" for js
    using that assms(1) by (induction js arbitrary: t) (simp_all add: byte_table_fill)
  then show ?thesis unfolding generate_tables_decode_def using assms(2) by auto
qed

definition lookups_ok :: "pkzip_cmp_s \<Rightarrow> bool" where
  "lookups_ok st \<longleftrightarrow> byte_table 0x100 16 (pos2 st) \<and> byte_table 0x100 64 (pos1 st) \<and>
     byte_table 0x100 0x100 (offs_2c34 st) \<and> byte_table 0x100 0x100 (offs_2d34 st) \<and>
     byte_table 0x80 0x100 (offs_2e34 st) \<and> byte_table 0x100 0x100 (offs_2eb4 st) \<and>
     byte_table 0x100 9 (bits_asc st) \<and> dsize_bits st \<le> 6 \<and> unat (dsize_mask st) < 2 ^ dsize_bits st"

text \<open>The code lengths left for the second step of an ASCII symbol.\<close>

definition rest_bits :: "nat \<times> nat \<Rightarrow> nat" where
  "rest_bits e = (if fst e \<le> 8 then fst e else if snd e mod 0x100 \<noteq> 0
     then (if snd e mod 0x40 \<noteq> 0 then fst e - 4 else fst e - 6) else fst e - 8)"

definition ascii_rest :: "nat \<Rightarrow> nat" where
  "ascii_rest i = rest_bits (pkzip_bits_asc ! i, pkzip_code_asc ! i)"

lemma ascii_rest_less: "i < 256 \<Longrightarrow> ascii_rest i < 9"
proof -
  have len: "length pkzip_bits_asc = 256" "length pkzip_code_asc = 256"
    by (simp_all add: pkzip_bits_asc_def pkzip_code_asc_def)
  have "list_all (\<lambda>e. rest_bits e < 9) (zip pkzip_bits_asc pkzip_code_asc)"
    unfolding pkzip_bits_asc_def pkzip_code_asc_def by (simp add: rest_bits_def)
  then show "ascii_rest i < 9" if "i < 256"
    using that len unfolding list_all_length ascii_rest_def by auto
qed

definition ascii_tables :: "pkzip_cmp_s \<Rightarrow> bool" where
  "ascii_tables st \<longleftrightarrow> byte_table 0x100 0x100 (offs_2c34 st) \<and> byte_table 0x100 0x100 (offs_2d34 st) \<and>
     byte_table 0x80 0x100 (offs_2e34 st) \<and> byte_table 0x100 0x100 (offs_2eb4 st)"

lemma generate_ascii_entry_ok:
  assumes "ascii_tables st" "i < 256" "bits_asc st ! i = pkzip_bits_asc ! i" "length (bits_asc st) = 256"
  shows "ascii_tables (generate_ascii_entry i st)" 
    "bits_asc (generate_ascii_entry i st) = (bits_asc st)[i := ascii_rest i]"
proof -
  show "ascii_tables (generate_ascii_entry i st)"
    using assms(1,2) by (auto simp: ascii_tables_def generate_ascii_entry_def Let_def byte_table_fill byte_table_update)
  have "(bits_asc st)[i := bits_asc st ! i] = bits_asc st" by simp
  then show "bits_asc (generate_ascii_entry i st) = (bits_asc st)[i := ascii_rest i]"
    using assms(3) by (auto simp: generate_ascii_entry_def ascii_rest_def rest_bits_def Let_def)
qed

lemma generate_entries_ok:
  assumes "ascii_tables st" "n \<le> 256" "length (bits_asc st) = 256" "\<forall>i < n. bits_asc st ! i = pkzip_bits_asc ! i"
    "\<forall>i. n \<le> i \<and> i < 256 \<longrightarrow> bits_asc st ! i < 9"
  shows "ascii_tables (fold generate_ascii_entry (rev [0..<n]) st) \<and>
     byte_table 0x100 9 (bits_asc (fold generate_ascii_entry (rev [0..<n]) st))"
  using assms
proof (induction n arbitrary: st)
  case 0
  then show ?case by (auto simp: byte_table_def in_set_conv_nth)
next
  case (Suc n)
  let ?s = "generate_ascii_entry n st"
  note E = generate_ascii_entry_ok [of st n]
  have "n < 256" using Suc.prems(2) by simp
  then have s: "ascii_tables ?s" "bits_asc ?s = (bits_asc st)[n := ascii_rest n]"
    using E Suc.prems by auto
  show ?case
    using Suc.IH [of ?s] Suc.prems s ascii_rest_less [of n] by (auto simp: nth_list_update le_Suc_eq Suc_le_eq)
qed

lemma generate_ascii_entry_keeps:
  "f (generate_ascii_entry i st) = f st"
  if "\<And>st x. f (st\<lparr>offs_2c34 := x\<rparr>) = f st" "\<And>st x. f (st\<lparr>offs_2d34 := x\<rparr>) = f st" "\<And>st x. f (st\<lparr>offs_2e34 := x\<rparr>) = f st"
    "\<And>st x. f (st\<lparr>offs_2eb4 := x\<rparr>) = f st" "\<And>st x. f (st\<lparr>bits_asc := x\<rparr>) = f st"
  using that unfolding generate_ascii_entry_def Let_def by (simp split: if_split)

lemma generate_tables_ascii_keeps:
  "f (generate_tables_ascii st) = f st"
  if "\<And>st x. f (st\<lparr>offs_2c34 := x\<rparr>) = f st" "\<And>st x. f (st\<lparr>offs_2d34 := x\<rparr>) = f st" "\<And>st x. f (st\<lparr>offs_2e34 := x\<rparr>) = f st"
    "\<And>st x. f (st\<lparr>offs_2eb4 := x\<rparr>) = f st" "\<And>st x. f (st\<lparr>bits_asc := x\<rparr>) = f st"
proof -
  have "f (fold generate_ascii_entry xs st) = f st" for xs
    using generate_ascii_entry_keeps [of f, OF that] by (induction xs arbitrary: st) simp_all
  then show ?thesis unfolding generate_tables_ascii_def .
qed

lemma lookups_outside:
  assumes "outside st' = outside st"
  shows "lookups_ok st' = lookups_ok st" "data_in (param st') = data_in (param st)"
proof -
  have "lookups_ok (outside s) = lookups_ok s" "data_in (param (outside s)) = data_in (param s)" for s
    by (simp_all add: outside_def lookups_ok_def)
  then show "lookups_ok st' = lookups_ok st" "data_in (param st') = data_in (param st)"
    using assms by metis+
qed

subsection \<open>Every symbol consumes input\<close>

text \<open>A symbol was read: at least \<open>n\<close> bits are gone.\<close>

definition consumed :: "nat \<Rightarrow> pkzip_cmp_s \<Rightarrow> pkzip_cmp_s \<Rightarrow> bool" where
  "consumed n st st' \<longleftrightarrow> decoder_ok st' \<and> length (pending st') + n \<le> length (pending st)"

lemma skip_step:
  assumes "decoder_ok st" "n \<le> 8" "skip_bit st n = (e, st')"
  shows "outside st' = outside st" "\<not> e \<Longrightarrow> consumed n st st'"
proof -
  have ok: "reader_ok st" "1 \<le> in_pos st" using assms(1) by (simp_all add: decoder_ok_def)
  show "outside st' = outside st" "\<not> e \<Longrightarrow> consumed n st st'"
    by (rule skip_bit_cases [OF ok assms(2)]; use assms(3) in \<open>simp add: consumed_def decoder_ok_def\<close>)+
qed

lemma low_less: "low n st < 2 ^ n"
  unfolding low_take_bit by (simp add: unsigned_take_bit_eq)

lemma consumed_trans: "consumed m s t \<Longrightarrow> consumed n t u \<Longrightarrow> consumed (m + n) s u"
  by (simp add: consumed_def)

lemma consumed_weaken: "consumed m s t \<Longrightarrow> n \<le> m \<Longrightarrow> consumed n s t"
  by (simp add: consumed_def)

lemma consumed_ok: "consumed m s t \<Longrightarrow> decoder_ok t"
  by (simp add: consumed_def)

lemma entry_widths: "i < 16 \<Longrightarrow> pkzip_slen_bits ! i \<le> 8 \<and> pkzip_clen_bits ! i \<le> 8"
proof -
  have "list_all (\<lambda>i. pkzip_slen_bits ! i \<le> 8 \<and> pkzip_clen_bits ! i \<le> 8) [0..<16]" by code_simp
  then show "i < 16 \<Longrightarrow> pkzip_slen_bits ! i \<le> 8 \<and> pkzip_clen_bits ! i \<le> 8"
    by (simp add: list_all_iff del: upt_rec_numeral)
qed

lemma entry_marker: "i < 16 \<Longrightarrow> x < 2 ^ (pkzip_clen_bits ! i) \<Longrightarrow> i + x = 0x10E \<Longrightarrow> pkzip_len_base ! i + x + 0x100 = 0x305"
proof -
  have "list_all (\<lambda>i. pkzip_clen_bits ! i \<le> 7) [0..<15]" by code_simp
  then have "i < 15 \<Longrightarrow> pkzip_clen_bits ! i \<le> 7" by (simp add: list_all_iff del: upt_rec_numeral)
  moreover assume i: "i < 16" and x: "x < 2 ^ (pkzip_clen_bits ! i)" and s: "i + x = 0x10E"
  ultimately have "i = 15" using power_increasing [of "pkzip_clen_bits ! i" 7 "2 :: nat"]
    by (cases "i < 15") auto
  then show ?thesis using s by (simp add: pkzip_len_base_def)
qed

lemma decode_length_step:
  assumes "decoder_ok st" "lookups_ok st" "decode_length st = (v, st')"
  shows "outside st' = outside st \<and> (v < 0x305 \<longrightarrow> consumed 1 st st')"
proof -
  obtain e1 s1 where s1: "skip_bit st 1 = (e1, s1)" by fastforce
  note S1 = skip_step [OF assms(1) _ s1]
  show ?thesis
  proof (cases e1)
    case True
    then show ?thesis using assms(3) s1 S1 by (simp add: decode_length_def)
  next
    case False
    let ?e = "pos2 s1 ! low 8 s1"
    have c1: "consumed 1 st s1" using S1(2) False by simp
    have "lookups_ok s1" using lookups_outside(1) [of s1 st] S1(1) assms(2) by simp
    then have e: "?e < 16" using low_less [of s1 8] byte_table_nth unfolding lookups_ok_def by fastforce
    obtain e2 s2 where s2: "skip_bit s1 (pkzip_slen_bits ! ?e) = (e2, s2)" by fastforce
    note S2 = skip_step [OF consumed_ok [OF c1] _ s2] and w = entry_widths [OF e]
    show ?thesis
    proof (cases "e2 \<or> pkzip_clen_bits ! ?e = 0")
      case True
      then show ?thesis
        using assms(3) s1 s2 S1(1) S2 w False consumed_weaken [OF consumed_trans [OF c1], of _ s2 1]
        by (cases e2) (auto simp: decode_length_def Let_def split: if_split_asm)
    next
      case more: False
      obtain e3 s3 where s3: "skip_bit s2 (pkzip_clen_bits ! ?e) = (e3, s3)" by fastforce
      have c2: "consumed 1 st s2" using S2(2) more w consumed_weaken [OF consumed_trans [OF c1], of _ s2 1] by auto
      note S3 = skip_step [OF consumed_ok [OF c2] _ s3]
      have res: "v = (if e3 \<and> ?e + low (pkzip_clen_bits ! ?e) s2 \<noteq> 0x10E then 0x306
          else pkzip_len_base ! ?e + low (pkzip_clen_bits ! ?e) s2 + 0x100)" "st' = s3"
        using assms(3) s1 s2 s3 False more by (auto simp: decode_length_def Let_def split: if_split_asm)
      have out: "outside st' = outside st" using res(2) S1(1) S2(1) S3(1) w by simp
      have "consumed 1 st st'" if "v < 0x305"
      proof -
        have "\<not> e3" using that entry_marker [OF e low_less] unfolding res(1) by (auto split: if_split_asm)
        then show ?thesis using S3(2) w res(2) consumed_weaken [OF consumed_trans [OF c2], of _ s3 1] by simp
      qed
      with out show ?thesis by blast
    qed
  qed
qed

text \<open>A two-step read: \<open>n\<close> bits, then a table entry that says how many more.\<close>

lemma ascii_tail:
  assumes "decoder_ok st" "lookups_ok st" "i < 0x100"
    and "(case skip_bit st (bits_asc st ! i) of (e, st) \<Rightarrow> (if e then 0x306 else i, st)) = (v, st')"
  shows "outside st' = outside st \<and> (v < 0x305 \<longrightarrow> consumed 0 st st' \<and> v < 0x100)"
proof -
  obtain e s where s: "skip_bit st (bits_asc st ! i) = (e, s)" by fastforce
  have "bits_asc st ! i < 9" using assms(2,3) byte_table_nth unfolding lookups_ok_def by blast
  then have "bits_asc st ! i \<le> 8" by simp
  note S = skip_step [OF assms(1) this s]
  show ?thesis using assms(3,4) s S consumed_weaken [OF S(2), of 0] by (auto split: if_split_asm)
qed

lemma decode_ascii_step:
  assumes "decoder_ok st" "lookups_ok st" "decode_ascii st = (v, st')"
  shows "outside st' = outside st \<and> (v < 0x305 \<longrightarrow> consumed 0 st st' \<and> v < 0x100)"
proof -
  have tail: "outside st' = outside st \<and> (v < 0x305 \<longrightarrow> consumed 0 st st' \<and> v < 0x100)"
    if n: "n \<le> 8" and s: "skip_bit st n = (e, s)" and ent: "lookups_ok s \<Longrightarrow> i < 0x100"
      and eq: "decode_ascii st = (if e then (0x306, s) else case skip_bit s (bits_asc s ! i) of
        (e, st) \<Rightarrow> (if e then 0x306 else i, st))" for n e s i
  proof -
    note S = skip_step [OF assms(1) n s]
    have l: "lookups_ok s" using lookups_outside(1) [OF S(1)] assms(2) by simp
    show ?thesis
    proof (cases e)
      case True
      then show ?thesis using eq S(1) assms(3) by simp
    next
      case False
      have "outside st' = outside s \<and> (v < 0x305 \<longrightarrow> consumed 0 s st' \<and> v < 0x100)"
        by (rule ascii_tail [OF consumed_ok [OF S(2) [OF False]] l ent [OF l]]) (use eq False assms(3) in simp)
      then show ?thesis using S False by (auto simp: consumed_def)
    qed
  qed
  have tab: "offs_2c34 st ! low 8 st < 0x100"
    using assms(2) low_less [of st 8] byte_table_nth unfolding lookups_ok_def by fastforce
  obtain e4 s4 where s4: "skip_bit st 4 = (e4, s4)" by fastforce
  obtain e6 s6 where s6: "skip_bit st 6 = (e6, s6)" by fastforce
  obtain e8 s8 where s8: "skip_bit st 8 = (e8, s8)" by fastforce
  consider (zero) "low 8 st = 0" | (short) "low 8 st \<noteq> 0" "offs_2c34 st ! low 8 st \<noteq> 0xFF"
    | (wide) "low 8 st \<noteq> 0" "offs_2c34 st ! low 8 st = 0xFF" "low 6 st \<noteq> 0"
    | (wider) "low 8 st \<noteq> 0" "offs_2c34 st ! low 8 st = 0xFF" "low 6 st = 0" by blast
  then show ?thesis
  proof cases
    case zero
    show ?thesis
    proof (rule tail [OF _ s8, where i = "offs_2eb4 s8 ! low 8 s8"])
      show "lookups_ok s8 \<Longrightarrow> offs_2eb4 s8 ! low 8 s8 < 0x100"
        using low_less [of s8 8] byte_table_nth unfolding lookups_ok_def by fastforce
    qed (use zero s8 in \<open>simp_all add: decode_ascii_def Let_def split: prod.split\<close>)
  next
    case short
    then have "decode_ascii st = (case skip_bit st (bits_asc st ! (offs_2c34 st ! low 8 st)) of
        (e, s) \<Rightarrow> (if e then 0x306 else offs_2c34 st ! low 8 st, s))"
      by (simp add: decode_ascii_def Let_def split: prod.split)
    then show ?thesis using ascii_tail [OF assms(1,2) tab, of v st'] assms(3) by metis
  next
    case wide
    show ?thesis
    proof (rule tail [OF _ s4, where i = "offs_2d34 s4 ! low 8 s4"])
      show "lookups_ok s4 \<Longrightarrow> offs_2d34 s4 ! low 8 s4 < 0x100"
        using low_less [of s4 8] byte_table_nth unfolding lookups_ok_def by fastforce
    qed (use wide s4 in \<open>simp_all add: decode_ascii_def Let_def split: prod.split\<close>)
  next
    case wider
    show ?thesis
    proof (rule tail [OF _ s6, where i = "offs_2e34 s6 ! low 7 s6"])
      show "lookups_ok s6 \<Longrightarrow> offs_2e34 s6 ! low 7 s6 < 0x100"
        using low_less [of s6 7] byte_table_nth unfolding lookups_ok_def by fastforce
    qed (use wider s6 in \<open>simp_all add: decode_ascii_def Let_def split: prod.split\<close>)
  qed
qed

lemma decode_literal_step:
  assumes "decoder_ok st" "lookups_ok st" "decode_literal st = (v, st')"
  shows "outside st' = outside st \<and> (v < 0x305 \<longrightarrow> consumed 1 st st')"
proof (cases "bit_buf st AND 1 \<noteq> 0")
  case True
  then show ?thesis using assms decode_length_step by (simp add: decode_literal_def)
next
  case False
  obtain e1 s1 where s1: "skip_bit st 1 = (e1, s1)" by fastforce
  note S1 = skip_step [OF assms(1) _ s1]
  have l: "lookups_ok s1" using lookups_outside(1) [of s1 st] S1(1) assms(2) by simp
  obtain e8 s8 where s8: "skip_bit s1 8 = (e8, s8)" by fastforce
  show ?thesis
  proof (cases e1)
    case True
    then show ?thesis using False s1 S1(1) assms(3) by (simp add: decode_literal_def)
  next
    case ok: False
    then have c1: "consumed 1 st s1" using S1(2) by simp
    show ?thesis
    proof (cases "cmp_type s1 = LIBMPQ_PKZIP_CMP_BINARY")
      case True
      then show ?thesis
        using False ok s1 s8 S1(1) assms(3) skip_step [OF consumed_ok [OF c1] _ s8]
          consumed_weaken [OF consumed_trans [OF c1], of 8 s8 1]
        by (auto simp: decode_literal_def Let_def split: if_split_asm)
    next
      case ascii: False
      then have "decode_ascii s1 = (v, st')" using False ok s1 assms(3) by (simp add: decode_literal_def)
      from decode_ascii_step [OF consumed_ok [OF c1] l this] show ?thesis
        using S1(1) consumed_trans [OF c1, of 0 st'] by auto
    qed
  qed
qed

lemma decode_distance_step:
  assumes "decoder_ok st" "lookups_ok st" "decode_distance st len = (d, st')"
  shows "outside st' = outside st \<and> (d \<noteq> 0 \<longrightarrow> consumed 0 st st' \<and> d \<le> 0x1000)"
proof -
  let ?p = "pos1 st ! low 8 st"
  have p: "?p < 64" using assms(2) low_less [of st 8] byte_table_nth unfolding lookups_ok_def by fastforce
  obtain e1 s1 where s1: "skip_bit st (pkzip_dist_bits ! ?p) = (e1, s1)" by fastforce
  note S1 = skip_step [OF assms(1) conjunct2 [OF distance_code_ok [OF p]] s1]
  have l: "lookups_ok s1" using lookups_outside(1) [OF S1(1)] assms(2) by simp
  let ?k = "if len = 2 then 2 else dsize_bits s1"
  let ?low = "if len = 2 then low 2 s1 else unat (bit_buf s1 AND dsize_mask s1)"
  have k: "?k \<le> 6" using l by (simp add: lookups_ok_def)
  have "bit_buf s1 AND dsize_mask s1 \<le> dsize_mask s1" by (rule word_and_le1)
  then have low: "?low < 2 ^ ?k"
    using l low_less [of s1 2] by (auto simp: lookups_ok_def word_le_nat_alt)
  have "?p * 2 ^ ?k + ?low < (?p + 1) * 2 ^ ?k" using low by (simp only: add_mult_distrib mult_1)
  also have "\<dots> \<le> 64 * 2 ^ ?k" using p by (intro mult_right_mono) auto
  also have "\<dots> \<le> 64 * 2 ^ 6" using k by (intro mult_left_mono power_increasing) auto
  finally have bound: "?p * 2 ^ ?k + ?low + 1 \<le> 0x1000" by simp
  obtain e2 s2 where s2: "skip_bit s1 ?k = (e2, s2)" by fastforce
  show ?thesis
  proof (cases e1)
    case True
    then show ?thesis using s1 S1(1) assms(3) by (simp add: decode_distance_def Let_def)
  next
    case False
    note c1 = S1(2) [OF False]
    have "?k \<le> 8" using k by linarith
    note S2 = skip_step [OF consumed_ok [OF c1] this s2]
    have res: "d = (if e2 then 0 else ?p * 2 ^ ?k + ?low + 1)" "st' = s2"
      using assms(3) s1 s2 False by (auto simp: decode_distance_def Let_def split: if_split_asm)
    have "consumed 0 st st'" if "\<not> e2" using c1 S2(2) [OF that] res(2) by (simp add: consumed_def)
    moreover have "d \<le> 0x1000" using bound by (cases e2) (simp_all only: res(1) if_True if_False le0)
    moreover have "\<not> e2" if "d \<noteq> 0" using that res(1) by (cases e2) simp_all
    ultimately show ?thesis using S1(1) S2(1) res(2) by simp
  qed
qed

subsection \<open>The loop ends and stays inside its buffers\<close>

definition output_ok :: "pkzip_cmp_s \<Rightarrow> bool" where
  "output_ok st \<longleftrightarrow> 0x1000 \<le> out_pos st \<and> out_pos st < 0x2000 \<and>
     data_out_pos (param st) \<le> max_out (param st) \<and> max_out (param st) = length (data_out (param st))"

lemma output_outside: "outside st' = outside st \<Longrightarrow> output_ok st' = output_ok st"
  using outside_fields [of st' st] by (simp add: output_ok_def)

lemma copy_match_other: "i < target \<or> target + n \<le> i \<Longrightarrow> copy_match target back n buf ! i = buf ! i"
  unfolding copy_match_def by (induction n) auto

lemma write_output_bounded:
  assumes "data_out_pos info \<le> max_out info" "max_out info = length (data_out info)"
  shows "data_out_pos (data_write_output buf n info) \<le> max_out info"
    "length (data_out (data_write_output buf n info)) = length (data_out info)"
    "max_out (data_write_output buf n info) = max_out info"
    "data_in (data_write_output buf n info) = data_in info"
    "data_in_pos (data_write_output buf n info) = data_in_pos info"
  using assms by (auto simp: data_write_output_def Let_def)

lemma expand_step:
  assumes "decoder_ok st" "lookups_ok st" "output_ok st" "length a = length (area st)"
    "\<And>i. 0x2205 \<le> i \<Longrightarrow> i < length (area st) \<Longrightarrow> a ! i = area st ! i"
    "out_pos st < p" "p \<le> 0x2205"
  defines "st' \<equiv> flush_window (st\<lparr>area := a, out_pos := p\<rparr>)"
  shows "decoder_ok st' \<and> lookups_ok st' \<and> output_ok st' \<and> length (pending st') = length (pending st) \<and>
     max_out (param st') = max_out (param st) \<and> data_in (param st') = data_in (param st)"
proof (cases "0x2000 \<le> p")
  case False
  then have eq: "st' = st\<lparr>area := a, out_pos := p, param := param st\<rparr>" by (simp add: st'_def flush_window_def)
  show ?thesis
    using decoder_area [OF assms(1,4,5), where i' = "param st" and p = p] assms(2,3,6) False unfolding eq
    by (simp add: lookups_ok_def output_ok_def)
next
  case True
  let ?a = "write_at a 0 (take (p - 0x1000) (drop 0x1000 a))"
  let ?info = "data_write_output (take 0x1000 (drop 0x1000 a)) 0x1000 (param st)"
  have eq: "st' = st\<lparr>area := ?a, out_pos := p - 0x1000, param := ?info\<rparr>"
    using True by (simp add: st'_def flush_window_def)
  have len: "length a = 0x2A04" using assms(1,4) by (simp add: decoder_ok_def reader_ok_def)
  have a: "?a ! i = area st ! i" if "0x2205 \<le> i" "i < length (area st)" for i
    using that assms(4,5,7) len by (auto simp: nth_write_at)
  have W: "data_out_pos (param st) \<le> max_out (param st)" "max_out (param st) = length (data_out (param st))"
    using assms(3) by (simp_all add: output_ok_def)
  have "length ?a = length (area st)" using assms(4,7) len by simp
  note D = decoder_area [OF assms(1) this a write_output_bounded(4,5) [OF W], where p = "p - 0x1000"]
  show ?thesis
    using D assms(2,3,7) True write_output_bounded [OF W] unfolding eq
    by (simp add: lookups_ok_def output_ok_def) linarith
qed

lemma expand_loop_total:
  assumes "decoder_ok st" "lookups_ok st" "output_ok st" "length (pending st) < fuel"
  shows "\<exists>r st'. expand_loop fuel st = Some (r, st') \<and> 0x305 \<le> r \<and> output_ok st' \<and>
     length (area st') = 0x2A04 \<and> max_out (param st') = max_out (param st)"
  using assms
proof (induction fuel arbitrary: st)
  case (Suc fuel)
  obtain v s where v: "decode_literal st = (v, s)" by fastforce
  note V = decode_literal_step [OF Suc.prems(1,2) v]
  have inv: "lookups_ok s" "output_ok s" "max_out (param s) = max_out (param st)" "length (area s) = 0x2A04"
    using lookups_outside(1) [of s st] output_outside [of s st] outside_fields(11,12) [of s st] V Suc.prems
    by (auto simp: decoder_ok_def reader_ok_def)
  have pos: "out_pos s < 0x2000" using inv(2) by (simp add: output_ok_def)
  consider (stop) "0x305 \<le> v" | (copy) "0x100 \<le> v" "v < 0x305" | (byte) "v < 0x100" by linarith
  then show ?case
  proof cases
    case stop
    then show ?thesis using v inv by simp
  next
    case copy
    then have c: "consumed 1 st s" using V by simp
    obtain d t where d: "decode_distance s (v - 0xFE) = (d, t)" by fastforce
    note D = decode_distance_step [OF consumed_ok [OF c] inv(1) d]
    have inv': "lookups_ok t" "output_ok t" "max_out (param t) = max_out (param st)" "length (area t) = 0x2A04"
        "out_pos t < 0x2000"
      using lookups_outside(1) [of t s] output_outside [of t s] outside_fields(6,11,12) [of t s] D inv pos by auto
    show ?thesis
    proof (cases "d = 0")
      case True
      then show ?thesis using v d copy inv' by simp
    next
      case False
      then have c': "consumed 0 s t" using D by simp
      let ?a = "copy_match (out_pos t) d (v - 0xFE) (area t)"
      let ?t = "flush_window (t\<lparr>area := ?a, out_pos := out_pos t + (v - 0xFE)\<rparr>)"
      have "decoder_ok ?t \<and> lookups_ok ?t \<and> output_ok ?t \<and> length (pending ?t) = length (pending t) \<and>
          max_out (param ?t) = max_out (param t) \<and> data_in (param ?t) = data_in (param t)"
        using copy inv'(5) by (intro expand_step [OF consumed_ok [OF c'] inv'(1,2)]) (auto intro: copy_match_other)
      moreover have "length (pending t) < fuel" using c c' Suc.prems(4) by (simp add: consumed_def)
      moreover have "expand_loop (Suc fuel) st = expand_loop fuel ?t"
        using v d copy False by simp
      ultimately show ?thesis using Suc.IH [of ?t] inv'(3) by simp
    qed
  next
    case byte
    then have c: "consumed 1 st s" using V by simp
    let ?a = "(area s)[out_pos s := of_nat v]"
    let ?t = "flush_window (s\<lparr>area := ?a, out_pos := out_pos s + 1\<rparr>)"
    have "decoder_ok ?t \<and> lookups_ok ?t \<and> output_ok ?t \<and> length (pending ?t) = length (pending s) \<and>
        max_out (param ?t) = max_out (param s) \<and> data_in (param ?t) = data_in (param s)"
      using pos by (intro expand_step [OF consumed_ok [OF c] inv(1,2)]) auto
    moreover have "length (pending s) < fuel" using c Suc.prems(4) by (simp add: consumed_def)
    moreover have "expand_loop (Suc fuel) st = expand_loop fuel ?t" using v byte by simp
    ultimately show ?thesis using Suc.IH [of ?t] inv(3) by simp
  qed
qed simp

lemma start_fields:
  "area (pkzip_start m d st) = area st" "param (pkzip_start m d st) = param st"
  "in_bytes (pkzip_start m d st) = in_bytes st" "in_pos (pkzip_start m d st) = 3"
  "extra_bits (pkzip_start m d st) = 0" "bit_buf (pkzip_start m d st) = ucast (area st ! (in_base + 2))"
  "dsize_bits (pkzip_start m d st) = d" "dsize_mask (pkzip_start m d st) = drop_bit (0x10 - d) 0xFFFF"
  by (simp_all add: pkzip_start_def Let_def generate_tables_ascii_keeps)

lemma start_lookups:
  assumes "4 \<le> d" "d \<le> 6"
    and "byte_table 0x100 0x100 (offs_2c34 st)" "byte_table 0x100 0x100 (offs_2d34 st)" "byte_table 0x80 0x100 (offs_2e34 st)"
    and "byte_table 0x100 0x100 (offs_2eb4 st)" "byte_table 0x100 9 (bits_asc st)"
    and "byte_table 0x100 16 (pos2 st)" "byte_table 0x100 64 (pos1 st)"
  shows "lookups_ok (pkzip_start m d st)"
proof -
  let ?s = "st\<lparr>cmp_type := m, dsize_bits := d, bit_buf := ucast (area st ! (in_base + 2)), extra_bits := 0, in_pos := 3,
      dsize_mask := drop_bit (0x10 - d) 0xFFFF\<rparr>"
  let ?t = "if m \<noteq> LIBMPQ_PKZIP_CMP_BINARY then generate_tables_ascii (?s\<lparr>bits_asc := pkzip_bits_asc\<rparr>) else ?s"
  have "length pkzip_bits_asc = 256" by (simp add: pkzip_bits_asc_def)
  then have gen: "ascii_tables (generate_tables_ascii (?s\<lparr>bits_asc := pkzip_bits_asc\<rparr>)) \<and>
      byte_table 0x100 9 (bits_asc (generate_tables_ascii (?s\<lparr>bits_asc := pkzip_bits_asc\<rparr>)))"
    unfolding generate_tables_ascii_def
    by (intro generate_entries_ok) (use assms in \<open>simp_all add: ascii_tables_def\<close>)
  have "ascii_tables ?t \<and> byte_table 0x100 9 (bits_asc ?t)"
    using gen assms(3-7) by (cases "m = LIBMPQ_PKZIP_CMP_BINARY") (simp_all add: ascii_tables_def)
  moreover have "pos1 ?t = pos1 st" "pos2 ?t = pos2 st" "dsize_bits ?t = d" "dsize_mask ?t = drop_bit (0x10 - d) 0xFFFF"
    by (simp_all add: generate_tables_ascii_keeps)
  moreover have "unat (drop_bit (0x10 - d) 0xFFFF :: u32) < 2 ^ d"
  proof -
    have "d = 4 \<or> d = 5 \<or> d = 6" using assms(1,2) by auto
    then show ?thesis by auto
  qed
  ultimately show ?thesis
    using assms(2,8,9) unfolding pkzip_start_def Let_def lookups_ok_def ascii_tables_def
    by (simp add: byte_table_decode)
qed

lemma start_ok:
  fixes m d info info' bytes
  defines "s \<equiv> (pkzip_start m d ((zero_cmp info)\<lparr>param := info', in_bytes := length bytes,
     area := write_at (replicate 0x2A04 0) in_base bytes\<rparr>))\<lparr>out_pos := 0x1000\<rparr>"
  assumes "data_read_input in_size info = (bytes, info')" "4 \<le> length bytes" "4 \<le> d" "d \<le> 6"
    and "data_in_pos info \<le> length (data_in info)"
  shows "decoder_ok s" "lookups_ok s" "param s = info'" "out_pos s = 0x1000"
    "length (pending s) \<le> 8 * (length (data_in info) - data_in_pos info)"
proof -
  have bytes: "length bytes \<le> in_size" "length bytes \<le> length (data_in info) - data_in_pos info"
    "data_in_pos info' = data_in_pos info + length bytes" "data_in info' = data_in info"
    using assms(2) by (auto simp: data_read_input_def Let_def split: if_split_asm)
  show ok: "decoder_ok s"
    using assms(3,6) bytes unfolding decoder_ok_def reader_ok_def s_def
    by (auto simp: start_fields bit_ucast_iff in_base_def in_size_def dest: bit_imp_le_length)
  show "lookups_ok s"
  proof -
    have "lookups_ok (pkzip_start m d ((zero_cmp info)\<lparr>param := info', in_bytes := length bytes,
       area := write_at (replicate 0x2A04 0) in_base bytes\<rparr>))"
      by (rule start_lookups [OF assms(4,5)]) (simp_all add: zero_cmp_def byte_table_zero)
    then show ?thesis by (simp add: s_def lookups_ok_def)
  qed
  show "param s = info'" "out_pos s = 0x1000" by (simp_all add: s_def start_fields)
  have "reader_ok s" using ok by (simp add: decoder_ok_def)
  from length_pending [OF this]
  show "length (pending s) \<le> 8 * (length (data_in info) - data_in_pos info)"
    using assms(3) bytes by (simp add: s_def start_fields unread_def)
qed

lemma pkzip_decompress_ends:
  assumes "data_in_pos info = 0" "data_out_pos info = 0" "max_out info = length (data_out info)"
    and "8 * length (data_in info) < fuel"
  shows "\<exists>code info'. libmpq__pkzip_decompress fuel info = Some (code, info') \<and>
     data_out_pos info' \<le> max_out info \<and> length (data_out info') = length (data_out info)"
proof -
  obtain bytes info' where r: "data_read_input in_size info = (bytes, info')" by fastforce
  have info': "data_out_pos info' = 0" "max_out info' = max_out info" "data_out info' = data_out info"
    using r assms(2) by (auto simp: data_read_input_def Let_def split: if_split_asm)
  define st where "st = (zero_cmp info)\<lparr>param := info', in_bytes := length bytes,
     area := write_at (replicate 0x2A04 0) in_base bytes\<rparr>"
  let ?m = "unat (area st ! in_base)" and ?d = "unat (area st ! (in_base + 1))"
  have run: "libmpq__pkzip_decompress fuel info =
    (if length bytes < 4 then Some (LIBMPQ_PKZIP_CMP_BAD_DATA, info')
     else if 4 > ?d \<or> ?d > 6 then Some (LIBMPQ_PKZIP_CMP_INV_DICTSIZE, info')
     else if ?m \<noteq> LIBMPQ_PKZIP_CMP_BINARY \<and> ?m \<noteq> LIBMPQ_PKZIP_CMP_ASCII then Some (LIBMPQ_PKZIP_CMP_INV_MODE, info')
     else case expand fuel (pkzip_start ?m ?d st) of None \<Rightarrow> None
       | Some (result, st) \<Rightarrow> Some (if result \<noteq> 0x306 then LIBMPQ_PKZIP_CMP_NO_ERROR else LIBMPQ_PKZIP_CMP_ABORT, param st))"
    using r by (simp add: libmpq__pkzip_decompress_def Let_def st_def zero_cmp_def)
  show ?thesis
  proof (cases "length bytes < 4 \<or> 4 > ?d \<or> ?d > 6 \<or>
      (?m \<noteq> LIBMPQ_PKZIP_CMP_BINARY \<and> ?m \<noteq> LIBMPQ_PKZIP_CMP_ASCII)")
    case True
    then show ?thesis using info' assms(3) unfolding run by auto
  next
    case False
    let ?s = "(pkzip_start ?m ?d st)\<lparr>out_pos := 0x1000\<rparr>"
    note S = start_ok [OF r, of ?d ?m, folded st_def]
    have ok: "decoder_ok ?s" "lookups_ok ?s" "output_ok ?s" "length (pending ?s) < fuel"
      using S False assms info' by (simp_all add: output_ok_def)
    obtain rs s' where s': "expand_loop fuel ?s = Some (rs, s')" "output_ok s'" "max_out (param s') = max_out info"
      using expand_loop_total [OF ok] S(3) False assms(1) info'(2) by auto
    have "data_out_pos (param s') \<le> max_out (param s')" "max_out (param s') = length (data_out (param s'))"
      using s'(2) by (simp_all add: output_ok_def)
    note W = write_output_bounded [OF this]
    show ?thesis
      using False s'(1,3) W assms(3) \<open>max_out (param s') = length (data_out (param s'))\<close>
      unfolding run expand_def Let_def by auto
  qed
qed

text \<open>C12: For any bytes at all as input, \<open>libmpq__pkzip_decompress\<close> returns: eight turns of its loop
  for each input byte and one more are always enough. It never reports, nor writes, more bytes than
  the caller's buffer holds.\<close>
theorem pkzip_decompress_total:
  assumes "data_in_pos info = 0" "data_out_pos info = 0" "max_out info = length (data_out info)"
    and "8 * length (data_in info) < fuel"
  shows "\<exists>code info'. libmpq__pkzip_decompress fuel info = Some (code, info') \<and>
     data_out_pos info' \<le> max_out info \<and> length (data_out info') = length (data_out info)"
  using assms by (rule pkzip_decompress_ends)

theorem pkzip_decompress_total_witness:
  "\<exists>code info'. libmpq__pkzip_decompress 41 (fresh_data [1, 4, 255, 7, 129] [0, 0, 0]) = Some (code, info') \<and>
     data_out_pos info' \<le> 3 \<and> length (data_out info') = 3"
  using pkzip_decompress_total [of "fresh_data [1, 4, 255, 7, 129] [0, 0, 0]" 41]
  by (simp add: fresh_data_def numeral_eq_Suc)

end
