(* ===== verification/Mpq_Compression.thy ===== *)
theory Mpq_Compression
  imports Mpq_Sparse Mpq_Wave Mpq_Pkware_Roundtrip Mpq_Pkware_Safe "HOL-Library.Monad_Syntax"
begin

text \<open>
  The compression dispatcher, \<^verbatim>\<open>src/mpq-compression.c\<close>: the adapters around the codecs, the decoder of
  chained streams, the sector encoder and the block decoder.

  zlib, bzip2 and liblzma are parameters, gathered in the record \<open>codec_libs\<close>; so is the adaptive
  Huffman coder of \<^verbatim>\<open>src/mpq-huffman.c\<close>. A streaming call consumes a number of input bytes and
  appends bytes to the output; the record \<open>codec_stream\<close> keeps what the dispatcher reads of a
  \<^verbatim>\<open>bz_stream\<close> or \<^verbatim>\<open>lzma_stream\<close>. A decoder maps the input and the destination buffer, whose
  length is the size passed with it, to the returned integer and the new contents of the destination;
  where a decoder gives up with an error, the code leaves the contents of the destination open.
  Two loops call a library until it reports something other than progress; they take fuel, and the
  result \<open>None\<close> means that they have not ended.
\<close>

subsection \<open>Constants\<close>

definition LIBMPQ_COMPRESSION_HUFFMAN :: u32 where "LIBMPQ_COMPRESSION_HUFFMAN = 0x01"
definition LIBMPQ_COMPRESSION_ZLIB :: u32 where "LIBMPQ_COMPRESSION_ZLIB = 0x02"
definition LIBMPQ_COMPRESSION_PKZIP :: u32 where "LIBMPQ_COMPRESSION_PKZIP = 0x08"
definition LIBMPQ_COMPRESSION_BZIP2 :: u32 where "LIBMPQ_COMPRESSION_BZIP2 = 0x10"
definition LIBMPQ_COMPRESSION_SPARSE :: u32 where "LIBMPQ_COMPRESSION_SPARSE = 0x20"
definition LIBMPQ_COMPRESSION_WAVE_MONO :: u32 where "LIBMPQ_COMPRESSION_WAVE_MONO = 0x40"
definition LIBMPQ_COMPRESSION_WAVE_STEREO :: u32 where "LIBMPQ_COMPRESSION_WAVE_STEREO = 0x80"
definition LIBMPQ_COMPRESSION_LZMA :: u32 where "LIBMPQ_COMPRESSION_LZMA = 0x100"
definition LIBMPQ_COMPRESSION_LZMA_METHOD :: u32 where "LIBMPQ_COMPRESSION_LZMA_METHOD = 0x12"
definition LIBMPQ_LZMA_USE_FILTER :: u8 where "LIBMPQ_LZMA_USE_FILTER = 0"
definition LIBMPQ_LZMA_PROPERTIES_SIZE :: nat where "LIBMPQ_LZMA_PROPERTIES_SIZE = 5"
definition LIBMPQ_LZMA_HEADER_SIZE :: nat where "LIBMPQ_LZMA_HEADER_SIZE = 14"
definition LIBMPQ_LZMA_TOTAL_OVERHEAD :: nat where "LIBMPQ_LZMA_TOTAL_OVERHEAD = 15"
definition LIBMPQ_LZMA_DECODER_MEMORY_MAX :: nat where "LIBMPQ_LZMA_DECODER_MEMORY_MAX = 64 * 1024 * 1024"
definition LIBMPQ_FLAG_COMPRESS_NONE :: u32 where "LIBMPQ_FLAG_COMPRESS_NONE = 0x300"
definition LIBMPQ_FLAG_COMPRESS_PKZIP :: u32 where "LIBMPQ_FLAG_COMPRESS_PKZIP = 0x100"
definition LIBMPQ_FLAG_COMPRESS_MULTI :: u32 where "LIBMPQ_FLAG_COMPRESS_MULTI = 0x200"
definition LIBMPQ_ARCHIVE_VERSION_TWO :: u32 where "LIBMPQ_ARCHIVE_VERSION_TWO = 1"
definition LIBMPQ_COMPRESSION_POLICY_STANDARD :: u32 where "LIBMPQ_COMPRESSION_POLICY_STANDARD = 0"
definition LIBMPQ_COMPRESSION_POLICY_EXTENDED :: u32 where "LIBMPQ_COMPRESSION_POLICY_EXTENDED = 1"

lemmas compression_bits =
  LIBMPQ_COMPRESSION_HUFFMAN_def LIBMPQ_COMPRESSION_ZLIB_def LIBMPQ_COMPRESSION_PKZIP_def
  LIBMPQ_COMPRESSION_BZIP2_def LIBMPQ_COMPRESSION_SPARSE_def LIBMPQ_COMPRESSION_WAVE_MONO_def
  LIBMPQ_COMPRESSION_WAVE_STEREO_def LIBMPQ_COMPRESSION_LZMA_def LIBMPQ_COMPRESSION_LZMA_METHOD_def

text \<open>Status values of the libraries, from their headers.\<close>

abbreviation "Z_OK \<equiv> 0 :: int"
abbreviation "Z_STREAM_END \<equiv> 1 :: int"
abbreviation "Z_NEED_DICT \<equiv> 2 :: int"
abbreviation "BZ_OK \<equiv> 0 :: int"
abbreviation "BZ_FINISH_OK \<equiv> 3 :: int"
abbreviation "BZ_STREAM_END \<equiv> 4 :: int"
abbreviation "LZMA_OK \<equiv> 0 :: int"
abbreviation "LZMA_STREAM_END \<equiv> 1 :: int"
abbreviation "LZMA_MEM_ERROR \<equiv> 5 :: int"
abbreviation "LZMA_BUF_ERROR \<equiv> 10 :: int"

text \<open>Sizes of the heap-allocated codec states on a 64-bit machine.\<close>

definition sizeof_pkzip_cmp_s :: nat where "sizeof_pkzip_cmp_s = 12616"
definition sizeof_huffman_tree_s :: nat where "sizeof_huffman_tree_s = 24776"
definition sizeof_huffman_input_stream_s :: nat where "sizeof_huffman_input_stream_s = 32"

subsection \<open>The libraries\<close>

record huffman_input_stream_s =
  hs_in :: "u8 list"
  hs_bit_buf :: u32
  hs_bits :: nat

record codec_stream =
  cs_state :: nat
  cs_in :: "u8 list"
  cs_out :: "u8 list"
  cs_room :: nat

text \<open>One call of a streaming library: from the state, the input and the room to the status, the
  number of consumed bytes, the produced bytes and the next state.\<close>

type_synonym stream_call = "nat \<Rightarrow> u8 list \<Rightarrow> nat \<Rightarrow> int \<times> nat \<times> u8 list \<times> nat"

record codec_libs =
  inflateInit :: int
  inflate :: "u8 list \<Rightarrow> nat \<Rightarrow> int \<times> u8 list"
  inflateEnd :: int
  deflateInit :: int
  deflate :: "u8 list \<Rightarrow> nat \<Rightarrow> int \<times> u8 list"
  deflateEnd :: int
  bzDecompressInit :: int
  bzDecompress :: stream_call
  bzCompressInit :: int
  bzCompress :: stream_call
  bzCompressEnd :: int
  lzma_properties_decode :: "u8 list \<Rightarrow> int \<times> nat"
  lzma_raw_decoder_memusage :: "nat \<Rightarrow> nat"
  lzma_raw_decoder :: "nat \<Rightarrow> int"
  lzma_code :: stream_call
  lzma_lzma_preset :: bool
  lzma_properties_size :: "int \<times> nat"
  lzma_properties_encode :: "int \<times> u8 list"
  lzma_raw_buffer_encode :: "u8 list \<Rightarrow> nat \<Rightarrow> int \<times> u8 list"
  huffman_decode :: "huffman_input_stream_s \<Rightarrow> nat \<Rightarrow> int \<times> u8 list"
  huffman_encode :: "u8 list \<Rightarrow> nat \<Rightarrow> u8 list result"

definition stream_step :: "stream_call \<Rightarrow> codec_stream \<Rightarrow> int \<times> codec_stream" where
  "stream_step call s =
     (case call (cs_state s) (cs_in s) (cs_room s) of
        (status, used, produced, st) \<Rightarrow>
          (status, \<lparr>cs_state = st, cs_in = drop used (cs_in s), cs_out = cs_out s @ produced,
             cs_room = cs_room s - length produced\<rparr>))"

text \<open>A \<^verbatim>\<open>size_t\<close> passed as a 32-bit size.\<close>

definition size32 :: "nat \<Rightarrow> nat" where
  "size32 n = n mod 2 ^ 32"

definition clip32 :: "u8 list \<Rightarrow> u8 list" where
  "clip32 bs = take (size32 (length bs)) bs"

subsection \<open>Decoders\<close>

definition libmpq__compression_decompress_huffman ::
  "codec_libs \<Rightarrow> (nat \<Rightarrow> bool) \<Rightarrow> ptr \<Rightarrow> ptr \<Rightarrow> int \<times> u8 list" where
  "libmpq__compression_decompress_huffman libs alloc in_buf out_buf =
     (case (in_buf, out_buf) of
        (Some input, Some out) \<Rightarrow>
          if length input < 4 then (error_code ERROR_FORMAT, out)
          else if \<not> alloc sizeof_huffman_tree_s then (error_code ERROR_MALLOC, out)
          else if \<not> alloc sizeof_huffman_input_stream_s then (error_code ERROR_MALLOC, out)
          else
            case huffman_decode libs \<lparr>hs_in = drop 4 input, hs_bit_buf = libmpq__load_le32 (Some input),
                   hs_bits = 32\<rparr> (length out) of
              (tb, bytes) \<Rightarrow> (tb, write_at out 0 bytes)
      | _ \<Rightarrow> (error_code ERROR_FORMAT, []))"

definition libmpq__compression_decompress_zlib ::
  "codec_libs \<Rightarrow> u8 list \<Rightarrow> u8 list \<Rightarrow> int \<times> u8 list" where
  "libmpq__compression_decompress_zlib libs input out =
     (if inflateInit libs \<noteq> Z_OK then (inflateInit libs, out)
      else
        case inflate libs input (length out) of
          (status, bytes) \<Rightarrow>
            let out = write_at out 0 bytes
            in if status \<noteq> Z_STREAM_END then (status, out)
               else if inflateEnd libs \<noteq> Z_OK then (inflateEnd libs, out)
               else (int (length bytes), out))"

text \<open>The fuel is the bound of \<open>pkzip_decompress_total\<close>, so the first branch is never taken.\<close>

definition libmpq__compression_decompress_pkzip ::
  "(nat \<Rightarrow> bool) \<Rightarrow> u8 list \<Rightarrow> u8 list \<Rightarrow> int \<times> u8 list" where
  "libmpq__compression_decompress_pkzip alloc input out =
     (if \<not> alloc sizeof_pkzip_cmp_s then (error_code ERROR_MALLOC, out)
      else
        case libmpq__pkzip_decompress (8 * length input + 1)
               \<lparr>data_in = input, data_in_pos = 0, data_out = out, data_out_pos = 0, max_out = length out\<rparr> of
          None \<Rightarrow> (error_code ERROR_UNPACK, out)
        | Some (status, info) \<Rightarrow>
            if status \<noteq> LIBMPQ_PKZIP_CMP_NO_ERROR then (error_code ERROR_UNPACK, data_out info)
            else (int (data_out_pos info), data_out info))"

text \<open>Each turn consumes input or fills the output, or the loop ends.\<close>

function bzip2_loop :: "stream_call \<Rightarrow> codec_stream \<Rightarrow> (mpq_error + nat) \<times> codec_stream" where
  "bzip2_loop call s =
     (case stream_step call s of
        (status, s') \<Rightarrow>
          if status = BZ_STREAM_END then (Inr (length (cs_out s')), s')
          else if status \<noteq> BZ_OK \<or>
            length (cs_in s') = length (cs_in s) \<and> cs_room s' = cs_room s then (Inl ERROR_UNPACK, s')
          else if cs_room s' = 0 then (Inl ERROR_SIZE, s')
          else if cs_in s' = [] then (Inl ERROR_UNPACK, s')
          else bzip2_loop call s')"
  by pat_completeness auto
termination
  by (relation "measure (\<lambda>(call, s). length (cs_in s) + cs_room s)")
    (auto simp: stream_step_def split: prod.split_asm)

declare bzip2_loop.simps [simp del]

definition libmpq__compression_decompress_bzip2 ::
  "codec_libs \<Rightarrow> u8 list \<Rightarrow> u8 list \<Rightarrow> int \<times> u8 list" where
  "libmpq__compression_decompress_bzip2 libs input out =
     (if bzDecompressInit libs \<noteq> BZ_OK then (bzDecompressInit libs, out)
      else
        case bzip2_loop (bzDecompress libs) \<lparr>cs_state = 0, cs_in = input, cs_out = [], cs_room = length out\<rparr> of
          (Inl e, s) \<Rightarrow> (error_code e, write_at out 0 (cs_out s))
        | (Inr n, s) \<Rightarrow> (int (size32 n), write_at out 0 (cs_out s)))"

definition libmpq__compression_decompress_wave_mono :: "u8 list \<Rightarrow> u8 list \<Rightarrow> int \<times> u8 list" where
  "libmpq__compression_decompress_wave_mono input out =
     (let bytes = libmpq__wave_decompress (sint (of_nat (length out) :: u32)) input 1
      in (int (length bytes), write_at out 0 bytes))"

definition libmpq__compression_decompress_wave_stereo :: "u8 list \<Rightarrow> u8 list \<Rightarrow> int \<times> u8 list" where
  "libmpq__compression_decompress_wave_stereo input out =
     (let bytes = libmpq__wave_decompress (sint (of_nat (length out) :: u32)) input 2
      in (int (length bytes), write_at out 0 bytes))"

definition libmpq__compression_decompress_sparse :: "u8 list \<Rightarrow> u8 list \<Rightarrow> int \<times> u8 list" where
  "libmpq__compression_decompress_sparse input out =
     (case libmpq__sparse_decompress (Some input) (Some (length out)) of
        Inl e \<Rightarrow> (error_code e, out)
      | Inr bytes \<Rightarrow> (int (length bytes), write_at out 0 bytes))"

subsection \<open>LZMA\<close>

fun lzma_loop :: "nat \<Rightarrow> stream_call \<Rightarrow> codec_stream \<Rightarrow> (int \<times> codec_stream) option" where
  "lzma_loop 0 call s = None"
| "lzma_loop (Suc fuel) call s =
     (case stream_step call s of
        (ret, s) \<Rightarrow> if ret = LZMA_OK then lzma_loop fuel call s else Some (ret, s))"

definition decompress_lzma ::
  "codec_libs \<Rightarrow> nat \<Rightarrow> u8 list \<Rightarrow> u8 list \<Rightarrow> (int \<times> u8 list) option" where
  "decompress_lzma libs fuel input out =
     (if length input \<le> LIBMPQ_LZMA_HEADER_SIZE then Some (error_code ERROR_UNPACK, out)
      else if input ! 0 \<noteq> LIBMPQ_LZMA_USE_FILTER then Some (error_code ERROR_UNPACK, out)
      else if length out > INT32_MAX then Some (error_code ERROR_SIZE, out)
      else
        case lzma_properties_decode libs (take LIBMPQ_LZMA_PROPERTIES_SIZE (drop 1 input)) of
          (ret, options) \<Rightarrow>
            if ret = LZMA_MEM_ERROR then Some (error_code ERROR_MALLOC, out)
            else if ret \<noteq> LZMA_OK then Some (error_code ERROR_UNPACK, out)
            else if lzma_raw_decoder_memusage libs options = 2 ^ 64 - 1 \<or>
              lzma_raw_decoder_memusage libs options > LIBMPQ_LZMA_DECODER_MEMORY_MAX then
              Some (error_code ERROR_UNPACK, out)
            else if lzma_raw_decoder libs options = LZMA_MEM_ERROR then Some (error_code ERROR_MALLOC, out)
            else if lzma_raw_decoder libs options \<noteq> LZMA_OK then Some (error_code ERROR_UNPACK, out)
            else do {
              (ret, s) \<leftarrow> lzma_loop fuel (lzma_code libs)
                \<lparr>cs_state = options, cs_in = drop LIBMPQ_LZMA_HEADER_SIZE input, cs_out = [],
                 cs_room = length out\<rparr>;
              Some (if (ret = LZMA_STREAM_END \<or> ret = LZMA_BUF_ERROR) \<and> length (cs_out s) = length out \<and>
                       cs_room s = 0 \<and> cs_in s = []
                    then int (length out) else error_code ERROR_UNPACK,
                    write_at out 0 (cs_out s))
            })"

subsection \<open>Chained streams\<close>

text \<open>Where \<^verbatim>\<open>in_buf\<close> and \<^verbatim>\<open>work_buf\<close> point: the caller's input, the caller's output or the
  temporary buffer.\<close>

datatype buffer_id = IN_BUF | OUT_BUF | TEMP_BUF

record multi_s =
  mu_in :: "u8 list"
  mu_in_at :: buffer_id
  mu_out :: "u8 list"
  mu_temp :: "u8 list option"
  mu_work :: "buffer_id option"
  mu_tb :: int
  mu_count :: nat

type_synonym decoder = "u8 list \<Rightarrow> u8 list \<Rightarrow> int \<times> u8 list"

definition dcmp_table :: "codec_libs \<Rightarrow> (nat \<Rightarrow> bool) \<Rightarrow> (u32 \<times> decoder) list" where
  "dcmp_table libs alloc =
     [(LIBMPQ_COMPRESSION_BZIP2, libmpq__compression_decompress_bzip2 libs),
      (LIBMPQ_COMPRESSION_PKZIP, libmpq__compression_decompress_pkzip alloc),
      (LIBMPQ_COMPRESSION_ZLIB, libmpq__compression_decompress_zlib libs),
      (LIBMPQ_COMPRESSION_HUFFMAN,
        \<lambda>input out. libmpq__compression_decompress_huffman libs alloc (Some input) (Some out)),
      (LIBMPQ_COMPRESSION_WAVE_STEREO, libmpq__compression_decompress_wave_stereo),
      (LIBMPQ_COMPRESSION_WAVE_MONO, libmpq__compression_decompress_wave_mono),
      (LIBMPQ_COMPRESSION_SPARSE, libmpq__compression_decompress_sparse)]"

definition multi_work_buf :: "multi_s \<Rightarrow> buffer_id" where
  "multi_work_buf m =
     (if mu_count m = 0 then (if mu_temp m \<noteq> None then TEMP_BUF else OUT_BUF)
      else if mu_in_at m = OUT_BUF then TEMP_BUF else OUT_BUF)"

definition multi_stage :: "decoder \<Rightarrow> multi_s \<Rightarrow> multi_s" where
  "multi_stage dec m =
     (let work = multi_work_buf m;
          dest = (if work = OUT_BUF then mu_out m else (case mu_temp m of None \<Rightarrow> [] | Some t \<Rightarrow> t))
      in case dec (mu_in m) dest of
           (tb, dest) \<Rightarrow>
             m\<lparr>mu_out := (if work = OUT_BUF then dest else mu_out m),
               mu_temp := (if work = OUT_BUF then mu_temp m else Some dest),
               mu_tb := tb, mu_work := Some work, mu_in := take (nat tb) dest,
               mu_in_at := work, mu_count := mu_count m + 1\<rparr>)"

text \<open>The loop stops at the first negative result.\<close>

fun multi_loop :: "u32 \<Rightarrow> (u32 \<times> decoder) list \<Rightarrow> multi_s \<Rightarrow> multi_s" where
  "multi_loop flag [] m = m"
| "multi_loop flag ((code, dec) # table) m =
     (if flag AND code \<noteq> 0 then
        let m = multi_stage dec m
        in if mu_tb m < 0 then m else multi_loop flag table m
      else multi_loop flag table m)"

definition libmpq__compression_decompress_multi ::
  "codec_libs \<Rightarrow> (nat \<Rightarrow> bool) \<Rightarrow> nat \<Rightarrow> ptr \<Rightarrow> ptr \<Rightarrow> u32 \<Rightarrow> (int \<times> u8 list) option" where
  "libmpq__compression_decompress_multi libs alloc fuel in_buf out_buf format_version =
     (case (in_buf, out_buf) of
        (Some (b # input), Some out) \<Rightarrow>
          let flag = ucast b :: u32;
              table = dcmp_table libs alloc;
              stages = filter (\<lambda>(code, dec). flag AND code \<noteq> 0) table;
              unsupp = foldl (\<lambda>u (code, dec). u AND NOT code) flag stages
          in if format_version \<ge> LIBMPQ_ARCHIVE_VERSION_TWO \<and> flag = LIBMPQ_COMPRESSION_LZMA_METHOD then
               decompress_lzma libs fuel input out
             else if unsupp \<noteq> 0 then Some (error_code ERROR_UNPACK, out)
             else if length stages > 1 \<and> \<not> alloc (length out) then Some (error_code ERROR_MALLOC, out)
             else
               let m = multi_loop flag table
                     \<lparr>mu_in = input, mu_in_at = IN_BUF, mu_out = out,
                      mu_temp = (if length stages > 1 then Some (replicate (length out) 0) else None),
                      mu_work = None, mu_tb = 0, mu_count = 0\<rparr>
               in if mu_tb m < 0 then Some (mu_tb m, mu_out m)
                  else if mu_work m \<noteq> Some OUT_BUF then
                    Some (mu_tb m, write_at (mu_out m) 0 (take (nat (mu_tb m)) (mu_in m)))
                  else Some (mu_tb m, mu_out m)
      | (_, Some out) \<Rightarrow> Some (error_code ERROR_UNPACK, out)
      | _ \<Rightarrow> Some (error_code ERROR_UNPACK, []))"

subsection \<open>Sector encoding\<close>

definition libmpq__compression_allowed :: "u32 \<Rightarrow> u32 \<Rightarrow> u32 \<Rightarrow> bool" where
  "libmpq__compression_allowed format_version mask_bits policy =
     (if format_version > LIBMPQ_ARCHIVE_VERSION_TWO \<or>
         policy \<noteq> LIBMPQ_COMPRESSION_POLICY_STANDARD \<and> policy \<noteq> LIBMPQ_COMPRESSION_POLICY_EXTENDED then False
      else if mask_bits = LIBMPQ_COMPRESSION_LZMA then format_version \<ge> LIBMPQ_ARCHIVE_VERSION_TWO
      else if mask_bits AND LIBMPQ_COMPRESSION_LZMA \<noteq> 0 then False
      else if mask_bits AND LIBMPQ_COMPRESSION_SPARSE \<noteq> 0 \<and>
        mask_bits AND (LIBMPQ_COMPRESSION_WAVE_MONO OR LIBMPQ_COMPRESSION_WAVE_STEREO) \<noteq> 0 then False
      else if mask_bits AND (LIBMPQ_COMPRESSION_WAVE_MONO OR LIBMPQ_COMPRESSION_WAVE_STEREO) =
        (LIBMPQ_COMPRESSION_WAVE_MONO OR LIBMPQ_COMPRESSION_WAVE_STEREO) then False
      else if format_version \<ge> LIBMPQ_ARCHIVE_VERSION_TWO \<and>
        mask_bits AND (LIBMPQ_COMPRESSION_ZLIB OR LIBMPQ_COMPRESSION_BZIP2) =
        (LIBMPQ_COMPRESSION_ZLIB OR LIBMPQ_COMPRESSION_BZIP2) then False
      else if format_version \<ge> LIBMPQ_ARCHIVE_VERSION_TWO \<and> policy = LIBMPQ_COMPRESSION_POLICY_STANDARD then
        mask_bits = 0 \<or> mask_bits = LIBMPQ_COMPRESSION_ZLIB \<or> mask_bits = LIBMPQ_COMPRESSION_PKZIP \<or>
        mask_bits = LIBMPQ_COMPRESSION_BZIP2 \<or> mask_bits = LIBMPQ_COMPRESSION_SPARSE \<or>
        mask_bits = (LIBMPQ_COMPRESSION_SPARSE OR LIBMPQ_COMPRESSION_ZLIB) \<or>
        mask_bits = (LIBMPQ_COMPRESSION_SPARSE OR LIBMPQ_COMPRESSION_BZIP2) \<or>
        mask_bits = (LIBMPQ_COMPRESSION_HUFFMAN OR LIBMPQ_COMPRESSION_WAVE_MONO) \<or>
        mask_bits = (LIBMPQ_COMPRESSION_HUFFMAN OR LIBMPQ_COMPRESSION_WAVE_STEREO)
      else mask_bits AND NOT (LIBMPQ_COMPRESSION_HUFFMAN OR LIBMPQ_COMPRESSION_ZLIB OR
        LIBMPQ_COMPRESSION_PKZIP OR LIBMPQ_COMPRESSION_BZIP2 OR LIBMPQ_COMPRESSION_SPARSE OR
        LIBMPQ_COMPRESSION_WAVE_MONO OR LIBMPQ_COMPRESSION_WAVE_STEREO) = 0)"

definition copy_raw :: "(nat \<Rightarrow> bool) \<Rightarrow> u8 list \<Rightarrow> (u8 list \<times> u8) result" where
  "copy_raw alloc input =
     (if \<not> alloc (if length input \<noteq> 0 then length input else 1) then Inl ERROR_MALLOC
      else Inr (input, 0))"

definition encode_lzma :: "codec_libs \<Rightarrow> (nat \<Rightarrow> bool) \<Rightarrow> u8 list \<Rightarrow> (u8 list \<times> u8) result" where
  "encode_lzma libs alloc input =
     (if length input \<le> LIBMPQ_LZMA_TOTAL_OVERHEAD then copy_raw alloc input
      else
        let capacity = length input - LIBMPQ_LZMA_TOTAL_OVERHEAD - 1
        in if \<not> alloc (LIBMPQ_LZMA_TOTAL_OVERHEAD + capacity) then Inl ERROR_MALLOC
        else if lzma_lzma_preset libs then Inl ERROR_UNPACK
        else if fst (lzma_properties_size libs) \<noteq> LZMA_OK \<or>
          snd (lzma_properties_size libs) \<noteq> LIBMPQ_LZMA_PROPERTIES_SIZE then Inl ERROR_UNPACK
        else if fst (lzma_properties_encode libs) \<noteq> LZMA_OK then Inl ERROR_UNPACK
        else
          let packed = [ucast LIBMPQ_COMPRESSION_LZMA_METHOD, LIBMPQ_LZMA_USE_FILTER] @
                snd (lzma_properties_encode libs) @ le64_bytes (of_nat (length input));
              (ret, bytes) = lzma_raw_buffer_encode libs input capacity
          in if ret = LZMA_BUF_ERROR then copy_raw alloc input
             else if ret = LZMA_MEM_ERROR then Inl ERROR_MALLOC
             else if ret \<noteq> LZMA_OK then Inl ERROR_UNPACK
             else Inr (packed @ bytes, ucast LIBMPQ_COMPRESSION_LZMA_METHOD))"

fun bz_finish_loop :: "nat \<Rightarrow> stream_call \<Rightarrow> codec_stream \<Rightarrow> (int \<times> codec_stream) option" where
  "bz_finish_loop 0 call s = None"
| "bz_finish_loop (Suc fuel) call s =
     (case stream_step call s of
        (status, s) \<Rightarrow> if status = BZ_FINISH_OK then bz_finish_loop fuel call s else Some (status, s))"

definition stage_out_size :: "nat \<Rightarrow> u32 \<Rightarrow> nat" where
  "stage_out_size n code =
     (if code = LIBMPQ_COMPRESSION_HUFFMAN then n * 2 + 64
      else if code = LIBMPQ_COMPRESSION_SPARSE then n - 2
      else n + n div 100 + 1024)"

definition compression_stage ::
  "codec_libs \<Rightarrow> (nat \<Rightarrow> bool) \<Rightarrow> nat \<Rightarrow> u8 list \<Rightarrow> u32 \<Rightarrow> u8 list result option" where
  "compression_stage libs alloc fuel bytes code =
     (let out_size = stage_out_size (length bytes) code
      in if code = LIBMPQ_COMPRESSION_SPARSE \<and> (length bytes < 7 \<or> length bytes > INT32_MAX) then
           Some (Inl ERROR_UNPACK)
      else if \<not> alloc (if out_size \<noteq> 0 then out_size else 1) then Some (Inl ERROR_MALLOC)
      else if code = LIBMPQ_COMPRESSION_SPARSE then
        Some (libmpq__sparse_compress (Some (clip32 bytes)) (Some (size32 out_size)))
      else if code = LIBMPQ_COMPRESSION_PKZIP then
        Some (libmpq__pkzip_compress alloc (Some bytes) (size32 (length bytes)) (Some 0) (Some 0))
      else if code = LIBMPQ_COMPRESSION_HUFFMAN then
        (if \<not> alloc sizeof_huffman_tree_s then Some (Inl ERROR_MALLOC)
         else Some (huffman_encode libs (clip32 bytes) (size32 out_size)))
      else if code = LIBMPQ_COMPRESSION_WAVE_MONO \<or> code = LIBMPQ_COMPRESSION_WAVE_STEREO then
        Some (libmpq__wave_compress alloc (Some (clip32 bytes)) (if code = LIBMPQ_COMPRESSION_WAVE_MONO then 1 else 2))
      else if code = LIBMPQ_COMPRESSION_ZLIB then
        (let (status, out) = (if deflateInit libs = Z_OK then deflate libs (clip32 bytes) (size32 out_size)
                              else (deflateInit libs, []));
             status = (if status = Z_STREAM_END then deflateEnd libs else status)
         in Some (if status \<noteq> Z_OK then Inl ERROR_UNPACK else Inr out))
      else
        do {
          (status, s) \<leftarrow>
            (if bzCompressInit libs = BZ_OK
             then bz_finish_loop fuel (bzCompress libs)
                    \<lparr>cs_state = 0, cs_in = clip32 bytes, cs_out = [], cs_room = size32 out_size\<rparr>
             else Some (bzCompressInit libs, \<lparr>cs_state = 0, cs_in = [], cs_out = [], cs_room = 0\<rparr>));
          let status = (if status = BZ_STREAM_END then bzCompressEnd libs else status);
          Some (if status \<noteq> BZ_OK then Inl ERROR_UNPACK
                else Inr (take (size32 (length (cs_out s))) (cs_out s)))
        })"

definition sector_masks :: "u32 list" where
  "sector_masks =
     [LIBMPQ_COMPRESSION_SPARSE, LIBMPQ_COMPRESSION_WAVE_MONO, LIBMPQ_COMPRESSION_WAVE_STEREO,
      LIBMPQ_COMPRESSION_HUFFMAN, LIBMPQ_COMPRESSION_ZLIB, LIBMPQ_COMPRESSION_PKZIP,
      LIBMPQ_COMPRESSION_BZIP2]"

text \<open>A failed stage leaves the buffer as it was; a stage that saves too little is undone.\<close>

definition sector_step ::
  "codec_libs \<Rightarrow> (nat \<Rightarrow> bool) \<Rightarrow> nat \<Rightarrow> u32 \<Rightarrow> u8 list \<times> u8 \<Rightarrow> (u8 list \<times> u8) result option" where
  "sector_step libs alloc fuel code st =
     (case st of (bytes, emitted_mask) \<Rightarrow>
        let before = length bytes
        in if \<not> alloc (if before \<noteq> 0 then before else 1) then Some (Inl ERROR_MALLOC)
           else do {
             r \<leftarrow> compression_stage libs alloc fuel bytes code;
             Some (Inr (case r of
               Inl _ \<Rightarrow> (bytes, emitted_mask)
             | Inr out \<Rightarrow>
                 if length out \<le> before - (if before \<ge> 2 then 2 else before)
                 then (out, emitted_mask OR ucast code) else (bytes, emitted_mask)))
           })"

fun sector_loop ::
  "codec_libs \<Rightarrow> (nat \<Rightarrow> bool) \<Rightarrow> nat \<Rightarrow> u32 \<Rightarrow> u32 list \<Rightarrow> u8 list \<times> u8 \<Rightarrow> (u8 list \<times> u8) result option" where
  "sector_loop libs alloc fuel requested [] st = Some (Inr st)"
| "sector_loop libs alloc fuel requested (code # codes) st =
     (if requested AND code \<noteq> 0 then do {
        r \<leftarrow> sector_step libs alloc fuel code st;
        (case r of Inl e \<Rightarrow> Some (Inl e) | Inr st \<Rightarrow> sector_loop libs alloc fuel requested codes st)
      }
      else sector_loop libs alloc fuel requested codes st)"

definition sector_finish ::
  "(nat \<Rightarrow> bool) \<Rightarrow> u32 \<Rightarrow> u32 \<Rightarrow> u8 list \<Rightarrow> u8 list \<times> u8 \<Rightarrow> (u8 list \<times> u8) result" where
  "sector_finish alloc format_version policy input st =
     (let restore = \<not> libmpq__compression_allowed format_version (ucast (snd st)) policy
      in if restore \<and> \<not> alloc (if length input \<noteq> 0 then length input else 1) then Inl ERROR_MALLOC
         else
           let (bytes, emitted_mask) = (if restore then (input, 0) else st)
           in if emitted_mask = 0 \<or> length bytes + 1 \<ge> length input then Inr (bytes, 0)
              else if \<not> alloc (length bytes + 1) then Inl ERROR_MALLOC
              else Inr (emitted_mask # bytes, emitted_mask))"

definition libmpq__compression_encode_sector ::
  "codec_libs \<Rightarrow> (nat \<Rightarrow> bool) \<Rightarrow> nat \<Rightarrow> u8 list \<Rightarrow> u32 \<Rightarrow> u32 \<Rightarrow> u32 \<Rightarrow> (u8 list \<times> u8) result option" where
  "libmpq__compression_encode_sector libs alloc fuel input requested format_version policy =
     (if \<not> libmpq__compression_allowed format_version requested policy then Some (Inl ERROR_FORMAT)
      else if requested = LIBMPQ_COMPRESSION_LZMA then Some (encode_lzma libs alloc input)
      else if \<not> alloc (if length input \<noteq> 0 then length input else 1) then Some (Inl ERROR_MALLOC)
      else do {
        r \<leftarrow> sector_loop libs alloc fuel requested sector_masks (input, 0);
        Some (case r of Inl e \<Rightarrow> Inl e | Inr st \<Rightarrow> sector_finish alloc format_version policy input st)
      })"

subsection \<open>Block decoding\<close>

definition libmpq__compression_decompress_block ::
  "codec_libs \<Rightarrow> (nat \<Rightarrow> bool) \<Rightarrow> nat \<Rightarrow> u8 list \<Rightarrow> u8 list \<Rightarrow> u32 \<Rightarrow> u32 \<Rightarrow> (int \<times> u8 list) option" where
  "libmpq__compression_decompress_block libs alloc fuel input out compression_type format_version =
     (let in_size = length input; out_size = length out;
          raw = (int out_size, take out_size input);
          finish = (\<lambda>pkzip (tb, out).
            if tb < 0 then (tb, out)
            else if pkzip \<and> tb \<noteq> int out_size then (error_code ERROR_UNPACK, out) else (tb, out))
      in if compression_type = LIBMPQ_FLAG_COMPRESS_NONE then
           Some (if in_size < out_size then (error_code ERROR_SIZE, out) else finish False raw)
         else if compression_type = LIBMPQ_FLAG_COMPRESS_PKZIP then
           Some (finish True (if in_size \<ge> out_size then raw
                   else libmpq__compression_decompress_pkzip alloc input out))
         else if compression_type = LIBMPQ_FLAG_COMPRESS_MULTI then
           (if in_size < out_size then do {
              r \<leftarrow> libmpq__compression_decompress_multi libs alloc fuel (Some input) (Some out) format_version;
              Some (finish (in_size > 0 \<and> ucast (input ! 0) AND LIBMPQ_COMPRESSION_PKZIP \<noteq> 0) r)
            }
            else Some (finish False raw))
         else Some (finish False (0, out)))"

end
