(* ===== verification/Mpq_Sector.thy ===== *)
theory Mpq_Sector
  imports Mpq_Compression "HOL-Library.Sublist"
begin

text \<open>
  Sector encoding and block decoding are inverse to each other. Each lossless stage is an instance of
  the locale \<open>lossless_stage\<close>: SPARSE and PKWARE by their own round-trip theorems, zlib, bzip2 and
  LZMA under the documented contracts of their libraries. The encoder keeps a stage only if it saves
  two bytes, and the stages it kept are exactly the bits of the mask; the decoder applies their
  decoders in the reverse order, alternating two buffers that never coincide.
\<close>

subsection \<open>Lossless stages\<close>

text \<open>A stage whose decoder restores what its encoder was given, in any buffer that can hold it.\<close>

definition restores :: "decoder \<Rightarrow> u8 list \<Rightarrow> u8 list \<Rightarrow> bool" where
  "restores dec y x \<longleftrightarrow> (\<forall>d. length x \<le> length d \<longrightarrow>
     (\<exists>d'. dec y d = (int (length x), d') \<and> length d' = length d \<and> take (length x) d' = x))"

lemma restoresI:
  assumes "\<And>d. length x \<le> length d \<Longrightarrow> dec y d = (int (length x), write_at d 0 x)"
  shows "restores dec y x"
  using assms by (auto simp: restores_def write_at_def)

lemma restoresE:
  assumes "restores dec y x" "length x \<le> length d"
  obtains d' where "dec y d = (int (length x), d')" "length d' = length d" "take (length x) d' = x"
  using assms unfolding restores_def by blast

locale lossless_stage =
  fixes enc :: "u8 list \<Rightarrow> u8 list \<Rightarrow> bool" and dec :: decoder
  assumes restores: "enc x y \<Longrightarrow> restores dec y x"
    and nonempty: "enc x y \<Longrightarrow> y \<noteq> []"
begin

lemma exact:
  assumes "enc x y" "length d = length x"
  shows "dec y d = (int (length x), x)"
  by (rule restoresE [OF restores [OF assms(1)], of d]) (use assms(2) in simp_all)

lemma injective:
  assumes "enc x y" "enc x' y" "length x \<le> length x'" shows "x = x'"
proof -
  have "dec y (replicate (length x') 0) = (int (length x'), x')" by (rule exact [OF assms(2)]) simp
  moreover obtain d' where "dec y (replicate (length x') 0) = (int (length x), d')" "take (length x) d' = x"
    by (rule restoresE [OF restores [OF assms(1)], of "replicate (length x') 0"]) (use assms(3) in simp_all)
  ultimately show ?thesis by simp
qed

end

definition sparse_encodes :: "u8 list \<Rightarrow> u8 list \<Rightarrow> bool" where
  "sparse_encodes x y \<longleftrightarrow> (\<exists>cap. libmpq__sparse_compress (Some x) (Some cap) = Inr y)"

definition pkzip_encodes :: "u8 list \<Rightarrow> u8 list \<Rightarrow> bool" where
  "pkzip_encodes x y \<longleftrightarrow> libmpq__pkzip_compress (\<lambda>_. True) (Some x) (length x) (Some 0) (Some 0) = Inr y"

lemma sparse_decode_stage:
  assumes "libmpq__sparse_compress (Some x) (Some cap) = Inr y" "length x \<le> length d"
  shows "libmpq__compression_decompress_sparse y d = (int (length x), write_at d 0 x)"
  using sparse_decodes [OF assms] by (simp add: libmpq__compression_decompress_sparse_def)

interpretation sparse: lossless_stage sparse_encodes libmpq__compression_decompress_sparse
proof unfold_locales
  fix x y assume e: "sparse_encodes x y"
  then show "restores libmpq__compression_decompress_sparse y x"
    by (auto simp: sparse_encodes_def intro!: restoresI sparse_decode_stage)
  from e obtain cap where "libmpq__sparse_compress (Some x) (Some cap) = Inr y" by (auto simp: sparse_encodes_def)
  from sparse_decode_stage [OF this order.refl] show "y \<noteq> []"
    by (auto simp: libmpq__compression_decompress_sparse_def libmpq__sparse_decompress_def)
qed

lemma expand_loop_more: "expand_loop f st = Some r \<Longrightarrow> expand_loop (f + k) st = Some r"
proof (induction f arbitrary: st)
  case (Suc f)
  then show ?case by (auto simp: Let_def split: prod.split_asm if_split_asm)
qed simp

lemma pkzip_more_fuel: "libmpq__pkzip_decompress f info = Some r \<Longrightarrow> libmpq__pkzip_decompress (f + k) info = Some r"
  by (auto simp: libmpq__pkzip_decompress_def expand_def Let_def expand_loop_more
      split: if_split_asm prod.split_asm option.split_asm)

lemma pkzip_decode_stage:
  assumes "pkzip_encodes x y" "length x \<le> length d"
  shows "\<exists>d'. libmpq__compression_decompress_pkzip (\<lambda>_. True) y d = (int (length x), d') \<and>
     length d' = length d \<and> take (length x) d' = x"
proof -
  obtain ts body pad where t: "y = [0, 6] @ body" "bytes_bits body = concat (map token_bits ts) @ pk_terminator @ pad"
      "tokens_ok [] ts" "foldl apply_token [] ts = x" "length ts \<le> length x"
    by (rule compress_tokens [OF assms(1) [unfolded pkzip_encodes_def]])
  let ?F = "8 * length y + 1" and ?info = "fresh_data y d"
  obtain info where i: "libmpq__pkzip_decompress (?F + length x) ?info = Some (LIBMPQ_PKZIP_CMP_NO_ERROR, info)"
      "data_out_pos info = length x" "take (data_out_pos info) (data_out info) = x"
    using decompress_tokens [OF t(2,3), of d "?F + length x"] t(1,4,5) assms(2) by auto
  obtain c info' where i': "libmpq__pkzip_decompress ?F ?info = Some (c, info')" "length (data_out info') = length d"
    using pkzip_decompress_ends [of ?info ?F] by (auto simp: fresh_data_def)
  have "(c, info') = (LIBMPQ_PKZIP_CMP_NO_ERROR, info)"
    using pkzip_more_fuel [OF i'(1), of "length x"] i(1) by simp
  then show ?thesis
    using i i' by (auto simp: libmpq__compression_decompress_pkzip_def fresh_data_def)
qed

interpretation pkzip: lossless_stage pkzip_encodes "libmpq__compression_decompress_pkzip (\<lambda>_. True)"
proof unfold_locales
  fix x y assume e: "pkzip_encodes x y"
  show "restores (libmpq__compression_decompress_pkzip (\<lambda>_. True)) y x"
    using pkzip_decode_stage [OF e] by (auto simp: restores_def)
  show "y \<noteq> []" using compress_tokens [OF e [unfolded pkzip_encodes_def]] by auto
qed

subsection \<open>What the libraries promise\<close>

text \<open>zlib: inflating a finished deflate stream gives the data back; deflate finishes when its output
  has the room that \<^verbatim>\<open>deflateBound\<close> asks for.\<close>

definition zlib_contract :: "codec_libs \<Rightarrow> bool" where
  "zlib_contract libs \<longleftrightarrow> inflateInit libs = Z_OK \<and> inflateEnd libs = Z_OK \<and> deflateInit libs \<le> 0 \<and>
     (\<forall>x room. length x + length x div 100 + 1024 \<le> room \<longrightarrow> fst (deflate libs x room) \<noteq> Z_OK) \<and>
     (\<forall>x room y. deflate libs x room = (Z_STREAM_END, y) \<longrightarrow>
        y \<noteq> [] \<and> (\<forall>n \<ge> length x. inflate libs y n = (Z_STREAM_END, x)))"

text \<open>bzip2: finishing never reports plain success, a finished stream fits the room it was given, and
  decompressing it in one call gives the data back.\<close>

definition bzip2_contract :: "codec_libs \<Rightarrow> bool" where
  "bzip2_contract libs \<longleftrightarrow> bzDecompressInit libs = BZ_OK \<and> bzCompressInit libs \<le> 0 \<and>
     (\<forall>st x room. fst (bzCompress libs st x room) \<noteq> BZ_OK) \<and>
     (\<forall>fuel x room s. bz_finish_loop fuel (bzCompress libs) \<lparr>cs_state = 0, cs_in = x, cs_out = [], cs_room = room\<rparr> =
          Some (BZ_STREAM_END, s) \<longrightarrow>
        cs_out s \<noteq> [] \<and> length (cs_out s) \<le> room \<and>
        (\<forall>n \<ge> length x. \<exists>used st. bzDecompress libs 0 (cs_out s) n = (BZ_STREAM_END, used, x, st)))"

text \<open>liblzma: the properties the encoder writes are five bytes that the decoder accepts within its
  memory limit, and decoding a raw stream that was encoded consumes it and gives the data back.\<close>

definition lzma_contract :: "codec_libs \<Rightarrow> bool" where
  "lzma_contract libs \<longleftrightarrow> length (snd (lzma_properties_encode libs)) = 5 \<and>
     (\<exists>opt. lzma_properties_decode libs (snd (lzma_properties_encode libs)) = (LZMA_OK, opt) \<and>
        lzma_raw_decoder_memusage libs opt \<le> LIBMPQ_LZMA_DECODER_MEMORY_MAX \<and> lzma_raw_decoder libs opt = LZMA_OK \<and>
        (\<forall>x room y. lzma_raw_buffer_encode libs x room = (LZMA_OK, y) \<longrightarrow>
           y \<noteq> [] \<and> length y \<le> room \<and> (\<exists>st. lzma_code libs opt y (length x) = (LZMA_STREAM_END, length y, x, st))))"

lemma zlib_decode_stage:
  assumes "zlib_contract libs" "deflate libs x room = (Z_STREAM_END, y)"
  shows "restores (libmpq__compression_decompress_zlib libs) y x" "y \<noteq> []"
  using assms by (auto simp: zlib_contract_def libmpq__compression_decompress_zlib_def intro!: restoresI)

lemma bzip2_decode_stage:
  assumes "bzip2_contract libs" "length x < 2 ^ 32"
    and "bz_finish_loop fuel (bzCompress libs) \<lparr>cs_state = 0, cs_in = x, cs_out = [], cs_room = room\<rparr> = Some (BZ_STREAM_END, s)"
  shows "restores (libmpq__compression_decompress_bzip2 libs) (cs_out s) x" "cs_out s \<noteq> []" "length (cs_out s) \<le> room"
proof -
  show "cs_out s \<noteq> []" "length (cs_out s) \<le> room" using assms(1,3) by (auto simp: bzip2_contract_def)
  show "restores (libmpq__compression_decompress_bzip2 libs) (cs_out s) x"
  proof (rule restoresI)
    fix d :: "u8 list" assume "length x \<le> length d"
    then obtain used st where "bzDecompress libs 0 (cs_out s) (length d) = (BZ_STREAM_END, used, x, st)"
      using assms(1,3) unfolding bzip2_contract_def by blast
    moreover have "bzDecompressInit libs = BZ_OK" using assms(1) by (simp add: bzip2_contract_def)
    ultimately show "libmpq__compression_decompress_bzip2 libs (cs_out s) d = (int (length x), write_at d 0 x)"
      using assms(2)
      by (simp add: libmpq__compression_decompress_bzip2_def bzip2_loop.simps stream_step_def size32_def)
  qed
qed

lemma bz_finish_status:
  assumes "bz_finish_loop fuel (bzCompress libs) s = Some (status, s')" "bzip2_contract libs"
  shows "status \<noteq> BZ_OK"
  using assms(1)
proof (induction fuel arbitrary: s)
  case (Suc fuel)
  have "fst (stream_step (bzCompress libs) s) \<noteq> BZ_OK"
    using assms(2) by (auto simp: bzip2_contract_def stream_step_def split: prod.split) (metis fst_conv)
  then show ?case using Suc by (auto split: prod.split_asm if_split_asm)
qed simp

text \<open>The decoder for a stage bit.\<close>

definition decoder_of :: "codec_libs \<Rightarrow> (nat \<Rightarrow> bool) \<Rightarrow> u32 \<Rightarrow> decoder" where
  "decoder_of libs alloc code = (case map_of (dcmp_table libs alloc) code of Some dec \<Rightarrow> dec | None \<Rightarrow> (\<lambda>_ d. (0, d)))"

definition lossless_bits :: "u32 set" where
  "lossless_bits = {LIBMPQ_COMPRESSION_SPARSE, LIBMPQ_COMPRESSION_ZLIB, LIBMPQ_COMPRESSION_PKZIP, LIBMPQ_COMPRESSION_BZIP2}"

lemma clip32_id: "length x < 2 ^ 32 \<Longrightarrow> clip32 x = x"
  by (simp add: clip32_def size32_def)

lemma stage_restores:
  assumes "zlib_contract libs" "bzip2_contract libs" "code \<in> lossless_bits" "length x < 2 ^ 31"
    and "compression_stage libs (\<lambda>_. True) fuel x code = Some (Inr y)"
  shows "restores (decoder_of libs (\<lambda>_. True) code) y x \<and> y \<noteq> []"
proof -
  have len: "length x < 2 ^ 32" using assms(4) by simp
  then have clip: "clip32 x = x" "size32 (length x) = length x" by (simp_all add: clip32_id size32_def)
  have room: "size32 (length x + length x div 100 + 1024) = length x + length x div 100 + 1024"
    using assms(4) by (simp add: size32_def)
  consider "code = LIBMPQ_COMPRESSION_SPARSE" | "code = LIBMPQ_COMPRESSION_PKZIP"
    | "code = LIBMPQ_COMPRESSION_ZLIB" | "code = LIBMPQ_COMPRESSION_BZIP2"
    using assms(3) by (auto simp: lossless_bits_def)
  then show ?thesis
  proof cases
    case 1
    then have "sparse_encodes x y"
      using assms(5) clip by (auto simp: compression_stage_def Let_def sparse_encodes_def split: if_split_asm)
    moreover have "decoder_of libs (\<lambda>_. True) code = libmpq__compression_decompress_sparse"
      using 1 by (simp add: decoder_of_def dcmp_table_def compression_bits)
    ultimately show ?thesis using sparse.restores sparse.nonempty by metis
  next
    case 2
    then have "pkzip_encodes x y"
      using assms(5) clip by (simp add: compression_stage_def Let_def pkzip_encodes_def compression_bits)
    moreover have "decoder_of libs (\<lambda>_. True) code = libmpq__compression_decompress_pkzip (\<lambda>_. True)"
      using 2 by (simp add: decoder_of_def dcmp_table_def compression_bits)
    ultimately show ?thesis using pkzip.restores pkzip.nonempty by metis
  next
    case 3
    obtain status out where d: "deflate libs x (length x + length x div 100 + 1024) = (status, out)" by fastforce
    have "fst (deflate libs x (length x + length x div 100 + 1024)) \<noteq> Z_OK" and init: "deflateInit libs \<le> 0"
      using assms(1) unfolding zlib_contract_def by blast+
    then have "status \<noteq> Z_OK" using d by simp
    then have "status = Z_STREAM_END" "y = out"
      using assms(5) 3 clip room d init
      by (auto simp: compression_stage_def Let_def compression_bits stage_out_size_def split: if_split_asm)
    moreover have "decoder_of libs (\<lambda>_. True) code = libmpq__compression_decompress_zlib libs"
      using 3 by (simp add: decoder_of_def dcmp_table_def compression_bits)
    ultimately show ?thesis using zlib_decode_stage [OF assms(1)] d by metis
  next
    case 4
    let ?s = "\<lparr>cs_state = 0, cs_in = x, cs_out = [], cs_room = length x + length x div 100 + 1024\<rparr>"
    have init: "bzCompressInit libs \<le> 0" using assms(2) by (simp add: bzip2_contract_def)
    have "\<exists>s status. bz_finish_loop fuel (bzCompress libs) ?s = Some (status, s) \<and>
        (if status = BZ_STREAM_END then bzCompressEnd libs else status) = BZ_OK \<and>
        y = take (size32 (length (cs_out s))) (cs_out s)"
      using assms(5) 4 clip room init
      by (auto simp: compression_stage_def Let_def compression_bits stage_out_size_def bind_eq_Some_conv split: if_split_asm)
    then obtain s status where s: "bz_finish_loop fuel (bzCompress libs) ?s = Some (status, s)"
        "(if status = BZ_STREAM_END then bzCompressEnd libs else status) = BZ_OK"
        "y = take (size32 (length (cs_out s))) (cs_out s)" by blast
    have "status = BZ_STREAM_END" using s(2) bz_finish_status [OF s(1) assms(2)] by (auto split: if_split_asm)
    note B = bzip2_decode_stage [OF assms(2) len s(1) [unfolded this]]
    have "y = cs_out s" using s(3) B(3) assms(4) by (simp add: size32_def)
    moreover have "decoder_of libs (\<lambda>_. True) code = libmpq__compression_decompress_bzip2 libs"
      using 4 by (simp add: decoder_of_def dcmp_table_def compression_bits)
    ultimately show ?thesis using B by metis
  qed
qed

subsection \<open>Decoding a chain\<close>

text \<open>The decoders of \<open>cs\<close>, applied in this order to \<open>y\<close>, give \<open>x\<close>; every step grows the data.\<close>

fun decodes :: "(u32 \<Rightarrow> decoder) \<Rightarrow> u32 list \<Rightarrow> u8 list \<Rightarrow> u8 list \<Rightarrow> bool" where
  "decodes D [] y x \<longleftrightarrow> y = x"
| "decodes D (c # cs) y x \<longleftrightarrow> (\<exists>z. restores (D c) y z \<and> length y + 2 \<le> length z \<and> decodes D cs z x)"

lemma decodes_append: "decodes D (as @ bs) y x \<longleftrightarrow> (\<exists>z. decodes D as y z \<and> decodes D bs z x)"
  by (induction as arbitrary: y) auto

lemma decodes_length: "decodes D cs y x \<Longrightarrow> length y + 2 * length cs \<le> length x"
  by (induction cs arbitrary: y) force+

definition multi_ok :: "nat \<Rightarrow> nat \<Rightarrow> multi_s \<Rightarrow> bool" where
  "multi_ok L n m \<longleftrightarrow> length (mu_out m) = L \<and>
     (case mu_temp m of None \<Rightarrow> mu_count m + n \<le> 1 | Some t \<Rightarrow> length t = L) \<and>
     (0 < mu_count m \<longrightarrow> mu_in_at m \<noteq> IN_BUF \<and> mu_work m = Some (mu_in_at m) \<and> mu_tb m = int (length (mu_in m)) \<and>
        (mu_in_at m = OUT_BUF \<longrightarrow> take (length (mu_in m)) (mu_out m) = mu_in m))"

text \<open>A stage never reads the buffer it writes.\<close>

lemma multi_no_alias: "mu_in_at m = IN_BUF \<longleftrightarrow> mu_count m = 0 \<Longrightarrow> multi_work_buf m \<noteq> mu_in_at m"
  by (cases "mu_in_at m") (auto simp: multi_work_buf_def)

lemma multi_stage_ok:
  assumes "multi_ok L (Suc n) m" "restores dec (mu_in m) z" "length z \<le> L"
  shows "multi_ok L n (multi_stage dec m)" "mu_in (multi_stage dec m) = z" "0 < mu_count (multi_stage dec m)"
    "mu_tb (multi_stage dec m) = int (length z)"
proof -
  let ?w = "multi_work_buf m"
  let ?dest = "if ?w = OUT_BUF then mu_out m else (case mu_temp m of None \<Rightarrow> [] | Some t \<Rightarrow> t)"
  have w: "?w = OUT_BUF \<or> ?w = TEMP_BUF \<and> mu_temp m \<noteq> None"
    using assms(1) by (auto simp: multi_work_buf_def multi_ok_def split: option.splits)
  then have "length ?dest = L" using assms(1) by (auto simp: multi_ok_def split: option.splits)
  then obtain d where d: "dec (mu_in m) ?dest = (int (length z), d)" "length d = L" "take (length z) d = z"
    using restoresE [OF assms(2), of ?dest] assms(3) by metis
  have st: "multi_stage dec m =
      m\<lparr>mu_out := (if ?w = OUT_BUF then d else mu_out m), mu_temp := (if ?w = OUT_BUF then mu_temp m else Some d),
        mu_tb := int (length z), mu_work := Some ?w, mu_in := z, mu_in_at := ?w, mu_count := mu_count m + 1\<rparr>"
    unfolding multi_stage_def Let_def d(1) using d(3) by simp
  show "multi_ok L n (multi_stage dec m)" "mu_in (multi_stage dec m) = z" "0 < mu_count (multi_stage dec m)"
    "mu_tb (multi_stage dec m) = int (length z)"
    unfolding st using w d(2,3) assms(1) by (auto simp: multi_ok_def split: option.splits)
qed

lemma multi_loop_restores:
  assumes "decodes D (filter (\<lambda>c. flag AND c \<noteq> 0) codes) (mu_in m) x"
    and "multi_ok L (length (filter (\<lambda>c. flag AND c \<noteq> 0) codes)) m" "length x \<le> L"
    and "0 < mu_count m \<or> filter (\<lambda>c. flag AND c \<noteq> 0) codes \<noteq> []"
  shows "multi_ok L 0 (multi_loop flag (map (\<lambda>c. (c, D c)) codes) m) \<and>
     mu_in (multi_loop flag (map (\<lambda>c. (c, D c)) codes) m) = x \<and>
     0 < mu_count (multi_loop flag (map (\<lambda>c. (c, D c)) codes) m)"
  using assms
proof (induction codes arbitrary: m)
  case (Cons c codes)
  show ?case
  proof (cases "flag AND c = 0")
    case True
    then show ?thesis using Cons by simp
  next
    case False
    then obtain z where z: "restores (D c) (mu_in m) z" "decodes D (filter (\<lambda>c. flag AND c \<noteq> 0) codes) z x"
      using Cons.prems(1) by auto
    have "length z \<le> L" using decodes_length [OF z(2)] Cons.prems(3) by simp
    moreover have "multi_ok L (Suc (length (filter (\<lambda>c. flag AND c \<noteq> 0) codes))) m"
      using Cons.prems(2) False by simp
    ultimately have st: "multi_ok L (length (filter (\<lambda>c. flag AND c \<noteq> 0) codes)) (multi_stage (D c) m)"
        "mu_in (multi_stage (D c) m) = z" "0 < mu_count (multi_stage (D c) m)"
        "mu_tb (multi_stage (D c) m) = int (length z)"
      using multi_stage_ok [OF _ z(1)] by blast+
    show ?thesis using Cons.IH [of "multi_stage (D c) m"] st z(2) Cons.prems(3) False by simp
  qed
qed simp

subsection \<open>Stage bits\<close>

lemma dcmp_table_order: "dcmp_table libs alloc = map (\<lambda>c. (c, decoder_of libs alloc c)) (rev sector_masks)"
  by (simp add: dcmp_table_def sector_masks_def decoder_of_def compression_bits)

definition bits_of :: "u32 list \<Rightarrow> u32" where
  "bits_of cs = foldr (OR) cs 0"

lemma masks_disjoint: "c \<in> set sector_masks \<Longrightarrow> d \<in> set sector_masks \<Longrightarrow> c AND d \<noteq> 0 \<longleftrightarrow> c = d"
  by (auto simp: sector_masks_def compression_bits)

lemma bits_of_and: "set cs \<subseteq> set sector_masks \<Longrightarrow> c \<in> set sector_masks \<Longrightarrow> bits_of cs AND c \<noteq> 0 \<longleftrightarrow> c \<in> set cs"
proof (induction cs)
  case (Cons d cs)
  have "bits_of (d # cs) AND c = (d AND c) OR (bits_of cs AND c)"
    by (simp add: bits_of_def and.commute [of _ c] bit.conj_disj_distrib)
  then show ?case using Cons masks_disjoint [of d c] by (auto simp: or_eq_0_iff)
qed (simp add: bits_of_def)

lemma bits_of_append: "bits_of (as @ bs) = bits_of as OR bits_of bs"
  by (induction as) (simp_all add: bits_of_def or.assoc)

lemma bits_of_rev: "bits_of (rev cs) = bits_of cs"
  by (induction cs) (simp_all add: bits_of_append, simp add: bits_of_def or.commute)

lemma mask_ucast: "c \<in> set sector_masks \<Longrightarrow> ucast (ucast c :: u8) = c"
  by (auto simp: sector_masks_def compression_bits)

lemma no_unsupported:
  assumes "set cs \<subseteq> set sector_masks"
  shows "foldl (\<lambda>u (code, dec). u AND NOT code) (bits_of cs)
     (filter (\<lambda>(code, dec). bits_of cs AND code \<noteq> 0) (dcmp_table libs alloc)) = 0"
proof -
  have bits: "bit (foldl (\<lambda>u (code, dec). u AND NOT code) u ps) i \<longleftrightarrow> bit u i \<and> (\<forall>(code, dec) \<in> set ps. \<not> bit code i)"
    if "i < 32" for u :: u32 and ps :: "(u32 \<times> decoder) list" and i
    using that by (induction ps arbitrary: u) (auto simp: bit_and_iff bit_not_iff)
  have src: "bit (bits_of cs) i \<Longrightarrow> \<exists>c \<in> set cs. bit c i" for i
    by (induction cs) (auto simp: bits_of_def bit_or_iff)
  show ?thesis
  proof (rule bit_word_eqI)
    fix i assume i: "i < LENGTH(32)"
    have "c \<in> set cs \<Longrightarrow> (c, decoder_of libs alloc c) \<in> set (filter (\<lambda>(code, dec). bits_of cs AND code \<noteq> 0) (dcmp_table libs alloc))" for c
      using assms bits_of_and [OF assms, of c] unfolding dcmp_table_order by auto
    then show "bit (foldl (\<lambda>u (code, dec). u AND NOT code) (bits_of cs)
        (filter (\<lambda>(code, dec). bits_of cs AND code \<noteq> 0) (dcmp_table libs alloc))) i = bit 0 i"
      using bits [of i "bits_of cs"] src [of i] i by fastforce
  qed
qed

lemma multi_restores:
  assumes cs: "set cs \<subseteq> set sector_masks" "cs \<noteq> []" "cs = filter (\<lambda>c. bits_of cs AND c \<noteq> 0) (rev sector_masks)"
    and dec: "decodes (decoder_of libs (\<lambda>_. True)) cs y x" "length x = length out"
    and b: "(ucast b :: u32) = bits_of cs"
    and lz: "fv < LIBMPQ_ARCHIVE_VERSION_TWO \<or> bits_of cs \<noteq> LIBMPQ_COMPRESSION_LZMA_METHOD"
  shows "libmpq__compression_decompress_multi libs (\<lambda>_. True) fuel (Some (b # y)) (Some out) fv =
     Some (int (length x), x)"
proof -
  let ?T = "dcmp_table libs (\<lambda>_. True)" and ?f = "bits_of cs" and ?D = "decoder_of libs (\<lambda>_. True)"
  have stages: "length (filter (\<lambda>(code, dec). ?f AND code \<noteq> 0) ?T) = length cs"
    using arg_cong [OF cs(3), of length] unfolding dcmp_table_order by (simp add: filter_map comp_def)
  let ?m = "\<lparr>mu_in = y, mu_in_at = IN_BUF, mu_out = out,
      mu_temp = (if length cs > 1 then Some (replicate (length out) 0) else None),
      mu_work = None, mu_tb = 0, mu_count = 0\<rparr>"
  let ?r = "multi_loop ?f ?T ?m"
  have R: "multi_ok (length out) 0 ?r" "mu_in ?r = x" "0 < mu_count ?r"
    unfolding dcmp_table_order
    using multi_loop_restores [of ?D ?f "rev sector_masks" ?m x "length out", folded cs(3)] dec cs(2)
    by (auto simp: multi_ok_def)
  have res: "mu_tb ?r = int (length x)" "mu_work ?r = Some (mu_in_at ?r)" "length (mu_out ?r) = length out"
      "mu_in_at ?r = OUT_BUF \<Longrightarrow> mu_out ?r = x"
    using R dec(2) by (auto simp: multi_ok_def)
  have fin: "(if mu_work ?r \<noteq> Some OUT_BUF then write_at (mu_out ?r) 0 (take (nat (mu_tb ?r)) (mu_in ?r)) else mu_out ?r) = x"
    using res R(2) dec(2) by (cases "mu_in_at ?r") (auto simp: write_at_full)
  have one: "libmpq__compression_decompress_multi libs (\<lambda>_. True) fuel (Some (b # y)) (Some out) fv =
      (if mu_tb ?r < 0 then Some (mu_tb ?r, mu_out ?r)
       else if mu_work ?r \<noteq> Some OUT_BUF then Some (mu_tb ?r, write_at (mu_out ?r) 0 (take (nat (mu_tb ?r)) (mu_in ?r)))
       else Some (mu_tb ?r, mu_out ?r))"
    using lz no_unsupported [OF cs(1), of libs "\<lambda>_. True"]
    unfolding libmpq__compression_decompress_multi_def option.case prod.case list.case b Let_def stages by auto
  show ?thesis unfolding one using fin res(1) by (simp split: if_split_asm)
qed

subsection \<open>The sector encoder\<close>

text \<open>The stages the loop kept, last one first, lead back to its input.\<close>

lemma sector_loop_decodes:
  assumes "zlib_contract libs" "bzip2_contract libs" "length x < 2 ^ 31"
    and "\<And>c. c \<in> set codes \<Longrightarrow> requested AND c \<noteq> 0 \<Longrightarrow> c \<in> lossless_bits" "set codes \<subseteq> set sector_masks"
    and "sector_loop libs (\<lambda>_. True) fuel requested codes (x, em) = Some (Inr (y, em'))"
  shows "\<exists>cs. set cs \<subseteq> set (filter (\<lambda>c. requested AND c \<noteq> 0) codes) \<and> subseq cs codes \<and>
     ucast em' = (ucast em OR bits_of cs :: u32) \<and> decodes (decoder_of libs (\<lambda>_. True)) (rev cs) y x"
  using assms(3-6)
proof (induction codes arbitrary: x em)
  case Nil
  then show ?case by (intro exI [of _ "[]"]) (simp add: bits_of_def)
next
  case (Cons c codes)
  show ?case
  proof (cases "requested AND c = 0")
    case True
    then obtain cs where "set cs \<subseteq> set (filter (\<lambda>c. requested AND c \<noteq> 0) codes)" "subseq cs codes"
        "ucast em' = (ucast em OR bits_of cs :: u32)" "decodes (decoder_of libs (\<lambda>_. True)) (rev cs) y x"
      using Cons.IH [of x em] Cons.prems by auto
    then show ?thesis using True by (intro exI [of _ cs]) (auto intro: subseq_Cons')
  next
    case False
    then obtain r where r: "compression_stage libs (\<lambda>_. True) fuel x c = Some r"
      using Cons.prems(4) by (auto simp: sector_step_def Let_def bind_eq_Some_conv)
    let ?keep = "\<exists>out. r = Inr out \<and> length out \<le> length x - (if length x \<ge> 2 then 2 else length x)"
    show ?thesis
    proof (cases ?keep)
      case False': False
      then have "sector_loop libs (\<lambda>_. True) fuel requested codes (x, em) = Some (Inr (y, em'))"
        using Cons.prems(4) False r by (auto simp: sector_step_def Let_def split: sum.split_asm if_split_asm)
      then obtain cs where "set cs \<subseteq> set (filter (\<lambda>c. requested AND c \<noteq> 0) codes)" "subseq cs codes"
          "ucast em' = (ucast em OR bits_of cs :: u32)" "decodes (decoder_of libs (\<lambda>_. True)) (rev cs) y x"
        using Cons.IH [of x em] Cons.prems by auto
      then show ?thesis by (intro exI [of _ cs]) (auto intro: subseq_Cons')
    next
      case True
      then obtain out where out: "r = Inr out" "length out \<le> length x - (if length x \<ge> 2 then 2 else length x)" by blast
      have c: "c \<in> lossless_bits" "c \<in> set sector_masks" using Cons.prems(2,3) False by auto
      have st: "restores (decoder_of libs (\<lambda>_. True) c) out x" "out \<noteq> []"
        using stage_restores [OF assms(1,2) c(1) Cons.prems(1)] r out(1) by auto
      have shrink: "length out + 2 \<le> length x" using out(2) st(2) by (cases out) (auto split: if_split_asm)
      have "sector_loop libs (\<lambda>_. True) fuel requested codes (out, em OR ucast c) = Some (Inr (y, em'))"
        using Cons.prems(4) False r out by (simp add: sector_step_def Let_def)
      then obtain cs where cs: "set cs \<subseteq> set (filter (\<lambda>c. requested AND c \<noteq> 0) codes)" "subseq cs codes"
          "ucast em' = (ucast (em OR ucast c) OR bits_of cs :: u32)" "decodes (decoder_of libs (\<lambda>_. True)) (rev cs) y out"
        using Cons.IH [of out "em OR ucast c"] Cons.prems shrink by auto
      have "ucast (em OR ucast c) = (ucast em OR c :: u32)"
        using mask_ucast [OF c(2)] by (simp add: unsigned_or_eq)
      then have "ucast em' = (ucast em OR bits_of (c # cs) :: u32)"
        using cs(3) by (simp add: bits_of_def or.assoc)
      then show ?thesis using cs False st shrink
        by (intro exI [of _ "c # cs"]) (auto simp: decodes_append)
    qed
  qed
qed

lemma subseq_masks:
  assumes "subseq cs sector_masks" shows "cs = filter (\<lambda>c. bits_of cs AND c \<noteq> 0) sector_masks"
proof -
  obtain N where N: "cs = nths sector_masks N" using assms by (auto simp: subseq_conv_nths)
  have "distinct sector_masks" by (simp add: sector_masks_def compression_bits)
  then have "filter (\<lambda>c. c \<in> set cs) sector_masks = cs" unfolding N by (rule filter_in_nths)
  moreover have "filter (\<lambda>c. bits_of cs AND c \<noteq> 0) sector_masks = filter (\<lambda>c. c \<in> set cs) sector_masks"
    using bits_of_and [of cs] N set_nths_subset [of sector_masks N] by (intro filter_cong) auto
  ultimately show ?thesis by simp
qed

lemma allowed_not_lzma_method:
  assumes "libmpq__compression_allowed fv m policy"
  shows "fv < LIBMPQ_ARCHIVE_VERSION_TWO \<or> m \<noteq> LIBMPQ_COMPRESSION_LZMA_METHOD"
  using assms by (auto simp: libmpq__compression_allowed_def compression_bits not_le split: if_split_asm)

lemma block_raw:
  "length input = length out \<Longrightarrow>
   libmpq__compression_decompress_block libs alloc fuel input out LIBMPQ_FLAG_COMPRESS_MULTI fv = Some (int (length input), input)"
  by (simp add: libmpq__compression_decompress_block_def LIBMPQ_FLAG_COMPRESS_MULTI_def
      LIBMPQ_FLAG_COMPRESS_NONE_def LIBMPQ_FLAG_COMPRESS_PKZIP_def)

lemma encode_sectorE:
  assumes "libmpq__compression_encode_sector libs alloc fuel input requested format_version policy = Some (Inr (out, m))"
    and "requested \<noteq> LIBMPQ_COMPRESSION_LZMA"
  obtains y em where "libmpq__compression_allowed format_version requested policy"
    "sector_loop libs alloc fuel requested sector_masks (input, 0) = Some (Inr (y, em))"
    "sector_finish alloc format_version policy input (y, em) = Inr (out, m)"
proof -
  obtain r where r: "libmpq__compression_allowed format_version requested policy"
      "sector_loop libs alloc fuel requested sector_masks (input, 0) = Some r"
      "(case r of Inl e \<Rightarrow> Inl e | Inr st \<Rightarrow> sector_finish alloc format_version policy input st) = Inr (out, m)"
    using assms unfolding libmpq__compression_encode_sector_def
    by (auto simp: bind_eq_Some_conv simp del: sum.case split: if_split_asm)
  then show ?thesis using that by (cases r) auto
qed

lemma sector_loop_mask:
  assumes "sector_loop libs alloc fuel requested codes (x, em) = Some (Inr (y, em'))" "set codes \<subseteq> set sector_masks"
  shows "length y \<le> length x \<and> (\<exists>cs. set cs \<subseteq> set (filter (\<lambda>c. requested AND c \<noteq> 0) codes) \<and>
     ucast em' = (ucast em OR bits_of cs :: u32))"
  using assms
proof (induction codes arbitrary: x em)
  case Nil
  then show ?case by (intro conjI exI [of _ "[]"]) (simp_all add: bits_of_def)
next
  case (Cons c codes)
  show ?case
  proof (cases "requested AND c = 0")
    case True
    then show ?thesis using Cons by auto
  next
    case False
    then obtain r where r: "sector_step libs alloc fuel c (x, em) = Some r"
        "(case r of Inl e \<Rightarrow> Some (Inl e) | Inr st \<Rightarrow> sector_loop libs alloc fuel requested codes st) = Some (Inr (y, em'))"
      using Cons.prems(1) by (auto simp: bind_eq_Some_conv simp del: sum.case)
    then obtain x1 em1 where s: "sector_step libs alloc fuel c (x, em) = Some (Inr (x1, em1))"
        "sector_loop libs alloc fuel requested codes (x1, em1) = Some (Inr (y, em'))"
      by (cases r) auto
    from s(1) have x1: "length x1 \<le> length x" "x1 = x \<and> em1 = em \<or> em1 = em OR ucast c"
      by (auto simp: sector_step_def Let_def bind_eq_Some_conv split: if_split_asm sum.split_asm)
    obtain cs where cs: "length y \<le> length x1" "set cs \<subseteq> set (filter (\<lambda>c. requested AND c \<noteq> 0) codes)"
        "ucast em' = (ucast em1 OR bits_of cs :: u32)"
      using Cons.IH [OF s(2)] Cons.prems(2) by auto
    show ?thesis
    proof (cases "em1 = em")
      case True
      then show ?thesis using cs x1 by (intro conjI exI [of _ cs]) auto
    next
      case em1: False
      have "ucast (em OR ucast c) = (ucast em OR c :: u32)"
        using mask_ucast [of c] Cons.prems(2) by (simp add: unsigned_or_eq)
      then have "ucast em' = (ucast em OR bits_of (c # cs) :: u32)"
        using cs(3) x1(2) em1 by (auto simp: bits_of_def or.assoc)
      then show ?thesis using cs x1 False by (intro conjI exI [of _ "c # cs"]) auto
    qed
  qed
qed

lemma mask_exp: "c \<in> set sector_masks \<Longrightarrow> \<exists>k. c = 2 ^ k"
proof -
  have "(\<forall>c \<in> set sector_masks. c \<in> (\<lambda>k. 2 ^ k) ` {0, 1, 3, 4, 5, 6, 7 :: nat})"
    by (simp add: sector_masks_def compression_bits)
  then show "c \<in> set sector_masks \<Longrightarrow> \<exists>k. c = 2 ^ k" by blast
qed

lemma bits_of_requested:
  assumes "set cs \<subseteq> set (filter (\<lambda>c. requested AND c \<noteq> 0) sector_masks)"
  shows "bits_of cs AND NOT requested = 0"
  using assms
proof (induction cs)
  case (Cons c cs)
  then obtain k where k: "c = 2 ^ k" "requested AND 2 ^ k \<noteq> 0" using mask_exp by fastforce
  have "c AND NOT requested = 0"
    using k(2) unfolding k(1) by (intro bit_word_eqI) (auto simp: bit_and_iff bit_not_iff bit_exp_iff and_exp_eq_0_iff_not_bit)
  then show ?case using Cons by (simp add: bits_of_def and.commute [of _ "NOT requested"] bit.conj_disj_distrib)
qed (simp add: bits_of_def)


subsection \<open>Concrete libraries\<close>

text \<open>A library record that satisfies the three contracts: zlib and bzip2 store data behind a marker
  byte, and LZMA counts zeros.\<close>

definition stored_libs :: codec_libs where
  "stored_libs =
     \<lparr>inflateInit = Z_OK,
      inflate = (\<lambda>y n. if length (tl y) \<le> n then (Z_STREAM_END, tl y) else (-5, [])),
      inflateEnd = Z_OK, deflateInit = Z_OK, deflate = (\<lambda>x n. (Z_STREAM_END, 0 # x)), deflateEnd = Z_OK,
      bzDecompressInit = BZ_OK,
      bzDecompress = (\<lambda>st y n. if length (tl y) \<le> n then (BZ_STREAM_END, length y, tl y, 0) else (-5, 0, [], 0)),
      bzCompressInit = BZ_OK,
      bzCompress = (\<lambda>st x n. if length x < n then (BZ_STREAM_END, length x, 0 # x, 0) else (-1, 0, [], 0)),
      bzCompressEnd = BZ_OK,
      lzma_properties_decode = (\<lambda>p. (LZMA_OK, 0)), lzma_raw_decoder_memusage = (\<lambda>opt. 1024),
      lzma_raw_decoder = (\<lambda>opt. LZMA_OK),
      lzma_code = (\<lambda>st y n. (LZMA_STREAM_END, length y, replicate (unat (hd y)) 0, 0)),
      lzma_lzma_preset = False, lzma_properties_size = (LZMA_OK, 5),
      lzma_properties_encode = (LZMA_OK, [0x5D, 0, 0, 0x10, 0]),
      lzma_raw_buffer_encode = (\<lambda>x n. if x = replicate (length x) 0 \<and> length x < 256 \<and> 0 < n
        then (LZMA_OK, [of_nat (length x)]) else (LZMA_BUF_ERROR, [])),
      huffman_decode = (\<lambda>s n. (-12, [])), huffman_encode = (\<lambda>x n. Inl ERROR_SIZE)\<rparr>"

lemma stored_contracts: "zlib_contract stored_libs" "bzip2_contract stored_libs"
proof -
  show "zlib_contract stored_libs" by (simp add: zlib_contract_def stored_libs_def)
  have fin: "cs_out s = 0 # x \<and> Suc (length x) \<le> room"
    if "bz_finish_loop fuel (bzCompress stored_libs) \<lparr>cs_state = 0, cs_in = x, cs_out = [], cs_room = room\<rparr> =
        Some (BZ_STREAM_END, s)" for fuel x room s
    using that by (cases fuel) (auto simp: stored_libs_def stream_step_def split: if_split_asm)
  have dec: "bzDecompress stored_libs 0 (0 # x) n = (BZ_STREAM_END, Suc (length x), x, 0)" if "length x \<le> n" for x n
    using that by (simp add: stored_libs_def)
  show "bzip2_contract stored_libs"
    unfolding bzip2_contract_def
    by (intro conjI allI impI) (use fin dec in \<open>auto simp: stored_libs_def split: if_split_asm\<close>)
qed

lemma stored_lzma_contract: "lzma_contract stored_libs"
proof -
  have "unat (of_nat (length x) :: u8) = length x" if "length x < 256" for x :: "u8 list"
    using that by (simp add: unat_of_nat)
  then show ?thesis
    unfolding lzma_contract_def by (auto simp: stored_libs_def LIBMPQ_LZMA_DECODER_MEMORY_MAX_def split: if_split_asm)
qed

lemma sector_example:
  "libmpq__compression_encode_sector stored_libs (\<lambda>_. True) 1 [0, 0, 0, 0, 0, 0, 0, 0, 0, 0] LIBMPQ_COMPRESSION_SPARSE 0 0 =
     Some (Inr ([0x20, 0, 0, 0, 10, 7], 0x20))"
proof -
  have "libmpq__sparse_compress (Some [0, 0, 0, 0, 0, 0, 0, 0, 0, 0]) (Some 8) = Inr [0, 0, 0, 10, 7]"
    by (simp add: libmpq__sparse_compress_def INT32_MAX_def be32_bytes_def le32_bytes_def
        sparse_compress_loop.simps sparse_zero_run.simps sparse_literal_run.simps Let_def)
  then have stage: "compression_stage stored_libs (\<lambda>_. True) 1 [0, 0, 0, 0, 0, 0, 0, 0, 0, 0] LIBMPQ_COMPRESSION_SPARSE =
      Some (Inr [0, 0, 0, 10, 7])"
    by (simp add: compression_stage_def Let_def stage_out_size_def INT32_MAX_def clip32_def size32_def compression_bits)
  have step: "sector_step stored_libs (\<lambda>_. True) 1 LIBMPQ_COMPRESSION_SPARSE ([0, 0, 0, 0, 0, 0, 0, 0, 0, 0], 0) =
      Some (Inr ([0, 0, 0, 10, 7], 0x20))"
    unfolding sector_step_def prod.case Let_def stage by (simp add: compression_bits)
  have "sector_loop stored_libs (\<lambda>_. True) 1 LIBMPQ_COMPRESSION_SPARSE sector_masks ([0, 0, 0, 0, 0, 0, 0, 0, 0, 0], 0) =
      Some (Inr ([0, 0, 0, 10, 7], 0x20))"
    using step by (simp add: sector_masks_def compression_bits)
  then show ?thesis
    by (simp add: libmpq__compression_encode_sector_def sector_finish_def libmpq__compression_allowed_def Let_def
        compression_bits LIBMPQ_ARCHIVE_VERSION_TWO_def LIBMPQ_COMPRESSION_POLICY_STANDARD_def)
qed

lemma encode_sector_decodes:
  assumes "zlib_contract libs" "bzip2_contract libs" "\<And>n. alloc n" "length input < 2 ^ 31"
    and "requested AND (LIBMPQ_COMPRESSION_HUFFMAN OR LIBMPQ_COMPRESSION_WAVE_MONO OR
        LIBMPQ_COMPRESSION_WAVE_STEREO OR LIBMPQ_COMPRESSION_LZMA) = 0"
    and "libmpq__compression_encode_sector libs alloc fuel input requested format_version policy = Some (Inr (out, m))"
    and "length room = length input"
  shows "libmpq__compression_decompress_block libs alloc fuel' out room LIBMPQ_FLAG_COMPRESS_MULTI format_version =
       Some (int (length input), input) \<and>
     length out \<le> length input \<and> (m = 0 \<longrightarrow> out = input) \<and> (m \<noteq> 0 \<longrightarrow> hd out = m)"
proof -
  have alloc: "alloc = (\<lambda>_. True)" using assms(3) by blast
  have req: "c \<in> lossless_bits" if "c \<in> set sector_masks" "requested AND c \<noteq> 0" for c
  proof -
    have "c AND (requested AND (LIBMPQ_COMPRESSION_HUFFMAN OR LIBMPQ_COMPRESSION_WAVE_MONO OR
        LIBMPQ_COMPRESSION_WAVE_STEREO OR LIBMPQ_COMPRESSION_LZMA)) = 0" using assms(5) by simp
    then have "requested AND (c AND (LIBMPQ_COMPRESSION_HUFFMAN OR LIBMPQ_COMPRESSION_WAVE_MONO OR
        LIBMPQ_COMPRESSION_WAVE_STEREO OR LIBMPQ_COMPRESSION_LZMA)) = 0"
      by (simp only: and.left_commute)
    then show ?thesis using that by (auto simp: sector_masks_def lossless_bits_def compression_bits)
  qed
  have nl: "requested \<noteq> LIBMPQ_COMPRESSION_LZMA" using assms(5) by (auto simp: compression_bits)
  obtain y em where loop: "sector_loop libs alloc fuel requested sector_masks (input, 0) = Some (Inr (y, em))"
      and fin: "sector_finish alloc format_version policy input (y, em) = Inr (out, m)"
    by (rule encode_sectorE [OF assms(6) nl])
  obtain cs where cs: "set cs \<subseteq> set sector_masks" "subseq cs sector_masks" "(ucast em :: u32) = bits_of cs"
      "decodes (decoder_of libs (\<lambda>_. True)) (rev cs) y input"
    using sector_loop_decodes [OF assms(1,2,4) req subset_refl loop [unfolded alloc]] by auto
  have shrink: "length y + 2 * length cs \<le> length input" using decodes_length [OF cs(4)] by simp
  show ?thesis
  proof (cases "cs = []")
    case True
    then have z: "(ucast em :: u32) = 0" "y = input" using cs(3,4) by (simp_all add: bits_of_def)
    have "unat em = unat (ucast em :: u32)" by simp
    then have "em = 0" unfolding z(1) by (simp add: unat_eq_0)
    note z = this z(2)
    then have "out = input \<and> m = 0" using fin z by (auto simp: sector_finish_def Let_def split: if_split_asm)
    then show ?thesis using block_raw [of input room] assms(7) by simp
  next
    case False
    then have em: "em \<noteq> 0" using bits_of_and [OF cs(1), of "hd cs"] cs(1,3) by (cases cs) auto
    show ?thesis
    proof (cases "libmpq__compression_allowed format_version (ucast em) policy")
      case no: False
      then have "out = input \<and> m = 0" using fin by (auto simp: sector_finish_def Let_def split: if_split_asm)
      then show ?thesis using block_raw [of input room] assms(7) by simp
    next
      case yes: True
      have small: "length y + 1 < length input" using shrink False by (cases cs) auto
      have out: "out = em # y" "m = em" using fin em yes small by (auto simp: sector_finish_def Let_def split: if_split_asm)
      have "libmpq__compression_decompress_multi libs (\<lambda>_. True) fuel' (Some (em # y)) (Some room) format_version =
          Some (int (length input), input)"
      proof (rule multi_restores [of "rev cs"])
        show "rev cs = filter (\<lambda>c. bits_of (rev cs) AND c \<noteq> 0) (rev sector_masks)"
          using subseq_masks [OF cs(2)] by (simp add: bits_of_rev rev_filter [symmetric])
      qed (use cs False assms(7) allowed_not_lzma_method [OF yes] in \<open>auto simp: bits_of_rev\<close>)
      then show ?thesis
        using out small assms(7) em
        by (simp add: alloc libmpq__compression_decompress_block_def LIBMPQ_FLAG_COMPRESS_MULTI_def
            LIBMPQ_FLAG_COMPRESS_NONE_def LIBMPQ_FLAG_COMPRESS_PKZIP_def)
    qed
  qed
qed

text \<open>C4: Encoding a sector and decoding the block gives the sector back. For any combination of the
  lossless stages SPARSE, zlib, PKWARE and bzip2, any archive version and policy: if the encoder
  succeeds, its output is no longer than the input, and the block decoder, given a buffer of the
  declared size, reports that size and has written the input. The libraries enter through their
  contracts; mask 0 means the sector is stored as it is.\<close>
theorem sector_roundtrip:
  assumes "zlib_contract libs" "bzip2_contract libs" "\<And>n. alloc n" "length input < 2 ^ 31"
    and "requested AND (LIBMPQ_COMPRESSION_HUFFMAN OR LIBMPQ_COMPRESSION_WAVE_MONO OR
        LIBMPQ_COMPRESSION_WAVE_STEREO OR LIBMPQ_COMPRESSION_LZMA) = 0"
    and "libmpq__compression_encode_sector libs alloc fuel input requested format_version policy = Some (Inr (out, m))"
    and "length room = length input"
  shows "libmpq__compression_decompress_block libs alloc fuel' out room LIBMPQ_FLAG_COMPRESS_MULTI format_version =
       Some (int (length input), input) \<and>
     length out \<le> length input \<and> (m = 0 \<longrightarrow> out = input) \<and> (m \<noteq> 0 \<longrightarrow> hd out = m)"
  using assms by (rule encode_sector_decodes)

theorem sector_roundtrip_witness:
  "libmpq__compression_decompress_block stored_libs (\<lambda>_. True) 0 [0x20, 0, 0, 0, 10, 7] (replicate 10 9)
     LIBMPQ_FLAG_COMPRESS_MULTI 0 = Some (10, [0, 0, 0, 0, 0, 0, 0, 0, 0, 0])"
  using sector_roundtrip [OF stored_contracts _ _ _ sector_example, of "replicate 10 9" 0]
  by (simp add: compression_bits)

text \<open>C21: The same for the LZMA method of version 2 archives: the framing that the encoder writes (method
  byte, filter byte, five property bytes, the size, the raw stream) is what the decoder takes apart,
  and the decoder accepts the stream exactly because all of it was consumed and all of the sector was
  produced.\<close>
theorem lzma_sector_roundtrip:
  assumes "lzma_contract libs" "length input \<le> INT32_MAX" "length room = length input"
    and "libmpq__compression_encode_sector libs alloc fuel input LIBMPQ_COMPRESSION_LZMA format_version policy =
      Some (Inr (out, m))"
  shows "libmpq__compression_decompress_block libs alloc' (Suc fuel') out room LIBMPQ_FLAG_COMPRESS_MULTI format_version =
       Some (int (length input), input) \<and> (m = 0 \<longrightarrow> out = input)"
proof -
  have fv: "LIBMPQ_ARCHIVE_VERSION_TWO \<le> format_version" and enc: "encode_lzma libs alloc input = Inr (out, m)"
    using assms(4) by (auto simp: libmpq__compression_encode_sector_def libmpq__compression_allowed_def split: if_split_asm)
  show ?thesis
  proof (cases "out = input")
    case True
    then show ?thesis using block_raw [of input room] assms(3) by simp
  next
    case False
    let ?cap = "length input - LIBMPQ_LZMA_TOTAL_OVERHEAD - 1"
    obtain y where y: "lzma_raw_buffer_encode libs input ?cap = (LZMA_OK, y)" "15 < length input" "m \<noteq> 0"
        "out = [0x12, 0] @ snd (lzma_properties_encode libs) @ le64_bytes (of_nat (length input)) @ y"
      using enc False by (auto simp: encode_lzma_def copy_raw_def Let_def LIBMPQ_LZMA_TOTAL_OVERHEAD_def
          LIBMPQ_LZMA_USE_FILTER_def compression_bits split: if_split_asm prod.split_asm)
    let ?p = "snd (lzma_properties_encode libs)" and ?sz = "le64_bytes (of_nat (length input))"
    obtain opt where c: "length ?p = 5" "lzma_properties_decode libs ?p = (LZMA_OK, opt)"
        "lzma_raw_decoder_memusage libs opt \<le> LIBMPQ_LZMA_DECODER_MEMORY_MAX" "lzma_raw_decoder libs opt = LZMA_OK"
        "y \<noteq> []" "length y \<le> ?cap" "\<exists>st. lzma_code libs opt y (length input) = (LZMA_STREAM_END, length y, input, st)"
      using assms(1) y(1) unfolding lzma_contract_def by blast
    then obtain st where st: "lzma_code libs opt y (length input) = (LZMA_STREAM_END, length y, input, st)" by blast
    have body: "length (0 # ?p @ ?sz @ y) = 14 + length y" "take 5 (drop 1 (0 # ?p @ ?sz @ y)) = ?p"
        "drop 14 (0 # ?p @ ?sz @ y) = y"
      using c(1) by (simp_all add: length_scalar_bytes)
    have "decompress_lzma libs (Suc fuel') (0 # ?p @ ?sz @ y) room = Some (int (length input), input)"
      using c(2-5) st assms(2,3) body
      by (simp add: decompress_lzma_def LIBMPQ_LZMA_HEADER_SIZE_def LIBMPQ_LZMA_USE_FILTER_def LIBMPQ_LZMA_PROPERTIES_SIZE_def
          LIBMPQ_LZMA_DECODER_MEMORY_MAX_def stream_step_def write_at_full)
    moreover have "15 + length y < length input" using c(6) y(2) by (simp add: LIBMPQ_LZMA_TOTAL_OVERHEAD_def)
    ultimately show ?thesis
      using fv y c(1) assms(3)
      by (simp add: libmpq__compression_decompress_block_def libmpq__compression_decompress_multi_def Let_def
          LIBMPQ_FLAG_COMPRESS_MULTI_def LIBMPQ_FLAG_COMPRESS_NONE_def LIBMPQ_FLAG_COMPRESS_PKZIP_def
          length_scalar_bytes LIBMPQ_LZMA_TOTAL_OVERHEAD_def compression_bits)
  qed
qed

theorem lzma_sector_roundtrip_witness:
  "libmpq__compression_decompress_block stored_libs (\<lambda>_. True) 1
     ([0x12, 0, 0x5D, 0, 0, 0x10, 0, 17, 0, 0, 0, 0, 0, 0, 0, 17]) (replicate 17 9) LIBMPQ_FLAG_COMPRESS_MULTI 1 =
     Some (17, replicate 17 0)"
proof -
  have "libmpq__compression_encode_sector stored_libs (\<lambda>_. True) 1 (replicate 17 0) LIBMPQ_COMPRESSION_LZMA 1 1 =
      Some (Inr ([0x12, 0, 0x5D, 0, 0, 0x10, 0, 17, 0, 0, 0, 0, 0, 0, 0, 17], 0x12))"
    by (simp add: libmpq__compression_encode_sector_def libmpq__compression_allowed_def encode_lzma_def stored_libs_def
        compression_bits LIBMPQ_ARCHIVE_VERSION_TWO_def LIBMPQ_COMPRESSION_POLICY_STANDARD_def LIBMPQ_LZMA_USE_FILTER_def
        LIBMPQ_COMPRESSION_POLICY_EXTENDED_def LIBMPQ_LZMA_TOTAL_OVERHEAD_def LIBMPQ_LZMA_PROPERTIES_SIZE_def
        le64_bytes_def le32_bytes_def)
  from lzma_sector_roundtrip [OF stored_lzma_contract _ _ this, of "replicate 17 9" "\<lambda>_. True" 0]
  show ?thesis by (simp add: INT32_MAX_def)
qed

lemma encode_sector_mask:
  assumes "libmpq__compression_encode_sector libs alloc fuel input requested format_version policy = Some (Inr (out, m))"
    and "requested \<noteq> LIBMPQ_COMPRESSION_LZMA"
  shows "ucast m AND NOT requested = 0 \<and> libmpq__compression_allowed format_version (ucast m) policy \<and>
     length out \<le> length input \<and> (m \<noteq> 0 \<longrightarrow> length out < length input \<and> hd out = m)"
proof -
  obtain y em where ok: "libmpq__compression_allowed format_version requested policy"
      and loop: "sector_loop libs alloc fuel requested sector_masks (input, 0) = Some (Inr (y, em))"
      and fin: "sector_finish alloc format_version policy input (y, em) = Inr (out, m)"
    by (rule encode_sectorE [OF assms])
  then have zero: "libmpq__compression_allowed format_version 0 policy"
    by (auto simp: libmpq__compression_allowed_def compression_bits split: if_split_asm)
  obtain cs where cs: "length y \<le> length input" "set cs \<subseteq> set (filter (\<lambda>c. requested AND c \<noteq> 0) sector_masks)"
      "(ucast em :: u32) = bits_of cs"
    using sector_loop_mask [OF loop] by auto
  then have "(ucast em :: u32) AND NOT requested = 0" using bits_of_requested by simp
  then show ?thesis
    using fin zero cs(1) by (auto simp: sector_finish_def Let_def split: if_split_asm)
qed



text \<open>A PKWARE block decodes to exactly its declared size or the decoder reports an error; it always
  returns, whatever the input bytes.\<close>
theorem pkware_block_exact:
  "\<exists>r out'. libmpq__compression_decompress_block libs alloc fuel input out LIBMPQ_FLAG_COMPRESS_PKZIP format_version =
     Some (r, out') \<and> (r < 0 \<or> r = int (length out)) \<and> length out' = length out"
proof -
  let ?info = "\<lparr>data_in = input, data_in_pos = 0, data_out = out, data_out_pos = 0, max_out = length out\<rparr>"
  obtain c info where "libmpq__pkzip_decompress (8 * length input + 1) ?info = Some (c, info)"
      "length (data_out info) = length out"
    using pkzip_decompress_ends [of ?info "8 * length input + 1"] by auto
  then show ?thesis
    by (auto simp: libmpq__compression_decompress_block_def libmpq__compression_decompress_pkzip_def Let_def
        LIBMPQ_FLAG_COMPRESS_NONE_def LIBMPQ_FLAG_COMPRESS_PKZIP_def)
qed

text \<open>C39: the zlib adapter returns the status of \<^verbatim>\<open>inflate\<close> as if it were a byte count. A stream that asks
  for a preset dictionary makes it report two decoded bytes, although none was written.\<close>

theorem zlib_need_dict_counted:
  assumes "inflateInit libs = Z_OK" "inflate libs input (length out) = (Z_NEED_DICT, [])" "length input + 1 < length out"
  shows "libmpq__compression_decompress_block libs alloc fuel (2 # input) out LIBMPQ_FLAG_COMPRESS_MULTI format_version =
     Some (2, out)"
  using assms
  by (simp add: libmpq__compression_decompress_block_def libmpq__compression_decompress_multi_def Let_def
      libmpq__compression_decompress_zlib_def multi_stage_def multi_work_buf_def dcmp_table_def compression_bits
      LIBMPQ_FLAG_COMPRESS_NONE_def LIBMPQ_FLAG_COMPRESS_PKZIP_def LIBMPQ_FLAG_COMPRESS_MULTI_def)

theorem zlib_need_dict_counted_witness:
  "libmpq__compression_decompress_block (stored_libs\<lparr>inflate := (\<lambda>y n. (Z_NEED_DICT, []))\<rparr>) (\<lambda>_. True) 0
     [2, 0x78, 0x20] [9, 9, 9, 9] LIBMPQ_FLAG_COMPRESS_MULTI 0 = Some (2, [9, 9, 9, 9])"
  by (rule zlib_need_dict_counted) (simp_all add: stored_libs_def)

end
