(* ===== verification/Mpq_Archive.thy ===== *)
theory Mpq_Archive
  imports Mpq_Crypto Mpq_Source Mpq_Attributes "HOL-Library.Monad_Syntax"
begin

text \<open>
  The archive handle of the reader (\<^verbatim>\<open>src/mpq-archive.h\<close>, \<^verbatim>\<open>src/mpq-entry.h\<close>), opening an archive
  (\<^verbatim>\<open>src/mpq-reader.c\<close>) and the metadata queries and the name lookup of the public interface
  (\<^verbatim>\<open>src/mpq-api.c\<close>). Counters and serialized fields are 32-bit words, so that the wrap-around of
  their arithmetic is the code's; sizes and offsets that the code keeps in 64 bits and checks for
  overflow are natural numbers with the checks written out. \<open>archive_ok\<close> is the invariant that every
  opened archive satisfies and every later operation keeps.
\<close>

subsection \<open>Archive state\<close>

definition LIBMPQ_FLAG_EXISTS :: u32 where "LIBMPQ_FLAG_EXISTS = 0x80000000"
definition LIBMPQ_FLAG_ENCRYPTED :: u32 where "LIBMPQ_FLAG_ENCRYPTED = 0x00010000"
definition LIBMPQ_FLAG_COMPRESSED :: u32 where "LIBMPQ_FLAG_COMPRESSED = 0x0000FF00"
definition LIBMPQ_FLAG_SINGLE :: u32 where "LIBMPQ_FLAG_SINGLE = 0x01000000"
definition LIBMPQ_FLAG_CRC :: u32 where "LIBMPQ_FLAG_CRC = 0x04000000"
definition LIBMPQ_HASH_FREE :: u32 where "LIBMPQ_HASH_FREE = 0xFFFFFFFF"
definition LIBMPQ_HEADER :: u32 where "LIBMPQ_HEADER = 0x1A51504D"
definition UINT64_MAX :: nat where "UINT64_MAX = 2 ^ 64 - 1"

record mpq_file_s =
  seed :: u32
  seed_known :: bool
  packed_offset :: "u32 list"
  packed_offset_count :: u32
  open_count :: u32

record mpq_map_s =
  block_table_indices :: u32
  block_table_diff :: u32

record mpq_archive_s =
  ar_source :: mpq_source_s
  ar_filename :: "string option"
  ar_identity :: "(u64 \<times> u64) option"
  ar_file_size :: nat
  ar_block_size :: u32
  archive_offset :: int
  mpq_header :: mpq_header_s
  mpq_header_ex :: mpq_header_ex_s
  mpq_hash :: "mpq_hash_s list"
  mpq_block :: "mpq_block_s list"
  mpq_block_ex :: "mpq_block_ex_s list"
  mpq_file :: "mpq_file_s option list"
  mpq_map :: "mpq_map_s list"
  ar_files :: u32
  ar_attributes :: "mpq_attributes_s option"
  attributes_error :: int
  write_mode :: bool

text \<open>A read into a fresh buffer.\<close>

definition read_bytes :: "mpq_source_s \<Rightarrow> nat \<Rightarrow> nat \<Rightarrow> u8 list io" where
  "read_bytes source off n =
     (case libmpq__source_read_at (Some source) off (Some (replicate n 0)) n of
        Inl e \<Rightarrow> Inl e
      | Inr None \<Rightarrow> Inr []
      | Inr (Some bs) \<Rightarrow> Inr bs)"

definition block_index :: "mpq_archive_s \<Rightarrow> u32 \<Rightarrow> nat" where
  "block_index ar number = unat (block_table_indices (mpq_map ar ! unat number))"

definition block_entry :: "mpq_archive_s \<Rightarrow> u32 \<Rightarrow> mpq_block_s" where
  "block_entry ar number = mpq_block ar ! block_index ar number"

definition payload_offset :: "mpq_archive_s \<Rightarrow> nat \<Rightarrow> nat" where
  "payload_offset ar i = unat (offset_high (mpq_block_ex ar ! i)) * 2 ^ 32 + unat (offset (mpq_block ar ! i))"

subsection \<open>Validation\<close>

definition libmpq__reader_validate_file_number :: "mpq_archive_s \<Rightarrow> u32 \<Rightarrow> int" where
  "libmpq__reader_validate_file_number ar number =
     (if number \<ge> ar_files ar then error_code ERROR_EXIST else 0)"

definition libmpq__reader_count_file_blocks :: "mpq_archive_s \<Rightarrow> u32 \<Rightarrow> u32" where
  "libmpq__reader_count_file_blocks ar number =
     (if flags (block_entry ar number) AND LIBMPQ_FLAG_SINGLE \<noteq> 0 then 1
      else (unpacked_size (block_entry ar number) + ar_block_size ar - 1) div ar_block_size ar)"

definition libmpq__reader_validate_block_number :: "mpq_archive_s \<Rightarrow> u32 \<Rightarrow> u32 \<Rightarrow> int" where
  "libmpq__reader_validate_block_number ar number block =
     (if block \<ge> libmpq__reader_count_file_blocks ar number then error_code ERROR_EXIST else 0)"

definition libmpq__reader_validate_payload_range :: "mpq_archive_s \<Rightarrow> nat \<Rightarrow> nat \<Rightarrow> nat \<Rightarrow> int" where
  "libmpq__reader_validate_payload_range ar i relative_offset n =
     (if archive_offset ar < 0 then error_code ERROR_FORMAT
      else
        let payload = payload_offset ar i; absolute = nat (archive_offset ar)
        in if payload > UINT64_MAX - absolute then error_code ERROR_FORMAT
           else
             let absolute = absolute + payload
             in if relative_offset > UINT64_MAX - absolute then error_code ERROR_FORMAT
                else
                  let absolute = absolute + relative_offset
                  in if absolute > ar_file_size ar \<or> n > ar_file_size ar - absolute
                     then error_code ERROR_READ else 0)"

subsection \<open>Metadata queries\<close>

definition libmpq__file_size_packed :: "mpq_archive_s \<Rightarrow> u32 \<Rightarrow> nat result" where
  "libmpq__file_size_packed ar number =
     (if libmpq__reader_validate_file_number ar number < 0 then Inl ERROR_EXIST
      else Inr (unat (packed_size (block_entry ar number))))"

definition libmpq__file_size_unpacked :: "mpq_archive_s \<Rightarrow> u32 \<Rightarrow> nat result" where
  "libmpq__file_size_unpacked ar number =
     (if libmpq__reader_validate_file_number ar number < 0 then Inl ERROR_EXIST
      else Inr (unat (unpacked_size (block_entry ar number))))"

definition libmpq__file_offset :: "mpq_archive_s \<Rightarrow> u32 \<Rightarrow> nat result" where
  "libmpq__file_offset ar number =
     (if libmpq__reader_validate_file_number ar number < 0 then Inl ERROR_EXIST
      else Inr (payload_offset ar (block_index ar number)))"

definition libmpq__file_blocks :: "mpq_archive_s \<Rightarrow> u32 \<Rightarrow> u32 result" where
  "libmpq__file_blocks ar number =
     (if libmpq__reader_validate_file_number ar number < 0 then Inl ERROR_EXIST
      else Inr (libmpq__reader_count_file_blocks ar number))"

definition libmpq__file_flags :: "mpq_archive_s option \<Rightarrow> u32 \<Rightarrow> out_ptr \<Rightarrow> u32 result" where
  "libmpq__file_flags ar number flags_ptr =
     (if flags_ptr = None then Inl ERROR_EXIST
      else case ar of
        None \<Rightarrow> Inl ERROR_EXIST
      | Some a \<Rightarrow>
          if libmpq__reader_validate_file_number a number < 0 then Inl ERROR_EXIST
          else Inr (flags (block_entry a number)))"

definition libmpq__block_size_unpacked :: "mpq_archive_s \<Rightarrow> u32 \<Rightarrow> u32 \<Rightarrow> nat result" where
  "libmpq__block_size_unpacked ar number block =
     (if libmpq__reader_validate_file_number ar number < 0 then Inl ERROR_EXIST
      else if libmpq__reader_validate_block_number ar number block < 0 then Inl ERROR_EXIST
      else if flags (block_entry ar number) AND LIBMPQ_FLAG_SINGLE \<noteq> 0 then
        Inr (unat (unpacked_size (block_entry ar number)))
      else if block < libmpq__reader_count_file_blocks ar number - 1 then Inr (unat (ar_block_size ar))
      else Inr (unat (unpacked_size (block_entry ar number) - ar_block_size ar * block)))"

text \<open>The sums are accumulated into the caller's variable.\<close>

definition libmpq__archive_size_packed :: "mpq_archive_s \<Rightarrow> int \<Rightarrow> int" where
  "libmpq__archive_size_packed ar acc =
     fold (\<lambda>i acc. acc + uint (packed_size (block_entry ar (of_nat i)))) [0..<unat (ar_files ar)] acc"

definition libmpq__archive_size_unpacked :: "mpq_archive_s \<Rightarrow> int \<Rightarrow> int" where
  "libmpq__archive_size_unpacked ar acc =
     fold (\<lambda>i acc. acc + uint (unpacked_size (block_entry ar (of_nat i)))) [0..<unat (ar_files ar)] acc"

definition libmpq__archive_version :: "mpq_archive_s \<Rightarrow> u32" where
  "libmpq__archive_version ar = ucast (version (mpq_header ar)) + 1"

subsection \<open>Name lookup\<close>

definition libmpq__file_hash :: "bool \<Rightarrow> u8 list \<Rightarrow> (u32 \<times> u32 \<times> u32) option" where
  "libmpq__file_hash char_signed filename = do {
     hash1 \<leftarrow> libmpq__crypto_hash_string char_signed filename 0x0;
     hash2 \<leftarrow> libmpq__crypto_hash_string char_signed filename 0x100;
     hash3 \<leftarrow> libmpq__crypto_hash_string char_signed filename 0x200;
     Some (hash1, hash2, hash3)
   }"

text \<open>The slot's file number, or the error for a slot that names no live block.\<close>

definition slot_number :: "mpq_archive_s \<Rightarrow> mpq_hash_s \<Rightarrow> u32 result" where
  "slot_number ar slot =
     (let i = block_table_index slot
      in if i \<ge> block_table_count (mpq_header ar) \<or>
           flags (mpq_block ar ! unat i) AND LIBMPQ_FLAG_EXISTS = 0 then Inl ERROR_FORMAT
         else
           let number = i - block_table_diff (mpq_map ar ! unat i)
           in if number \<ge> ar_files ar then Inl ERROR_FORMAT else Inr number)"

text \<open>The probe loop; \<open>left\<close> counts the slots not yet visited, so the wrap test of the code is \<open>left = 1\<close>.\<close>

fun probe_loop :: "mpq_archive_s \<Rightarrow> u32 \<Rightarrow> u32 \<Rightarrow> nat \<Rightarrow> nat \<Rightarrow> u32 result" where
  "probe_loop ar hash2 hash3 i 0 = Inl ERROR_EXIST"
| "probe_loop ar hash2 hash3 i (Suc left) =
     (let slot = mpq_hash ar ! i
      in if block_table_index slot = LIBMPQ_HASH_FREE then Inl ERROR_EXIST
         else if hash_a slot = hash2 \<and> hash_b slot = hash3 then slot_number ar slot
         else probe_loop ar hash2 hash3 ((i + 1) mod unat (hash_table_count (mpq_header ar))) left)"

definition libmpq__file_number_from_hash :: "mpq_archive_s \<Rightarrow> u32 \<Rightarrow> u32 \<Rightarrow> u32 \<Rightarrow> u32 result" where
  "libmpq__file_number_from_hash ar hash1 hash2 hash3 =
     (let ht_count = hash_table_count (mpq_header ar)
      in if ht_count = 0 then Inl ERROR_EXIST
         else probe_loop ar hash2 hash3 (unat (hash1 mod ht_count)) (unat ht_count))"

definition libmpq__file_number :: "bool \<Rightarrow> mpq_archive_s \<Rightarrow> u8 list \<Rightarrow> u32 result option" where
  "libmpq__file_number char_signed ar filename = do {
     (hash1, hash2, hash3) \<leftarrow> libmpq__file_hash char_signed filename;
     Some (libmpq__file_number_from_hash ar hash1 hash2 hash3)
   }"

subsection \<open>Opening an archive\<close>

definition io_bind :: "'a io \<Rightarrow> ('a \<Rightarrow> 'b io) \<Rightarrow> 'b io" where
  "io_bind r f = (case r of Inl e \<Rightarrow> Inl e | Inr v \<Rightarrow> f v)"

lemma io_bind_simps [simp]: "io_bind (Inl e) f = Inl e" "io_bind (Inr v) f = f v"
  by (simp_all add: io_bind_def)

lemma io_bind_Inr: "io_bind r f = Inr v \<longleftrightarrow> (\<exists>u. r = Inr u \<and> f u = Inr v)"
  by (cases r) auto

lemma io_bind_InrE: "io_bind r f = Inr v \<Longrightarrow> (\<And>u. r = Inr u \<Longrightarrow> f u = Inr v \<Longrightarrow> P) \<Longrightarrow> P"
  by (cases r) auto

text \<open>A library error as the integer the caller sees.\<close>

definition lift_result :: "'a result \<Rightarrow> 'a io" where
  "lift_result r = map_sum error_code id r"

lemma lift_result_Inr [simp]: "lift_result r = Inr v \<longleftrightarrow> r = Inr v"
  by (cases r) (simp_all add: lift_result_def)

definition table_size :: "u32 \<Rightarrow> nat \<Rightarrow> nat io" where
  "table_size count item_size =
     (if item_size = 0 \<or> unat count > SIZE_MAX div item_size \<or> unat count * item_size > UINT32_MAX
      then Inl (error_code ERROR_FORMAT) else Inr (unat count * item_size))"

definition libmpq__reader_decode_uint32_table :: "u8 list \<Rightarrow> nat \<Rightarrow> u32 list" where
  "libmpq__reader_decode_uint32_table raw count = map (\<lambda>i. libmpq__load_le32 (Some (drop (i * 4) raw))) [0..<count]"

text \<open>Protected archives may store a bogus header size; it is normalized.\<close>

definition normalize_header :: "mpq_header_s \<Rightarrow> mpq_header_s" where
  "normalize_header h =
     (let h = (if version h = 0 then h\<lparr>header_size := of_nat LIBMPQ_HEADER_WIRE_SIZE\<rparr> else h)
      in if version h = 1
         then h\<lparr>header_size := of_nat (LIBMPQ_HEADER_WIRE_SIZE + LIBMPQ_HEADER_EX_WIRE_SIZE)\<rparr> else h)"

function find_header :: "mpq_source_s \<Rightarrow> nat \<Rightarrow> bool \<Rightarrow> nat \<Rightarrow> (nat \<times> mpq_header_s) io" where
  "find_header source fsize search pos =
     (if pos > fsize \<or> LIBMPQ_HEADER_WIRE_SIZE > fsize - pos then Inl (error_code ERROR_FORMAT)
      else io_bind (read_bytes source pos LIBMPQ_HEADER_WIRE_SIZE) (\<lambda>bytes.
        io_bind (lift_result (libmpq__header_decode (Some bytes) LIBMPQ_HEADER_WIRE_SIZE)) (\<lambda>h.
          if mpq_magic h = LIBMPQ_HEADER then
            (if version h > 1 then Inl (error_code ERROR_FORMAT) else Inr (pos, normalize_header h))
          else if \<not> search then Inl (error_code ERROR_FORMAT)
          else find_header source fsize search (pos + 512))))"
  by pat_completeness auto
termination
  by (relation "measure (\<lambda>(source, fsize, search, pos). fsize - pos)") (auto simp: LIBMPQ_HEADER_WIRE_SIZE_def)

declare find_header.simps [simp del]

text \<open>The keys of the two metadata tables; the names are ASCII, so the hash is defined.\<close>

definition table_key :: "u8 list \<Rightarrow> u32" where
  "table_key name = (case libmpq__crypto_hash_string False name 0x300 of Some k \<Rightarrow> k | None \<Rightarrow> 0)"

definition hash_table_name :: "u8 list" where
  "hash_table_name = [0x28, 0x68, 0x61, 0x73, 0x68, 0x20, 0x74, 0x61, 0x62, 0x6C, 0x65, 0x29]"

definition block_table_name :: "u8 list" where
  "block_table_name = [0x28, 0x62, 0x6C, 0x6F, 0x63, 0x6B, 0x20, 0x74, 0x61, 0x62, 0x6C, 0x65, 0x29]"

definition load_header_ex :: "mpq_source_s \<Rightarrow> nat \<Rightarrow> nat \<Rightarrow> mpq_header_s \<Rightarrow> mpq_header_ex_s io" where
  "load_header_ex source fsize pos h =
     (if version h = 1 then
        if pos > UINT64_MAX - LIBMPQ_HEADER_WIRE_SIZE \<or> pos + LIBMPQ_HEADER_WIRE_SIZE > fsize \<or>
          LIBMPQ_HEADER_EX_WIRE_SIZE > fsize - (pos + LIBMPQ_HEADER_WIRE_SIZE)
        then Inl (error_code ERROR_FORMAT)
        else io_bind (read_bytes source (pos + LIBMPQ_HEADER_WIRE_SIZE) LIBMPQ_HEADER_EX_WIRE_SIZE) (\<lambda>bytes.
          lift_result (libmpq__header_ex_decode (Some bytes) LIBMPQ_HEADER_EX_WIRE_SIZE))
      else Inr \<lparr>extended_offset = 0, hash_table_offset_high = 0, block_table_offset_high = 0\<rparr>)"

text \<open>A table of the archive: read, decrypted where it is encrypted, and decoded. Offsets add in 64 bits.\<close>

definition load_table ::
  "(nat \<Rightarrow> bool) \<Rightarrow> mpq_source_s \<Rightarrow> nat \<Rightarrow> u32 \<Rightarrow> nat \<Rightarrow> u32 option \<Rightarrow> (ptr \<Rightarrow> nat \<Rightarrow> nat \<Rightarrow> 'a list result) \<Rightarrow> 'a list io" where
  "load_table alloc source off count width tkey decode =
     io_bind (table_size count width) (\<lambda>bytes.
       if bytes \<noteq> 0 \<and> \<not> alloc bytes then Inl (error_code ERROR_MALLOC)
       else io_bind (read_bytes source (off mod 2 ^ 64) bytes) (\<lambda>raw.
         let raw = (case tkey of None \<Rightarrow> raw | Some k \<Rightarrow> libmpq__crypto_decrypt_block raw bytes k)
         in lift_result (decode (Some raw) bytes (unat count))))"

definition map_step :: "mpq_block_s list \<Rightarrow> nat \<Rightarrow> mpq_map_s list \<times> nat \<Rightarrow> mpq_map_s list \<times> nat" where
  "map_step blocks i st =
     (case st of (m, count) \<Rightarrow>
        let m = m[i := (m ! i)\<lparr>block_table_diff := of_nat (i - count)\<rparr>]
        in if flags (blocks ! i) AND LIBMPQ_FLAG_EXISTS = 0 then (m, count)
           else (m[count := (m ! count)\<lparr>block_table_indices := of_nat i\<rparr>], count + 1))"

definition build_map :: "mpq_block_s list \<Rightarrow> mpq_map_s list \<times> nat" where
  "build_map blocks =
     fold (map_step blocks) [0..<length blocks]
       (replicate (length blocks) \<lparr>block_table_indices = 0, block_table_diff = 0\<rparr>, 0)"

text \<open>The metadata allocations, four per block and one per hash entry.\<close>

definition metadata_allocs :: "(nat \<Rightarrow> bool) \<Rightarrow> mpq_header_s \<Rightarrow> bool" where
  "metadata_allocs alloc h \<longleftrightarrow>
     (block_table_count h \<noteq> 0 \<longrightarrow>
        alloc (unat (block_table_count h) * 16) \<and> alloc (unat (block_table_count h) * 2) \<and>
        alloc (unat (block_table_count h) * 8) \<and> alloc (unat (block_table_count h) * 8)) \<and>
     (hash_table_count h \<noteq> 0 \<longrightarrow> alloc (unat (hash_table_count h) * 16))"

definition load_archive ::
  "(nat \<Rightarrow> bool) \<Rightarrow> mpq_source_s \<Rightarrow> nat \<Rightarrow> nat \<times> mpq_header_s \<Rightarrow> mpq_archive_s io" where
  "load_archive alloc source fsize found =
     (case found of (pos, h) \<Rightarrow>
        if block_size h > 22 then Inl (error_code ERROR_FORMAT)
        else io_bind (table_size (hash_table_count h) LIBMPQ_HASH_ENTRY_WIRE_SIZE) (\<lambda>hash_bytes.
          if hash_bytes > fsize then Inl (error_code ERROR_FORMAT)
          else io_bind (table_size (block_table_count h) LIBMPQ_BLOCK_ENTRY_WIRE_SIZE) (\<lambda>block_bytes.
            if block_bytes > fsize then Inl (error_code ERROR_FORMAT)
            else io_bind (load_header_ex source fsize pos h) (\<lambda>ex.
              if \<not> metadata_allocs alloc h then Inl (error_code ERROR_MALLOC)
              else io_bind (load_table alloc source
                    (unat (hash_table_offset h) + unat (hash_table_offset_high ex) * 2 ^ 32 + pos)
                    (hash_table_count h) LIBMPQ_HASH_ENTRY_WIRE_SIZE (Some (table_key hash_table_name))
                    libmpq__hash_table_decode) (\<lambda>hashes.
                io_bind (load_table alloc source
                    (unat (block_table_offset h) + unat (block_table_offset_high ex) * 2 ^ 32 + pos)
                    (block_table_count h) LIBMPQ_BLOCK_ENTRY_WIRE_SIZE (Some (table_key block_table_name))
                    libmpq__block_table_decode) (\<lambda>blocks.
                  io_bind
                    (if extended_offset ex > 0 then
                       (case load_table alloc source (unat (extended_offset ex) + pos) (block_table_count h)
                              LIBMPQ_BLOCK_EX_ENTRY_WIRE_SIZE None libmpq__block_ex_table_decode of
                          Inl e \<Rightarrow> Inl (if e = error_code ERROR_READ then error_code ERROR_FORMAT else e)
                        | Inr t \<Rightarrow> Inr t)
                     else Inr (replicate (unat (block_table_count h)) \<lparr>offset_high = 0\<rparr>)) (\<lambda>blocks_ex.
                    Inr \<lparr>ar_source = source, ar_filename = None, ar_identity = None, ar_file_size = fsize,
                      ar_block_size = push_bit (unat (block_size h)) 512, archive_offset = int pos,
                      mpq_header = h, mpq_header_ex = ex, mpq_hash = hashes, mpq_block = blocks,
                      mpq_block_ex = blocks_ex, mpq_file = replicate (unat (block_table_count h)) None,
                      mpq_map = fst (build_map blocks), ar_files = of_nat (snd (build_map blocks)),
                      ar_attributes = None, attributes_error = 0, write_mode = False\<rparr>)))))))"

definition sizeof_mpq_archive_s :: nat where "sizeof_mpq_archive_s = 1072"

text \<open>Every failure after the source is handed over releases it.\<close>

definition libmpq__reader_archive_open_source ::
  "(nat \<Rightarrow> bool) \<Rightarrow> out_ptr \<Rightarrow> string option \<Rightarrow> int \<Rightarrow> mpq_source_s \<Rightarrow> mpq_archive_s io \<times> log" where
  "libmpq__reader_archive_open_source alloc mpq_archive filename off source =
     (let fail = (\<lambda>e. (Inl (error_code e), libmpq__source_discard (Some source)));
          search = (off = -1); start = (if off = -1 then 0 else off);
          fsize = libmpq__source_size (Some source)
      in if mpq_archive = None then fail ERROR_EXIST
         else if off \<noteq> -1 \<and> off < 0 then fail ERROR_SEEK
         else if \<not> alloc sizeof_mpq_archive_s then fail ERROR_MALLOC
         else if (case filename of None \<Rightarrow> False | Some name \<Rightarrow> \<not> alloc (length name + 1)) then fail ERROR_MALLOC
         else case io_bind (find_header source fsize search (nat start)) (load_archive alloc source fsize) of
           Inl e \<Rightarrow> (Inl e, libmpq__source_discard (Some source))
         | Inr ar \<Rightarrow>
             (Inr (ar\<lparr>ar_filename := filename, ar_identity := (case libmpq__source_file_identity (Some source) (Some 0) (Some 0) of
                Inl _ \<Rightarrow> None | Inr ids \<Rightarrow> Some ids)\<rparr>), []))"

lemma map_sum_Inl: "map_sum id g r = Inl e \<longleftrightarrow> r = Inl e"
  by (cases r) auto

lemma read_bytes_neg: "read_bytes source off n = Inl e \<Longrightarrow> e < 0"
  by (auto simp: read_bytes_def libmpq__source_read_at_def source_mpqe_read_at_def map_sum_Inl
      dest: backend_read_neg read_loop_neg split: if_split_asm sum.split_asm option.split_asm)

lemma validate_file_number [simp]: "libmpq__reader_validate_file_number ar number < 0 \<longleftrightarrow> ar_files ar \<le> number"
  by (simp add: libmpq__reader_validate_file_number_def)

lemma validate_block_number [simp]:
  "libmpq__reader_validate_block_number ar number block < 0 \<longleftrightarrow> libmpq__reader_count_file_blocks ar number \<le> block"
  by (simp add: libmpq__reader_validate_block_number_def)

subsection \<open>The compact file map\<close>

text \<open>The block indices of the live files, in the order of their public numbers.\<close>

definition exists_flag :: "mpq_block_s \<Rightarrow> bool" where
  "exists_flag b \<longleftrightarrow> flags b AND LIBMPQ_FLAG_EXISTS \<noteq> 0"

definition live_upto :: "mpq_block_s list \<Rightarrow> nat \<Rightarrow> nat list" where
  "live_upto blocks i = filter (\<lambda>j. exists_flag (blocks ! j)) [0..<i]"

definition live_blocks :: "mpq_block_s list \<Rightarrow> nat list" where
  "live_blocks blocks = live_upto blocks (length blocks)"

lemma live_upto_0 [simp]: "live_upto blocks 0 = []"
  by (simp add: live_upto_def)

lemma live_upto_Suc:
  "live_upto blocks (Suc i) = live_upto blocks i @ (if exists_flag (blocks ! i) then [i] else [])"
  by (simp add: live_upto_def)

lemma live_upto_length: "length (live_upto blocks i) \<le> i"
  by (induction i) (auto simp: live_upto_Suc)

lemma live_upto_prefix: "i \<le> j \<Longrightarrow> \<exists>more. live_upto blocks j = live_upto blocks i @ more"
proof (induction j)
  case (Suc j)
  then show ?case
    by (cases "i = Suc j") (auto simp: live_upto_Suc le_Suc_eq)
qed simp

lemma live_rank:
  assumes "exists_flag (blocks ! i)" "i < n"
  shows "length (live_upto blocks i) < length (live_upto blocks n)"
    "live_upto blocks n ! length (live_upto blocks i) = i"
proof -
  have "Suc i \<le> n" using assms(2) by simp
  from live_upto_prefix [OF this, of blocks]
  obtain more where "live_upto blocks n = live_upto blocks (Suc i) @ more" by blast
  then have "live_upto blocks n = live_upto blocks i @ [i] @ more"
    using assms(1) by (simp add: live_upto_Suc)
  then show "length (live_upto blocks i) < length (live_upto blocks n)"
    "live_upto blocks n ! length (live_upto blocks i) = i"
    by simp_all
qed

lemma live_member: "c < length (live_blocks blocks) \<Longrightarrow>
    live_blocks blocks ! c < length blocks \<and> exists_flag (blocks ! (live_blocks blocks ! c))"
proof -
  assume "c < length (live_blocks blocks)"
  then have "live_blocks blocks ! c \<in> List.set (live_blocks blocks)" by simp
  then show ?thesis by (auto simp: live_blocks_def live_upto_def)
qed

lemma live_sorted: "sorted_wrt (<) (live_blocks blocks)"
  unfolding live_blocks_def live_upto_def by (intro sorted_wrt_filter sorted_wrt_upt)

text \<open>What the map loop has built after \<open>i\<close> blocks.\<close>

definition map_upto :: "mpq_block_s list \<Rightarrow> nat \<Rightarrow> mpq_map_s list \<Rightarrow> bool" where
  "map_upto blocks i m \<longleftrightarrow>
     length m = length blocks \<and>
     (\<forall>j<i. block_table_diff (m ! j) = of_nat (j - length (live_upto blocks j))) \<and>
     (\<forall>c<length (live_upto blocks i). block_table_indices (m ! c) = of_nat (live_upto blocks i ! c))"

lemma map_step_upto:
  assumes "map_upto blocks i m" "i < length blocks"
  shows "\<exists>m'. map_step blocks i (m, length (live_upto blocks i)) = (m', length (live_upto blocks (Suc i))) \<and>
    map_upto blocks (Suc i) m'"
  using assms live_upto_length [of blocks i]
  by (auto simp: map_step_def map_upto_def Let_def live_upto_Suc exists_flag_def nth_list_update nth_append
      less_Suc_eq)

lemma build_map_fold:
  "i \<le> length blocks \<Longrightarrow>
    \<exists>m. fold (map_step blocks) [0..<i]
        (replicate (length blocks) \<lparr>block_table_indices = 0, block_table_diff = 0\<rparr>, 0) =
      (m, length (live_upto blocks i)) \<and> map_upto blocks i m"
proof (induction i)
  case 0
  show ?case by (simp add: map_upto_def)
next
  case (Suc i)
  then obtain m where "fold (map_step blocks) [0..<i]
        (replicate (length blocks) \<lparr>block_table_indices = 0, block_table_diff = 0\<rparr>, 0) =
      (m, length (live_upto blocks i))" "map_upto blocks i m" by auto
  with map_step_upto [of blocks i m] Suc.prems show ?case by simp
qed

lemma build_map_correct:
  "map_upto blocks (length blocks) (fst (build_map blocks))"
  "snd (build_map blocks) = length (live_blocks blocks)"
  using build_map_fold [of "length blocks" blocks] by (auto simp: build_map_def live_blocks_def)

subsection \<open>The archive invariant\<close>

text \<open>
  The tables have the lengths the header announces, so that every index the code takes from the
  header, the map or a live hash slot is in range; the compact numbers are the live blocks in order
  and the difference field inverts them; the sector size is a power of two between 512 and \<open>2 ^ 31\<close>.
\<close>

definition archive_tables_ok :: "mpq_archive_s \<Rightarrow> bool" where
  "archive_tables_ok ar \<longleftrightarrow>
     length (mpq_hash ar) = unat (hash_table_count (mpq_header ar)) \<and>
     length (mpq_block ar) = unat (block_table_count (mpq_header ar)) \<and>
     length (mpq_block_ex ar) = length (mpq_block ar) \<and>
     length (mpq_file ar) = length (mpq_block ar) \<and>
     16 * length (mpq_block ar) \<le> UINT32_MAX \<and> 16 * length (mpq_hash ar) \<le> UINT32_MAX"

definition map_ok :: "mpq_archive_s \<Rightarrow> bool" where
  "map_ok ar \<longleftrightarrow>
     map_upto (mpq_block ar) (length (mpq_block ar)) (mpq_map ar) \<and>
     ar_files ar = of_nat (length (live_blocks (mpq_block ar)))"

definition archive_ok :: "mpq_archive_s \<Rightarrow> bool" where
  "archive_ok ar \<longleftrightarrow>
     archive_tables_ok ar \<and> map_ok ar \<and>
     block_size (mpq_header ar) \<le> 22 \<and> ar_block_size ar = push_bit (unat (block_size (mpq_header ar))) 512 \<and>
     0 \<le> archive_offset ar \<and> nat (archive_offset ar) + LIBMPQ_HEADER_WIRE_SIZE \<le> ar_file_size ar \<and>
     ar_file_size ar = src_size (ar_source ar) \<and> version (mpq_header ar) \<le> 1"

lemma table_decode_length:
  "libmpq__hash_table_decode p n c = Inr hs \<Longrightarrow> length hs = c"
  "libmpq__block_table_decode p n c = Inr bs \<Longrightarrow> length bs = c"
  "libmpq__block_ex_table_decode p n c = Inr xs \<Longrightarrow> length xs = c"
  by (auto simp: libmpq__hash_table_decode_def libmpq__block_table_decode_def
      libmpq__block_ex_table_decode_def split: if_splits)

lemma load_table_decode:
  assumes "load_table alloc source off count width k decode = Inr t"
  shows "\<exists>raw. decode (Some raw) (unat count * width) (unat count) = Inr t"
  using assms by (auto simp: load_table_def io_bind_Inr table_size_def Let_def split: if_splits)

lemma find_header_found:
  "find_header source fsize search pos = Inr (at', h) \<Longrightarrow>
    at' + LIBMPQ_HEADER_WIRE_SIZE \<le> fsize \<and> version h \<le> 1"
proof (induction source fsize search pos rule: find_header.induct)
  case (1 source fsize search pos)
  note eq = 1(2) [unfolded find_header.simps [of source fsize search pos]]
  then have pos: "\<not> (pos > fsize \<or> LIBMPQ_HEADER_WIRE_SIZE > fsize - pos)" by (auto split: if_splits)
  with eq obtain bytes hd where bytes: "read_bytes source pos LIBMPQ_HEADER_WIRE_SIZE = Inr bytes"
    and hd: "libmpq__header_decode (Some bytes) LIBMPQ_HEADER_WIRE_SIZE = Inr hd"
    by (auto simp: io_bind_Inr)
  show ?case
  proof (cases "mpq_magic hd = LIBMPQ_HEADER")
    case True
    then show ?thesis using eq pos bytes hd
      by (auto simp: normalize_header_def Let_def lift_result_def LIBMPQ_HEADER_WIRE_SIZE_def not_less split: if_splits)
  next
    case False
    then have "search" "find_header source fsize search (pos + 512) = Inr (at', h)"
      using eq pos bytes hd by (auto simp: lift_result_def split: if_splits)
    then show ?thesis using 1(1) [OF pos False] by blast
  qed
qed

lemma load_archive_ok:
  assumes "load_archive alloc source fsize (pos, h) = Inr ar"
    and "fsize = src_size source" "pos + LIBMPQ_HEADER_WIRE_SIZE \<le> fsize" "version h \<le> 1"
  shows "archive_ok ar"
proof -
  from assms(1) obtain ex hashes blocks blocks_ex where
    bits: "block_size h \<le> 22" and
    sizes: "unat (hash_table_count h) * 16 \<le> UINT32_MAX" "unat (block_table_count h) * 16 \<le> UINT32_MAX" and
    hashes: "length hashes = unat (hash_table_count h)" and
    blocks: "length blocks = unat (block_table_count h)" and
    blocks_ex: "length blocks_ex = unat (block_table_count h)" and
    ar: "ar = \<lparr>ar_source = source, ar_filename = None, ar_identity = None, ar_file_size = fsize,
          ar_block_size = push_bit (unat (block_size h)) 512, archive_offset = int pos,
          mpq_header = h, mpq_header_ex = ex, mpq_hash = hashes, mpq_block = blocks,
          mpq_block_ex = blocks_ex, mpq_file = replicate (unat (block_table_count h)) None,
          mpq_map = fst (build_map blocks), ar_files = of_nat (snd (build_map blocks)), ar_attributes = None, attributes_error = 0, write_mode = False\<rparr>"
    by (auto simp: load_archive_def io_bind_Inr table_size_def LIBMPQ_HASH_ENTRY_WIRE_SIZE_def
        LIBMPQ_BLOCK_ENTRY_WIRE_SIZE_def not_less dest!: load_table_decode table_decode_length
        split: if_splits sum.splits)
  then show ?thesis
    using assms(2-) build_map_correct [of blocks] sizes
    by (auto simp: archive_ok_def archive_tables_ok_def map_ok_def mult.commute)
qed

lemma archive_open_source_Inr:
  assumes "libmpq__reader_archive_open_source alloc p name off source = (Inr ar, log)"
  obtains found ar0 where
    "find_header source (src_size source) (off = -1) (nat (if off = -1 then 0 else off)) = Inr found"
    "load_archive alloc source (src_size source) found = Inr ar0" "log = []"
    "\<exists>ids. ar = ar0\<lparr>ar_filename := name, ar_identity := ids\<rparr>"
  using assms
  by (auto simp: libmpq__reader_archive_open_source_def Let_def libmpq__source_size_def io_bind_Inr
      split: if_splits sum.splits option.splits)

lemma archive_ok_upd [simp]:
  "archive_ok (ar\<lparr>ar_filename := name, ar_identity := ids\<rparr>) = archive_ok ar"
  by (simp add: archive_ok_def archive_tables_ok_def map_ok_def)

lemma open_source_ok:
  "libmpq__reader_archive_open_source alloc p name off source = (Inr ar, log) \<Longrightarrow> archive_ok ar"
  by (auto elim!: archive_open_source_Inr dest!: find_header_found load_archive_ok)

subsection \<open>Consequences of the invariant\<close>

lemma u32_of_nat: "n < 2 ^ 32 \<Longrightarrow> unat (of_nat n :: u32) = n"
  by (simp add: unat_of_nat)

lemma unat_2p: "k < 32 \<Longrightarrow> unat (2 ^ k :: u32) = 2 ^ k"
  using u32_of_nat [of "2 ^ k"] power_strict_increasing [of k 32 "2::nat"] by simp

lemma archive_ok_files: "archive_ok ar \<Longrightarrow> unat (ar_files ar) = length (live_blocks (mpq_block ar))"
proof -
  assume ok: "archive_ok ar"
  have "length (live_blocks (mpq_block ar)) \<le> length (mpq_block ar)"
    unfolding live_blocks_def by (rule live_upto_length)
  also have "\<dots> < 2 ^ 32" using ok by (auto simp: archive_ok_def archive_tables_ok_def UINT32_MAX_def)
  finally show ?thesis using ok by (simp add: archive_ok_def map_ok_def u32_of_nat)
qed

lemma archive_ok_index:
  assumes "archive_ok ar" "number < ar_files ar"
  shows "block_index ar number = live_blocks (mpq_block ar) ! unat number"
proof -
  have lt: "unat number < length (live_blocks (mpq_block ar))"
    using assms archive_ok_files [OF assms(1)] by (simp add: word_less_nat_alt)
  then have "live_blocks (mpq_block ar) ! unat number < length (mpq_block ar)" by (rule live_member [THEN conjunct1])
  also have "\<dots> < 2 ^ 32" using assms(1) by (auto simp: archive_ok_def archive_tables_ok_def UINT32_MAX_def)
  finally show ?thesis
    using assms(1) lt by (simp add: archive_ok_def map_ok_def map_upto_def block_index_def live_blocks_def u32_of_nat)
qed

lemma archive_ok_block_index:
  assumes "archive_ok ar" "number < ar_files ar"
  shows "block_index ar number < length (mpq_block ar)" "exists_flag (block_entry ar number)"
  using live_member [of "unat number" "mpq_block ar"] assms archive_ok_files [OF assms(1)]
  by (simp_all add: archive_ok_index block_entry_def word_less_nat_alt)

lemma archive_ok_invert:
  assumes "archive_ok ar" "i < length (mpq_block ar)" "exists_flag (mpq_block ar ! i)"
  defines "number \<equiv> of_nat i - block_table_diff (mpq_map ar ! i)"
  shows "number < ar_files ar" "block_index ar number = i"
proof -
  let ?r = "length (live_upto (mpq_block ar) i)"
  have le: "?r \<le> i" by (rule live_upto_length)
  have small: "length (mpq_block ar) < 2 ^ 32" using assms(1) by (auto simp: archive_ok_def archive_tables_ok_def UINT32_MAX_def)
  have "block_table_diff (mpq_map ar ! i) = of_nat (i - ?r)"
    using assms(1,2) by (simp add: archive_ok_def map_ok_def map_upto_def)
  then have number: "number = of_nat ?r" using le by (simp add: number_def of_nat_diff)
  then have un: "unat number = ?r" using le assms(2) small by (simp add: u32_of_nat)
  show lt: "number < ar_files ar"
    using live_rank(1) [OF assms(3,2)] un archive_ok_files [OF assms(1)]
    by (simp add: word_less_nat_alt live_blocks_def)
  show "block_index ar number = i"
    using archive_ok_index [OF assms(1) lt] live_rank(2) [OF assms(3,2)] un by (simp add: live_blocks_def)
qed

lemma archive_ok_number_inj:
  assumes "archive_ok ar" "a < ar_files ar" "b < ar_files ar" "a < b"
  shows "block_index ar a < block_index ar b"
  using live_sorted [of "mpq_block ar"] assms archive_ok_files [OF assms(1)]
  by (simp add: archive_ok_index sorted_wrt_iff_nth_less word_less_nat_alt)

lemma archive_ok_block_size:
  assumes "archive_ok ar"
  shows "unat (ar_block_size ar) = 512 * 2 ^ unat (block_size (mpq_header ar))"
    "512 \<le> unat (ar_block_size ar)" "unat (ar_block_size ar) \<le> 2 ^ 31"
proof -
  let ?k = "unat (block_size (mpq_header ar))"
  have k: "?k \<le> 22" using assms by (auto simp: archive_ok_def word_le_nat_alt)
  have "(2::nat) ^ ?k \<le> 2 ^ 22" using k by (intro power_increasing) auto
  then have le: "512 * (2::nat) ^ ?k \<le> 2 ^ 31" by simp
  have u: "unat (2 ^ ?k :: u32) = 2 ^ ?k" using k by (intro unat_2p) simp
  show eq: "unat (ar_block_size ar) = 512 * 2 ^ ?k"
    using assms le by (simp add: archive_ok_def push_bit_eq_mult unat_word_ariths u)
  show "512 \<le> unat (ar_block_size ar)" "unat (ar_block_size ar) \<le> 2 ^ 31"
    using le by (simp_all add: eq)
qed

subsection \<open>Name lookup finds the first matching slot\<close>

text \<open>The slot visited at step \<open>k\<close>, and what it means that a slot ends the search.\<close>

definition probe_slot :: "mpq_archive_s \<Rightarrow> u32 \<Rightarrow> nat \<Rightarrow> mpq_hash_s" where
  "probe_slot ar hash1 k =
     mpq_hash ar ! ((unat (hash1 mod hash_table_count (mpq_header ar)) + k) mod unat (hash_table_count (mpq_header ar)))"

definition slot_matches :: "u32 \<Rightarrow> u32 \<Rightarrow> mpq_hash_s \<Rightarrow> bool" where
  "slot_matches hash2 hash3 slot \<longleftrightarrow>
     block_table_index slot \<noteq> LIBMPQ_HASH_FREE \<and> hash_a slot = hash2 \<and> hash_b slot = hash3"

definition slot_skipped :: "u32 \<Rightarrow> u32 \<Rightarrow> mpq_hash_s \<Rightarrow> bool" where
  "slot_skipped hash2 hash3 slot \<longleftrightarrow>
     block_table_index slot \<noteq> LIBMPQ_HASH_FREE \<and> \<not> (hash_a slot = hash2 \<and> hash_b slot = hash3)"

lemma ex_first_Suc:
  "(\<exists>k<Suc l. A k \<and> (\<forall>j<k. B j) \<and> C k) \<longleftrightarrow>
     A 0 \<and> C 0 \<or> B 0 \<and> (\<exists>k<l. A (Suc k) \<and> (\<forall>j<k. B (Suc j)) \<and> C (Suc k))"
  unfolding Ex_less_Suc2 All_less_Suc2 by blast

lemma probe_loop_Inr:
  assumes "i < n" "n = unat (hash_table_count (mpq_header ar))"
  shows "probe_loop ar hash2 hash3 i left = Inr number \<longleftrightarrow>
    (\<exists>k<left. slot_matches hash2 hash3 (mpq_hash ar ! ((i + k) mod n)) \<and>
       (\<forall>j<k. slot_skipped hash2 hash3 (mpq_hash ar ! ((i + j) mod n))) \<and>
       slot_number ar (mpq_hash ar ! ((i + k) mod n)) = Inr number)"
  using assms
proof (induction left arbitrary: i)
  case (Suc left)
  have shift: "(Suc i mod n + k) mod n = Suc (i + k) mod n" for k by (simp add: mod_simps)
  have "(i + 1) mod n < n" using Suc.prems by auto
  note IH = Suc.IH [OF this Suc.prems(2)]
  have step: "probe_loop ar hash2 hash3 i (Suc left) = Inr number \<longleftrightarrow>
      slot_matches hash2 hash3 (mpq_hash ar ! i) \<and> slot_number ar (mpq_hash ar ! i) = Inr number \<or>
      slot_skipped hash2 hash3 (mpq_hash ar ! i) \<and>
        probe_loop ar hash2 hash3 ((i + 1) mod n) left = Inr number"
    using Suc.prems(2) by (auto simp: Let_def slot_matches_def slot_skipped_def)
  show ?case
    unfolding step IH ex_first_Suc using Suc.prems(1) by (simp add: shift)
qed simp

lemma slot_number_Inr:
  assumes "archive_ok ar"
  shows "slot_number ar s = Inr number \<longleftrightarrow>
    number < ar_files ar \<and> block_index ar number = unat (block_table_index s)"
proof
  have len: "length (mpq_block ar) = unat (block_table_count (mpq_header ar))"
    using assms by (simp add: archive_ok_def archive_tables_ok_def)
  assume "slot_number ar s = Inr number"
  then have "block_table_index s < block_table_count (mpq_header ar)"
    "exists_flag (mpq_block ar ! unat (block_table_index s))"
    "number = block_table_index s - block_table_diff (mpq_map ar ! unat (block_table_index s))"
    by (auto simp: slot_number_def Let_def exists_flag_def not_le split: if_splits)
  then show "number < ar_files ar \<and> block_index ar number = unat (block_table_index s)"
    using archive_ok_invert [OF assms, of "unat (block_table_index s)"] len
    by (simp add: word_less_nat_alt)
next
  assume r: "number < ar_files ar \<and> block_index ar number = unat (block_table_index s)"
  let ?i = "unat (block_table_index s)"
  have len: "length (mpq_block ar) = unat (block_table_count (mpq_header ar))"
    using assms by (simp add: archive_ok_def archive_tables_ok_def)
  have i: "?i < length (mpq_block ar)" "exists_flag (mpq_block ar ! ?i)"
    using archive_ok_block_index [OF assms, of number] r by (simp_all add: block_entry_def)
  let ?m = "block_table_index s - block_table_diff (mpq_map ar ! ?i)"
  have m: "?m < ar_files ar" "block_index ar ?m = ?i" using archive_ok_invert [OF assms i] by simp_all
  then have "?m = number"
    using archive_ok_number_inj [OF assms, of ?m number] archive_ok_number_inj [OF assms, of number ?m] r
    by (metis less_irrefl linorder_neqE)
  then show "slot_number ar s = Inr number"
    using i m len by (auto simp: slot_number_def Let_def exists_flag_def word_less_nat_alt word_le_nat_alt)
qed

subsection \<open>The extent of an archive\<close>

text \<open>\<^verbatim>\<open>extend_extent\<close>: the running maximum of range ends, in 64 bits without wrapping.\<close>

definition extend_extent :: "nat \<Rightarrow> nat \<Rightarrow> nat \<Rightarrow> nat result" where
  "extend_extent off len extent =
     (if off > UINT64_MAX - len then Inl ERROR_FORMAT
      else Inr (if off + len > extent then off + len else extent))"

fun extend_all :: "(nat \<times> nat) list \<Rightarrow> nat \<Rightarrow> nat result" where
  "extend_all [] extent = Inr extent"
| "extend_all ((off, len) # ranges) extent =
     (case extend_extent off len extent of Inl e \<Rightarrow> Inl e | Inr extent \<Rightarrow> extend_all ranges extent)"

text \<open>The ranges the archive needs, in the order the code visits them: the two tables, the table of high
  words when there is one, and the payload of every live block that stores bytes.\<close>

definition table_ranges :: "mpq_archive_s \<Rightarrow> (nat \<times> nat) list" where
  "table_ranges ar =
     [(unat (hash_table_offset (mpq_header ar)) + unat (hash_table_offset_high (mpq_header_ex ar)) * 2 ^ 32,
       unat (hash_table_count (mpq_header ar)) * LIBMPQ_HASH_ENTRY_WIRE_SIZE),
      (unat (block_table_offset (mpq_header ar)) + unat (block_table_offset_high (mpq_header_ex ar)) * 2 ^ 32,
       unat (block_table_count (mpq_header ar)) * LIBMPQ_BLOCK_ENTRY_WIRE_SIZE)] @
     (if extended_offset (mpq_header_ex ar) \<noteq> 0
      then [(unat (extended_offset (mpq_header_ex ar)),
             unat (block_table_count (mpq_header ar)) * LIBMPQ_BLOCK_EX_ENTRY_WIRE_SIZE)]
      else [])"

definition payload_ranges :: "mpq_archive_s \<Rightarrow> (nat \<times> nat) list" where
  "payload_ranges ar =
     map (\<lambda>i. (payload_offset ar i, unat (packed_size (mpq_block ar ! i))))
       (filter (\<lambda>i. flags (mpq_block ar ! i) AND LIBMPQ_FLAG_EXISTS \<noteq> 0 \<and> packed_size (mpq_block ar ! i) \<noteq> 0)
         [0..<unat (block_table_count (mpq_header ar))])"

text \<open>The code also refuses a handle without block tables; the handle of the model always has them.\<close>

definition libmpq__archive_required_extent :: "mpq_archive_s option \<Rightarrow> out_ptr \<Rightarrow> nat result" where
  "libmpq__archive_required_extent archive out =
     (case archive of
        None \<Rightarrow> Inl ERROR_EXIST
      | Some ar \<Rightarrow>
          if out = None then Inl ERROR_EXIST
          else if archive_offset ar < 0 \<or> version (mpq_header ar) > 1 then Inl ERROR_FORMAT
          else if unat (header_size (mpq_header ar)) <
              LIBMPQ_HEADER_WIRE_SIZE + (if version (mpq_header ar) = 1 then LIBMPQ_HEADER_EX_WIRE_SIZE else 0)
          then Inl ERROR_FORMAT
          else extend_all (table_ranges ar @ payload_ranges ar) (unat (header_size (mpq_header ar))))"

definition libmpq__archive_signature_extent :: "mpq_archive_s option \<Rightarrow> out_ptr \<Rightarrow> nat result" where
  "libmpq__archive_signature_extent archive out =
     (case archive of
        None \<Rightarrow> Inl ERROR_EXIST
      | Some ar \<Rightarrow>
          if out = None then Inl ERROR_EXIST
          else case libmpq__archive_required_extent archive (Some 0) of
            Inl e \<Rightarrow> Inl e
          | Inr required \<Rightarrow>
              let extent = (if version (mpq_header ar) = 0 then unat (archive_size (mpq_header ar)) else required)
              in if extent < required \<or> nat (archive_offset ar) > ar_file_size ar \<or>
                   extent > ar_file_size ar - nat (archive_offset ar)
                 then Inl ERROR_FORMAT else Inr extent)"

lemma extend_all_Inr:
  "extend_all ranges extent = Inr out \<longleftrightarrow>
     (\<forall>(off, len)\<in>List.set ranges. off \<le> UINT64_MAX - len) \<and>
     out = fold max (map (\<lambda>(off, len). off + len) ranges) extent"
  by (induction ranges extent rule: extend_all.induct)
    (auto simp: extend_extent_def max_def not_less split: if_splits)

lemma fold_max_upper: "extent \<le> fold max xs extent \<and> (\<forall>x\<in>List.set xs. x \<le> fold max xs (extent::nat))"
proof (induction xs arbitrary: extent)
  case (Cons a xs)
  from Cons [of "max a extent"] show ?case by auto
qed simp

lemma fold_max_least: "extent \<le> b \<Longrightarrow> \<forall>x\<in>List.set xs. x \<le> b \<Longrightarrow> fold max xs extent \<le> (b::nat)"
  by (induction xs arbitrary: extent) auto

lemma required_extent_Inr:
  assumes "libmpq__archive_required_extent (Some ar) (Some p) = Inr n"
  shows "\<forall>(off, len)\<in>List.set (table_ranges ar @ payload_ranges ar). off + len \<le> n"
    "unat (header_size (mpq_header ar)) \<le> n"
    "unat (header_size (mpq_header ar)) \<le> b \<Longrightarrow>
       \<forall>(off, len)\<in>List.set (table_ranges ar @ payload_ranges ar). off + len \<le> b \<Longrightarrow> n \<le> b"
proof -
  let ?ends = "map (\<lambda>(off, len). off + len) (table_ranges ar @ payload_ranges ar)"
  have n: "n = fold max ?ends (unat (header_size (mpq_header ar)))"
    using assms by (auto simp: libmpq__archive_required_extent_def extend_all_Inr split: if_splits)
  show "\<forall>(off, len)\<in>List.set (table_ranges ar @ payload_ranges ar). off + len \<le> n"
    "unat (header_size (mpq_header ar)) \<le> n"
    using fold_max_upper [of "unat (header_size (mpq_header ar))" ?ends] unfolding n by auto
  show "unat (header_size (mpq_header ar)) \<le> b \<Longrightarrow>
       \<forall>(off, len)\<in>List.set (table_ranges ar @ payload_ranges ar). off + len \<le> b \<Longrightarrow> n \<le> b"
    unfolding n by (rule fold_max_least) auto
qed

lemma payload_ranges_member:
  assumes "archive_ok ar" "number < ar_files ar" "packed_size (block_entry ar number) \<noteq> 0"
  shows "(payload_offset ar (block_index ar number), unat (packed_size (block_entry ar number))) \<in> List.set (payload_ranges ar)"
  using assms archive_ok_block_index [OF assms(1,2)]
  by (auto simp: payload_ranges_def block_entry_def exists_flag_def archive_ok_def archive_tables_ok_def)


end
