(* ===== verification/Mpq_Open.thy ===== *)
theory Mpq_Open
  imports Mpq_Archive
begin

text \<open>
  Opening an archive over a source that serves an image exactly (the interface \<open>exact_reader\<close> of the
  source layer): an image that stores a header and the encrypted tables is opened to those tables, at
  a given position and by the search for an embedded archive; and the entry points of
  \<^verbatim>\<open>src/mpq-reader.c\<close> that create the source first.
\<close>

subsection \<open>Archive images\<close>

definition stored :: "u8 list \<Rightarrow> nat \<Rightarrow> u8 list \<Rightarrow> bool" where
  "stored img off bs \<longleftrightarrow> off + length bs \<le> length img \<and> take (length bs) (drop off img) = bs"

definition hash_table_at :: "nat \<Rightarrow> mpq_header_s \<Rightarrow> mpq_header_ex_s \<Rightarrow> nat" where
  "hash_table_at pos h ex = unat (hash_table_offset h) + unat (hash_table_offset_high ex) * 2 ^ 32 + pos"

definition block_table_at :: "nat \<Rightarrow> mpq_header_s \<Rightarrow> mpq_header_ex_s \<Rightarrow> nat" where
  "block_table_at pos h ex = unat (block_table_offset h) + unat (block_table_offset_high ex) * 2 ^ 32 + pos"

text \<open>The header of an image, and the tables it announces.\<close>

definition header_stored :: "u8 list \<Rightarrow> nat \<Rightarrow> mpq_header_s \<Rightarrow> mpq_header_ex_s \<Rightarrow> bool" where
  "header_stored img pos h ex \<longleftrightarrow>
     mpq_magic h = LIBMPQ_HEADER \<and> version h \<le> 1 \<and> block_size h \<le> 22 \<and> normalize_header h = h \<and>
     stored img pos (header_bytes h) \<and>
     (if version h = 1 then stored img (pos + 32) (header_ex_bytes ex)
      else ex = \<lparr>extended_offset = 0, hash_table_offset_high = 0, block_table_offset_high = 0\<rparr>)"

definition tables_stored ::
  "u8 list \<Rightarrow> nat \<Rightarrow> mpq_header_s \<Rightarrow> mpq_header_ex_s \<Rightarrow> mpq_hash_s list \<Rightarrow> mpq_block_s list \<Rightarrow> mpq_block_ex_s list \<Rightarrow> bool"
where
  "tables_stored img pos h ex hashes blocks blocks_ex \<longleftrightarrow>
     unat (hash_table_count h) = length hashes \<and> 16 * length hashes \<le> UINT32_MAX \<and>
     unat (block_table_count h) = length blocks \<and> 16 * length blocks \<le> UINT32_MAX \<and>
     length blocks_ex = length blocks \<and>
     stored img (hash_table_at pos h ex)
       (libmpq__crypto_encrypt_block (concat (map hash_entry_bytes hashes)) (length hashes * 16) (table_key hash_table_name)) \<and>
     stored img (block_table_at pos h ex)
       (libmpq__crypto_encrypt_block (concat (map block_entry_bytes blocks)) (length blocks * 16) (table_key block_table_name)) \<and>
     (if extended_offset ex > 0
      then stored img (unat (extended_offset ex) + pos) (concat (map block_ex_entry_bytes blocks_ex))
      else blocks_ex = replicate (length blocks) \<lparr>offset_high = 0\<rparr>)"

text \<open>No header starts at an earlier multiple of 512.\<close>

definition no_header_before :: "u8 list \<Rightarrow> nat \<Rightarrow> bool" where
  "no_header_before img n \<longleftrightarrow> (\<forall>j<n. take 4 (drop (512 * j) img) \<noteq> le32_bytes LIBMPQ_HEADER)"

lemma entry_tables_length [simp]:
  "length (concat (map hash_entry_bytes hs)) = length hs * 16"
  "length (concat (map block_entry_bytes bs)) = length bs * 16"
  "length (concat (map block_ex_entry_bytes xs)) = length xs * 2"
  using hash_codec.length_table [of hs] block_codec.length_table [of bs] block_ex_codec.length_table [of xs]
  by (simp_all add: mult.commute)

lemma entry_tables_decode:
  "length hs \<le> UINT32_MAX \<Longrightarrow>
     libmpq__hash_table_decode (Some (concat (map hash_entry_bytes hs))) (length hs * 16) (length hs) = Inr hs"
  "length bs \<le> UINT32_MAX \<Longrightarrow>
     libmpq__block_table_decode (Some (concat (map block_entry_bytes bs))) (length bs * 16) (length bs) = Inr bs"
  "length xs \<le> UINT32_MAX \<Longrightarrow>
     libmpq__block_ex_table_decode (Some (concat (map block_ex_entry_bytes xs))) (length xs * 2) (length xs) = Inr xs"
  using hash_codec.load_table [of hs "[]"] block_codec.load_table [of bs "[]"] block_ex_codec.load_table [of xs "[]"]
  by (simp_all add: libmpq__hash_table_decode_def libmpq__block_table_decode_def libmpq__block_ex_table_decode_def
      wire_defs UINT32_MAX_def SIZE_MAX_def)

subsection \<open>Reading an image\<close>

locale archive_source = exact_reader "libmpq__source_read_at (Some s)" img
  for s :: mpq_source_s and img :: "u8 list" +
  assumes src_sized: "src_size s = length img" and addressable: "length img \<le> INT64_MAX"
begin

lemma read_stored:
  assumes "stored img off bs"
  shows "read_bytes s off (length bs) = Inr bs"
  using assms read_bytes [of off "replicate (length bs) 0"] addressable
  by (simp add: stored_def read_bytes_def)

lemma read_stored_mod:
  assumes "stored img off bs"
  shows "read_bytes s (off mod 2 ^ 64) (length bs) = Inr bs"
  using read_stored [OF assms] assms addressable by (simp add: stored_def INT64_MAX_def)

lemma load_stored_table:
  assumes "stored img off (case k of None \<Rightarrow> bs | Some x \<Rightarrow> libmpq__crypto_encrypt_block bs (length bs) x)"
    and "length bs = unat count * width" "0 < width" "unat count * width \<le> UINT32_MAX"
    and "decode (Some bs) (length bs) (unat count) = Inr t"
  shows "load_table (\<lambda>_. True) s off count width k decode = Inr t"
proof -
  let ?raw = "case k of None \<Rightarrow> bs | Some x \<Rightarrow> libmpq__crypto_encrypt_block bs (length bs) x"
  have len: "length ?raw = length bs" by (cases k) (simp_all add: crypt_block_roundtrip)
  have "unat count \<le> SIZE_MAX div width"
    using assms(3,4) by (simp add: less_eq_div_iff_mult_less_eq SIZE_MAX_def UINT32_MAX_def)
  moreover have "read_bytes s (off mod 2 ^ 64) (unat count * width) = Inr ?raw"
    using read_stored_mod [OF assms(1)] len assms(2) by simp
  ultimately show ?thesis
    using assms(2-) by (cases k) (simp_all add: load_table_def table_size_def lift_result_def crypt_block_roundtrip)
qed

lemma header_found:
  assumes "header_stored img pos h ex"
  shows "find_header s (length img) search pos = Inr (pos, h)"
proof -
  have "read_bytes s pos LIBMPQ_HEADER_WIRE_SIZE = Inr (header_bytes h)"
    using read_stored [of pos "header_bytes h"] assms by (simp add: header_stored_def wire_defs)
  moreover have "pos + 32 \<le> length img" using assms by (simp add: header_stored_def stored_def)
  ultimately show ?thesis
    using assms header_decode_bytes [of 32 h "[]"]
    by (auto simp: find_header.simps header_stored_def lift_result_def wire_defs)
qed

lemma find_header_skips:
  assumes "no_header_before img n" "512 * n + 32 \<le> length img" "k \<le> n"
  shows "find_header s (length img) True (512 * k) = find_header s (length img) True (512 * n)"
  using assms(3)
proof (induction "n - k" arbitrary: k)
  case (Suc d)
  then have "k < n" by simp
  let ?bs = "take 32 (drop (512 * k) img)"
  have room: "512 * k + 32 \<le> length img" using assms(2) \<open>k < n\<close> by simp
  then have "stored img (512 * k) ?bs" by (simp add: stored_def)
  from read_stored [OF this] room have rd: "read_bytes s (512 * k) 32 = Inr ?bs" by simp
  obtain hd where hd: "libmpq__header_decode (Some ?bs) 32 = Inr hd" "mpq_magic hd = libmpq__load_le32 (Some ?bs)"
    using room by (auto simp: header_codec_simps wire_defs)
  have "le32_bytes (libmpq__load_le32 (Some ?bs)) = take 4 ?bs" using room by (intro le32.bytes_load) simp
  also have "\<dots> = take 4 (drop (512 * k) img)" by (simp add: min_def)
  also have "\<dots> \<noteq> le32_bytes LIBMPQ_HEADER" using assms(1) \<open>k < n\<close> by (simp add: no_header_before_def)
  finally have "mpq_magic hd \<noteq> LIBMPQ_HEADER" using hd(2) by auto
  then have "find_header s (length img) True (512 * k) = find_header s (length img) True (512 * Suc k)"
    using room rd hd(1) by (subst find_header.simps) (auto simp: lift_result_def wire_defs add.commute)
  then show ?case using Suc.hyps(1) [of "Suc k"] Suc.hyps(2) \<open>k < n\<close> by simp
qed simp

lemma load_header_ex_stored:
  assumes "header_stored img pos h ex"
  shows "load_header_ex s (length img) pos h = Inr ex"
proof (cases "version h = 1")
  case True
  then have st: "stored img (pos + 32) (header_ex_bytes ex)" using assms by (simp add: header_stored_def)
  then have "pos + 44 \<le> length img" by (simp add: stored_def)
  with True read_stored [OF st] addressable header_ex_decode_bytes [of 12 ex "[]"] show ?thesis
    by (simp add: load_header_ex_def wire_defs lift_result_def INT64_MAX_def UINT64_MAX_def)
next
  case False
  then show ?thesis using assms by (simp add: load_header_ex_def header_stored_def)
qed

lemma load_archive_stored:
  assumes "header_stored img pos h ex" "tables_stored img pos h ex hashes blocks blocks_ex"
  shows "\<exists>ar. load_archive (\<lambda>_. True) s (length img) (pos, h) = Inr ar \<and>
    mpq_header ar = h \<and> mpq_header_ex ar = ex \<and> mpq_hash ar = hashes \<and> mpq_block ar = blocks \<and>
    mpq_block_ex ar = blocks_ex \<and> archive_offset ar = int pos \<and>
    ar_files ar = of_nat (length (live_blocks blocks))"
proof -
  note t = assms(2) [unfolded tables_stored_def]
  have "load_table (\<lambda>_. True) s (hash_table_at pos h ex) (hash_table_count h) LIBMPQ_HASH_ENTRY_WIRE_SIZE
      (Some (table_key hash_table_name)) libmpq__hash_table_decode = Inr hashes"
    using t entry_tables_decode(1) [of hashes]
    by (intro load_stored_table [where bs = "concat (map hash_entry_bytes hashes)"])
      (auto simp: wire_defs mult.commute)
  moreover have "load_table (\<lambda>_. True) s (block_table_at pos h ex) (block_table_count h) LIBMPQ_BLOCK_ENTRY_WIRE_SIZE
      (Some (table_key block_table_name)) libmpq__block_table_decode = Inr blocks"
    using t entry_tables_decode(2) [of blocks]
    by (intro load_stored_table [where bs = "concat (map block_entry_bytes blocks)"])
      (auto simp: wire_defs mult.commute)
  moreover have "extended_offset ex > 0 \<Longrightarrow>
      load_table (\<lambda>_. True) s (unat (extended_offset ex) + pos) (block_table_count h)
        LIBMPQ_BLOCK_EX_ENTRY_WIRE_SIZE None libmpq__block_ex_table_decode = Inr blocks_ex"
    using t entry_tables_decode(3) [of blocks_ex]
    by (intro load_stored_table [where bs = "concat (map block_ex_entry_bytes blocks_ex)"])
      (auto simp: wire_defs)
  moreover have "length hashes * 16 \<le> length img" "length blocks * 16 \<le> length img"
    using t by (auto simp: stored_def crypt_block_roundtrip)
  moreover have "\<not> block_size h > 22" using assms(1) by (simp add: header_stored_def not_less)
  ultimately show ?thesis
    using t load_header_ex_stored [OF assms(1)] build_map_correct(2) [of blocks]
    by (auto simp: load_archive_def table_size_def wire_defs metadata_allocs_def hash_table_at_def
        block_table_at_def SIZE_MAX_def UINT32_MAX_def mult.commute)
qed

lemma open_stored:
  assumes "header_stored img pos h ex" "tables_stored img pos h ex hashes blocks blocks_ex"
    and "off = int pos \<or> off = -1 \<and> (\<exists>n. pos = 512 * n \<and> no_header_before img n)"
  shows "\<exists>ar. libmpq__reader_archive_open_source (\<lambda>_. True) (Some p) name off s = (Inr ar, []) \<and>
    mpq_header ar = h \<and> mpq_header_ex ar = ex \<and> mpq_hash ar = hashes \<and> mpq_block ar = blocks \<and>
    mpq_block_ex ar = blocks_ex \<and> archive_offset ar = int pos \<and>
    ar_files ar = of_nat (length (live_blocks blocks))"
proof -
  have "pos + 32 \<le> length img" using assms(1) by (simp add: header_stored_def stored_def)
  then have "find_header s (length img) (off = -1) (nat (if off = -1 then 0 else off)) = Inr (pos, h)"
    using assms(3) header_found [OF assms(1)] find_header_skips [of _ 0] by auto
  with load_archive_stored [OF assms(1,2)] show ?thesis
    using assms(3) by (auto simp: libmpq__reader_archive_open_source_def Let_def libmpq__source_size_def src_sized
        split: option.split)
qed

end

subsection \<open>The entry points\<close>

text \<open>The opener of an archive takes over the source that the first step made; \<open>alloc_src\<close> and \<open>alloc\<close>
  are what the allocator answers for the blocks of a source and for the handle and its tables.\<close>

definition open_with ::
  "(nat \<Rightarrow> bool) \<Rightarrow> out_ptr \<Rightarrow> string option \<Rightarrow> int \<Rightarrow> mpq_source_s io \<times> log \<Rightarrow> mpq_archive_s io \<times> log" where
  "open_with alloc mpq_archive name off opened =
     (case opened of
        (Inl e, log) \<Rightarrow> (Inl e, log)
      | (Inr source, log) \<Rightarrow>
          (case libmpq__reader_archive_open_source alloc mpq_archive name off source of
             (r, log') \<Rightarrow> (r, log @ log')))"

definition libmpq__reader_archive_open_path ::
  "(resource \<Rightarrow> bool) \<Rightarrow> (nat \<Rightarrow> bool) \<Rightarrow> fopen_fn \<Rightarrow> out_ptr \<Rightarrow> string option \<Rightarrow> int \<Rightarrow> mpq_archive_s io \<times> log" where
  "libmpq__reader_archive_open_path alloc_src alloc fopen mpq_archive filename off =
     (if mpq_archive = None then (Inl (error_code ERROR_EXIST), [])
      else open_with alloc mpq_archive filename off (libmpq__source_open_file alloc_src fopen (Some 0) filename))"

definition libmpq__reader_archive_open_mpqe ::
  "(resource \<Rightarrow> bool) \<Rightarrow> (nat \<Rightarrow> bool) \<Rightarrow> fopen_fn \<Rightarrow> out_ptr \<Rightarrow> string option \<Rightarrow> int \<Rightarrow> ptr \<Rightarrow> nat \<Rightarrow> mpq_archive_s io \<times> log" where
  "libmpq__reader_archive_open_mpqe alloc_src alloc fopen mpq_archive filename off auth_code auth_code_size =
     (if mpq_archive = None then (Inl (error_code ERROR_EXIST), [])
      else open_with alloc mpq_archive filename off
        (libmpq__source_open_mpqe alloc_src fopen (Some 0) filename auth_code auth_code_size))"

text \<open>The argument checks that both callback openers make.\<close>

definition check_io_arguments :: "out_ptr \<Rightarrow> libmpq_read_at_fn option \<Rightarrow> int \<Rightarrow> int \<Rightarrow> unit result" where
  "check_io_arguments mpq_archive cb io_size off =
     (if mpq_archive = None then Inl ERROR_EXIST
      else if cb = None then Inl ERROR_EXIST
      else if io_size < 0 then Inl ERROR_SIZE
      else if off < -1 then Inl ERROR_SEEK
      else if off \<ge> 0 \<and> off > io_size then Inl ERROR_SEEK
      else Inr ())"

definition libmpq__reader_archive_open_io ::
  "(resource \<Rightarrow> bool) \<Rightarrow> (nat \<Rightarrow> bool) \<Rightarrow> out_ptr \<Rightarrow> libmpq_read_at_fn option \<Rightarrow> int \<Rightarrow> int \<Rightarrow> string option \<Rightarrow> mpq_archive_s io \<times> log" where
  "libmpq__reader_archive_open_io alloc_src alloc mpq_archive cb io_size off source_name =
     (case check_io_arguments mpq_archive cb io_size off of
        Inl e \<Rightarrow> (Inl (error_code e), [])
      | Inr _ \<Rightarrow> open_with alloc mpq_archive source_name off
          (libmpq__source_open_io alloc_src (Some 0) cb (nat io_size)))"

definition libmpq__reader_archive_open_mpqe_io ::
  "(resource \<Rightarrow> bool) \<Rightarrow> (nat \<Rightarrow> bool) \<Rightarrow> out_ptr \<Rightarrow> libmpq_read_at_fn option \<Rightarrow> int \<Rightarrow> int \<Rightarrow> ptr \<Rightarrow> nat \<Rightarrow> string option \<Rightarrow> mpq_archive_s io \<times> log" where
  "libmpq__reader_archive_open_mpqe_io alloc_src alloc mpq_archive cb io_size off auth_code auth_code_size source_name =
     (case check_io_arguments mpq_archive cb io_size off of
        Inl e \<Rightarrow> (Inl (error_code e), [])
      | Inr _ \<Rightarrow> open_with alloc mpq_archive source_name off
          (libmpq__source_open_mpqe_io alloc_src (Some 0) cb (nat io_size) auth_code auth_code_size))"

text \<open>A clone of a file source must still be the same file.\<close>

definition clone_checked :: "(u64 \<times> u64) option \<Rightarrow> mpq_source_s io \<times> log \<Rightarrow> mpq_source_s io \<times> log" where
  "clone_checked ids cloned =
     (case (ids, cloned) of
        (Some ident, (Inr source, log)) \<Rightarrow>
          (case libmpq__source_file_identity (Some source) (Some 0) (Some 0) of
             Inl e \<Rightarrow> (Inl e, log @ libmpq__source_discard (Some source))
           | Inr now \<Rightarrow>
               if now \<noteq> ident then (Inl (error_code ERROR_EXIST), log @ libmpq__source_discard (Some source))
               else (Inr source, log))
      | _ \<Rightarrow> cloned)"

definition libmpq__reader_archive_clone ::
  "(resource \<Rightarrow> bool) \<Rightarrow> (nat \<Rightarrow> bool) \<Rightarrow> fopen_fn \<Rightarrow> out_ptr \<Rightarrow> mpq_archive_s option \<Rightarrow> mpq_archive_s io \<times> log" where
  "libmpq__reader_archive_clone alloc_src alloc fopen clone source =
     (if clone = None then (Inl (error_code ERROR_EXIST), [])
      else case source of
        None \<Rightarrow> (Inl (error_code ERROR_EXIST), [])
      | Some ar \<Rightarrow>
          open_with alloc clone (ar_filename ar) (archive_offset ar)
            (clone_checked (ar_identity ar)
              (libmpq__source_clone alloc_src fopen (Some 0) (Some (ar_source ar)) (ar_filename ar))))"

text \<open>Closing a reader handle. The log is that of the source; the frees of the tables, the file map, the
  cached offsets, the attributes and the handle itself leave no trace here, since those are values of
  the model, and the branch that finishes a handle in write mode belongs to the writer.\<close>

definition libmpq__archive_close :: "mpq_archive_s option \<Rightarrow> int \<times> log" where
  "libmpq__archive_close mpq_archive =
     (case mpq_archive of
        None \<Rightarrow> (error_code ERROR_EXIST, [])
      | Some ar \<Rightarrow> libmpq__source_close (Some (ar_source ar)))"

subsection \<open>Resources\<close>

text \<open>What is left of the source's resources after a failed open, and after the opened handle is closed.\<close>

definition archive_balanced :: "mpq_archive_s io \<times> log \<Rightarrow> bool" where
  "archive_balanced opened =
     (case opened of
        (Inl e, log) \<Rightarrow> (\<forall>r. held r log = 0)
      | (Inr ar, log) \<Rightarrow> (\<forall>r. held r (log @ snd (libmpq__archive_close (Some ar))) = 0))"

lemma load_archive_source: "load_archive alloc source fsize found = Inr ar \<Longrightarrow> ar_source ar = source"
  by (cases found) (auto simp: load_archive_def io_bind_Inr split: if_splits)

lemma open_source_log:
  "libmpq__reader_archive_open_source alloc p name off source = (Inl e, log) \<Longrightarrow>
     log = libmpq__source_discard (Some source)"
  by (auto simp: libmpq__reader_archive_open_source_def Let_def split: if_splits sum.splits)

lemma open_source_keeps:
  "libmpq__reader_archive_open_source alloc p name off source = (Inr ar, log) \<Longrightarrow>
     log = [] \<and> ar_source ar = source"
  by (auto elim!: archive_open_source_Inr dest: load_archive_source)

lemma balanced_open_with:
  assumes "balanced opened"
  shows "archive_balanced (open_with alloc p name off opened)"
proof -
  obtain r log where opened: "opened = (r, log)" by force
  show ?thesis
  proof (cases r)
    case (Inl e)
    then show ?thesis using assms opened by (simp add: balanced_def open_with_def archive_balanced_def)
  next
    case (Inr s)
    obtain r' log' where "libmpq__reader_archive_open_source alloc p name off s = (r', log')" by force
    then show ?thesis
      using Inr assms opened
      by (cases r') (auto simp: balanced_def open_with_def archive_balanced_def libmpq__archive_close_def
          dest!: open_source_log open_source_keeps)
  qed
qed

lemma balanced_clone_checked: "balanced cloned \<Longrightarrow> balanced (clone_checked ids cloned)"
  by (auto simp: clone_checked_def balanced_def split: option.split sum.split prod.split)

lemma archive_balanced_errors [simp]: "archive_balanced (Inl e, [])"
  by (simp add: archive_balanced_def)

subsection \<open>Opening reads the stored tables\<close>

interpretation file_archive: archive_source
  "file_source (sound_file (take INT64_MAX img)) (length (take INT64_MAX img)) own" "take INT64_MAX img" for img own
  using sound_file.logical.exact_reader_axioms by unfold_locales (auto simp: exact_reader_def)

interpretation io_archive: archive_source
  "io_source (sound_callback (take INT64_MAX img)) (length (take INT64_MAX img))" "take INT64_MAX img" for img
  using sound_io.logical.exact_reader_axioms by unfold_locales (auto simp: exact_reader_def)

interpretation mpqe_archive: archive_source
  "(io_source (sound_callback (take INT64_MAX img)) (length (take INT64_MAX img)))\<lparr>mpqe := True, key := k\<rparr>"
  "mpqe_plain k (take INT64_MAX img)" for img k
  using sound_mpqe.logical.exact_reader_axioms [of k "take INT64_MAX img"] by unfold_locales (auto simp: exact_reader_def)

text \<open>The sources that serve an image: a file, a callback, and an encrypted stream over a callback.\<close>

inductive serves :: "mpq_source_s \<Rightarrow> u8 list \<Rightarrow> bool" where
  from_file: "length img \<le> INT64_MAX \<Longrightarrow> serves (file_source (sound_file img) (length img) own) img"
| from_callback: "length img \<le> INT64_MAX \<Longrightarrow> serves (io_source (sound_callback img) (length img)) img"
| from_mpqe: "length img \<le> INT64_MAX \<Longrightarrow>
    serves ((io_source (sound_callback img) (length img))\<lparr>mpqe := True, key := k\<rparr>) (mpqe_plain k img)"

lemma serves_archive_source: "serves s img \<Longrightarrow> archive_source s img"
proof (induction rule: serves.induct)
  case (from_file img own)
  then show ?case using file_archive.archive_source_axioms [of img own] by simp
next
  case (from_callback img)
  then show ?case using io_archive.archive_source_axioms [of img] by simp
next
  case (from_mpqe img k)
  then show ?case using mpqe_archive.archive_source_axioms [of k img] by simp
qed


subsection \<open>A sample archive\<close>

text \<open>A version 1 archive with one stored file, used to instantiate the properties.\<close>

definition sample_header :: mpq_header_s where
  "sample_header = \<lparr>mpq_magic = LIBMPQ_HEADER, header_size = 32, archive_size = 64, version = 0, block_size = 3,
     hash_table_offset = 32, block_table_offset = 48, hash_table_count = 1, block_table_count = 1\<rparr>"

definition sample_hash :: mpq_hash_s where
  "sample_hash = \<lparr>hash_a = 7, hash_b = 9, locale_id = 0, platform = 0, block_table_index = 0\<rparr>"

definition sample_block :: mpq_block_s where
  "sample_block = \<lparr>offset = 32, packed_size = 10, unpacked_size = 10, flags = LIBMPQ_FLAG_EXISTS\<rparr>"

definition sample_image :: "u8 list" where
  "sample_image = header_bytes sample_header @
     libmpq__crypto_encrypt_block (hash_entry_bytes sample_hash) 16 (table_key hash_table_name) @
     libmpq__crypto_encrypt_block (block_entry_bytes sample_block) 16 (table_key block_table_name)"

definition no_header_ex :: mpq_header_ex_s where
  "no_header_ex = \<lparr>extended_offset = 0, hash_table_offset_high = 0, block_table_offset_high = 0\<rparr>"

lemma sample_stored:
  "header_stored sample_image 0 sample_header no_header_ex"
  "tables_stored sample_image 0 sample_header no_header_ex [sample_hash] [sample_block] [\<lparr>offset_high = 0\<rparr>]"
  by (simp_all add: header_stored_def tables_stored_def stored_def hash_table_at_def block_table_at_def
      sample_image_def sample_header_def no_header_ex_def normalize_header_def wire_defs UINT32_MAX_def
      crypt_block_roundtrip)

lemma sample_length [simp]: "length sample_image = 64"
  by (simp add: sample_image_def crypt_block_roundtrip)

lemma sample_serves: "serves (file_source (sound_file sample_image) 64 True) sample_image"
  using serves.from_file [of sample_image True] by (simp add: INT64_MAX_def)

lemma sample_opens:
  "\<exists>ar. libmpq__reader_archive_open_source (\<lambda>_. True) (Some 0) None 0 (file_source (sound_file sample_image) 64 True) = (Inr ar, []) \<and>
     mpq_hash ar = [sample_hash] \<and> mpq_block ar = [sample_block] \<and> mpq_block_ex ar = [\<lparr>offset_high = 0\<rparr>] \<and>
     mpq_header ar = sample_header \<and> mpq_header_ex ar = no_header_ex \<and> ar_files ar = 1 \<and> archive_offset ar = 0"
proof -
  have "live_blocks [sample_block] = [0]"
    by (simp add: live_blocks_def live_upto_def exists_flag_def sample_block_def LIBMPQ_FLAG_EXISTS_def)
  then show ?thesis
    using archive_source.open_stored [OF serves_archive_source [OF sample_serves] sample_stored, of 0 0 None] by auto
qed

lemma sample_opens_sized:
  "\<exists>ar. archive_ok ar \<and> mpq_header ar = sample_header \<and> mpq_header_ex ar = no_header_ex \<and>
     mpq_hash ar = [sample_hash] \<and> mpq_block ar = [sample_block] \<and> mpq_block_ex ar = [\<lparr>offset_high = 0\<rparr>] \<and>
     ar_files ar = 1 \<and> archive_offset ar = 0 \<and> ar_file_size ar = 64"
proof -
  obtain ar where ar: "libmpq__reader_archive_open_source (\<lambda>_. True) (Some 0) None 0 (file_source (sound_file sample_image) 64 True) =
      (Inr ar, [])" and rest: "mpq_hash ar = [sample_hash]" "mpq_block ar = [sample_block]" "mpq_block_ex ar = [\<lparr>offset_high = 0\<rparr>]"
     "mpq_header ar = sample_header" "mpq_header_ex ar = no_header_ex" "ar_files ar = 1" "archive_offset ar = 0"
    using sample_opens by blast
  moreover have "archive_ok ar" using open_source_ok [OF ar] .
  moreover have "ar_file_size ar = 64"
    using \<open>archive_ok ar\<close> open_source_keeps [OF ar] by (simp add: archive_ok_def)
  ultimately show ?thesis by blast
qed

subsection \<open>Properties\<close>

text \<open>C2: opening reads back what is stored: over a file, a callback or an encrypted stream, an image
  that holds a version 1 or 2 header at a position, the encrypted hash and block tables where the
  header says and the optional table of high offset words, opens at that position, and by the search
  for an embedded archive when no earlier multiple of 512 holds the magic, to a handle with exactly
  that header, those tables and as many files as there are live blocks.\<close>

theorem archive_open_reads_image:
  assumes "serves source img" "header_stored img pos h ex" "tables_stored img pos h ex hashes blocks blocks_ex"
    and "off = int pos \<or> off = -1 \<and> (\<exists>n. pos = 512 * n \<and> no_header_before img n)"
  shows "\<exists>ar. libmpq__reader_archive_open_source (\<lambda>_. True) (Some p) name off source = (Inr ar, []) \<and>
    mpq_header ar = h \<and> mpq_header_ex ar = ex \<and> mpq_hash ar = hashes \<and> mpq_block ar = blocks \<and>
    mpq_block_ex ar = blocks_ex \<and> archive_offset ar = int pos \<and>
    ar_files ar = of_nat (length (live_blocks blocks))"
  using archive_source.open_stored [OF serves_archive_source [OF assms(1)] assms(2-)] .

theorem archive_open_reads_image_witness:
  "\<exists>ar. libmpq__reader_archive_open_source (\<lambda>_. True) (Some 0) None (-1) (file_source (sound_file sample_image) 64 True) =
       (Inr ar, []) \<and>
     mpq_header ar = sample_header \<and> mpq_hash ar = [sample_hash] \<and> mpq_block ar = [sample_block]"
  using archive_open_reads_image [OF sample_serves sample_stored, of "-1" 0 None]
  by (auto simp: no_header_before_def)

text \<open>C7: whatever bytes the source holds, an archive that opens is well-formed: its tables have the
  lengths the header announces, the compact file numbers are exactly the live blocks in order with the
  difference field inverting them, the sector size is a power of two between 512 and 2 GiB, and the
  archive lies inside the source.\<close>

theorem archive_open_ok:
  "libmpq__reader_archive_open_source alloc p name off source = (Inr ar, log) \<Longrightarrow> archive_ok ar"
  by (rule open_source_ok)

theorem archive_open_ok_witness:
  "\<exists>ar. libmpq__reader_archive_open_source (\<lambda>_. True) (Some 0) None 0 (file_source (sound_file sample_image) 64 True) =
       (Inr ar, []) \<and> archive_ok ar \<and> mpq_block ar = [sample_block]"
  using sample_opens by (auto dest: archive_open_ok)

text \<open>C10: the name lookup is the first match of the probe sequence: it returns a file number exactly
  when some slot on the sequence that starts at the first hash matches the two check hashes, every
  earlier slot is used and does not match, and the slot names a live block; the number returned is
  then the one whose block is the slot's.\<close>

theorem file_number_from_hash_correct:
  assumes "archive_ok ar"
  shows "libmpq__file_number_from_hash ar hash1 hash2 hash3 = Inr number \<longleftrightarrow>
    (\<exists>k<length (mpq_hash ar).
       slot_matches hash2 hash3 (probe_slot ar hash1 k) \<and>
       (\<forall>j<k. slot_skipped hash2 hash3 (probe_slot ar hash1 j)) \<and>
       number < ar_files ar \<and> block_index ar number = unat (block_table_index (probe_slot ar hash1 k)))"
proof -
  let ?n = "unat (hash_table_count (mpq_header ar))"
  have slot: "slot_number ar s = Inr number \<longleftrightarrow>
      number < ar_files ar \<and> block_index ar number = unat (block_table_index s)" for s
    by (rule slot_number_Inr [OF assms])
  show ?thesis
  proof (cases "hash_table_count (mpq_header ar) = 0")
    case True
    then show ?thesis using assms by (simp add: libmpq__file_number_from_hash_def archive_ok_def archive_tables_ok_def)
  next
    case False
    then have "unat (hash1 mod hash_table_count (mpq_header ar)) < ?n"
      by (simp add: unat_mod unat_gt_0)
    from probe_loop_Inr [OF this refl, of hash2 hash3 ?n number] show ?thesis
      using False assms
      by (simp add: libmpq__file_number_from_hash_def Let_def probe_slot_def slot archive_ok_def archive_tables_ok_def)
  qed
qed

theorem file_number_from_hash_correct_witness:
  "\<exists>ar. archive_ok ar \<and> libmpq__file_number_from_hash ar 5 7 9 = Inr 0"
proof -
  obtain ar where ok: "archive_ok ar" and hash: "mpq_hash ar = [sample_hash]" and files: "ar_files ar = 1"
    and h: "mpq_header ar = sample_header" and b: "mpq_block ar = [sample_block]"
    using sample_opens open_source_ok by blast
  have "block_index ar 0 = 0"
    using archive_ok_block_index(1) [OF ok, of 0] files b by simp
  then show ?thesis
    using file_number_from_hash_correct [OF ok, of 5 7 9 0] ok hash files h
    by (auto simp: probe_slot_def sample_header_def sample_hash_def slot_matches_def LIBMPQ_HASH_FREE_def)
qed

lemma extend_all_error: "extend_all ranges extent = Inl e \<Longrightarrow> e = ERROR_FORMAT \<and> (\<exists>(off, len)\<in>List.set ranges. UINT64_MAX - len < off)"
  by (induction ranges extent rule: extend_all.induct) (auto simp: extend_extent_def split: if_splits)

lemma payload_ranges_iff:
  assumes "archive_ok ar"
  shows "(\<forall>(off, len)\<in>List.set (payload_ranges ar). off + len \<le> b) \<longleftrightarrow>
    (\<forall>number. number < ar_files ar \<and> packed_size (block_entry ar number) \<noteq> 0 \<longrightarrow>
       payload_offset ar (block_index ar number) + unat (packed_size (block_entry ar number)) \<le> b)"
proof -
  have "\<exists>number. number < ar_files ar \<and> block_index ar number = i"
    if "i < length (mpq_block ar)" "flags (mpq_block ar ! i) AND LIBMPQ_FLAG_EXISTS \<noteq> 0" for i
    using archive_ok_invert [OF assms that(1)] that(2) by (auto simp: exists_flag_def)
  moreover have "length (mpq_block ar) = unat (block_table_count (mpq_header ar))"
    using assms by (simp add: archive_ok_def archive_tables_ok_def)
  ultimately show ?thesis
    using payload_ranges_member [OF assms] by (fastforce simp: payload_ranges_def block_entry_def)
qed

lemma wide_offset_bound:
  fixes high :: u16 and low count :: u32
  shows "unat low + unat high * 2 ^ 32 \<le> UINT64_MAX - 16 * unat count"
    "unat high * 2 ^ 32 + unat low \<le> UINT64_MAX - unat count"
proof -
  have "h < 65536 \<Longrightarrow> l < 4294967296 \<Longrightarrow> c < 4294967296 \<Longrightarrow>
      l + h * 4294967296 \<le> 18446744073709551615 - 16 * c \<and> h * 4294967296 + l \<le> 18446744073709551615 - c" for h l c :: nat
    by arith
  from this [of "unat high" "unat low" "unat count"]
  have "unat low + unat high * 4294967296 \<le> 18446744073709551615 - 16 * unat count \<and>
      unat high * 4294967296 + unat low \<le> 18446744073709551615 - unat count"
    using unsigned_less [of high] unsigned_less [of low] unsigned_less [of count] by simp
  then show "unat low + unat high * 2 ^ 32 \<le> UINT64_MAX - 16 * unat count"
    "unat high * 2 ^ 32 + unat low \<le> UINT64_MAX - unat count"
    by (simp_all add: UINT64_MAX_def)
qed

text \<open>Only the extended table can end beyond 64 bits: its offset is a full 64-bit word, while those
  of the other tables and of the stored files have 48 bits.\<close>

lemma table_or_payload_wide:
  assumes "(off, len) \<in> List.set (table_ranges ar @ payload_ranges ar)" "UINT64_MAX - len < off"
  shows "extended_offset (mpq_header_ex ar) \<noteq> 0 \<and>
    2 ^ 64 \<le> unat (extended_offset (mpq_header_ex ar)) + 2 * unat (block_table_count (mpq_header ar))"
proof -
  have "off \<le> UINT64_MAX - len" if "(off, len) \<in> List.set (payload_ranges ar)"
  proof -
    from that obtain i where "off = payload_offset ar i" "len = unat (packed_size (mpq_block ar ! i))"
      by (auto simp: payload_ranges_def)
    then show ?thesis unfolding payload_offset_def by (simp only: wide_offset_bound(2))
  qed
  then have "(off, len) \<in> List.set (table_ranges ar)" using assms by auto
  moreover have "(off, len) \<noteq> (unat low + unat high * 2 ^ 32, unat count * 16)" for low count :: u32 and high :: u16
    using assms(2) wide_offset_bound(1) [of low high count] by (auto simp: mult.commute)
  ultimately have "extended_offset (mpq_header_ex ar) \<noteq> 0"
    "off = unat (extended_offset (mpq_header_ex ar))" "len = 2 * unat (block_table_count (mpq_header ar))"
    by (simp_all add: table_ranges_def wire_defs mult.commute split: if_splits) blast+
  then show ?thesis using assms(2) by (simp add: UINT64_MAX_def)
qed

lemma required_extent_fields:
  assumes "archive_ok ar" "libmpq__archive_required_extent (Some ar) (Some p) = Inr n"
  shows "n \<le> b \<longleftrightarrow> unat (header_size (mpq_header ar)) \<le> b \<and>
    unat (hash_table_offset (mpq_header ar)) + unat (hash_table_offset_high (mpq_header_ex ar)) * 2 ^ 32 +
      16 * unat (hash_table_count (mpq_header ar)) \<le> b \<and>
    unat (block_table_offset (mpq_header ar)) + unat (block_table_offset_high (mpq_header_ex ar)) * 2 ^ 32 +
      16 * unat (block_table_count (mpq_header ar)) \<le> b \<and>
    (unat (extended_offset (mpq_header_ex ar)) \<noteq> 0 \<longrightarrow>
       unat (extended_offset (mpq_header_ex ar)) + 2 * unat (block_table_count (mpq_header ar)) \<le> b) \<and>
    (\<forall>number. number < ar_files ar \<and> packed_size (block_entry ar number) \<noteq> 0 \<longrightarrow>
       unat (offset (block_entry ar number)) + unat (offset_high (mpq_block_ex ar ! block_index ar number)) * 2 ^ 32 +
         unat (packed_size (block_entry ar number)) \<le> b)" (is "_ \<longleftrightarrow> ?header \<and> ?hash \<and> ?block \<and> ?high \<and> ?files")
proof -
  have all: "n \<le> b \<longleftrightarrow> ?header \<and> (\<forall>(off, len)\<in>List.set (table_ranges ar @ payload_ranges ar). off + len \<le> b)"
    using required_extent_Inr [OF assms(2)] by (blast intro: order_trans)
  have tables: "(\<forall>(off, len)\<in>List.set (table_ranges ar). off + len \<le> b) \<longleftrightarrow> ?hash \<and> ?block \<and> ?high"
    by (simp add: table_ranges_def wire_defs unat_eq_0 mult.commute)
  have files: "(\<forall>(off, len)\<in>List.set (payload_ranges ar). off + len \<le> b) \<longleftrightarrow> ?files"
    unfolding payload_ranges_iff [OF assms(1)] payload_offset_def block_entry_def by (simp only: add.commute)
  show ?thesis unfolding all set_append ball_Un tables files by (simp only: conj_assoc)
qed

text \<open>C17: the extent that an archive requires is the least one that holds it. For every opened archive the
  computation fails only with the format error, and only if the header is shorter than its version
  demands or the table of high words ends beyond 64 bits; otherwise a bound holds the extent exactly
  when it holds the header, 16 bytes per hash slot and per block entry from where the header puts the
  two tables, two bytes per block entry from the extended offset when that is set, and the stored
  bytes of every file that stores any. The extent that is signed is the declared size of a version 1
  archive and the required one otherwise, and it is computed exactly when it is not below the
  required one and lies inside the source.\<close>

theorem required_extent_least:
  assumes "archive_ok ar"
  shows "let h = mpq_header ar; ex = mpq_header_ex ar; high = unat (extended_offset ex); count = unat (block_table_count h)
    in (case libmpq__archive_required_extent (Some ar) (Some p) of
          Inl e \<Rightarrow> e = ERROR_FORMAT \<and> (unat (header_size h) < (if version h = 1 then 44 else 32) \<or> high \<noteq> 0 \<and> 2 ^ 64 \<le> high + 2 * count)
        | Inr n \<Rightarrow> \<forall>b. n \<le> b \<longleftrightarrow> unat (header_size h) \<le> b \<and>
            unat (hash_table_offset h) + unat (hash_table_offset_high ex) * 2 ^ 32 + 16 * unat (hash_table_count h) \<le> b \<and>
            unat (block_table_offset h) + unat (block_table_offset_high ex) * 2 ^ 32 + 16 * count \<le> b \<and>
            (high \<noteq> 0 \<longrightarrow> high + 2 * count \<le> b) \<and>
            (\<forall>number. number < ar_files ar \<and> packed_size (block_entry ar number) \<noteq> 0 \<longrightarrow>
               unat (offset (block_entry ar number)) + unat (offset_high (mpq_block_ex ar ! block_index ar number)) * 2 ^ 32 +
                 unat (packed_size (block_entry ar number)) \<le> b)) \<and>
       (\<forall>ext. libmpq__archive_signature_extent (Some ar) (Some p) = Inr ext \<longleftrightarrow>
          (\<exists>n. libmpq__archive_required_extent (Some ar) (Some p) = Inr n \<and> n \<le> ext \<and>
             ext = (if version h = 0 then unat (archive_size h) else n)) \<and>
          nat (archive_offset ar) + ext \<le> ar_file_size ar)"
proof -
  let ?h = "mpq_header ar" and ?ex = "mpq_header_ex ar"
  let ?high = "unat (extended_offset ?ex)" and ?count = "unat (block_table_count ?h)"
  have static: "0 \<le> archive_offset ar" "version ?h \<le> 1" using assms by (simp_all add: archive_ok_def)
  have zero: "extended_offset ?ex = 0 \<longleftrightarrow> ?high = 0" by (simp add: unat_eq_0)
  have sig: "\<forall>ext. libmpq__archive_signature_extent (Some ar) (Some p) = Inr ext \<longleftrightarrow>
      (\<exists>n. libmpq__archive_required_extent (Some ar) (Some p) = Inr n \<and> n \<le> ext \<and>
        ext = (if version ?h = 0 then unat (archive_size ?h) else n)) \<and> nat (archive_offset ar) + ext \<le> ar_file_size ar"
    by (auto simp: libmpq__archive_signature_extent_def libmpq__archive_required_extent_def Let_def
        split: if_splits sum.splits)
  show ?thesis
  proof (cases "libmpq__archive_required_extent (Some ar) (Some p)")
    case (Inl e)
    have "e = ERROR_FORMAT \<and> (unat (header_size ?h) < (if version ?h = 1 then 44 else 32) \<or> ?high \<noteq> 0 \<and> 2 ^ 64 \<le> ?high + 2 * ?count)"
    proof (cases "unat (header_size ?h) < (if version ?h = 1 then 44 else 32)")
      case True
      then show ?thesis using Inl static by (auto simp: libmpq__archive_required_extent_def wire_defs split: if_splits)
    next
      case False
      then have "extend_all (table_ranges ar @ payload_ranges ar) (unat (header_size ?h)) = Inl e"
        using Inl static by (auto simp: libmpq__archive_required_extent_def wire_defs split: if_splits)
      from extend_all_error [OF this] show ?thesis
        using table_or_payload_wide zero by blast
    qed
    then show ?thesis using Inl sig by (simp add: Let_def)
  next
    case (Inr n)
    show ?thesis
      unfolding Let_def Inr sum.case using required_extent_fields [OF assms Inr] sig [unfolded Inr]
      by (intro conjI allI) simp_all
  qed
qed

theorem required_extent_least_witness:
  "\<exists>ar. archive_ok ar \<and> libmpq__archive_required_extent (Some ar) (Some 0) = Inr 64 \<and>
     (\<forall>b. 64 \<le> b \<longrightarrow> unat (block_table_offset (mpq_header ar)) + 16 * unat (block_table_count (mpq_header ar)) \<le> b)"
proof -
  obtain ar where ar: "archive_ok ar" "mpq_header ar = sample_header" "mpq_header_ex ar = no_header_ex"
    "mpq_block ar = [sample_block]" "mpq_block_ex ar = [\<lparr>offset_high = 0\<rparr>]" "archive_offset ar = 0" "ar_file_size ar = 64"
    using sample_opens_sized by blast
  then have "libmpq__archive_required_extent (Some ar) (Some 0) = Inr 64"
    by (simp add: libmpq__archive_required_extent_def table_ranges_def
        payload_ranges_def payload_offset_def sample_header_def sample_block_def no_header_ex_def wire_defs
        extend_extent_def UINT64_MAX_def LIBMPQ_FLAG_EXISTS_def)
  then show ?thesis
    using required_extent_least [OF ar(1), of 0] ar(1,3) by (auto simp: Let_def no_header_ex_def)
qed

text \<open>No opener of an archive leaks what its source owns: on every path and for every pattern of allocation,
  file and read failures, a failed open has released the FILE stream and the blocks of the source it
  made, and an opened archive holds exactly those that closing it releases.\<close>

lemma archive_openers_balanced:
  "archive_balanced (libmpq__reader_archive_open_path alloc_src alloc fopen p name off) \<and>
   archive_balanced (libmpq__reader_archive_open_mpqe alloc_src alloc fopen p name off auth n) \<and>
   archive_balanced (libmpq__reader_archive_open_io alloc_src alloc p cb size' off name) \<and>
   archive_balanced (libmpq__reader_archive_open_mpqe_io alloc_src alloc p cb size' off auth n name) \<and>
   archive_balanced (libmpq__reader_archive_clone alloc_src alloc fopen p ar)"
  by (auto simp: libmpq__reader_archive_open_path_def libmpq__reader_archive_open_mpqe_def
      libmpq__reader_archive_open_io_def libmpq__reader_archive_open_mpqe_io_def libmpq__reader_archive_clone_def
      libmpq__source_open_file_def libmpq__source_open_mpqe_def libmpq__source_open_mpqe_io_def
      intro!: balanced_open_with balanced_open_common balanced_open_io balanced_open_mpqe_with balanced_clone
        balanced_clone_checked
      split: option.split sum.split)

end
