(* ===== verification/Mpq_Reader.thy ===== *)
theory Mpq_Reader
  imports Mpq_Open Mpq_Sector
begin

text \<open>
  The archive reader (\<^verbatim>\<open>src/mpq-reader.c\<close>): the reference-counted cache of sector offset tables with
  its key recovery, sector sizes and stored methods, sector checksums, and reading a sector: bounds,
  decryption, checksum, decompression. The operations that touch the cache return the archive they
  leave behind, on failure too, because the code may set the encrypted flag of a protected entry
  before it fails.
\<close>

subsection \<open>The offset cache\<close>

definition LIBMPQ_FLAG_KEY_V2 :: u32 where "LIBMPQ_FLAG_KEY_V2 = 0x00020000"
definition LIBMPQ_VERIFY_SECTOR_CRC :: u32 where "LIBMPQ_VERIFY_SECTOR_CRC = 0x00000001"
definition sizeof_mpq_file_s :: nat where "sizeof_mpq_file_s = 32"

definition packed_codec :: "mpq_block_s \<Rightarrow> bool" where
  "packed_codec b \<longleftrightarrow> flags b AND (LIBMPQ_FLAG_COMPRESSED OR LIBMPQ_FLAG_COMPRESS_PKZIP) \<noteq> 0"

definition single_unit :: "mpq_block_s \<Rightarrow> bool" where
  "single_unit b \<longleftrightarrow> flags b AND LIBMPQ_FLAG_SINGLE \<noteq> 0"

definition encrypted_entry :: "mpq_block_s \<Rightarrow> bool" where
  "encrypted_entry b \<longleftrightarrow> flags b AND LIBMPQ_FLAG_ENCRYPTED \<noteq> 0"

text \<open>Where the payload of a block starts in the source; the code adds in 64 bits.\<close>

definition payload_base :: "mpq_archive_s \<Rightarrow> nat \<Rightarrow> nat" where
  "payload_base ar i = (nat (archive_offset ar) + payload_offset ar i) mod 2 ^ 64"

text \<open>The key of a named entry.\<close>

definition named_seed :: "mpq_block_s \<Rightarrow> u32 \<Rightarrow> u32" where
  "named_seed b name_hash =
     (if flags b AND LIBMPQ_FLAG_KEY_V2 \<noteq> 0 then (name_hash + offset b) XOR unpacked_size b else name_hash)"

definition set_file :: "mpq_archive_s \<Rightarrow> u32 \<Rightarrow> mpq_file_s option \<Rightarrow> mpq_archive_s" where
  "set_file ar number f = ar\<lparr>mpq_file := (mpq_file ar)[unat number := f]\<rparr>"

definition mark_encrypted :: "mpq_archive_s \<Rightarrow> nat \<Rightarrow> mpq_archive_s" where
  "mark_encrypted ar i =
     ar\<lparr>mpq_block := (mpq_block ar)[i := (mpq_block ar ! i)\<lparr>flags := flags (mpq_block ar ! i) OR LIBMPQ_FLAG_ENCRYPTED\<rparr>]\<rparr>"

text \<open>The byte size of an offset table: one entry per sector, one for the end, one for the checksums.\<close>

definition offsets_size :: "mpq_archive_s \<Rightarrow> u32 \<Rightarrow> u32" where
  "offsets_size ar number =
     4 * (libmpq__reader_count_file_blocks ar number + 1) +
       (if flags (block_entry ar number) AND LIBMPQ_FLAG_CRC \<noteq> 0 then 4 else 0)"

text \<open>The monotonicity loop over the first \<open>n\<close> decoded offsets.\<close>

definition offsets_valid :: "u32 list \<Rightarrow> nat \<Rightarrow> u32 \<Rightarrow> bool" where
  "offsets_valid offs n packed \<longleftrightarrow>
     list_all (\<lambda>i. \<not> (offs ! i < offs ! (i - 1) \<or> offs ! i > packed)) [1..<n]"

text \<open>A stored offset table: read, flagged encrypted where its first word shows it, decrypted under the
  known or recovered seed, decoded and checked.\<close>

definition decrypt_offsets :: "u32 \<Rightarrow> u32 \<Rightarrow> mpq_file_s \<Rightarrow> u8 list \<Rightarrow> (mpq_file_s \<times> u8 list) io" where
  "decrypt_offsets tsize sector f raw =
     (case (if seed_known f then Inr (seed f)
            else libmpq__crypto_derive_block_table_seed (Some raw) tsize sector) of
        Inl _ \<Rightarrow> Inl (error_code ERROR_DECRYPT)
      | Inr s \<Rightarrow>
          let plain = libmpq__crypto_decrypt_block raw (unat tsize) (s - 1)
          in if libmpq__load_le32 (Some plain) \<noteq> tsize then Inl (error_code ERROR_DECRYPT)
             else Inr (f\<lparr>seed := s, seed_known := True\<rparr>, plain))"

definition decode_offsets :: "mpq_block_s \<Rightarrow> u32 \<Rightarrow> mpq_file_s \<times> u8 list \<Rightarrow> mpq_file_s io" where
  "decode_offsets b tsize st =
     (case st of (f, plain) \<Rightarrow>
        let offs = libmpq__reader_decode_uint32_table plain (unat tsize div 4)
        in if offs ! 0 \<noteq> tsize then Inl (error_code ERROR_FORMAT)
           else if \<not> offsets_valid offs (unat (packed_offset_count f)) (packed_size b) then Inl (error_code ERROR_FORMAT)
           else Inr (f\<lparr>packed_offset := offs\<rparr>))"

definition load_offsets ::
  "(nat \<Rightarrow> bool) \<Rightarrow> mpq_archive_s \<Rightarrow> u32 \<Rightarrow> u32 \<Rightarrow> mpq_file_s \<Rightarrow> mpq_file_s io \<times> mpq_archive_s" where
  "load_offsets alloc ar number tsize f =
     (let i = block_index ar number
      in if packed_size (mpq_block ar ! i) < tsize \<or>
           libmpq__reader_validate_payload_range ar i 0 (unat tsize) < 0
         then (Inl (error_code ERROR_FORMAT), ar)
         else if \<not> alloc (unat tsize) then (Inl (error_code ERROR_MALLOC), ar)
         else case read_bytes (ar_source ar) (payload_base ar i) (unat tsize) of
           Inl e \<Rightarrow> (Inl e, ar)
         | Inr raw \<Rightarrow>
             let first = libmpq__load_le32 (Some raw);
                 ar = (if first \<noteq> tsize \<and> first \<noteq> tsize + 4 then mark_encrypted ar i else ar)
             in (io_bind
                   (if encrypted_entry (mpq_block ar ! i) then decrypt_offsets tsize (ar_block_size ar) f raw
                    else Inr (f, raw))
                   (decode_offsets (mpq_block ar ! i) tsize),
                 ar))"

text \<open>Offsets that are not stored: sectors of the fixed size, or the whole payload.\<close>

definition synthesize_offsets :: "mpq_archive_s \<Rightarrow> u32 \<Rightarrow> u32 list \<Rightarrow> u32 list" where
  "synthesize_offsets ar number offs =
     (let b = block_entry ar number; blocks = libmpq__reader_count_file_blocks ar number
      in if \<not> single_unit b then
           fold (\<lambda>i offs. offs[i := (if i = unat blocks then unpacked_size b else of_nat i * ar_block_size ar)])
             [0..<unat (blocks + 1)] offs
         else offs[0 := 0, 1 := packed_size b])"

text \<open>Raw encrypted files carry no table from which to derive the key; a known signature gives it.\<close>

definition recover_raw_key :: "mpq_archive_s \<Rightarrow> u32 \<Rightarrow> mpq_file_s \<Rightarrow> mpq_file_s io" where
  "recover_raw_key ar number f =
     (let b = block_entry ar number
      in if flags b AND (LIBMPQ_FLAG_ENCRYPTED OR LIBMPQ_FLAG_COMPRESSED) = LIBMPQ_FLAG_ENCRYPTED \<and>
           \<not> seed_known f \<and> packed_size b \<ge> 4
         then
           if packed_offset_count f < 2 then Inl (error_code ERROR_FORMAT)
           else if packed_offset f ! 1 < packed_offset f ! 0 then Inl (error_code ERROR_FORMAT)
           else if packed_offset f ! 1 - packed_offset f ! 0 < 8 then Inl (error_code ERROR_DECRYPT)
           else io_bind (read_bytes (ar_source ar) (payload_base ar (block_index ar number)) 8) (\<lambda>first_block.
             case libmpq__crypto_detect_file_key (Some first_block) 8 (unpacked_size b) of
               Inl _ \<Rightarrow> Inl (error_code ERROR_DECRYPT)
             | Inr s \<Rightarrow> Inr (f\<lparr>seed := s, seed_known := True\<rparr>))
         else Inr f)"

text \<open>A fresh cache entry: zeroed offsets, one user, the key of the name when one is given.\<close>

definition new_file :: "mpq_archive_s \<Rightarrow> u32 \<Rightarrow> u32 option \<Rightarrow> mpq_file_s" where
  "new_file ar number name_hash =
     \<lparr>seed = (case name_hash of None \<Rightarrow> 0 | Some h \<Rightarrow> named_seed (block_entry ar number) h),
      seed_known = (name_hash \<noteq> None), packed_offset = replicate (unat (offsets_size ar number) div 4) 0,
      packed_offset_count = libmpq__reader_count_file_blocks ar number + 1, open_count = 1\<rparr>"

definition offsets_countable :: "mpq_archive_s \<Rightarrow> u32 \<Rightarrow> bool" where
  "offsets_countable ar number \<longleftrightarrow> unat (libmpq__reader_count_file_blocks ar number) \<le> UINT32_MAX div 4 - 2"

definition offsets_allocs :: "(nat \<Rightarrow> bool) \<Rightarrow> mpq_archive_s \<Rightarrow> u32 \<Rightarrow> bool" where
  "offsets_allocs alloc ar number \<longleftrightarrow> alloc sizeof_mpq_file_s \<and> alloc (unat (offsets_size ar number))"

text \<open>Filling a fresh entry.\<close>

definition fill_offsets ::
  "(nat \<Rightarrow> bool) \<Rightarrow> mpq_archive_s \<Rightarrow> u32 \<Rightarrow> mpq_file_s \<Rightarrow> mpq_file_s io \<times> mpq_archive_s" where
  "fill_offsets alloc ar number f =
     (let b = block_entry ar number;
          (r, ar) = (if packed_codec b \<and> \<not> single_unit b then load_offsets alloc ar number (offsets_size ar number) f
                     else (Inr (f\<lparr>packed_offset := synthesize_offsets ar number (packed_offset f)\<rparr>), ar))
      in (io_bind r (recover_raw_key ar number), ar))"

text \<open>The cache operation on the hash of the name; \<open>None\<close> is an anonymous open.\<close>

definition acquire_with ::
  "(nat \<Rightarrow> bool) \<Rightarrow> mpq_archive_s \<Rightarrow> u32 \<Rightarrow> u32 option \<Rightarrow> int \<times> mpq_archive_s" where
  "acquire_with alloc ar number name_hash =
     (if libmpq__reader_validate_file_number ar number < 0 then (error_code ERROR_EXIST, ar)
      else case mpq_file ar ! unat number of
        Some f \<Rightarrow>
          let f = (case name_hash of
                Some h \<Rightarrow> if seed_known f then f
                  else f\<lparr>seed := named_seed (block_entry ar number) h, seed_known := True\<rparr>
              | None \<Rightarrow> f)
          in (0, set_file ar number (Some (f\<lparr>open_count := open_count f + 1\<rparr>)))
      | None \<Rightarrow>
          if \<not> offsets_countable ar number then (error_code ERROR_FORMAT, ar)
          else if \<not> offsets_allocs alloc ar number then (error_code ERROR_MALLOC, ar)
          else case fill_offsets alloc ar number (new_file ar number name_hash) of
            (Inl e, ar') \<Rightarrow> (e, ar')
          | (Inr f, ar') \<Rightarrow> (0, set_file ar' number (Some f)))"

text \<open>The paths on which a name is hashed.\<close>

definition needs_name_hash :: "(nat \<Rightarrow> bool) \<Rightarrow> mpq_archive_s \<Rightarrow> u32 \<Rightarrow> bool" where
  "needs_name_hash alloc ar number \<longleftrightarrow>
     \<not> libmpq__reader_validate_file_number ar number < 0 \<and>
     (case mpq_file ar ! unat number of
        Some f \<Rightarrow> \<not> seed_known f
      | None \<Rightarrow> offsets_countable ar number \<and> offsets_allocs alloc ar number)"

definition libmpq__reader_offsets_acquire ::
  "bool \<Rightarrow> (nat \<Rightarrow> bool) \<Rightarrow> mpq_archive_s \<Rightarrow> u32 \<Rightarrow> u8 list option \<Rightarrow> (int \<times> mpq_archive_s) option" where
  "libmpq__reader_offsets_acquire char_signed alloc ar number name =
     (case name of
        Some name \<Rightarrow>
          if needs_name_hash alloc ar number then do {
            h \<leftarrow> libmpq__crypto_hash_string char_signed name 0x300;
            Some (acquire_with alloc ar number (Some h))
          }
          else Some (acquire_with alloc ar number None)
      | None \<Rightarrow> Some (acquire_with alloc ar number None))"

definition libmpq__reader_offsets_release :: "mpq_archive_s \<Rightarrow> u32 \<Rightarrow> int \<times> mpq_archive_s" where
  "libmpq__reader_offsets_release ar number =
     (if libmpq__reader_validate_file_number ar number < 0 then (error_code ERROR_EXIST, ar)
      else case mpq_file ar ! unat number of
        None \<Rightarrow> (error_code ERROR_OPEN, ar)
      | Some f \<Rightarrow>
          let f = f\<lparr>open_count := open_count f - 1\<rparr>
          in if open_count f \<noteq> 0 then (0, set_file ar number (Some f)) else (0, set_file ar number None))"

subsection \<open>Sector sizes and methods\<close>

definition libmpq__reader_get_block_seed :: "mpq_archive_s \<Rightarrow> u32 \<Rightarrow> u32 \<Rightarrow> u32 result" where
  "libmpq__reader_get_block_seed ar number block =
     (if libmpq__reader_validate_file_number ar number < 0 then Inl ERROR_EXIST
      else if libmpq__reader_validate_block_number ar number block < 0 then Inl ERROR_EXIST
      else case mpq_file ar ! unat number of
        None \<Rightarrow> Inl ERROR_OPEN
      | Some f \<Rightarrow>
          if packed_offset_count f \<le> block + 1 then Inl ERROR_EXIST
          else if \<not> seed_known f then Inl ERROR_DECRYPT
          else Inr (seed f + block))"

definition cached_offset :: "mpq_archive_s \<Rightarrow> u32 \<Rightarrow> u32 \<Rightarrow> u32" where
  "cached_offset ar number block =
     (case mpq_file ar ! unat number of None \<Rightarrow> 0 | Some f \<Rightarrow> packed_offset f ! unat block)"

text \<open>\<^verbatim>\<open>read_packed\<close>: the packed bytes of a sector or a prefix of them, decrypted; encryption uses complete
  words. The callers hold the cache entry, so the offset is cached.\<close>

definition read_packed :: "mpq_archive_s \<Rightarrow> u32 \<Rightarrow> u32 \<Rightarrow> nat \<Rightarrow> u8 list io" where
  "read_packed ar number block n =
     (let i = block_index ar number
      in io_bind (read_bytes (ar_source ar)
             ((nat (archive_offset ar) + payload_offset ar i + unat (cached_offset ar number block)) mod 2 ^ 64) n) (\<lambda>buffer.
           if encrypted_entry (mpq_block ar ! i) \<and> n \<ge> 4 then
             (case libmpq__reader_get_block_seed ar number block of
                Inl _ \<Rightarrow> Inl (error_code ERROR_DECRYPT)
              | Inr s \<Rightarrow> Inr (libmpq__crypto_decrypt_block buffer n s))
           else Inr buffer))"

text \<open>The stored extent of a sector: the whole payload, a slice of the raw payload, or two neighbouring
  cached offsets, taken while the entry is held.\<close>

definition stored_extent ::
  "(nat \<Rightarrow> bool) \<Rightarrow> mpq_archive_s \<Rightarrow> u32 \<Rightarrow> u32 \<Rightarrow> (nat \<times> nat) io \<times> mpq_archive_s" where
  "stored_extent alloc ar number block =
     (let b = block_entry ar number
      in if single_unit b then (Inr (0, unat (packed_size b)), ar)
         else if \<not> packed_codec b then
           (case libmpq__block_size_unpacked ar number block of
              Inl e \<Rightarrow> (Inl (error_code e), ar)
            | Inr unpacked \<Rightarrow> (Inr (unat block * unat (ar_block_size ar), unpacked), ar))
         else case acquire_with alloc ar number None of
           (status, ar) \<Rightarrow>
             if status < 0 then (Inl status, ar)
             else
               let start = cached_offset ar number block; end' = cached_offset ar number (block + 1);
                   (status, ar) = libmpq__reader_offsets_release ar number
               in if status < 0 then (Inl status, ar)
                  else if end' < start then (Inl (error_code ERROR_FORMAT), ar)
                  else (Inr (unat start, unat (end' - start)), ar))"

definition libmpq__reader_block_size_packed ::
  "(nat \<Rightarrow> bool) \<Rightarrow> mpq_archive_s option \<Rightarrow> u32 \<Rightarrow> u32 \<Rightarrow> out_ptr \<Rightarrow> nat io \<times> mpq_archive_s option" where
  "libmpq__reader_block_size_packed alloc archive number block packed_size_ptr =
     (case archive of
        None \<Rightarrow> (Inl (error_code ERROR_EXIST), None)
      | Some ar \<Rightarrow>
          if packed_size_ptr = None then (Inl (error_code ERROR_EXIST), Some ar)
          else if write_mode ar then (Inl (error_code ERROR_NOT_INITIALIZED), Some ar)
          else if libmpq__reader_validate_file_number ar number < 0 \<or>
              libmpq__reader_validate_block_number ar number block < 0
          then (Inl (error_code ERROR_EXIST), Some ar)
          else case stored_extent alloc ar number block of
            (Inl e, ar) \<Rightarrow> (Inl e, Some ar)
          | (Inr (start, len), ar) \<Rightarrow>
              let packed = unat (packed_size (block_entry ar number));
                  status = libmpq__reader_validate_payload_range ar (block_index ar number) start len
              in (if start > packed \<or> len > packed - start then Inl (error_code ERROR_FORMAT)
                  else if status < 0 then Inl status else Inr len,
                  Some ar))"

definition libmpq__reader_block_compression ::
  "(nat \<Rightarrow> bool) \<Rightarrow> mpq_archive_s option \<Rightarrow> u32 \<Rightarrow> u32 \<Rightarrow> out_ptr \<Rightarrow> u32 io \<times> mpq_archive_s option" where
  "libmpq__reader_block_compression alloc archive number block compression =
     (if compression = None then (Inl (error_code ERROR_EXIST), archive)
      else case libmpq__reader_block_size_packed alloc archive number block (Some 0) of
        (Inl e, archive) \<Rightarrow> (Inl e, archive)
      | (Inr packed, None) \<Rightarrow> (Inl (error_code ERROR_EXIST), None)
      | (Inr packed, Some ar) \<Rightarrow>
          (case libmpq__block_size_unpacked ar number block of
             Inl e \<Rightarrow> (Inl (error_code e), Some ar)
           | Inr unpacked \<Rightarrow>
               let fl = flags (block_entry ar number)
               in if packed \<ge> unpacked \<or> fl AND (LIBMPQ_FLAG_COMPRESS_MULTI OR LIBMPQ_FLAG_COMPRESS_PKZIP) = 0
                  then (Inr 0, Some ar)
                  else if packed = 0 then (Inl (error_code ERROR_FORMAT), Some ar)
                  else if fl AND LIBMPQ_FLAG_COMPRESS_MULTI = 0 then (Inr LIBMPQ_COMPRESSION_PKZIP, Some ar)
                  else case acquire_with alloc ar number None of
                    (status, ar) \<Rightarrow>
                      if status < 0 then (Inl status, Some ar)
                      else
                        let prefix = min packed (if fl AND LIBMPQ_FLAG_ENCRYPTED \<noteq> 0 then 4 else 1);
                            r = read_packed ar number block prefix;
                            ar = snd (libmpq__reader_offsets_release ar number)
                        in (io_bind r (\<lambda>bytes. Inr (ucast (bytes ! 0))), Some ar)))"

subsection \<open>Sector checksums\<close>

text \<open>The static \<^verbatim>\<open>sector_checksums\<close>; \<open>None\<close> is a file without a usable table. The result of the multi
  decoder is an option for the fuel of the LZMA loop.\<close>

definition sector_checksums ::
  "codec_libs \<Rightarrow> (nat \<Rightarrow> bool) \<Rightarrow> nat \<Rightarrow> mpq_archive_s \<Rightarrow> u32 \<Rightarrow> u32 list option io option" where
  "sector_checksums libs alloc fuel ar number =
     (let i = block_index ar number; b = mpq_block ar ! i; blocks = libmpq__reader_count_file_blocks ar number
      in if blocks = 0 \<or> flags b AND LIBMPQ_FLAG_CRC = 0 \<or> single_unit b \<or> \<not> packed_codec b then Some (Inr None)
         else case mpq_file ar ! unat number of
           None \<Rightarrow> Some (Inl (error_code ERROR_OPEN))
         | Some f \<Rightarrow>
             if packed_offset_count f \<noteq> blocks + 1 then Some (Inl (error_code ERROR_OPEN))
             else
               let start = packed_offset f ! unat blocks; end' = packed_offset f ! (unat blocks + 1);
                   table_bytes = unat blocks * 4; packed = unat (end' - start);
                   status = libmpq__reader_validate_payload_range ar i (unat start) packed
               in if end' = 0 \<or> end' = start then Some (Inr None)
                  else if end' < start \<or> end' > packed_size b then Some (Inl (error_code ERROR_FORMAT))
                  else if table_bytes > INT32_MAX then Some (Inl (error_code ERROR_SIZE))
                  else if packed > table_bytes then Some (Inl (error_code ERROR_FORMAT))
                  else if status < 0 then Some (Inl status)
                  else if \<not> alloc packed \<or> \<not> alloc table_bytes then Some (Inl (error_code ERROR_MALLOC))
                  else case read_bytes (ar_source ar)
                      ((nat (archive_offset ar) + payload_offset ar i + unat start) mod 2 ^ 64) packed of
                    Inl e \<Rightarrow> Some (Inl e)
                  | Inr bytes \<Rightarrow> do {
                      (tb, out) \<leftarrow> libmpq__compression_decompress_block libs alloc fuel bytes (replicate table_bytes 0)
                        LIBMPQ_FLAG_COMPRESS_MULTI (ucast (version (mpq_header ar)));
                      Some (if tb < 0 \<or> tb \<noteq> int table_bytes then Inl (error_code ERROR_FORMAT)
                        else Inr (Some (libmpq__reader_decode_uint32_table out (unat blocks))))
                    })"

definition libmpq__reader_sector_checksums ::
  "codec_libs \<Rightarrow> (nat \<Rightarrow> bool) \<Rightarrow> nat \<Rightarrow> mpq_archive_s \<Rightarrow> u32 \<Rightarrow> (u32 list option io \<times> mpq_archive_s) option" where
  "libmpq__reader_sector_checksums libs alloc fuel ar number =
     (case acquire_with alloc ar number None of
        (status, ar) \<Rightarrow>
          if status < 0 then Some (Inl status, ar)
          else do {
            r \<leftarrow> sector_checksums libs alloc fuel ar number;
            Some (r, snd (libmpq__reader_offsets_release ar number))
          })"

subsection \<open>Reading a sector\<close>

text \<open>What a sector read leaves: the status, the caller's buffer, the transfer count where it is reported,
  and the two flags it sets.\<close>

record block_out =
  bo_status :: int
  bo_buffer :: "u8 list"
  bo_transferred :: "int option"
  bo_mismatch :: bool
  bo_lossy :: bool

text \<open>A read that fails returns the buffer as it was. The code leaves its contents open there: a failed
  read of the source or a decoder that gives up may have written a part of it. No theorem rests on
  the buffer of a failed read, except where it says that the buffer may have changed.\<close>

definition block_failed :: "int \<Rightarrow> u8 list \<Rightarrow> block_out" where
  "block_failed e out = \<lparr>bo_status = e, bo_buffer = out, bo_transferred = None, bo_mismatch = False, bo_lossy = False\<rparr>"

text \<open>The decoders in the order of the code: each that applies runs, an entry that claims both methods is
  refused, and a raw sector is copied.\<close>

definition decode_block ::
  "codec_libs \<Rightarrow> (nat \<Rightarrow> bool) \<Rightarrow> nat \<Rightarrow> mpq_archive_s \<Rightarrow> u32 \<Rightarrow> u8 list \<Rightarrow> u8 list \<Rightarrow> (int \<times> u8 list) option" where
  "decode_block libs alloc fuel ar fl packed out =
     (let compressed = fl AND LIBMPQ_FLAG_COMPRESS_MULTI \<noteq> 0; imploded = fl AND LIBMPQ_FLAG_COMPRESS_PKZIP \<noteq> 0;
          run = (\<lambda>kind out. libmpq__compression_decompress_block libs alloc fuel packed out kind (ucast (version (mpq_header ar))))
      in do {
        (tb, out) \<leftarrow> (if compressed then run LIBMPQ_FLAG_COMPRESS_MULTI out else Some (0, out));
        if tb < 0 then Some (error_code ERROR_UNPACK, out)
        else do {
          (tb, out) \<leftarrow> (if imploded then run LIBMPQ_FLAG_COMPRESS_PKZIP out else Some (tb, out));
          if tb < 0 then Some (error_code ERROR_UNPACK, out)
          else if compressed \<and> imploded then Some (error_code ERROR_UNPACK, out)
          else if \<not> compressed \<and> \<not> imploded then do {
            (tb, out) \<leftarrow> run LIBMPQ_FLAG_COMPRESS_NONE out;
            Some (if tb < 0 then (error_code ERROR_UNPACK, out) else (tb, out))
          }
          else Some (tb, out)
        }
      })"

definition block_lossy :: "u32 \<Rightarrow> nat \<Rightarrow> u8 list \<Rightarrow> bool" where
  "block_lossy fl unpacked packed \<longleftrightarrow>
     fl AND LIBMPQ_FLAG_COMPRESS_MULTI \<noteq> 0 \<and> length packed < unpacked \<and> packed \<noteq> [] \<and>
     ucast (packed ! 0) AND (LIBMPQ_COMPRESSION_WAVE_MONO OR LIBMPQ_COMPRESSION_WAVE_STEREO) \<noteq> (0::u32)"

text \<open>A sector checksum is compared where it is available; \<open>adler\<close> is the Adler-32 routine of zlib.\<close>

definition checksum_mismatch :: "(u32 \<Rightarrow> u8 list \<Rightarrow> u32) \<Rightarrow> u32 option \<Rightarrow> u8 list \<Rightarrow> bool" where
  "checksum_mismatch adler checksum packed =
     (case checksum of None \<Rightarrow> False | Some c \<Rightarrow> c \<noteq> 0 \<and> c \<noteq> 0xFFFFFFFF \<and> adler 0 packed \<noteq> c)"

definition finish_block :: "u8 list \<Rightarrow> bool \<Rightarrow> bool \<Rightarrow> int \<times> u8 list \<Rightarrow> block_out" where
  "finish_block out mismatch lossy r =
     (case r of (tb, decoded) \<Rightarrow>
        \<lparr>bo_status = (if tb < 0 then tb else 0), bo_buffer = write_at out 0 decoded,
         bo_transferred = (if tb < 0 then None else Some tb), bo_mismatch = mismatch, bo_lossy = lossy\<rparr>)"

definition libmpq__reader_block_read_acquired ::
  "codec_libs \<Rightarrow> (u32 \<Rightarrow> u8 list \<Rightarrow> u32) \<Rightarrow> (nat \<Rightarrow> bool) \<Rightarrow> nat \<Rightarrow> mpq_archive_s \<Rightarrow> u32 \<Rightarrow> u32 \<Rightarrow> u8 list \<Rightarrow> u32 option \<Rightarrow> block_out option" where
  "libmpq__reader_block_read_acquired libs adler alloc fuel ar number block out checksum =
     (if libmpq__reader_validate_file_number ar number < 0 then Some (block_failed (error_code ERROR_EXIST) out)
      else if libmpq__reader_validate_block_number ar number block < 0 then Some (block_failed (error_code ERROR_EXIST) out)
      else case mpq_file ar ! unat number of
        None \<Rightarrow> Some (block_failed (error_code ERROR_OPEN) out)
      | Some f \<Rightarrow>
          if packed_offset_count f \<le> block + 1 then Some (block_failed (error_code ERROR_EXIST) out)
          else
            let unpacked = (case libmpq__block_size_unpacked ar number block of Inl _ \<Rightarrow> 0 | Inr n \<Rightarrow> n);
                start = packed_offset f ! unat block; end' = packed_offset f ! unat (block + 1);
                in_size = unat (end' - start); fl = flags (block_entry ar number)
            in if unpacked > length out then Some (block_failed (error_code ERROR_SIZE) out)
               else if end' < start \<or> end' > packed_size (block_entry ar number) then Some (block_failed (error_code ERROR_FORMAT) out)
               else if libmpq__reader_validate_payload_range ar (block_index ar number) (unat start) in_size < 0
               then Some (block_failed (error_code ERROR_READ) out)
               else
                 let use_out_buf = (fl AND (LIBMPQ_FLAG_ENCRYPTED OR LIBMPQ_FLAG_COMPRESS_MULTI OR LIBMPQ_FLAG_COMPRESS_PKZIP) = 0 \<and>
                       in_size \<le> length out)
                 in if \<not> use_out_buf \<and> \<not> alloc in_size then Some (block_failed (error_code ERROR_MALLOC) out)
                    else case read_packed ar number block in_size of
                      Inl e \<Rightarrow> Some (block_failed e out)
                    | Inr packed \<Rightarrow>
                        let out = (if use_out_buf then write_at out 0 packed else out)
                        in map_option (finish_block out (checksum_mismatch adler checksum packed) (block_lossy fl unpacked packed))
                             (decode_block libs alloc fuel ar fl packed (take unpacked out)))"

text \<open>The block number is validated before the file number, so a file number beyond the map reads outside
  it: such a call has no defined result.\<close>

definition libmpq__reader_block_read ::
  "codec_libs \<Rightarrow> (u32 \<Rightarrow> u8 list \<Rightarrow> u32) \<Rightarrow> (nat \<Rightarrow> bool) \<Rightarrow> nat \<Rightarrow> mpq_archive_s \<Rightarrow> u32 \<Rightarrow> u32 \<Rightarrow> u8 list \<Rightarrow> u32 option \<Rightarrow>
     (block_out \<times> mpq_archive_s) option" where
  "libmpq__reader_block_read libs adler alloc fuel ar number block out checksum =
     (if unat number \<ge> length (mpq_map ar) then None
      else if libmpq__reader_validate_block_number ar number block < 0 then Some (block_failed (error_code ERROR_EXIST) out, ar)
      else case acquire_with alloc ar number None of
        (status, ar) \<Rightarrow>
          if status < 0 then Some (block_failed status out, ar)
          else do {
            r \<leftarrow> libmpq__reader_block_read_acquired libs adler alloc fuel ar number block out checksum;
            Some (r, snd (libmpq__reader_offsets_release ar number))
          })"

end
