(* ===== verification/Mpq_Cache.thy ===== *)
theory Mpq_Cache
  imports Mpq_Reader
begin

text \<open>
  The offset cache of the reader: every operation keeps the archive well-formed and the cached offset
  tables monotone and inside the stored bytes, the reference counts follow the matching of acquires and
  releases, and a read never leaves the source.
\<close>

subsection \<open>What the cache operations may change\<close>

text \<open>Only cache entries, and the encrypted flag of entries that turn out to be encrypted.\<close>

definition flag_encrypted :: "mpq_block_s \<Rightarrow> mpq_block_s" where
  "flag_encrypted b = b\<lparr>flags := flags b OR LIBMPQ_FLAG_ENCRYPTED\<rparr>"

definition same_layout :: "mpq_archive_s \<Rightarrow> mpq_archive_s \<Rightarrow> bool" where
  "same_layout ar ar' \<longleftrightarrow>
     (\<exists>bs fs. ar' = ar\<lparr>mpq_block := bs, mpq_file := fs\<rparr> \<and> length fs = length (mpq_file ar) \<and>
        list_all2 (\<lambda>b b'. b' = b \<or> b' = flag_encrypted b) (mpq_block ar) bs)"

lemma same_layout_refl [simp]: "same_layout ar ar"
proof -
  have "ar = ar\<lparr>mpq_block := mpq_block ar, mpq_file := mpq_file ar\<rparr>" by simp
  moreover have "list_all2 (\<lambda>b b'. b' = b \<or> b' = flag_encrypted b) (mpq_block ar) (mpq_block ar)"
    by (simp add: list_all2_conv_all_nth)
  ultimately show ?thesis unfolding same_layout_def by blast
qed

lemma flag_encrypted_idem [simp]: "flag_encrypted (flag_encrypted b) = flag_encrypted b"
  by (simp add: flag_encrypted_def or.assoc)

lemma same_layout_trans: "same_layout a b \<Longrightarrow> same_layout b c \<Longrightarrow> same_layout a c"
proof -
  assume "same_layout a b" "same_layout b c"
  then obtain bs fs bs' fs' where 1: "b = a\<lparr>mpq_block := bs, mpq_file := fs\<rparr>" "length fs = length (mpq_file a)"
      "list_all2 (\<lambda>b b'. b' = b \<or> b' = flag_encrypted b) (mpq_block a) bs"
    and 2: "c = b\<lparr>mpq_block := bs', mpq_file := fs'\<rparr>" "length fs' = length (mpq_file b)"
      "list_all2 (\<lambda>b b'. b' = b \<or> b' = flag_encrypted b) (mpq_block b) bs'"
    by (auto simp: same_layout_def)
  have "list_all2 (\<lambda>b b'. b' = b \<or> b' = flag_encrypted b) (mpq_block a) bs'"
    by (rule list_all2_trans [OF _ 1(3)]) (use 1 2 in auto)
  then show ?thesis using 1 2 unfolding same_layout_def by (intro exI [of _ bs'] exI [of _ fs']) simp
qed

lemma same_layout_set_file [simp]: "same_layout ar (set_file ar number f)"
  unfolding same_layout_def set_file_def
  by (intro exI [of _ "mpq_block ar"] exI [of _ "(mpq_file ar)[unat number := f]"])
    (simp add: list_all2_conv_all_nth)

lemma same_layout_mark [simp]: "same_layout ar (mark_encrypted ar i)"
  unfolding same_layout_def mark_encrypted_def
  by (intro exI [of _ "(mpq_block ar)[i := flag_encrypted (mpq_block ar ! i)]"] exI [of _ "mpq_file ar"],
      cases "i < length (mpq_block ar)")
    (auto simp: flag_encrypted_def nth_list_update intro!: list_all2_all_nthI)

text \<open>The encrypted flag is disjoint from the flags that shape the layout.\<close>

lemma flag_encrypted_and:
  "LIBMPQ_FLAG_ENCRYPTED AND m = 0 \<Longrightarrow> flags (flag_encrypted b) AND m = flags b AND m"
  by (simp add: flag_encrypted_def bit.conj_disj_distrib2)

lemma flag_encrypted_simps [simp]:
  "exists_flag (flag_encrypted b) = exists_flag b" "single_unit (flag_encrypted b) = single_unit b"
  "packed_codec (flag_encrypted b) = packed_codec b"
  "flags (flag_encrypted b) AND LIBMPQ_FLAG_CRC = flags b AND LIBMPQ_FLAG_CRC"
  "flags (flag_encrypted b) AND LIBMPQ_FLAG_SINGLE = flags b AND LIBMPQ_FLAG_SINGLE"
  "packed_size (flag_encrypted b) = packed_size b" "unpacked_size (flag_encrypted b) = unpacked_size b"
  "offset (flag_encrypted b) = offset b"
  by (simp_all add: exists_flag_def single_unit_def packed_codec_def flag_encrypted_and LIBMPQ_FLAG_ENCRYPTED_def
      LIBMPQ_FLAG_EXISTS_def LIBMPQ_FLAG_SINGLE_def LIBMPQ_FLAG_COMPRESSED_def LIBMPQ_FLAG_COMPRESS_PKZIP_def
      LIBMPQ_FLAG_CRC_def) (simp_all add: flag_encrypted_def)

lemma live_upto_cong:
  assumes "list_all2 (\<lambda>b b'. b' = b \<or> b' = flag_encrypted b) bs bs'" "i \<le> length bs"
  shows "live_upto bs' i = live_upto bs i"
  unfolding live_upto_def
proof (rule filter_cong [OF refl])
  fix x assume "x \<in> List.set [0..<i]"
  then have "bs' ! x = bs ! x \<or> bs' ! x = flag_encrypted (bs ! x)"
    using assms by (simp add: list_all2_conv_all_nth)
  then show "exists_flag (bs' ! x) = exists_flag (bs ! x)" by auto
qed

lemma same_layout_fields:
  assumes "same_layout ar ar'"
  shows "ar_files ar' = ar_files ar" "ar_block_size ar' = ar_block_size ar" "mpq_map ar' = mpq_map ar"
    "mpq_header ar' = mpq_header ar" "mpq_block_ex ar' = mpq_block_ex ar" "archive_offset ar' = archive_offset ar"
    "ar_file_size ar' = ar_file_size ar" "ar_source ar' = ar_source ar" "length (mpq_file ar') = length (mpq_file ar)"
    "length (mpq_block ar') = length (mpq_block ar)" "mpq_hash ar' = mpq_hash ar" "block_index ar' number = block_index ar number"
    "write_mode ar' = write_mode ar"
  using assms by (auto simp: same_layout_def block_index_def dest: list_all2_lengthD)

lemma same_layout_block:
  assumes "same_layout ar ar'" "i < length (mpq_block ar)"
  shows "mpq_block ar' ! i = mpq_block ar ! i \<or> mpq_block ar' ! i = flag_encrypted (mpq_block ar ! i)"
  using assms by (auto simp: same_layout_def list_all2_conv_all_nth)

lemma same_layout_ok:
  assumes "same_layout ar ar'" "archive_ok ar"
  shows "archive_ok ar'"
proof -
  have "map_ok ar'"
  proof -
    obtain bs fs where ar': "ar' = ar\<lparr>mpq_block := bs, mpq_file := fs\<rparr>"
      and rel: "list_all2 (\<lambda>b b'. b' = b \<or> b' = flag_encrypted b) (mpq_block ar) bs"
      using assms(1) by (auto simp: same_layout_def)
    have "length bs = length (mpq_block ar)" using list_all2_lengthD [OF rel] by simp
    then show ?thesis
      using assms(2) live_upto_cong [OF rel]
      by (simp add: archive_ok_def map_ok_def map_upto_def live_blocks_def ar')
  qed
  then show ?thesis
    using assms(2) same_layout_fields [OF assms(1)] by (simp add: archive_ok_def archive_tables_ok_def)
qed

lemma same_layout_counts:
  assumes "same_layout ar ar'" "archive_ok ar" "number < ar_files ar"
  shows "libmpq__reader_count_file_blocks ar' number = libmpq__reader_count_file_blocks ar number"
    "offsets_size ar' number = offsets_size ar number"
    "packed_size (block_entry ar' number) = packed_size (block_entry ar number)"
    "unpacked_size (block_entry ar' number) = unpacked_size (block_entry ar number)"
    "single_unit (block_entry ar' number) = single_unit (block_entry ar number)"
    "packed_codec (block_entry ar' number) = packed_codec (block_entry ar number)"
    "payload_offset ar' (block_index ar number) = payload_offset ar (block_index ar number)"
proof -
  note i = archive_ok_block_index(1) [OF assms(2,3)]
  note b = same_layout_block [OF assms(1) i]
  note f = same_layout_fields [OF assms(1)]
  show count: "libmpq__reader_count_file_blocks ar' number = libmpq__reader_count_file_blocks ar number"
    using b f by (auto simp: libmpq__reader_count_file_blocks_def block_entry_def)
  show "offsets_size ar' number = offsets_size ar number"
    using b f count by (auto simp: offsets_size_def block_entry_def)
  show "packed_size (block_entry ar' number) = packed_size (block_entry ar number)"
    "unpacked_size (block_entry ar' number) = unpacked_size (block_entry ar number)"
    "single_unit (block_entry ar' number) = single_unit (block_entry ar number)"
    "packed_codec (block_entry ar' number) = packed_codec (block_entry ar number)"
    "payload_offset ar' (block_index ar number) = payload_offset ar (block_index ar number)"
    using b f by (auto simp: block_entry_def payload_offset_def)
qed

subsection \<open>The cache invariant\<close>

text \<open>A cached table has one offset per sector and one for the end, in order; stored tables begin behind
  themselves and end inside the packed bytes.\<close>

definition file_ok :: "mpq_archive_s \<Rightarrow> u32 \<Rightarrow> mpq_file_s \<Rightarrow> bool" where
  "file_ok ar number f \<longleftrightarrow>
     (let blocks = unat (libmpq__reader_count_file_blocks ar number); b = block_entry ar number
      in blocks \<le> UINT32_MAX div 4 - 2 \<and> unat (packed_offset_count f) = blocks + 1 \<and>
         length (packed_offset f) = unat (offsets_size ar number) div 4 \<and>
         sorted (take (blocks + 1) (packed_offset f)) \<and>
         (packed_codec b \<and> \<not> single_unit b \<longrightarrow>
            packed_offset f ! 0 = offsets_size ar number \<and> packed_offset f ! blocks \<le> packed_size b) \<and>
         (single_unit b \<longrightarrow> packed_offset f ! 0 = 0 \<and> packed_offset f ! 1 = packed_size b) \<and>
         (\<not> packed_codec b \<and> \<not> single_unit b \<longrightarrow> packed_offset f ! blocks = unpacked_size b \<and>
            (\<forall>i<blocks. packed_offset f ! i = of_nat i * ar_block_size ar)))"

definition cache_ok :: "mpq_archive_s \<Rightarrow> bool" where
  "cache_ok ar \<longleftrightarrow> archive_ok ar \<and>
     (\<forall>number<ar_files ar. \<forall>f. mpq_file ar ! unat number = Some f \<longrightarrow> file_ok ar number f)"

lemma same_layout_file_ok:
  assumes "same_layout ar ar'" "archive_ok ar" "number < ar_files ar"
  shows "file_ok ar' number f = file_ok ar number f"
  using same_layout_counts [OF assms] same_layout_fields [OF assms(1)] by (simp add: file_ok_def Let_def)

lemma offsets_size_unat:
  assumes "offsets_countable ar number"
  shows "unat (offsets_size ar number) =
    4 * (unat (libmpq__reader_count_file_blocks ar number) + 1) +
      (if flags (block_entry ar number) AND LIBMPQ_FLAG_CRC \<noteq> 0 then 4 else 0)"
    "unat (libmpq__reader_count_file_blocks ar number + 1) = unat (libmpq__reader_count_file_blocks ar number) + 1"
  using assms
  by (simp_all add: offsets_countable_def offsets_size_def UINT32_MAX_def unat_word_ariths)

lemma offsets_size_div:
  assumes "offsets_countable ar number"
  shows "unat (libmpq__reader_count_file_blocks ar number) + 1 \<le> unat (offsets_size ar number) div 4"
  by (simp add: offsets_size_unat [OF assms])

lemma offsets_valid_sorted:
  assumes "offsets_valid offs (n + 1) packed" "n < length offs"
  shows "sorted (take (n + 1) offs)" "0 < n \<Longrightarrow> offs ! n \<le> packed"
proof -
  have step: "offs ! (i - 1) \<le> offs ! i \<and> offs ! i \<le> packed" if "1 \<le> i" "i < n + 1" for i
    using assms(1) that by (auto simp: offsets_valid_def list_all_iff not_less simp del: upt_Suc)
  show "sorted (take (n + 1) offs)"
    unfolding sorted_iff_nth_Suc using assms(2) step [of "Suc _"] by simp
  show "0 < n \<Longrightarrow> offs ! n \<le> packed" using step [of n] by simp
qed


subsection \<open>Counting sectors\<close>

lemma u32_bound: "unat (w :: u32) < 2 ^ 32"
  using unsigned_less [of w, where ?'a = nat] by simp

text \<open>The sector count rounds up, unless the rounding leaves 32 bits: then it is zero.\<close>

lemma count_blocks:
  fixes ar number
  assumes "archive_ok ar" "\<not> single_unit (block_entry ar number)"
  defines "us \<equiv> unat (unpacked_size (block_entry ar number))" and "bs \<equiv> unat (ar_block_size ar)"
  shows "us + bs \<le> 2 ^ 32 \<Longrightarrow> unat (libmpq__reader_count_file_blocks ar number) = (us + bs - 1) div bs"
    "2 ^ 32 < us + bs \<Longrightarrow> libmpq__reader_count_file_blocks ar number = 0"
proof -
  note bs = archive_ok_block_size(2,3) [OF assms(1)]
  have us: "us < 2 ^ 32" unfolding us_def by (rule u32_bound)
  have c: "unat (libmpq__reader_count_file_blocks ar number) = ((us + bs - 1) mod 2 ^ 32) div bs"
  proof -
    have "unat (unpacked_size (block_entry ar number) + ar_block_size ar - 1) = (us + bs - 1) mod 2 ^ 32"
    proof -
      have "unpacked_size (block_entry ar number) + ar_block_size ar - 1 = (of_nat (us + bs - 1) :: u32)"
        using bs by (simp add: us_def bs_def of_nat_diff)
      then show ?thesis by (simp add: unat_of_nat)
    qed
    then show ?thesis using assms(2) by (simp add: libmpq__reader_count_file_blocks_def single_unit_def unat_div bs_def)
  qed
  show "us + bs \<le> 2 ^ 32 \<Longrightarrow> unat (libmpq__reader_count_file_blocks ar number) = (us + bs - 1) div bs"
    using c bs by (simp add: bs_def)
  assume "2 ^ 32 < us + bs"
  then have "(us + bs - 1) mod 2 ^ 32 = us + bs - 1 - 2 ^ 32"
    using us bs by (simp add: bs_def mod_if)
  then have "(us + bs - 1) mod 2 ^ 32 < bs" using us bs by (simp add: bs_def)
  then show "libmpq__reader_count_file_blocks ar number = 0" using c by (simp add: unat_eq_0)
qed

lemma count_blocks_le:
  assumes "archive_ok ar" "\<not> single_unit (block_entry ar number)" "i < unat (libmpq__reader_count_file_blocks ar number)"
  shows "i * unat (ar_block_size ar) < unat (unpacked_size (block_entry ar number))"
proof -
  let ?us = "unat (unpacked_size (block_entry ar number))" and ?bs = "unat (ar_block_size ar)"
  have bs: "0 < ?bs" using archive_ok_block_size(2) [OF assms(1)] by linarith
  have "\<not> 2 ^ 32 < ?us + ?bs" using count_blocks(2) [OF assms(1,2)] assms(3) by auto
  then have "unat (libmpq__reader_count_file_blocks ar number) = (?us + ?bs - 1) div ?bs"
    using count_blocks(1) [OF assms(1,2)] by simp
  then have "Suc i * ?bs \<le> ?us + ?bs - 1"
    using assms(3) less_eq_div_iff_mult_less_eq [OF bs, of "Suc i" "?us + ?bs - 1"] by simp
  then show ?thesis using bs by simp
qed

lemma unat_mult_offset:
  assumes "archive_ok ar" "\<not> single_unit (block_entry ar number)" "i < unat (libmpq__reader_count_file_blocks ar number)"
  shows "unat (of_nat i * ar_block_size ar) = i * unat (ar_block_size ar)"
proof -
  have "i * unat (ar_block_size ar) < 2 ^ 32"
    using count_blocks_le [OF assms] u32_bound [of "unpacked_size (block_entry ar number)"] by linarith
  then show ?thesis using u32_of_nat [of "i * unat (ar_block_size ar)"] by simp
qed

lemma sorted_offsetsI:
  fixes offs :: "u32 list"
  assumes "\<And>i. i < n \<Longrightarrow> offs ! i \<le> offs ! Suc i" "n < length offs"
  shows "sorted (take (n + 1) offs)"
  unfolding sorted_iff_nth_Suc using assms by simp

lemma synthesize_nth:
  fixes g :: "nat \<Rightarrow> u32"
  shows "n \<le> length offs \<Longrightarrow> length (fold (\<lambda>i offs. offs[i := g i]) [0..<n] offs) = length offs \<and>
    (\<forall>i<n. fold (\<lambda>i offs. offs[i := g i]) [0..<n] offs ! i = g i)"
  by (induction n) (auto simp: less_Suc_eq nth_list_update)

lemma synthesize_raw:
  assumes "archive_ok ar" "\<not> single_unit (block_entry ar number)" "offsets_countable ar number"
    and "length offs = unat (offsets_size ar number) div 4"
  defines "offs' \<equiv> synthesize_offsets ar number offs" and "blocks \<equiv> unat (libmpq__reader_count_file_blocks ar number)"
  shows "length offs' = length offs" "sorted (take (blocks + 1) offs')"
    "offs' ! blocks = unpacked_size (block_entry ar number)"
    "\<And>i. i < blocks \<Longrightarrow> offs' ! i = of_nat i * ar_block_size ar"
proof -
  let ?g = "\<lambda>i. if i = blocks then unpacked_size (block_entry ar number) else of_nat i * ar_block_size ar"
  have room: "blocks + 1 \<le> length offs" using offsets_size_div [OF assms(3)] assms(4) by (simp add: blocks_def)
  have "offs' = fold (\<lambda>i offs. offs[i := ?g i]) [0..<blocks + 1] offs"
    using assms(2) offsets_size_unat(2) [OF assms(3)]
    by (simp add: offs'_def synthesize_offsets_def Let_def blocks_def del: upt_Suc)
  note syn = synthesize_nth [OF room, of ?g, folded this]
  then show len: "length offs' = length offs" by simp
  show "offs' ! blocks = unpacked_size (block_entry ar number)" using syn by simp
  show nth: "offs' ! i = of_nat i * ar_block_size ar" if "i < blocks" for i using syn that by simp
  show "sorted (take (blocks + 1) offs')"
  proof (rule sorted_offsetsI)
    fix i assume i: "i < blocks"
    have "unat (offs' ! i) = i * unat (ar_block_size ar)"
      using nth [OF i] unat_mult_offset [OF assms(1,2)] i by (simp add: blocks_def)
    moreover have "i * unat (ar_block_size ar) \<le> unat (offs' ! Suc i)"
    proof (cases "Suc i = blocks")
      case True
      then show ?thesis using count_blocks_le [OF assms(1,2), of i] i syn by (simp add: blocks_def)
    next
      case False
      then show ?thesis
        using nth [of "Suc i"] unat_mult_offset [OF assms(1,2), of "Suc i"] i
        by (simp add: blocks_def)
    qed
    ultimately show "offs' ! i \<le> offs' ! Suc i" by (simp add: word_le_nat_alt)
  qed (use room len in simp)
qed

subsection \<open>Filling a cache entry\<close>

lemma length_decode_table [simp]: "length (libmpq__reader_decode_uint32_table raw n) = n"
  by (simp add: libmpq__reader_decode_uint32_table_def)

lemma decrypt_offsets_keeps:
  "decrypt_offsets tsize sector f raw = Inr (g, plain) \<Longrightarrow>
     packed_offset_count g = packed_offset_count f \<and> open_count g = open_count f \<and> seed_known g"
  by (auto simp: decrypt_offsets_def Let_def split: if_splits sum.splits)

lemma decode_offsets_Inr:
  assumes "decode_offsets b tsize (f, plain) = Inr g"
  shows "g = f\<lparr>packed_offset := libmpq__reader_decode_uint32_table plain (unat tsize div 4)\<rparr>"
    "packed_offset g ! 0 = tsize" "offsets_valid (packed_offset g) (unat (packed_offset_count f)) (packed_size b)"
  using assms by (auto simp: decode_offsets_def Let_def split: if_splits)

lemma load_offsets_ok:
  assumes "archive_ok ar" "number < ar_files ar" "offsets_countable ar number"
    and "packed_codec (block_entry ar number)" "\<not> single_unit (block_entry ar number)"
    and "packed_offset_count f = libmpq__reader_count_file_blocks ar number + 1"
    and "load_offsets alloc ar number (offsets_size ar number) f = (r, ar')"
  shows "same_layout ar ar' \<and> mpq_file ar' = mpq_file ar \<and>
    (\<forall>g. r = Inr g \<longrightarrow> file_ok ar number g \<and> open_count g = open_count f)"
proof -
  let ?b = "block_entry ar number" and ?n = "unat (libmpq__reader_count_file_blocks ar number)"
  let ?i = "block_index ar number" and ?ts = "offsets_size ar number"
  consider (early) e where "r = Inl e" "ar' = ar"
    | (loaded) raw a where "a = ar \<or> a = mark_encrypted ar ?i" "ar' = a" "?ts \<le> packed_size ?b"
        "r = io_bind (if encrypted_entry (mpq_block a ! ?i) then decrypt_offsets ?ts (ar_block_size a) f raw else Inr (f, raw))
           (decode_offsets (mpq_block a ! ?i) ?ts)"
    using assms(7)
    by (auto simp: load_offsets_def Let_def block_entry_def not_less split: if_split_asm sum.split_asm)
  then show ?thesis
  proof cases
    case early
    then show ?thesis by simp
  next
    case loaded
    have lay: "same_layout ar a" "mpq_file a = mpq_file ar"
      using loaded(1) by auto (simp add: mark_encrypted_def)
    have b': "packed_size (mpq_block a ! ?i) = packed_size ?b"
      using same_layout_counts(3) [OF lay(1) assms(1,2)] same_layout_fields(12) [OF lay(1)] by (simp add: block_entry_def)
    have "file_ok ar number g \<and> open_count g = open_count f" if rg: "r = Inr g" for g
    proof -
      obtain f' plain where dec: "decode_offsets (mpq_block a ! ?i) ?ts (f', plain) = Inr g"
        and f': "packed_offset_count f' = packed_offset_count f" "open_count f' = open_count f"
        using trans [OF loaded(4) [symmetric] rg]
        by (auto elim!: io_bind_InrE dest: decrypt_offsets_keeps split: if_split_asm)
  note g = decode_offsets_Inr [OF dec]
  have cnt: "unat (packed_offset_count f') = ?n + 1" using assms(6) f' offsets_size_unat(2) [OF assms(3)] by simp
  have len: "?n < length (packed_offset g)" using offsets_size_div [OF assms(3)] g(1) by simp
  note valid = offsets_valid_sorted [OF g(3) [unfolded cnt] len]
  have "packed_offset g ! ?n \<le> packed_size ?b"
    using valid(2) b' g(2) loaded(3) by (cases "?n = 0") simp_all
  then show ?thesis
    using valid(1) g(1,2) cnt assms(3-5) f' by (simp add: file_ok_def Let_def offsets_countable_def)
    qed
    then show ?thesis using lay loaded(2) by simp
  qed
qed


lemma recover_raw_key_keeps:
  assumes "recover_raw_key ar number f = Inr g"
  shows "g = f\<lparr>seed := seed g, seed_known := seed_known g\<rparr>"
  using assms by (auto simp: recover_raw_key_def Let_def elim!: io_bind_InrE split: if_split_asm sum.split_asm)

lemma io_bind_neg:
  assumes "\<And>e. r = Inl e \<Longrightarrow> e < (0::int)" "\<And>v e. r = Inr v \<Longrightarrow> k v = Inl e \<Longrightarrow> e < 0" "io_bind r k = Inl e"
  shows "e < 0"
  using assms by (cases r) auto

lemma recover_raw_key_neg: "recover_raw_key ar number f = Inl e \<Longrightarrow> e < 0"
  unfolding recover_raw_key_def Let_def
  by (auto elim!: io_bind_neg [rotated 2] dest: read_bytes_neg split: if_split_asm sum.split_asm)

lemma decrypt_offsets_neg: "decrypt_offsets tsize sector f raw = Inl e \<Longrightarrow> e < 0"
  by (auto simp: decrypt_offsets_def Let_def split: if_split_asm sum.split_asm)

lemma decode_offsets_neg: "decode_offsets b tsize st = Inl e \<Longrightarrow> e < 0"
  by (auto simp: decode_offsets_def Let_def split: if_split_asm prod.split_asm)

lemma load_offsets_neg: "load_offsets alloc ar number tsize f = (Inl e, ar') \<Longrightarrow> e < 0"
  by (auto simp: load_offsets_def Let_def dest: read_bytes_neg
      elim!: io_bind_neg [rotated 2] decrypt_offsets_neg decode_offsets_neg split: if_split_asm sum.split_asm)

lemma fill_offsets_neg: "fill_offsets alloc ar number f = (Inl e, ar') \<Longrightarrow> e < 0"
  by (auto simp: fill_offsets_def Let_def elim!: io_bind_neg [rotated 2] recover_raw_key_neg
      dest: load_offsets_neg split: if_split_asm prod.split_asm)

lemma file_ok_key: "file_ok ar number (f\<lparr>seed := s, seed_known := k\<rparr>) = file_ok ar number f"
  by (simp add: file_ok_def Let_def)

lemma file_ok_open_count: "file_ok ar number (f\<lparr>open_count := c\<rparr>) = file_ok ar number f"
  by (simp add: file_ok_def Let_def)

lemma synthesize_ok:
  assumes "archive_ok ar" "offsets_countable ar number"
    and "\<not> (packed_codec (block_entry ar number) \<and> \<not> single_unit (block_entry ar number))"
    and "packed_offset_count f = libmpq__reader_count_file_blocks ar number + 1"
    and "length (packed_offset f) = unat (offsets_size ar number) div 4"
  shows "file_ok ar number (f\<lparr>packed_offset := synthesize_offsets ar number (packed_offset f)\<rparr>)"
proof (cases "single_unit (block_entry ar number)")
  case True
  then have one: "libmpq__reader_count_file_blocks ar number = 1"
    by (simp add: libmpq__reader_count_file_blocks_def single_unit_def)
  let ?offs = "(packed_offset f)[0 := 0, Suc 0 := packed_size (block_entry ar number)]"
  have len: "2 \<le> length (packed_offset f)" using offsets_size_div [OF assms(2)] assms(5) one by simp
  have "packed_offset f \<noteq> []" using len by auto
  then have "sorted (take (1 + 1) ?offs)" using len by (intro sorted_offsetsI) auto
  then show ?thesis
    using True assms(2,4,5) one len offsets_size_unat(2) [OF assms(2)]
    by (simp add: file_ok_def Let_def synthesize_offsets_def offsets_countable_def numeral_2_eq_2)
next
  case False
  then show ?thesis
    using synthesize_raw [OF assms(1) False assms(2,5)] assms(2-5) offsets_size_unat(2) [OF assms(2)]
    by (simp add: file_ok_def Let_def offsets_countable_def)
qed

lemma fill_offsets_ok:
  assumes "archive_ok ar" "number < ar_files ar" "offsets_countable ar number"
    and "fill_offsets alloc ar number (new_file ar number h) = (r, ar')"
  shows "same_layout ar ar' \<and> mpq_file ar' = mpq_file ar \<and>
    (\<forall>g. r = Inr g \<longrightarrow> file_ok ar number g \<and> open_count g = 1)"
proof -
  let ?f = "new_file ar number h" and ?b = "block_entry ar number"
  have f: "packed_offset_count ?f = libmpq__reader_count_file_blocks ar number + 1" "open_count ?f = 1"
    "length (packed_offset ?f) = unat (offsets_size ar number) div 4"
    by (simp_all add: new_file_def)
  obtain r0 where r0: "same_layout ar ar'" "mpq_file ar' = mpq_file ar"
    "\<And>g. r0 = Inr g \<Longrightarrow> file_ok ar number g \<and> open_count g = 1" "r = io_bind r0 (recover_raw_key ar' number)"
  proof (cases "packed_codec ?b \<and> \<not> single_unit ?b")
    case True
    obtain r0 a where l: "load_offsets alloc ar number (offsets_size ar number) ?f = (r0, a)" by force
    show ?thesis
      using load_offsets_ok [OF assms(1-3) _ _ f(1) l] True assms(4) l f(2)
      by (intro that [of r0]) (auto simp: fill_offsets_def Let_def)
  next
    case False
    show ?thesis
      using synthesize_ok [OF assms(1,3) False f(1,3)] False assms(4) f(2)
      by (intro that [of "Inr (?f\<lparr>packed_offset := synthesize_offsets ar number (packed_offset ?f)\<rparr>)"])
        (auto simp: fill_offsets_def Let_def)
  qed
  have "file_ok ar number g \<and> open_count g = 1" if rg: "r = Inr g" for g
  proof -
    obtain g0 where g0: "r0 = Inr g0" "recover_raw_key ar' number g0 = Inr g"
      using io_bind_InrE [OF trans [OF r0(4) [symmetric] rg]] by blast
    then show ?thesis
      using r0(3) [OF g0(1)] recover_raw_key_keeps [OF g0(2)]
      by (metis file_ok_key mpq_file_s.simps(5) mpq_file_s.select_convs(5) mpq_file_s.surjective mpq_file_s.update_convs(1,2))
  qed
  then show ?thesis using r0 by blast
qed

subsection \<open>The cache operations\<close>

text \<open>Every outcome of an acquire: an unchanged cache with an error, one more user of a cached table, or a
  fresh table with one user.\<close>

lemma acquire_with_ok:
  assumes "cache_ok ar" "acquire_with alloc ar number h = (status, ar')"
  shows "same_layout ar ar' \<and>
    (status < 0 \<and> mpq_file ar' = mpq_file ar \<or>
     status = 0 \<and> number < ar_files ar \<and>
       (\<exists>f. mpq_file ar' = (mpq_file ar)[unat number := Some f] \<and> file_ok ar number f \<and>
          (case mpq_file ar ! unat number of None \<Rightarrow> open_count f = 1
           | Some f0 \<Rightarrow> open_count f = open_count f0 + 1 \<and> packed_offset f = packed_offset f0)))"
proof -
  have ok: "archive_ok ar" using assms(1) by (simp add: cache_ok_def)
  show ?thesis
  proof (cases "number < ar_files ar")
    case False
    then show ?thesis using assms(2) by (auto simp: acquire_with_def not_less)
  next
    case num: True
    then have nle: "\<not> ar_files ar \<le> number" by simp
    show ?thesis
    proof (cases "mpq_file ar ! unat number")
      case (Some f)
      then have "file_ok ar number f" using assms(1) num by (simp add: cache_ok_def)
      then show ?thesis
        using assms(2) num nle Some
        by (auto simp: acquire_with_def Let_def set_file_def file_ok_key
            file_ok_open_count same_layout_set_file [unfolded set_file_def] split: option.splits)
    next
      case None
      then show ?thesis
      proof (cases "offsets_countable ar number \<and> offsets_allocs alloc ar number")
        case False
        then show ?thesis using assms(2) num nle None
          by (auto simp: acquire_with_def split: if_splits)
      next
        case True
        obtain r a where fill: "fill_offsets alloc ar number (new_file ar number h) = (r, a)" by force
        note ok' = fill_offsets_ok [OF ok num _ fill]
        show ?thesis
        proof (cases r)
          case (Inl e)
          then show ?thesis using assms(2) num nle None True fill ok' fill_offsets_neg
            by (auto simp: acquire_with_def)
        next
          case (Inr g)
          then have "same_layout ar (set_file a number (Some g))"
            using ok' True same_layout_trans [OF _ same_layout_set_file] by blast
          then show ?thesis using assms(2) num nle None True fill ok' Inr
            by (auto simp: acquire_with_def set_file_def)
        qed
      qed
    qed
  qed
qed


lemma release_ok:
  assumes "cache_ok ar" "libmpq__reader_offsets_release ar number = (status, ar')"
  shows "same_layout ar ar' \<and>
    (status < 0 \<and> ar' = ar \<and> (ar_files ar \<le> number \<or> mpq_file ar ! unat number = None) \<or>
     status = 0 \<and> number < ar_files ar \<and>
       (\<exists>f. mpq_file ar ! unat number = Some f \<and>
          mpq_file ar' = (mpq_file ar)[unat number :=
            (if open_count f = 1 then None else Some (f\<lparr>open_count := open_count f - 1\<rparr>))]))"
proof (cases "ar_files ar \<le> number")
  case True
  then show ?thesis using assms(2) by (auto simp: libmpq__reader_offsets_release_def)
next
  case False
  have one: "open_count f - 1 = 0 \<longleftrightarrow> open_count f = 1" for f :: mpq_file_s by simp
  show ?thesis
    using False assms(2) one
    by (cases "mpq_file ar ! unat number")
      (auto simp: libmpq__reader_offsets_release_def Let_def set_file_def not_le
        same_layout_set_file [unfolded set_file_def] split: if_split_asm)
qed

lemma nth_other_file:
  assumes "archive_ok ar" "m < ar_files ar" "number < ar_files ar"
  shows "((mpq_file ar)[unat number := g]) ! unat m = (if m = number then g else mpq_file ar ! unat m)"
proof -
  have "unat (ar_files ar) \<le> length (mpq_file ar)"
    using assms(1) archive_ok_files [OF assms(1)] live_upto_length [of "mpq_block ar" "length (mpq_block ar)"]
    by (simp add: archive_ok_def archive_tables_ok_def live_blocks_def)
  then have "unat m < length (mpq_file ar)" using assms(2) by (simp add: word_less_nat_alt)
  then show ?thesis by (auto simp: nth_list_update word_unat_eq_iff)
qed

lemma cache_ok_update:
  assumes "cache_ok ar" "same_layout ar ar'" "number < ar_files ar"
    and "mpq_file ar' = (mpq_file ar)[unat number := g]" "\<And>f. g = Some f \<Longrightarrow> file_ok ar number f"
  shows "cache_ok ar'"
  unfolding cache_ok_def
proof (intro conjI allI impI)
  have ok: "archive_ok ar" using assms(1) by (simp add: cache_ok_def)
  then show "archive_ok ar'" using same_layout_ok [OF assms(2)] by simp
  fix m f assume m: "m < ar_files ar'" "mpq_file ar' ! unat m = Some f"
  then have m': "m < ar_files ar" using same_layout_fields(1) [OF assms(2)] by simp
  then have "file_ok ar m f"
    using m(2) assms(1,3-5) nth_other_file [OF ok m' assms(3)] by (auto simp: cache_ok_def split: if_splits)
  then show "file_ok ar' m f" using same_layout_file_ok [OF assms(2) ok m'] by simp
qed

lemma cache_ok_same:
  assumes "cache_ok ar" "same_layout ar ar'" "mpq_file ar' = mpq_file ar"
  shows "cache_ok ar'"
  using assms same_layout_ok [OF assms(2)] same_layout_fields(1) [OF assms(2)] same_layout_file_ok [OF assms(2)]
  by (auto simp: cache_ok_def)

lemma acquire_cache_ok:
  assumes "cache_ok ar" "acquire_with alloc ar number h = (status, ar')"
  shows "cache_ok ar'"
  using acquire_with_ok [OF assms] cache_ok_update [OF assms(1)] cache_ok_same [OF assms(1)] by blast

lemma release_cache_ok:
  assumes "cache_ok ar" "libmpq__reader_offsets_release ar number = (status, ar')"
  shows "cache_ok ar'"
proof -
  have "file_ok ar number (f\<lparr>open_count := c\<rparr>)" if "number < ar_files ar" "mpq_file ar ! unat number = Some f" for f c
    using assms(1) that by (simp add: cache_ok_def file_ok_open_count)
  then show ?thesis
    using release_ok [OF assms] cache_ok_update [OF assms(1), of ar' number] assms(1) by (auto split: if_splits)
qed

lemma offsets_acquire_cases:
  assumes "libmpq__reader_offsets_acquire char_signed alloc ar number name = Some (status, ar')"
  obtains h where "acquire_with alloc ar number h = (status, ar')"
  using assms by (auto simp: libmpq__reader_offsets_acquire_def split: option.splits if_splits elim!: bind_eq_Some_conv [THEN iffD1, THEN exE])

subsection \<open>The reference count as a state machine\<close>

text \<open>The operations on the cache with the status they returned; a run is a sequence of them.\<close>

datatype cache_event = Acquired u32 int | Released u32 int

inductive cache_step :: "mpq_archive_s \<Rightarrow> cache_event \<Rightarrow> mpq_archive_s \<Rightarrow> bool" where
  acquire: "libmpq__reader_offsets_acquire char_signed alloc ar number name = Some (status, ar') \<Longrightarrow>
    cache_step ar (Acquired number status) ar'"
| release: "libmpq__reader_offsets_release ar number = (status, ar') \<Longrightarrow>
    cache_step ar (Released number status) ar'"

inductive cache_run :: "mpq_archive_s \<Rightarrow> cache_event list \<Rightarrow> mpq_archive_s \<Rightarrow> bool" where
  start: "cache_run ar [] ar"
| step: "cache_run ar es ar' \<Longrightarrow> cache_step ar' e ar'' \<Longrightarrow> cache_run ar (es @ [e]) ar''"

inductive_cases cache_stepE: "cache_step ar e ar'"

text \<open>The successful acquires of a number that no successful release has matched.\<close>

definition outstanding :: "u32 \<Rightarrow> cache_event list \<Rightarrow> int" where
  "outstanding number es = int (count_list es (Acquired number 0)) - int (count_list es (Released number 0))"

text \<open>The counter of each entry is the number of users that still hold it.\<close>

definition counts :: "mpq_archive_s \<Rightarrow> cache_event list \<Rightarrow> bool" where
  "counts ar es \<longleftrightarrow> (\<forall>number<ar_files ar.
     case mpq_file ar ! unat number of
       None \<Rightarrow> outstanding number es = 0
     | Some f \<Rightarrow> 0 < outstanding number es \<and> int (unat (open_count f)) = outstanding number es)"

lemma outstanding_snoc:
  "outstanding number (es @ [e]) = outstanding number es +
     (if e = Acquired number 0 then 1 else if e = Released number 0 then -1 else 0)"
  by (auto simp: outstanding_def count_list_append)

lemma outstanding_bound: "outstanding number es \<le> int (length es)"
  using count_le_length [of es "Acquired number 0"] by (simp add: outstanding_def)


lemma unat_open_count_Suc:
  assumes "unat (open_count f) + 1 < 2 ^ 32"
  shows "unat (open_count f + 1) = unat (open_count f) + 1"
  using assms by (simp add: unat_word_ariths)

lemma unat_open_count_pred:
  assumes "open_count f \<noteq> 0"
  shows "unat (open_count f - 1) = unat (open_count f) - 1"
  using assms by (simp add: unat_minus_one)

lemma counts_acquire:
  assumes "cache_ok ar" "counts ar es" "acquire_with alloc ar number h = (status, ar')" "length es + 1 < 2 ^ 32"
  shows "counts ar' (es @ [Acquired number status])"
proof -
  have ok: "archive_ok ar" using assms(1) by (simp add: cache_ok_def)
  note acq = acquire_with_ok [OF assms(1,3)]
  note files = same_layout_fields(1) [OF acq [THEN conjunct1]]
  from acq consider (failed) "status < 0" "mpq_file ar' = mpq_file ar"
    | (fine) f where "status = 0" "number < ar_files ar" "mpq_file ar' = (mpq_file ar)[unat number := Some f]"
        "case mpq_file ar ! unat number of None \<Rightarrow> open_count f = 1 | Some f0 \<Rightarrow> open_count f = open_count f0 + 1"
    by (auto split: option.splits)
  then show ?thesis
  proof cases
    case failed
    then show ?thesis using assms(2) files by (auto simp: counts_def outstanding_snoc split: option.split)
  next
    case fine
    note c = assms(2) [unfolded counts_def, rule_format, OF fine(2)]
    have "0 < outstanding number es + 1 \<and> int (unat (open_count f)) = outstanding number es + 1"
    proof (cases "mpq_file ar ! unat number")
      case None
      then show ?thesis using c fine(4) by simp
    next
      case (Some f0)
      then have "int (unat (open_count f0)) = outstanding number es" using c by simp
      then have "unat (open_count f0) + 1 < 2 ^ 32"
        using outstanding_bound [of number es] assms(4) by linarith
      then show ?thesis using c fine(4) Some unat_open_count_Suc [of f0] by simp
    qed
    then show ?thesis
      using assms(2) fine(1-3) files nth_other_file [OF ok]
      by (auto simp: counts_def outstanding_snoc split: option.split)
  qed
qed

lemma counts_release:
  assumes "cache_ok ar" "counts ar es" "libmpq__reader_offsets_release ar number = (status, ar')"
  shows "counts ar' (es @ [Released number status])"
proof -
  have ok: "archive_ok ar" using assms(1) by (simp add: cache_ok_def)
  note rel = release_ok [OF assms(1,3)]
  note files = same_layout_fields(1) [OF rel [THEN conjunct1]]
  from rel consider (failed) "status < 0" "ar' = ar"
    | (fine) f where "status = 0" "number < ar_files ar" "mpq_file ar ! unat number = Some f"
        "mpq_file ar' = (mpq_file ar)[unat number :=
            (if open_count f = 1 then None else Some (f\<lparr>open_count := open_count f - 1\<rparr>))]"
    by blast
  then show ?thesis
  proof cases
    case failed
    then show ?thesis using assms(2) by (auto simp: counts_def outstanding_snoc split: option.split)
  next
    case fine
    note c = assms(2) [unfolded counts_def, rule_format, OF fine(2)]
    then have pos: "open_count f \<noteq> 0" using fine(3) by auto
    have "if open_count f = 1 then outstanding number es = 1
        else 1 < outstanding number es \<and> int (unat (open_count f - 1)) = outstanding number es - 1"
    proof (cases "open_count f = 1")
      case True
      then show ?thesis using c fine(3) by simp
    next
      case False
      moreover have "int (unat (open_count f)) = outstanding number es" using c fine(3) by simp
      moreover have "unat (open_count f) \<noteq> 0" "unat (open_count f) \<noteq> 1"
        using pos False by (simp_all add: word_unat_eq_iff)
      ultimately have "1 < outstanding number es" "int (unat (open_count f - 1)) = outstanding number es - 1"
        using unat_open_count_pred [OF pos] by linarith+
      then show ?thesis unfolding if_not_P [OF False] by blast
    qed
    then show ?thesis
      using assms(2) fine files nth_other_file [OF ok]
      by (auto simp: counts_def outstanding_snoc split: option.split if_splits)
  qed
qed

lemma cache_step_ok:
  assumes "cache_step ar e ar'" "cache_ok ar"
  shows "cache_ok ar'"
  using assms by (auto elim!: cache_stepE offsets_acquire_cases intro: acquire_cache_ok release_cache_ok)

lemma cache_run_ok:
  assumes "cache_run ar es ar'" "cache_ok ar" "counts ar []" "length es < 2 ^ 32"
  shows "cache_ok ar' \<and> counts ar' es"
  using assms
proof (induction rule: cache_run.induct)
  case (step ar es ar' e ar'')
  then have IH: "cache_ok ar'" "counts ar' es" by auto
  from step.hyps(2) have "counts ar'' (es @ [e])"
    using IH step.prems(3) by (cases rule: cache_step.cases)
      (auto elim!: offsets_acquire_cases intro: counts_acquire counts_release)
  then show ?case using cache_step_ok [OF step.hyps(2) IH(1)] by simp
qed simp

lemma opened_cache_empty:
  assumes "libmpq__reader_archive_open_source alloc p name off source = (Inr ar, log)"
  shows "cache_ok ar" "counts ar []"
proof -
  have files: "mpq_file ar = replicate (unat (block_table_count (mpq_header ar))) None"
    using assms by (auto elim!: archive_open_source_Inr simp: load_archive_def io_bind_Inr split: prod.splits if_splits)
  have ok: "archive_ok ar" using open_source_ok [OF assms] .
  have "mpq_file ar ! unat n = None" if "n < ar_files ar" for n
  proof -
    have "unat n < length (mpq_file ar)"
      using that ok archive_ok_files [OF ok] live_upto_length [of "mpq_block ar" "length (mpq_block ar)"]
      by (simp add: word_less_nat_alt archive_ok_def archive_tables_ok_def live_blocks_def)
    then show ?thesis using files by simp
  qed
  then show "cache_ok ar" "counts ar []" using ok by (auto simp: cache_ok_def counts_def outstanding_def)
qed

lemma sample_acquires:
  assumes "archive_ok ar" "mpq_block ar = [sample_block]" "ar_files ar = 1" "mpq_header ar = sample_header" "mpq_file ar = [None]"
  shows "\<exists>ar' f. libmpq__reader_offsets_acquire False (\<lambda>_. True) ar 0 None = Some (0, ar') \<and> mpq_file ar' = [Some f] \<and>
    open_count f = 1 \<and> ar_files ar' = 1"
proof -
  have "block_index ar 0 = 0" using archive_ok_block_index(1) [OF assms(1), of 0] assms(2,3) by simp
  then have b: "block_entry ar 0 = sample_block" using assms(2) by (simp add: block_entry_def)
  have "ar_block_size ar = 4096" using assms(1,4) by (simp add: archive_ok_def sample_header_def)
  then have "libmpq__reader_count_file_blocks ar 0 = 1"
    using b by (simp add: libmpq__reader_count_file_blocks_def sample_block_def LIBMPQ_FLAG_SINGLE_def LIBMPQ_FLAG_EXISTS_def)
  then have "offsets_countable ar 0" by (simp add: offsets_countable_def UINT32_MAX_def)
  then show ?thesis
    using assms(3,5) b
    by (simp add: libmpq__reader_offsets_acquire_def acquire_with_def offsets_allocs_def fill_offsets_def packed_codec_def
        sample_block_def LIBMPQ_FLAG_EXISTS_def LIBMPQ_FLAG_COMPRESSED_def LIBMPQ_FLAG_COMPRESS_PKZIP_def
        recover_raw_key_def LIBMPQ_FLAG_ENCRYPTED_def set_file_def new_file_def)
qed

lemma sample_opens_fresh:
  "\<exists>ar. libmpq__reader_archive_open_source (\<lambda>_. True) (Some 0) None 0 (file_source (sound_file sample_image) 64 True) = (Inr ar, []) \<and>
     cache_ok ar \<and> mpq_block ar = [sample_block] \<and> ar_files ar = 1 \<and> mpq_header ar = sample_header \<and> mpq_file ar = [None]"
proof -
  obtain ar where o: "libmpq__reader_archive_open_source (\<lambda>_. True) (Some 0) None 0 (file_source (sound_file sample_image) 64 True) =
      (Inr ar, [])" and rest: "mpq_block ar = [sample_block]" "ar_files ar = 1" "mpq_header ar = sample_header"
    using sample_opens by blast
  have "mpq_file ar = replicate (unat (block_table_count (mpq_header ar))) None"
    using o by (auto elim!: archive_open_source_Inr simp: load_archive_def io_bind_Inr split: prod.splits if_splits)
  then show ?thesis using o rest opened_cache_empty(1) [OF o] by (simp add: sample_header_def)
qed

subsection \<open>Properties\<close>

text \<open>C5: every acquire, named or anonymous, and every release keeps the reader's invariant, whatever the
  archive stores and whichever step fails: the tables and the file map stay well-formed, and every
  cached offset table has one offset per sector and one for the end, in increasing order; a stored
  table starts behind itself and ends inside the packed bytes, and a synthesized one is the fixed
  sector grid up to the file size.\<close>

theorem cache_invariant:
  assumes "cache_ok ar"
  shows "(libmpq__reader_offsets_acquire char_signed alloc ar number name = Some (status, ar') \<longrightarrow>
      cache_ok ar' \<and> ar_files ar' = ar_files ar \<and> block_index ar' m = block_index ar m) \<and>
    cache_ok (snd (libmpq__reader_offsets_release ar number))"
proof (intro conjI impI)
  assume "libmpq__reader_offsets_acquire char_signed alloc ar number name = Some (status, ar')"
  then obtain h where h: "acquire_with alloc ar number h = (status, ar')" by (rule offsets_acquire_cases)
  show "cache_ok ar'" by (rule acquire_cache_ok [OF assms h])
  show "ar_files ar' = ar_files ar" "block_index ar' m = block_index ar m"
    using same_layout_fields [OF acquire_with_ok [OF assms h, THEN conjunct1]] by simp_all
next
  show "cache_ok (snd (libmpq__reader_offsets_release ar number))"
    by (rule release_cache_ok [OF assms prod.collapse [symmetric]])
qed

theorem cache_invariant_witness:
  "\<exists>ar ar'. cache_ok ar \<and> libmpq__reader_offsets_acquire False (\<lambda>_. True) ar 0 None = Some (0, ar') \<and> cache_ok ar'"
proof -
  obtain ar where ok: "cache_ok ar" and "mpq_block ar = [sample_block]" "ar_files ar = 1" "mpq_header ar = sample_header" "mpq_file ar = [None]"
    using sample_opens_fresh by blast
  moreover from ok have "archive_ok ar" by (simp add: cache_ok_def)
  ultimately obtain ar' where "libmpq__reader_offsets_acquire False (\<lambda>_. True) ar 0 None = Some (0, ar')"
    using sample_acquires by blast
  then show ?thesis using cache_invariant [OF ok] ok by blast
qed

text \<open>C9: the reference counts are right along every run: from an opened archive, after any sequence of
  acquires and releases (at most \<open>2 ^ 32 - 1\<close> of them, the range of the counter), each entry counts the
  successful acquires that no release has matched, a file is cached exactly while someone holds it, and
  releasing a file that nobody holds fails with the archive unchanged.\<close>

theorem cache_reference_counts:
  assumes "libmpq__reader_archive_open_source alloc p name off source = (Inr ar, log)"
    and "cache_run ar es ar'" "length es < 2 ^ 32" "number < ar_files ar'"
  shows "case mpq_file ar' ! unat number of
      None \<Rightarrow> outstanding number es = 0 \<and> libmpq__reader_offsets_release ar' number = (error_code ERROR_OPEN, ar')
    | Some f \<Rightarrow> 0 < outstanding number es \<and> int (unat (open_count f)) = outstanding number es \<and> file_ok ar' number f"
  using cache_run_ok [OF assms(2) opened_cache_empty [OF assms(1)] assms(3)] assms(4)
  by (auto simp: counts_def cache_ok_def libmpq__reader_offsets_release_def split: option.split)

theorem cache_reference_counts_witness:
  "\<exists>ar ar' f. cache_run ar [Acquired 0 0] ar' \<and> mpq_file ar' = [Some f] \<and> int (unat (open_count f)) = 1 \<and> file_ok ar' 0 f"
proof -
  obtain ar where o: "libmpq__reader_archive_open_source (\<lambda>_. True) (Some 0) None 0 (file_source (sound_file sample_image) 64 True) =
      (Inr ar, [])" and ok: "cache_ok ar" and rest: "mpq_block ar = [sample_block]" "ar_files ar = 1" "mpq_header ar = sample_header" "mpq_file ar = [None]"
    using sample_opens_fresh by blast
  from ok have "archive_ok ar" by (simp add: cache_ok_def)
  then obtain ar' f where a: "libmpq__reader_offsets_acquire False (\<lambda>_. True) ar 0 None = Some (0, ar')"
      "mpq_file ar' = [Some f]" "ar_files ar' = 1"
    using sample_acquires [OF _ rest] by blast
  have run: "cache_run ar [Acquired 0 0] ar'"
    using cache_run.step [OF cache_run.start cache_step.acquire [OF a(1)]] by simp
  show ?thesis
    using cache_reference_counts [OF o run, of 0] a(2,3) run by (auto simp: outstanding_def)
qed

end
