(* ===== verification/Mpq_Member.thy ===== *)
theory Mpq_Member
  imports Mpq_Cache Mpq_Digest
begin

text \<open>
  Reading a complete file (\<^verbatim>\<open>libmpq__reader_file_read\<close> of \<^verbatim>\<open>src/mpq-reader.c\<close>), the attributes that
  complete reads are compared with (\<^verbatim>\<open>src/mpq-attributes.c\<close>, \<^verbatim>\<open>src/mpq-api.c\<close>), and explicit
  verification (\<^verbatim>\<open>src/mpq-verify.c\<close>). The theorems show that what an archive stores for a file, sector by
  sector encoded and encrypted, is what a read returns.
\<close>

subsection \<open>Reading the sectors of a file\<close>

text \<open>What a read takes from outside: the codecs, the checksums of zlib, the allocator, and the fuel of the
  LZMA loop.\<close>

record reader_env =
  re_libs :: codec_libs
  re_adler :: "u32 \<Rightarrow> u8 list \<Rightarrow> u32"
  re_crc :: "u32 \<Rightarrow> u8 list \<Rightarrow> u32"
  re_alloc :: "nat \<Rightarrow> bool"
  re_fuel :: nat

definition read_sector ::
  "reader_env \<Rightarrow> mpq_archive_s \<Rightarrow> u32 \<Rightarrow> u32 \<Rightarrow> u8 list \<Rightarrow> u32 option \<Rightarrow> block_out option" where
  "read_sector env = libmpq__reader_block_read_acquired (re_libs env) (re_adler env) (re_alloc env) (re_fuel env)"

definition sector_length :: "mpq_archive_s \<Rightarrow> u32 \<Rightarrow> u32 \<Rightarrow> nat" where
  "sector_length ar number block =
     (case libmpq__block_size_unpacked ar number block of Inl _ \<Rightarrow> 0 | Inr n \<Rightarrow> n)"

definition transferred_bytes :: "block_out \<Rightarrow> nat" where
  "transferred_bytes r = (case bo_transferred r of None \<Rightarrow> 0 | Some n \<Rightarrow> nat n)"

text \<open>The loop state: the caller's buffer, the bytes transferred, a checksum mismatch, a lossy sector.\<close>

type_synonym read_state = "u8 list \<times> nat \<times> bool \<times> bool"

fun read_blocks ::
  "reader_env \<Rightarrow> mpq_archive_s \<Rightarrow> u32 \<Rightarrow> u32 list option \<Rightarrow> nat list \<Rightarrow> read_state \<Rightarrow> read_state io option" where
  "read_blocks env ar number checksums [] st = Some (Inr st)"
| "read_blocks env ar number checksums (i # is) (out, got, mismatch, lossy) = do {
     r \<leftarrow> read_sector env ar number (of_nat i) (take (sector_length ar number (of_nat i)) (drop got out))
       (map_option (\<lambda>c. c ! i) checksums);
     if bo_status r < 0 then Some (Inl (bo_status r))
     else read_blocks env ar number checksums is
       (write_at out got (bo_buffer r), got + transferred_bytes r, mismatch \<or> bo_mismatch r, lossy \<or> bo_lossy r)
   }"

text \<open>The file read up to the comparison with the attributes; the offsets are released on every path, and
  checksum tables that cannot be used are skipped.\<close>

definition read_member ::
  "reader_env \<Rightarrow> mpq_archive_s \<Rightarrow> u32 \<Rightarrow> u8 list \<Rightarrow> ((u8 list \<times> nat \<times> bool) io \<times> mpq_archive_s) option" where
  "read_member env ar number out =
     (if libmpq__reader_validate_file_number ar number < 0 then Some (Inl (error_code ERROR_EXIST), ar)
      else
        let expected = unat (unpacked_size (block_entry ar number)); blocks = libmpq__reader_count_file_blocks ar number
        in if expected > length out then Some (Inl (error_code ERROR_SIZE), ar)
           else case acquire_with (re_alloc env) ar number None of
             (status, ar) \<Rightarrow>
               if status < 0 then Some (Inl status, ar)
               else do {
                 (checks, ar) \<leftarrow> libmpq__reader_sector_checksums (re_libs env) (re_alloc env) (re_fuel env) ar number;
                 r \<leftarrow> read_blocks env ar number (case checks of Inl _ \<Rightarrow> None | Inr c \<Rightarrow> c) [0..<unat blocks] (out, 0, False, False);
                 let (status, ar) = libmpq__reader_offsets_release ar number
                 in Some (case r of
                     Inl e \<Rightarrow> Inl e
                   | Inr (out, got, mismatch, lossy) \<Rightarrow>
                       if got \<noteq> expected then Inl (error_code ERROR_READ)
                       else if status < 0 then Inl status
                       else if mismatch then Inl (error_code ERROR_READ)
                       else Inr (out, got, lossy), ar)
               })"

subsection \<open>Attributes of an opened archive\<close>

definition ascii :: "string \<Rightarrow> u8 list" where
  "ascii s = map (\<lambda>c. of_nat (of_char c)) s"

definition LIBMPQ_ATTRIBUTES_NAME :: "u8 list" where "LIBMPQ_ATTRIBUTES_NAME = ascii ''(attributes)''"
definition LIBMPQ_SIGNATURE_NAME :: "u8 list" where "LIBMPQ_SIGNATURE_NAME = ascii ''(signature)''"
definition sizeof_mpq_attributes_s :: nat where "sizeof_mpq_attributes_s = 64"

text \<open>The internal names are ASCII, so their hashes are defined.\<close>

definition internal_number :: "mpq_archive_s \<Rightarrow> u8 list \<Rightarrow> u32 result" where
  "internal_number ar name = (case libmpq__file_number False ar name of None \<Rightarrow> Inl ERROR_EXIST | Some r \<Rightarrow> r)"

text \<open>The attributes member is read like any file; its own comparison with the attributes returns at once
  because it names itself, so the read is \<open>read_member\<close> (see \<open>file_read_attributes_itself\<close>).\<close>

definition read_attributes ::
  "reader_env \<Rightarrow> mpq_archive_s \<Rightarrow> u32 \<Rightarrow> nat \<Rightarrow> (mpq_attributes_s io \<times> mpq_archive_s) option" where
  "read_attributes env ar number n =
     (case acquire_with (re_alloc env) ar number (Some (table_key LIBMPQ_ATTRIBUTES_NAME)) of
        (status, ar) \<Rightarrow>
          if status \<noteq> 0 then Some (Inl status, ar)
          else do {
            (r, ar) \<leftarrow> read_member env ar number (replicate n 0);
            let ar = snd (libmpq__reader_offsets_release ar number)
            in Some (io_bind r (\<lambda>(bytes, got, lossy).
                 if got \<noteq> n then Inl (error_code ERROR_READ)
                 else lift_result (libmpq__attributes_parse (Some bytes) n (unat (block_table_count (mpq_header ar)))
                   (block_index ar number))), ar)
          })"

definition libmpq__attributes_load :: "reader_env \<Rightarrow> mpq_archive_s \<Rightarrow> (int \<times> mpq_archive_s) option" where
  "libmpq__attributes_load env ar =
     (if ar_attributes ar \<noteq> None then Some (0, ar)
      else if attributes_error ar \<noteq> 0 then Some (attributes_error ar, ar)
      else case internal_number ar LIBMPQ_ATTRIBUTES_NAME of
        Inl e \<Rightarrow>
          Some (error_code e, if e = ERROR_EXIST \<or> e = ERROR_FORMAT then ar\<lparr>attributes_error := error_code e\<rparr> else ar)
      | Inr number \<Rightarrow>
          (case libmpq__file_size_unpacked ar number of
             Inl e \<Rightarrow> Some (error_code e, ar)
           | Inr n \<Rightarrow>
               if n < 8 \<or> n > 8 + unat (block_table_count (mpq_header ar)) * 32
               then Some (error_code ERROR_FORMAT, ar\<lparr>attributes_error := error_code ERROR_FORMAT\<rparr>)
               else if \<not> re_alloc env n \<or> \<not> re_alloc env sizeof_mpq_attributes_s then Some (error_code ERROR_MALLOC, ar)
               else do {
                 (r, ar) \<leftarrow> read_attributes env ar number n;
                 Some (case r of
                     Inl e \<Rightarrow> (e, if e = error_code ERROR_FORMAT then ar\<lparr>attributes_error := e\<rparr> else ar)
                   | Inr view \<Rightarrow> (0, ar\<lparr>ar_attributes := Some view\<rparr>))
               }))"

definition libmpq__archive_attributes ::
  "reader_env \<Rightarrow> mpq_archive_s \<Rightarrow> (u32 io \<times> mpq_archive_s) option" where
  "libmpq__archive_attributes env ar =
     (if write_mode ar then Some (Inl (error_code ERROR_NOT_INITIALIZED), ar)
      else do {
        (status, ar) \<leftarrow> libmpq__attributes_load env ar;
        Some (if status = 0 then (Inr (case ar_attributes ar of None \<Rightarrow> 0 | Some view \<Rightarrow> view_flags view), ar)
          else (Inl status, ar))
      })"

definition libmpq__file_attributes ::
  "reader_env \<Rightarrow> mpq_archive_s \<Rightarrow> u32 \<Rightarrow> (mpq_file_attributes_s io \<times> mpq_archive_s) option" where
  "libmpq__file_attributes env ar number =
     (if write_mode ar then Some (Inl (error_code ERROR_NOT_INITIALIZED), ar)
      else if libmpq__reader_validate_file_number ar number \<noteq> 0 then Some (Inl (error_code ERROR_EXIST), ar)
      else do {
        (r, ar) \<leftarrow> libmpq__archive_attributes env ar;
        Some (case r of
            Inl e \<Rightarrow> Inl e
          | Inr _ \<Rightarrow> Inr (case ar_attributes ar of
              None \<Rightarrow> zero_attributes | Some view \<Rightarrow> libmpq__attributes_get view (block_index ar number)), ar)
      })"

text \<open>Which comparisons the attributes of an entry offer.\<close>

definition available_checks :: "mpq_file_attributes_s \<Rightarrow> u32" where
  "available_checks attrs =
     (if attr_flags attrs AND LIBMPQ_ATTRIBUTE_CRC32 \<noteq> 0 then LIBMPQ_VERIFY_FILE_CRC32 else 0) OR
     (if attr_flags attrs AND LIBMPQ_ATTRIBUTE_MD5 \<noteq> 0 then LIBMPQ_VERIFY_FILE_MD5 else 0)"

text \<open>The comparison of complete data; a file is below \<open>2 ^ 32\<close> bytes, so the CRC loop takes one chunk.\<close>

definition compare_data :: "reader_env \<Rightarrow> mpq_file_attributes_s \<Rightarrow> u32 \<Rightarrow> u8 list \<Rightarrow> u32" where
  "compare_data env attrs verify_flags bytes =
     libmpq__attributes_compare_file attrs verify_flags
       (if verify_flags AND LIBMPQ_VERIFY_FILE_CRC32 \<noteq> 0 \<and> bytes \<noteq> [] then re_crc env 0 bytes else 0)
       (if verify_flags AND LIBMPQ_VERIFY_FILE_MD5 \<noteq> 0
        then fst (libmpq__md5_final (if bytes \<noteq> [] then libmpq__md5_update libmpq__md5_init bytes else libmpq__md5_init))
        else replicate 16 0) 0"

definition names_itself :: "mpq_archive_s \<Rightarrow> u32 \<Rightarrow> bool" where
  "names_itself ar number \<longleftrightarrow>
     internal_number ar LIBMPQ_ATTRIBUTES_NAME = Inr number \<or> internal_number ar LIBMPQ_SIGNATURE_NAME = Inr number"

definition libmpq__attributes_verify_data ::
  "reader_env \<Rightarrow> mpq_archive_s \<Rightarrow> u32 \<Rightarrow> u8 list \<Rightarrow> (u32 io \<times> mpq_archive_s) option" where
  "libmpq__attributes_verify_data env ar number bytes =
     (if write_mode ar then Some (Inl (error_code ERROR_NOT_INITIALIZED), ar)
      else if libmpq__reader_validate_file_number ar number < 0 then Some (Inl (error_code ERROR_EXIST), ar)
      else if unat (unpacked_size (block_entry ar number)) \<noteq> length bytes then Some (Inl (error_code ERROR_SIZE), ar)
      else if names_itself ar number then Some (Inr 0, ar)
      else do {
        (r, ar) \<leftarrow> libmpq__file_attributes env ar number;
        Some (case r of
            Inl _ \<Rightarrow> Inr 0
          | Inr attrs \<Rightarrow>
              if available_checks attrs = 0 then Inr 0
              else Inr (compare_data env attrs (available_checks attrs) bytes), ar)
      })"

definition libmpq__reader_file_read ::
  "reader_env \<Rightarrow> mpq_archive_s \<Rightarrow> u32 \<Rightarrow> u8 list \<Rightarrow> ((u8 list \<times> nat) io \<times> mpq_archive_s) option" where
  "libmpq__reader_file_read env ar number out = do {
     (r, ar) \<leftarrow> read_member env ar number out;
     case r of
       Inl e \<Rightarrow> Some (Inl e, ar)
     | Inr (out, got, lossy) \<Rightarrow>
         if lossy then Some (Inr (out, got), ar)
         else do {
           (v, ar) \<leftarrow> libmpq__attributes_verify_data env ar number (take got out);
           Some (io_bind v (\<lambda>mismatches.
             if mismatches \<noteq> 0 then Inl (error_code ERROR_READ) else Inr (out, got)), ar)
         }
   }"


subsection \<open>A stored sector is read back\<close>

definition cipher :: "bool \<Rightarrow> u32 \<Rightarrow> u8 list \<Rightarrow> u8 list" where
  "cipher on s bytes = (if on then libmpq__crypto_encrypt_block bytes (length bytes) s else bytes)"

lemma length_cipher [simp]: "length (cipher on s bytes) = length bytes"
  by (simp add: cipher_def crypt_block_roundtrip)

lemma cipher_short: "length bytes < 4 \<Longrightarrow> cipher on s bytes = bytes"
  by (simp add: cipher_def libmpq__crypto_encrypt_block_def encrypt_loop.simps)

definition payload_at :: "mpq_archive_s \<Rightarrow> u32 \<Rightarrow> nat" where
  "payload_at ar number = nat (archive_offset ar) + payload_offset ar (block_index ar number)"

text \<open>The packed bytes of a sector, encrypted under the key of the file and the sector.\<close>

definition sector_stored :: "u8 list \<Rightarrow> mpq_archive_s \<Rightarrow> u32 \<Rightarrow> mpq_file_s \<Rightarrow> u32 \<Rightarrow> u8 list \<Rightarrow> bool" where
  "sector_stored img ar number f block y \<longleftrightarrow>
     unat (packed_offset f ! unat (block + 1)) = unat (packed_offset f ! unat block) + length y \<and>
     (encrypted_entry (block_entry ar number) \<longrightarrow> seed_known f) \<and>
     stored img (payload_at ar number + unat (packed_offset f ! unat block))
       (cipher (encrypted_entry (block_entry ar number)) (seed f + block) y)"

lemma file_ok_counts:
  assumes "file_ok ar number f" "block < libmpq__reader_count_file_blocks ar number"
  shows "unat (block + 1) = unat block + 1" "unat (block + 1) \<le> unat (libmpq__reader_count_file_blocks ar number)"
    "\<not> packed_offset_count f \<le> block + 1"
proof -
  have lt: "unat block < unat (libmpq__reader_count_file_blocks ar number)" using assms(2) by (simp add: word_less_nat_alt)
  show b1: "unat (block + 1) = unat block + 1"
  proof -
    have "unat block + 1 < 2 ^ 32" using lt u32_bound [of "libmpq__reader_count_file_blocks ar number"] by linarith
    then show ?thesis by (simp add: unat_word_ariths)
  qed
  show "unat (block + 1) \<le> unat (libmpq__reader_count_file_blocks ar number)" using lt b1 by simp
  show "\<not> packed_offset_count f \<le> block + 1"
    using lt b1 assms(1) by (simp add: file_ok_def Let_def word_le_nat_alt)
qed

lemma and_or_zero: "(a :: u32) AND (b OR c) = 0 \<longleftrightarrow> a AND b = 0 \<and> a AND c = 0"
  by (auto simp: bit_eq_iff bit_simps)

context archive_source
begin

lemma read_packed_stored:
  assumes "ar_source ar = s" "number < ar_files ar" "block < libmpq__reader_count_file_blocks ar number"
    and "mpq_file ar ! unat number = Some f" "file_ok ar number f" "sector_stored img ar number f block y"
  shows "read_packed ar number block (length y) = Inr y"
proof -
  let ?b = "block_entry ar number" and ?c = "cipher (encrypted_entry (block_entry ar number)) (seed f + block) y"
  have st: "stored img (payload_at ar number + unat (packed_offset f ! unat block)) ?c"
    using assms(6) by (simp add: sector_stored_def)
  have rd: "read_bytes (ar_source ar) ((nat (archive_offset ar) + payload_offset ar (block_index ar number) +
      unat (cached_offset ar number block)) mod 2 ^ 64) (length y) = Inr ?c"
    using read_stored_mod [OF st] assms(1,4) by (simp add: payload_at_def cached_offset_def)
  show ?thesis
  proof (cases "encrypted_entry ?b \<and> 4 \<le> length y")
    case True
    then have "libmpq__reader_get_block_seed ar number block = Inr (seed f + block)"
      using assms(2-6) file_ok_counts(3) [OF assms(5,3)]
      by (auto simp: libmpq__reader_get_block_seed_def sector_stored_def not_le)
    then show ?thesis
      using rd True by (simp add: read_packed_def Let_def block_entry_def cipher_def crypt_block_roundtrip)
  next
    case False
    have "?c = y"
    proof (cases "encrypted_entry ?b")
      case True
      then have "length y < 4" using False by simp
      then show ?thesis by (rule cipher_short)
    qed (simp add: cipher_def)
    then show ?thesis using rd False by (auto simp: read_packed_def Let_def block_entry_def)
  qed
qed

lemma payload_range_stored:
  assumes "archive_ok ar" "ar_source ar = s" "stored img (payload_at ar number + n) bytes"
  shows "\<not> libmpq__reader_validate_payload_range ar (block_index ar number) n (length bytes) < 0"
proof -
  have "payload_at ar number + n + length bytes \<le> length img" using assms(3) by (simp add: stored_def)
  moreover have "ar_file_size ar = length img" using assms(1,2) src_sized by (simp add: archive_ok_def)
  moreover have "0 \<le> archive_offset ar" using assms(1) by (simp add: archive_ok_def)
  ultimately show ?thesis
    using addressable
    by (auto simp: libmpq__reader_validate_payload_range_def Let_def payload_at_def UINT64_MAX_def INT64_MAX_def)
qed

lemma read_sector_stored:
  assumes "cache_ok ar" "ar_source ar = s" "number < ar_files ar" "block < libmpq__reader_count_file_blocks ar number"
    and "mpq_file ar ! unat number = Some f" "sector_stored img ar number f block y"
    and "packed_offset f ! unat (block + 1) \<le> packed_size (block_entry ar number)"
    and "re_alloc env (length y)" "sector_length ar number block \<le> length out"
    and "flags (block_entry ar number) AND (LIBMPQ_FLAG_COMPRESS_MULTI OR LIBMPQ_FLAG_COMPRESS_PKZIP) \<noteq> 0 \<or> plain = y"
    and "\<And>room. length room = sector_length ar number block \<Longrightarrow>
      decode_block (re_libs env) (re_alloc env) (re_fuel env) ar (flags (block_entry ar number)) y room = Some (int n, plain)"
  shows "read_sector env ar number block out checksum =
    Some \<lparr>bo_status = 0, bo_buffer = write_at out 0 plain, bo_transferred = Some (int n),
      bo_mismatch = checksum_mismatch (re_adler env) checksum y,
      bo_lossy = block_lossy (flags (block_entry ar number)) (sector_length ar number block) y\<rparr>"
proof -
  have ok: "archive_ok ar" and f: "file_ok ar number f" using assms(1,3,5) by (auto simp: cache_ok_def)
  let ?fl = "flags (block_entry ar number)"
  let ?s = "packed_offset f ! unat block" and ?e = "packed_offset f ! unat (block + 1)"
  have e: "unat ?e = unat ?s + length y" using assms(6) by (simp add: sector_stored_def)
  then have le: "\<not> ?e < ?s" "unat (?e - ?s) = length y"
    by (simp_all add: word_less_nat_alt unat_sub word_le_nat_alt)
  have st: "stored img (payload_at ar number + unat ?s) (cipher (encrypted_entry (block_entry ar number)) (seed f + block) y)"
    using assms(6) by (simp add: sector_stored_def)
  have range: "\<not> libmpq__reader_validate_payload_range ar (block_index ar number) (unat ?s) (length y) < 0"
    using payload_range_stored [OF ok assms(2) st] by simp
  let ?direct = "?fl AND (LIBMPQ_FLAG_ENCRYPTED OR LIBMPQ_FLAG_COMPRESS_MULTI OR LIBMPQ_FLAG_COMPRESS_PKZIP) = 0 \<and> length y \<le> length out"
  let ?out = "if ?direct then write_at out 0 y else out"
  have "length (take (sector_length ar number block) ?out) = sector_length ar number block"
    using assms(9) by (auto simp: write_at_def)
  from assms(11) [OF this] have dec: "decode_block (re_libs env) (re_alloc env) (re_fuel env) ar ?fl y
      (take (sector_length ar number block) ?out) = Some (int n, plain)" .
  have "?direct \<Longrightarrow> plain = y" using assms(10) by (auto simp: and_or_zero)
  then have buf: "write_at ?out 0 plain = write_at out 0 plain" by (auto simp: write_at_def)
  note read = assms(3-5,7-9) le range file_ok_counts(3) [OF f assms(4)] read_packed_stored [OF assms(2-5) f assms(6)]
  note defs = read_sector_def libmpq__reader_block_read_acquired_def Let_def sector_length_def finish_block_def not_le not_less
  show ?thesis
  proof (cases ?direct)
    case True
    then show ?thesis using dec buf read by (simp add: defs)
  next
    case False
    then show ?thesis using dec buf read by (simp add: defs if_not_P)
  qed
qed

end


subsection \<open>A stored file is read back\<close>

text \<open>The plain sectors of a file, and the offsets at which packed sectors of given lengths lie behind a
  table of the given size.\<close>

definition sector_of :: "nat \<Rightarrow> u8 list \<Rightarrow> nat \<Rightarrow> u8 list" where
  "sector_of bs plain i = take bs (drop (i * bs) plain)"

definition offsets_of :: "nat \<Rightarrow> u8 list list \<Rightarrow> nat \<Rightarrow> nat" where
  "offsets_of tsize packed i = tsize + sum_list (map length (take i packed))"

definition offset_words :: "nat \<Rightarrow> u8 list list \<Rightarrow> u32 list" where
  "offset_words tsize packed = map (\<lambda>i. of_nat (offsets_of tsize packed i)) [0..<length packed + 1]"

text \<open>A file in the image: a compressed, sectorized entry whose sectors are encoded one by one, stored behind
  the table of their offsets, all of it encrypted under \<open>s\<close> when the entry says so.\<close>

definition member_stored ::
  "reader_env \<Rightarrow> u8 list \<Rightarrow> mpq_archive_s \<Rightarrow> u32 \<Rightarrow> u32 \<Rightarrow> u32 \<Rightarrow> u32 \<Rightarrow> u8 list list \<Rightarrow> u8 list \<Rightarrow> bool" where
  "member_stored env img ar number s requested policy packed plain \<longleftrightarrow>
     (let b = block_entry ar number; n = unat (libmpq__reader_count_file_blocks ar number);
          on = encrypted_entry b; tsize = 4 * (n + 1); bs = unat (ar_block_size ar)
      in flags b AND (LIBMPQ_FLAG_COMPRESSED OR LIBMPQ_FLAG_COMPRESS_PKZIP) = LIBMPQ_FLAG_COMPRESS_MULTI \<and>
         \<not> single_unit b \<and> flags b AND LIBMPQ_FLAG_CRC = 0 \<and>
         length plain = unat (unpacked_size b) \<and> length plain + bs \<le> 2 ^ 32 \<and> bs < 2 ^ 31 \<and> length packed = n \<and>
         (\<forall>i<n. \<exists>m. libmpq__compression_encode_sector (re_libs env) (re_alloc env) (re_fuel env) (sector_of bs plain i)
            requested (ucast (version (mpq_header ar))) policy = Some (Inr (packed ! i, m))) \<and>
         offsets_of tsize packed n \<le> unat (packed_size b) \<and>
         stored img (payload_at ar number) (cipher on (s - 1) (concat (map le32_bytes (offset_words tsize packed)))) \<and>
         (\<forall>i<n. stored img (payload_at ar number + offsets_of tsize packed i) (cipher on (s + of_nat i) (packed ! i))))"

text \<open>The key a caller supplies: the hash of the name, where the entry is encrypted.\<close>

definition key_given :: "mpq_archive_s \<Rightarrow> u32 \<Rightarrow> u32 \<Rightarrow> u32 option \<Rightarrow> bool" where
  "key_given ar number s h \<longleftrightarrow>
     (encrypted_entry (block_entry ar number) \<longrightarrow> (\<exists>name_hash. h = Some name_hash \<and> named_seed (block_entry ar number) name_hash = s))"

lemma offsets_of_mono: "i \<le> j \<Longrightarrow> offsets_of t packed i \<le> offsets_of t packed j"
proof -
  assume "i \<le> j"
  then obtain k where j: "j = i + k" by (auto simp: le_iff_add)
  show ?thesis by (simp add: j offsets_of_def take_add)
qed

lemma offsets_of_Suc: "i < length packed \<Longrightarrow> offsets_of t packed (Suc i) = offsets_of t packed i + length (packed ! i)"
  by (simp add: offsets_of_def take_Suc_conv_app_nth)

lemma offset_words_nth:
  assumes "i \<le> length packed" "offsets_of t packed (length packed) < 2 ^ 32"
  shows "unat (offset_words t packed ! i) = offsets_of t packed i"
proof -
  have "offsets_of t packed i < 2 ^ 32" using offsets_of_mono [OF assms(1), of t packed] assms(2) by simp
  then show ?thesis using assms(1) u32_of_nat by (simp add: offset_words_def del: upt_Suc)
qed

lemma length_offset_words [simp]: "length (offset_words t packed) = length packed + 1"
  by (simp add: offset_words_def)

lemma decode_le32_table:
  "libmpq__reader_decode_uint32_table (concat (map le32_bytes ws)) (length ws) = ws"
  using word_codec.load_table [of ws "[]"] by (simp add: libmpq__reader_decode_uint32_table_def)

lemma length_le32_table [simp]: "length (concat (map le32_bytes ws)) = 4 * length ws"
  using word_codec.length_table [of ws] by (simp add: mult.commute)


lemma multi_flags:
  fixes fl :: u32
  assumes "fl AND (LIBMPQ_FLAG_COMPRESSED OR LIBMPQ_FLAG_COMPRESS_PKZIP) = LIBMPQ_FLAG_COMPRESS_MULTI"
  shows "fl AND LIBMPQ_FLAG_COMPRESS_MULTI \<noteq> 0" "fl AND LIBMPQ_FLAG_COMPRESS_PKZIP = 0"
    "fl AND (LIBMPQ_FLAG_ENCRYPTED OR LIBMPQ_FLAG_COMPRESSED) \<noteq> LIBMPQ_FLAG_ENCRYPTED"
proof -
  have *: "fl AND 0xFF00 = 0x200" using assms by (simp add: LIBMPQ_FLAG_COMPRESSED_def LIBMPQ_FLAG_COMPRESS_PKZIP_def LIBMPQ_FLAG_COMPRESS_MULTI_def)
  have "fl AND 0x200 = (fl AND 0xFF00) AND 0x200" "fl AND 0x100 = (fl AND 0xFF00) AND 0x100" by (simp_all add: and.assoc)
  then show "fl AND LIBMPQ_FLAG_COMPRESS_MULTI \<noteq> 0" "fl AND LIBMPQ_FLAG_COMPRESS_PKZIP = 0"
    unfolding * by (simp_all add: LIBMPQ_FLAG_COMPRESS_PKZIP_def LIBMPQ_FLAG_COMPRESS_MULTI_def)
  have "fl AND 0xFF00 = (fl AND (LIBMPQ_FLAG_ENCRYPTED OR LIBMPQ_FLAG_COMPRESSED)) AND 0xFF00"
    by (simp add: and.assoc LIBMPQ_FLAG_COMPRESSED_def LIBMPQ_FLAG_ENCRYPTED_def)
  then show "fl AND (LIBMPQ_FLAG_ENCRYPTED OR LIBMPQ_FLAG_COMPRESSED) \<noteq> LIBMPQ_FLAG_ENCRYPTED"
    using * by (auto simp: LIBMPQ_FLAG_ENCRYPTED_def)
qed

lemma codec_not_raw:
  assumes "packed_codec b"
  shows "flags b AND (LIBMPQ_FLAG_ENCRYPTED OR LIBMPQ_FLAG_COMPRESSED) \<noteq> LIBMPQ_FLAG_ENCRYPTED"
proof
  assume *: "flags b AND (LIBMPQ_FLAG_ENCRYPTED OR LIBMPQ_FLAG_COMPRESSED) = LIBMPQ_FLAG_ENCRYPTED"
  have "flags b AND 0xFF00 = (flags b AND (LIBMPQ_FLAG_ENCRYPTED OR LIBMPQ_FLAG_COMPRESSED)) AND 0xFF00"
    by (simp add: and.assoc LIBMPQ_FLAG_COMPRESSED_def LIBMPQ_FLAG_ENCRYPTED_def)
  then have "flags b AND 0xFF00 = 0" unfolding * by (simp add: LIBMPQ_FLAG_ENCRYPTED_def)
  then show False using assms by (simp add: packed_codec_def LIBMPQ_FLAG_COMPRESSED_def LIBMPQ_FLAG_COMPRESS_PKZIP_def)
qed

lemma plain_not_raw:
  assumes "\<not> encrypted_entry b"
  shows "flags b AND (LIBMPQ_FLAG_ENCRYPTED OR LIBMPQ_FLAG_COMPRESSED) \<noteq> LIBMPQ_FLAG_ENCRYPTED"
proof
  assume *: "flags b AND (LIBMPQ_FLAG_ENCRYPTED OR LIBMPQ_FLAG_COMPRESSED) = LIBMPQ_FLAG_ENCRYPTED"
  have "flags b AND LIBMPQ_FLAG_ENCRYPTED = (flags b AND (LIBMPQ_FLAG_ENCRYPTED OR LIBMPQ_FLAG_COMPRESSED)) AND LIBMPQ_FLAG_ENCRYPTED"
    by (simp add: and.assoc LIBMPQ_FLAG_COMPRESSED_def LIBMPQ_FLAG_ENCRYPTED_def)
  then show False using assms unfolding * by (simp add: encrypted_entry_def LIBMPQ_FLAG_ENCRYPTED_def)
qed

lemma sector_length_of:
  assumes "archive_ok ar" "number < ar_files ar" "\<not> single_unit (block_entry ar number)"
    and "length plain = unat (unpacked_size (block_entry ar number))" "length plain + unat (ar_block_size ar) \<le> 2 ^ 32"
    and "i < unat (libmpq__reader_count_file_blocks ar number)"
  shows "sector_length ar number (of_nat i) = length (sector_of (unat (ar_block_size ar)) plain i)"
proof -
  let ?n = "libmpq__reader_count_file_blocks ar number" and ?bs = "unat (ar_block_size ar)"
  have bs: "0 < ?bs" using archive_ok_block_size(2) [OF assms(1)] by linarith
  have n: "unat ?n = (length plain + ?bs - 1) div ?bs" using count_blocks(1) [OF assms(1,3)] assms(4,5) by simp
  have ui: "unat (of_nat i :: u32) = i" using assms(6) u32_bound [of ?n] by (intro u32_of_nat) linarith
  have lt: "(of_nat i :: u32) < ?n" using assms(6) ui by (simp add: word_less_nat_alt)
  have n1: "unat (?n - 1) = unat ?n - 1" using assms(6) by (intro unat_minus_one) auto
  have fl: "flags (block_entry ar number) AND LIBMPQ_FLAG_SINGLE = 0" using assms(3) by (simp add: single_unit_def)
  note le = count_blocks_le [OF assms(1,3,6), folded assms(4)]
  show ?thesis
  proof (cases "i < unat ?n - 1")
    case True
    have "Suc i * ?bs < length plain" using count_blocks_le [OF assms(1,3), of "Suc i"] True assms(4) by simp
    then have "length (sector_of ?bs plain i) = ?bs" by (simp add: sector_of_def)
    moreover have "(of_nat i :: u32) < ?n - 1" using True ui n1 by (simp add: word_less_nat_alt)
    ultimately show ?thesis
      using assms(2) lt fl by (auto simp: sector_length_def libmpq__block_size_unpacked_def not_le)
  next
    case False
    then have "unat ?n = i + 1" using assms(6) by simp
    then have "length plain + ?bs - 1 < (i + 2) * ?bs"
      using n bs by (metis add.commute add_2_eq_Suc' div_less_iff_less_mult lessI Suc_eq_plus1)
    then have "length plain \<le> (i + 1) * ?bs" using bs by (simp add: algebra_simps)
    then have sec: "length (sector_of ?bs plain i) = length plain - i * ?bs" by (simp add: sector_of_def)
    have "unat (ar_block_size ar * of_nat i) = i * ?bs"
      using unat_mult_offset [OF assms(1,3,6)] by (simp add: mult.commute)
    then have "unat (unpacked_size (block_entry ar number) - ar_block_size ar * of_nat i) = length plain - i * ?bs"
      using le assms(4) by (simp add: unat_sub word_le_nat_alt)
    moreover have "\<not> (of_nat i :: u32) < ?n - 1" using False ui n1 by (simp add: word_less_nat_alt)
    ultimately show ?thesis
      using assms(2) lt fl sec by (auto simp: sector_length_def libmpq__block_size_unpacked_def not_le)
  qed
qed

lemma sector_size_stored:
  assumes "archive_ok ar" "number < ar_files ar" "\<not> single_unit (block_entry ar number)"
    and "length plain = unat (unpacked_size (block_entry ar number))" "length plain + unat (ar_block_size ar) \<le> 2 ^ 32"
    and "i < unat (libmpq__reader_count_file_blocks ar number)"
  shows "libmpq__block_size_unpacked ar number (of_nat i) = Inr (length (sector_of (unat (ar_block_size ar)) plain i))"
proof -
  have "unat (of_nat i :: u32) = i"
    using assms(6) u32_bound [of "libmpq__reader_count_file_blocks ar number"] by (intro u32_of_nat) linarith
  then have "\<not> libmpq__reader_count_file_blocks ar number \<le> of_nat i" using assms(6) by (simp add: word_le_nat_alt)
  then have "libmpq__block_size_unpacked ar number (of_nat i) = Inr (sector_length ar number (of_nat i))"
    using assms(2) by (auto simp: libmpq__block_size_unpacked_def sector_length_def not_le)
  then show ?thesis using sector_length_of [OF assms] by simp
qed

text \<open>The counted sectors cover the file.\<close>

lemma blocks_cover:
  assumes "archive_ok ar" "\<not> single_unit (block_entry ar number)"
    and "unat (unpacked_size (block_entry ar number)) + unat (ar_block_size ar) \<le> 2 ^ 32"
  shows "unat (unpacked_size (block_entry ar number)) \<le> unat (libmpq__reader_count_file_blocks ar number) * unat (ar_block_size ar)"
proof -
  let ?n = "unat (libmpq__reader_count_file_blocks ar number)" and ?bs = "unat (ar_block_size ar)"
  let ?us = "unat (unpacked_size (block_entry ar number))"
  have bs: "0 < ?bs" using archive_ok_block_size(2) [OF assms(1)] by linarith
  have "?n = (?us + ?bs - 1) div ?bs" using count_blocks(1) [OF assms(1,2)] assms(3) by simp
  then have "?us + ?bs - 1 < (?n + 1) * ?bs" using bs by (metis div_less_iff_less_mult less_add_one)
  then show ?thesis using bs by (simp add: algebra_simps)
qed

text \<open>An encoded sector is decoded by the chain that the entry's flags select, and it is not lossy.\<close>

definition lossless_request :: "u32 \<Rightarrow> bool" where
  "lossless_request requested \<longleftrightarrow> requested AND (LIBMPQ_COMPRESSION_HUFFMAN OR LIBMPQ_COMPRESSION_WAVE_MONO OR
     LIBMPQ_COMPRESSION_WAVE_STEREO OR LIBMPQ_COMPRESSION_LZMA) = 0"

lemma decode_block_encoded:
  assumes "zlib_contract libs" "bzip2_contract libs" "\<And>n. alloc n" "length input < 2 ^ 31" "lossless_request requested"
    and "libmpq__compression_encode_sector libs alloc fuel input requested (ucast (version (mpq_header ar))) policy = Some (Inr (y, m))"
    and "fl AND (LIBMPQ_FLAG_COMPRESSED OR LIBMPQ_FLAG_COMPRESS_PKZIP) = LIBMPQ_FLAG_COMPRESS_MULTI" "length room = length input"
  shows "decode_block libs alloc fuel ar fl y room = Some (int (length input), input)"
    "\<not> block_lossy fl (length input) y"
proof -
  note req = assms(5) [unfolded lossless_request_def]
  note dec = encode_sector_decodes [OF assms(1-4) req assms(6,8), of fuel]
  show "decode_block libs alloc fuel ar fl y room = Some (int (length input), input)"
    using dec multi_flags(1,2) [OF assms(7)] by (simp add: decode_block_def)
  have nl: "requested \<noteq> LIBMPQ_COMPRESSION_LZMA" using req by (auto simp: compression_bits)
  note m = encode_sector_mask [OF assms(6) nl]
  have "(ucast m :: u32) = ucast m AND requested"
    using m by (auto simp: bit_eq_iff bit_simps)
  then have "ucast m AND (LIBMPQ_COMPRESSION_WAVE_MONO OR LIBMPQ_COMPRESSION_WAVE_STEREO) =
      ucast m AND (requested AND (LIBMPQ_COMPRESSION_WAVE_MONO OR LIBMPQ_COMPRESSION_WAVE_STEREO))"
    by (metis and.assoc)
  also have "requested AND (LIBMPQ_COMPRESSION_WAVE_MONO OR LIBMPQ_COMPRESSION_WAVE_STEREO) = 0"
    using req by (simp add: and_or_zero)
  finally have wave: "(ucast m :: u32) AND (LIBMPQ_COMPRESSION_WAVE_MONO OR LIBMPQ_COMPRESSION_WAVE_STEREO) = 0" by simp
  show "\<not> block_lossy fl (length input) y"
    using dec wave by (cases "m = 0"; cases y) (auto simp: block_lossy_def)
qed


lemma mark_encrypted_id:
  assumes "encrypted_entry (mpq_block ar ! i)" "\<And>k. bit (flags (mpq_block ar ! i)) k \<or> \<not> bit LIBMPQ_FLAG_ENCRYPTED k"
  shows "mark_encrypted ar i = ar"
proof -
  have "flags (mpq_block ar ! i) OR LIBMPQ_FLAG_ENCRYPTED = flags (mpq_block ar ! i)"
    using assms(2) by (auto simp: bit_eq_iff bit_simps)
  then show ?thesis by (simp add: mark_encrypted_def)
qed

lemma encrypted_flag_bits: "encrypted_entry b \<Longrightarrow> bit (flags b) k \<or> \<not> bit LIBMPQ_FLAG_ENCRYPTED k"
proof -
  have e: "LIBMPQ_FLAG_ENCRYPTED = 2 ^ 16" by (simp add: LIBMPQ_FLAG_ENCRYPTED_def)
  assume "encrypted_entry b"
  then have "flags b AND 2 ^ 16 \<noteq> 0" by (simp add: encrypted_entry_def e)
  then have "bit (flags b) 16" by (auto simp: bit_iff_and_push_bit_not_eq_0 push_bit_eq_mult)
  moreover have "bit (2 ^ 16 :: u32) k \<Longrightarrow> k = 16" by (simp only: bit_exp_iff)
  ultimately show ?thesis unfolding e by blast
qed

lemma member_storedD:
  assumes "member_stored env img ar number sd requested policy packed plain"
  defines "b \<equiv> block_entry ar number" and "bs \<equiv> unat (ar_block_size ar)" and "t \<equiv> 4 * (length packed + 1)"
  shows "unat (libmpq__reader_count_file_blocks ar number) = length packed"
    "flags b AND (LIBMPQ_FLAG_COMPRESSED OR LIBMPQ_FLAG_COMPRESS_PKZIP) = LIBMPQ_FLAG_COMPRESS_MULTI"
    "\<not> single_unit b" "flags b AND LIBMPQ_FLAG_CRC = 0" "length plain = unat (unpacked_size b)"
    "length plain + bs \<le> 2 ^ 32" "bs < 2 ^ 31" "offsets_of t packed (length packed) \<le> unat (packed_size b)"
    "\<And>i. i < length packed \<Longrightarrow> \<exists>m. libmpq__compression_encode_sector (re_libs env) (re_alloc env) (re_fuel env)
       (sector_of bs plain i) requested (ucast (version (mpq_header ar))) policy = Some (Inr (packed ! i, m))"
    "stored img (payload_at ar number) (cipher (encrypted_entry b) (sd - 1) (concat (map le32_bytes (offset_words t packed))))"
    "\<And>i. i < length packed \<Longrightarrow>
       stored img (payload_at ar number + offsets_of t packed i) (cipher (encrypted_entry b) (sd + of_nat i) (packed ! i))"
proof -
  note m = assms(1) [unfolded member_stored_def Let_def]
  show cnt: "unat (libmpq__reader_count_file_blocks ar number) = length packed" using m by simp
  note m' = m [unfolded cnt, folded b_def bs_def t_def]
  show "flags b AND (LIBMPQ_FLAG_COMPRESSED OR LIBMPQ_FLAG_COMPRESS_PKZIP) = LIBMPQ_FLAG_COMPRESS_MULTI"
    "\<not> single_unit b" "flags b AND LIBMPQ_FLAG_CRC = 0" "length plain = unat (unpacked_size b)"
    "length plain + bs \<le> 2 ^ 32" "bs < 2 ^ 31" "offsets_of t packed (length packed) \<le> unat (packed_size b)"
    "\<And>i. i < length packed \<Longrightarrow> \<exists>m. libmpq__compression_encode_sector (re_libs env) (re_alloc env) (re_fuel env)
       (sector_of bs plain i) requested (ucast (version (mpq_header ar))) policy = Some (Inr (packed ! i, m))"
    "stored img (payload_at ar number) (cipher (encrypted_entry b) (sd - 1) (concat (map le32_bytes (offset_words t packed))))"
    "\<And>i. i < length packed \<Longrightarrow>
       stored img (payload_at ar number + offsets_of t packed i) (cipher (encrypted_entry b) (sd + of_nat i) (packed ! i))"
    using m' by blast+
qed

text \<open>A sector has at least 512 bytes, so the sectors of a file can always be counted.\<close>

lemma sectors_countable:
  assumes "archive_ok ar"
  shows "offsets_countable ar number"
proof (cases "single_unit (block_entry ar number)")
  case True
  then show ?thesis by (simp add: offsets_countable_def libmpq__reader_count_file_blocks_def single_unit_def UINT32_MAX_def)
next
  case False
  let ?n = "unat (libmpq__reader_count_file_blocks ar number)"
  have "(?n - 1) * 512 < 2 ^ 32"
  proof (cases "?n = 0")
    case n: False
    then have "(?n - 1) * unat (ar_block_size ar) < unat (unpacked_size (block_entry ar number))"
      using count_blocks_le [OF assms False, of "?n - 1"] by simp
    moreover have "(?n - 1) * 512 \<le> (?n - 1) * unat (ar_block_size ar)"
      using archive_ok_block_size(2) [OF assms] by (rule mult_le_mono2)
    ultimately show ?thesis using u32_bound [of "unpacked_size (block_entry ar number)"] by linarith
  qed simp
  then show ?thesis by (simp add: offsets_countable_def UINT32_MAX_def)
qed

text \<open>The offset table of a stored file, as numbers.\<close>

lemma member_offsets:
  assumes "archive_ok ar" "member_stored env img ar number sd requested policy packed plain"
  shows "offsets_countable ar number" "unat (offsets_size ar number) = 4 * (length packed + 1)"
    "\<And>i. i \<le> length packed \<Longrightarrow>
       unat (offset_words (4 * (length packed + 1)) packed ! i) = offsets_of (4 * (length packed + 1)) packed i"
    "\<And>i. i \<le> length packed \<Longrightarrow> offset_words (4 * (length packed + 1)) packed ! i \<le> packed_size (block_entry ar number)"
proof -
  note m = member_storedD [OF assms(2)]
  let ?n = "length packed" and ?b = "block_entry ar number"
  have end_: "offsets_of (4 * (?n + 1)) packed ?n < 2 ^ 32" using m(8) u32_bound by (rule le_less_trans)
  show c: "offsets_countable ar number" by (rule sectors_countable [OF assms(1)])
  show "unat (offsets_size ar number) = 4 * (?n + 1)" using offsets_size_unat(1) [OF c] m(1,4) by simp
  show words: "unat (offset_words (4 * (?n + 1)) packed ! i) = offsets_of (4 * (?n + 1)) packed i" if "i \<le> ?n" for i
    using that end_ by (rule offset_words_nth)
  show "offset_words (4 * (?n + 1)) packed ! i \<le> packed_size ?b" if "i \<le> ?n" for i
    using words [OF that] offsets_of_mono [OF that, of "4 * (?n + 1)" packed] m(8) by (simp add: word_le_nat_alt)
qed

lemma offset_words_valid:
  assumes "archive_ok ar" "member_stored env img ar number sd requested policy packed plain"
  shows "offsets_valid (offset_words (4 * (length packed + 1)) packed) (length packed + 1) (packed_size (block_entry ar number))"
  unfolding offsets_valid_def list_all_iff
proof
  fix i assume "i \<in> List.set [1..<length packed + 1]"
  then have i: "1 \<le> i" "i \<le> length packed" by auto
  then show "\<not> (offset_words (4 * (length packed + 1)) packed ! i < offset_words (4 * (length packed + 1)) packed ! (i - 1) \<or>
      packed_size (block_entry ar number) < offset_words (4 * (length packed + 1)) packed ! i)"
    using member_offsets(3) [OF assms, of i] member_offsets(3) [OF assms, of "i - 1"] member_offsets(4) [OF assms, of i]
      offsets_of_mono [of "i - 1" i "4 * (length packed + 1)" packed]
    by (auto simp: word_less_nat_alt word_le_nat_alt)
qed

lemma table_first_word: "ws \<noteq> [] \<Longrightarrow> libmpq__load_le32 (Some (concat (map le32_bytes ws))) = ws ! 0"
  by (cases ws) (simp_all add: le32.load_bytes)

lemma decode_stored_offsets:
  assumes "unat tsize = 4 * length ws" "ws ! 0 = tsize" "offsets_valid ws (unat count) (packed_size b)"
    and "packed_offset_count f = count"
  shows "decode_offsets b tsize (f, concat (map le32_bytes ws)) = Inr (f\<lparr>packed_offset := ws\<rparr>)"
  using assms decode_le32_table [of ws] by (simp add: decode_offsets_def Let_def)

lemma decrypt_stored_offsets:
  assumes "unat tsize = 4 * length ws" "ws \<noteq> []" "ws ! 0 = tsize" "seed_known f"
  shows "decrypt_offsets tsize sector f (cipher True (seed f - 1) (concat (map le32_bytes ws))) =
    Inr (f, concat (map le32_bytes ws))"
  using assms table_first_word [of ws]
  by (simp add: decrypt_offsets_def Let_def cipher_def crypt_block_roundtrip)

text \<open>A cache entry that holds the offsets and the key of a stored file.\<close>

definition ready :: "mpq_archive_s \<Rightarrow> u32 \<Rightarrow> u32 \<Rightarrow> u8 list list \<Rightarrow> bool" where
  "ready ar number sd packed \<longleftrightarrow> (\<exists>f. mpq_file ar ! unat number = Some f \<and>
     packed_offset f = offset_words (4 * (length packed + 1)) packed \<and>
     (encrypted_entry (block_entry ar number) \<longrightarrow> seed_known f \<and> seed f = sd))"

lemma set_file_simps [simp]:
  "block_entry (set_file ar n g) = block_entry ar" "libmpq__reader_count_file_blocks (set_file ar n g) = libmpq__reader_count_file_blocks ar"
  "payload_at (set_file ar n g) = payload_at ar" "ar_block_size (set_file ar n g) = ar_block_size ar"
  "ar_files (set_file ar n g) = ar_files ar" "ar_source (set_file ar n g) = ar_source ar"
  "mpq_header (set_file ar n g) = mpq_header ar" "block_index (set_file ar n g) = block_index ar"
  by (simp_all add: fun_eq_iff set_file_def block_entry_def block_index_def libmpq__reader_count_file_blocks_def
      payload_at_def payload_offset_def)

lemma set_file_again [simp]: "set_file (set_file ar n g) n g' = set_file ar n g'"
  by (simp add: set_file_def)

lemma set_file_back: "mpq_file ar ! unat n = g \<Longrightarrow> set_file ar n g = ar"
  by (auto simp: set_file_def)

lemma archive_ok_room: "archive_ok ar \<Longrightarrow> number < ar_files ar \<Longrightarrow> unat number < length (mpq_file ar)"
  using archive_ok_files [of ar] live_upto_length [of "mpq_block ar" "length (mpq_block ar)"]
  by (simp add: word_less_nat_alt archive_ok_def archive_tables_ok_def live_blocks_def)

lemma set_file_nth [simp]: "unat n < length (mpq_file ar) \<Longrightarrow> mpq_file (set_file ar n g) ! unat n = g"
  by (simp add: set_file_def)

lemma length_set_file [simp]: "length (mpq_file (set_file ar n g)) = length (mpq_file ar)"
  by (simp add: set_file_def)

lemma cached_acquire:
  assumes "number < ar_files ar" "mpq_file ar ! unat number = Some f"
  shows "acquire_with alloc ar number None = (0, set_file ar number (Some (f\<lparr>open_count := open_count f + 1\<rparr>)))"
  using assms by (auto simp: acquire_with_def not_le)

lemma cached_release:
  assumes "number < ar_files ar" "mpq_file ar ! unat number = Some f" "open_count f \<noteq> 1"
  shows "libmpq__reader_offsets_release ar number = (0, set_file ar number (Some (f\<lparr>open_count := open_count f - 1\<rparr>)))"
  using assms by (auto simp: libmpq__reader_offsets_release_def Let_def not_le)

text \<open>Asking for the checksums of a held file changes nothing; without the checksum flag they are absent.\<close>

lemma checksums_held:
  assumes "number < ar_files ar" "unat number < length (mpq_file ar)" "mpq_file ar ! unat number = Some f" "open_count f \<noteq> 0"
    and "sector_checksums libs alloc fuel (set_file ar number (Some (f\<lparr>open_count := open_count f + 1\<rparr>))) number = Some r"
  shows "libmpq__reader_sector_checksums libs alloc fuel ar number = Some (r, ar)"
proof -
  let ?g = "f\<lparr>open_count := open_count f + 1\<rparr>"
  have "libmpq__reader_offsets_release (set_file ar number (Some ?g)) number = (0, ar)"
    using cached_release [of number "set_file ar number (Some ?g)" ?g] assms(1-4) by (simp add: set_file_back)
  then show ?thesis
    using cached_acquire [OF assms(1,3), of alloc] assms(5) by (simp add: libmpq__reader_sector_checksums_def)
qed

lemma checksums_absent:
  assumes "number < ar_files ar" "unat number < length (mpq_file ar)" "mpq_file ar ! unat number = Some f" "open_count f \<noteq> 0"
    and "flags (block_entry ar number) AND LIBMPQ_FLAG_CRC = 0"
  shows "libmpq__reader_sector_checksums libs alloc fuel ar number = Some (Inr None, ar)"
proof (rule checksums_held [OF assms(1-4)])
  let ?g = "f\<lparr>open_count := open_count f + 1\<rparr>"
  have "mpq_block (set_file ar number (Some ?g)) = mpq_block ar" by (simp add: set_file_def)
  then show "sector_checksums libs alloc fuel (set_file ar number (Some ?g)) number = Some (Inr None)"
    using assms(5) by (simp add: sector_checksums_def Let_def block_entry_def)
qed

lemma probe_loop_set_file [simp]: "probe_loop (set_file ar n g) = probe_loop ar"
proof (intro ext)
  fix hash2 hash3 i left
  show "probe_loop (set_file ar n g) hash2 hash3 i left = probe_loop ar hash2 hash3 i left"
    by (induction left arbitrary: i) (simp_all add: Let_def slot_number_def set_file_def)
qed

lemma internal_number_set_file [simp]: "internal_number (set_file ar n g) = internal_number ar"
proof -
  have "libmpq__file_number_from_hash (set_file ar n g) = libmpq__file_number_from_hash ar"
    by (simp add: fun_eq_iff libmpq__file_number_from_hash_def Let_def)
  then show ?thesis unfolding internal_number_def libmpq__file_number_def by (simp only:)
qed

lemma member_stored_set_file [simp]:
  "member_stored env img (set_file ar n g) number sd requested policy packed plain =
     member_stored env img ar number sd requested policy packed plain"
  by (simp add: member_stored_def)

text \<open>A held file, whatever its layout: the cached offsets delimit its packed parts in the image, encrypted
  where the entry says so, and each decodes to a plain part of the length that the interface reports.
  Parts that the code reads into the caller's buffer are stored as they are.\<close>

definition held_parts ::
  "reader_env \<Rightarrow> u8 list \<Rightarrow> mpq_archive_s \<Rightarrow> u32 \<Rightarrow> mpq_file_s \<Rightarrow> u8 list list \<Rightarrow> u8 list list \<Rightarrow> bool" where
  "held_parts env img ar number f packed parts \<longleftrightarrow>
     (let b = block_entry ar number
      in unat (libmpq__reader_count_file_blocks ar number) = length packed \<and> length parts = length packed \<and>
         (\<forall>i<length packed.
            sector_stored img ar number f (of_nat i) (packed ! i) \<and> packed_offset f ! Suc i \<le> packed_size b \<and>
            sector_length ar number (of_nat i) = length (parts ! i) \<and>
            (flags b AND (LIBMPQ_FLAG_COMPRESS_MULTI OR LIBMPQ_FLAG_COMPRESS_PKZIP) \<noteq> 0 \<or> parts ! i = packed ! i) \<and>
            \<not> block_lossy (flags b) (length (parts ! i)) (packed ! i) \<and>
            (\<forall>room. length room = length (parts ! i) \<longrightarrow>
               decode_block (re_libs env) (re_alloc env) (re_fuel env) ar (flags b) (packed ! i) room =
                 Some (int (length (parts ! i)), parts ! i))))"

lemma sector_length_set_file [simp]: "sector_length (set_file ar n g) = sector_length ar"
  by (simp add: fun_eq_iff sector_length_def libmpq__block_size_unpacked_def)

lemma decode_block_set_file [simp]: "decode_block libs alloc fuel (set_file ar n g) = decode_block libs alloc fuel ar"
  by (simp add: fun_eq_iff decode_block_def)

lemma held_parts_set_file [simp]:
  "held_parts env img (set_file ar n g) number f packed parts = held_parts env img ar number f packed parts"
  by (simp add: held_parts_def sector_stored_def)

lemma held_parts_open_count [simp]:
  "held_parts env img ar number (f\<lparr>open_count := c\<rparr>) packed parts = held_parts env img ar number f packed parts"
  by (simp add: held_parts_def sector_stored_def)

lemma concat_sectors: "concat (map (sector_of bs plain) [0..<n]) = take (n * bs) plain"
proof (induction n)
  case (Suc n)
  then show ?case using take_add [of "n * bs" bs plain] by (simp add: sector_of_def add.commute)
qed simp

context archive_source
begin

lemma acquire_table:
  assumes "cache_ok ar" "ar_source ar = s" "number < ar_files ar" "mpq_file ar ! unat number = None" "\<And>n. re_alloc env n"
    and "packed_codec (block_entry ar number)" "\<not> single_unit (block_entry ar number)" "offsets_countable ar number"
    and "unat (offsets_size ar number) = 4 * length ws" "ws \<noteq> []" "ws ! 0 = offsets_size ar number"
    and "offsets_valid ws (unat (libmpq__reader_count_file_blocks ar number) + 1) (packed_size (block_entry ar number))"
    and "offsets_size ar number \<le> packed_size (block_entry ar number)"
    and "stored img (payload_at ar number) (cipher (encrypted_entry (block_entry ar number)) (sd - 1) (concat (map le32_bytes ws)))"
    and "key_given ar number sd h"
  shows "\<exists>f. acquire_with (re_alloc env) ar number h = (0, set_file ar number (Some f)) \<and> file_ok ar number f \<and>
    packed_offset f = ws \<and> open_count f = 1 \<and>
    (encrypted_entry (block_entry ar number) \<longrightarrow> seed_known f \<and> seed f = sd)"
proof -
  let ?b = "block_entry ar number" and ?i = "block_index ar number" and ?ts = "offsets_size ar number"
  let ?on = "encrypted_entry ?b" and ?tab = "concat (map le32_bytes ws)" and ?f0 = "new_file ar number h"
  have ok: "archive_ok ar" using assms(1) by (simp add: cache_ok_def)
  have raw: "read_bytes (ar_source ar) (payload_base ar ?i) (unat ?ts) = Inr (cipher ?on (sd - 1) ?tab)"
    using read_stored_mod [OF assms(14)] assms(2,9) by (simp add: payload_base_def payload_at_def)
  have range: "\<not> libmpq__reader_validate_payload_range ar ?i 0 (unat ?ts) < 0"
    using payload_range_stored [OF ok assms(2), of number 0 "cipher ?on (sd - 1) ?tab"] assms(9,14) by simp
  have fits: "\<not> packed_size (mpq_block ar ! ?i) < ?ts" using assms(13) by (simp add: block_entry_def)
  have cnt: "packed_offset_count ?f0 = libmpq__reader_count_file_blocks ar number + 1"
    "unat (packed_offset_count ?f0) = unat (libmpq__reader_count_file_blocks ar number) + 1"
    using offsets_size_unat(2) [OF assms(8)] by (simp_all add: new_file_def)
  have dec: "decode_offsets (mpq_block ar ! ?i) ?ts (?f0, ?tab) = Inr (?f0\<lparr>packed_offset := ws\<rparr>)"
    using decode_stored_offsets [OF assms(9,11), of "packed_offset_count ?f0" ?b ?f0] assms(12) cnt(2) by (simp add: block_entry_def)
  have key: "seed_known ?f0 \<and> seed ?f0 = sd" if "?on"
    using assms(15) that by (auto simp: key_given_def new_file_def)
  have load: "load_offsets (re_alloc env) ar number ?ts ?f0 = (Inr (?f0\<lparr>packed_offset := ws\<rparr>), ar)"
  proof (cases ?on)
    case True
    then have on: "encrypted_entry (mpq_block ar ! ?i)" by (simp add: block_entry_def)
    have mark: "mark_encrypted ar ?i = ar" by (rule mark_encrypted_id [OF on encrypted_flag_bits [OF on]])
    have "decrypt_offsets ?ts (ar_block_size ar) ?f0 (cipher True (sd - 1) ?tab) = Inr (?f0, ?tab)"
      using decrypt_stored_offsets [OF assms(9-11), of ?f0 "ar_block_size ar"] key [OF True] by simp
    then show ?thesis
      using raw range fits assms(5) dec on mark True by (simp add: load_offsets_def Let_def)
  next
    case False
    then have on: "\<not> encrypted_entry (mpq_block ar ! ?i)" by (simp add: block_entry_def)
    have "cipher ?on (sd - 1) ?tab = ?tab" using False by (simp add: cipher_def)
    then show ?thesis
      using raw range fits assms(5,11) dec on table_first_word [OF assms(10)] by (simp add: load_offsets_def Let_def)
  qed
  have "recover_raw_key ar number f = Inr f" for f
    using codec_not_raw [OF assms(6)] by (simp add: recover_raw_key_def Let_def)
  then have fill: "fill_offsets (re_alloc env) ar number ?f0 = (Inr (?f0\<lparr>packed_offset := ws\<rparr>), ar)"
    using load assms(6,7) by (simp add: fill_offsets_def Let_def)
  have "file_ok ar number (?f0\<lparr>packed_offset := ws\<rparr>)"
    using load_offsets_ok [OF ok assms(3,8,6,7) cnt(1) load] by blast
  then show ?thesis
    using fill assms(3-5,8) key by (intro exI [of _ "?f0\<lparr>packed_offset := ws\<rparr>"])
      (auto simp: acquire_with_def offsets_allocs_def not_le new_file_def)
qed

lemma acquire_unit:
  assumes "cache_ok ar" "number < ar_files ar" "mpq_file ar ! unat number = None" "\<And>n. re_alloc env n"
    and "\<not> (packed_codec (block_entry ar number) \<and> \<not> single_unit (block_entry ar number))" "offsets_countable ar number"
    and "key_given ar number sd h"
  shows "\<exists>f. acquire_with (re_alloc env) ar number h = (0, set_file ar number (Some f)) \<and> file_ok ar number f \<and> open_count f = 1 \<and>
    (encrypted_entry (block_entry ar number) \<longrightarrow> seed_known f \<and> seed f = sd)"
proof -
  let ?b = "block_entry ar number" and ?f0 = "new_file ar number h"
  let ?g = "?f0\<lparr>packed_offset := synthesize_offsets ar number (packed_offset ?f0)\<rparr>"
  have ok: "archive_ok ar" using assms(1) by (simp add: cache_ok_def)
  have key: "seed_known ?f0 \<and> seed ?f0 = sd" if "encrypted_entry ?b"
    using assms(7) that by (auto simp: key_given_def new_file_def)
  have "recover_raw_key ar number ?g = Inr ?g"
  proof (cases "encrypted_entry ?b")
    case False
    then have "flags ?b AND (LIBMPQ_FLAG_ENCRYPTED OR LIBMPQ_FLAG_COMPRESSED) \<noteq> LIBMPQ_FLAG_ENCRYPTED" by (rule plain_not_raw)
    then show ?thesis by (simp add: recover_raw_key_def Let_def)
  qed (use key in \<open>simp add: recover_raw_key_def Let_def\<close>)
  then have "fill_offsets (re_alloc env) ar number ?f0 = (Inr ?g, ar)"
    using assms(5) by (auto simp: fill_offsets_def Let_def)
  moreover have "file_ok ar number ?g"
    using synthesize_ok [OF ok assms(6,5), of ?f0] by (simp add: new_file_def)
  ultimately show ?thesis
    using assms(2-4,6) key by (intro exI [of _ ?g]) (auto simp: acquire_with_def offsets_allocs_def not_le new_file_def)
qed

lemma acquire_stored:
  assumes "cache_ok ar" "ar_source ar = s" "number < ar_files ar" "mpq_file ar ! unat number = None" "\<And>n. re_alloc env n"
    and "member_stored env img ar number sd requested policy packed plain" "key_given ar number sd h"
  shows "\<exists>f. acquire_with (re_alloc env) ar number h = (0, set_file ar number (Some f)) \<and> file_ok ar number f \<and>
    packed_offset f = offset_words (4 * (length packed + 1)) packed \<and> open_count f = 1 \<and>
    (encrypted_entry (block_entry ar number) \<longrightarrow> seed_known f \<and> seed f = sd)"
proof -
  let ?ws = "offset_words (4 * (length packed + 1)) packed"
  have ok: "archive_ok ar" using assms(1) by (simp add: cache_ok_def)
  note m = member_storedD [OF assms(6)] and t = member_offsets [OF ok assms(6)]
  have first: "?ws ! 0 = offsets_size ar number" using t(2) t(3) [of 0] by (simp add: word_unat_eq_iff offsets_of_def)
  have "packed_codec (block_entry ar number)" using m(2) by (simp add: packed_codec_def LIBMPQ_FLAG_COMPRESS_MULTI_def)
  moreover have "unat (offsets_size ar number) = 4 * length ?ws" "?ws \<noteq> []" using t(2) by (auto simp: offset_words_def)
  moreover have "offsets_valid ?ws (unat (libmpq__reader_count_file_blocks ar number) + 1) (packed_size (block_entry ar number))"
    using offset_words_valid [OF ok assms(6)] m(1) by simp
  moreover have "offsets_size ar number \<le> packed_size (block_entry ar number)" using t(4) [of 0] first by simp
  ultimately show ?thesis using acquire_table [OF assms(1-5) _ m(3) t(1) _ _ first _ _ m(10) assms(7)] by blast
qed

lemma read_sector_held:
  assumes "cache_ok ar" "ar_source ar = s" "number < ar_files ar" "mpq_file ar ! unat number = Some f"
    and "held_parts env img ar number f packed parts" "\<And>n. re_alloc env n" "i < length packed" "length (parts ! i) \<le> length out"
  shows "read_sector env ar number (of_nat i) out checksum =
    Some \<lparr>bo_status = 0, bo_buffer = write_at out 0 (parts ! i), bo_transferred = Some (int (length (parts ! i))),
      bo_mismatch = checksum_mismatch (re_adler env) checksum (packed ! i), bo_lossy = False\<rparr>"
proof -
  let ?blk = "of_nat i :: u32"
  note h = assms(5) [unfolded held_parts_def Let_def]
  have ui: "unat ?blk = i" using assms(7) h u32_bound [of "libmpq__reader_count_file_blocks ar number"]
    by (intro u32_of_nat) linarith
  have lt: "?blk < libmpq__reader_count_file_blocks ar number" using assms(7) h ui by (simp add: word_less_nat_alt)
  have fok: "file_ok ar number f" using assms(1,3,4) by (simp add: cache_ok_def)
  have u1: "unat (?blk + 1) = Suc i" using file_ok_counts(1) [OF fok lt] ui by simp
  have sec: "sector_length ar number ?blk = length (parts ! i)" using h assms(7) by simp
  show ?thesis
    using read_sector_stored [OF assms(1-3) lt assms(4), of "packed ! i" env out "parts ! i" "length (parts ! i)" checksum]
      h assms(6-8) u1 unfolding sec by simp
qed

lemma read_blocks_held:
  assumes "cache_ok ar" "ar_source ar = s" "number < ar_files ar" "mpq_file ar ! unat number = Some f"
    and "held_parts env img ar number f packed parts" "\<And>n. re_alloc env n"
    and "\<And>i. i < length packed \<Longrightarrow> \<not> checksum_mismatch (re_adler env) (map_option (\<lambda>c. c ! i) sums) (packed ! i)"
    and "length (concat parts) \<le> length out" "i \<le> length packed"
  shows "read_blocks env ar number sums [i..<length packed]
      (write_at out 0 (concat (take i parts)), length (concat (take i parts)), False, False) =
    Some (Inr (write_at out 0 (concat parts), length (concat parts), False, False))"
  using assms(9)
proof (induction "length packed - i" arbitrary: i)
  case 0
  then show ?case using assms(5) by (simp add: held_parts_def Let_def)
next
  case (Suc d)
  then have i: "i < length packed" by simp
  note h = assms(5) [unfolded held_parts_def Let_def]
  have len: "length parts = length packed" using h by blast
  let ?got = "concat (take i parts)" and ?part = "parts ! i"
  let ?out = "write_at out 0 ?got"
  have app: "?got @ ?part = concat (take (Suc i) parts)" using i len by (simp add: take_Suc_conv_app_nth)
  have "concat parts = concat (take (Suc i) parts) @ concat (drop (Suc i) parts)"
    by (metis append_take_drop_id concat_append)
  then have "concat parts = ?got @ ?part @ concat (drop (Suc i) parts)" using app by simp
  then have lens: "length ?got + length ?part \<le> length out" using assms(8) by simp
  have lo: "length ?out = length out" using lens by (simp add: write_at_def)
  have sl: "sector_length ar number (of_nat i) = length ?part" using h i by simp
  let ?room = "take (length ?part) (drop (length ?got) ?out)"
  have room: "length ?room = length ?part" using lens lo by simp
  have "write_at ?room 0 ?part = ?part" using room by (intro write_at_full) simp
  then have rd: "read_sector env ar number (of_nat i) ?room (map_option (\<lambda>c. c ! i) sums) =
      Some \<lparr>bo_status = 0, bo_buffer = ?part, bo_transferred = Some (int (length ?part)), bo_mismatch = False, bo_lossy = False\<rparr>"
    using read_sector_held [OF assms(1-6) i, of ?room] room assms(7) [OF i] by simp
  have "write_at ?out (length ?got) ?part = write_at out 0 (concat (take (Suc i) parts))"
    using write_at_append [of 0 ?got ?part out] lens app by simp
  moreover have "length ?got + length ?part = length (concat (take (Suc i) parts))" using app by (metis length_append)
  moreover have "[i..<length packed] = i # [Suc i..<length packed]" using i by (rule upt_conv_Cons)
  ultimately show ?case
    using Suc.hyps(1) [of "Suc i"] Suc.hyps(2) i rd sl by (simp add: transferred_bytes_def del: length_concat)
qed

lemma read_member_held:
  assumes "cache_ok ar" "ar_source ar = s" "number < ar_files ar" "mpq_file ar ! unat number = Some f"
    and "held_parts env img ar number f packed parts" "\<And>n. re_alloc env n"
    and "unat (open_count f) + 2 < 2 ^ 32" "open_count f \<noteq> 0" "length (concat parts) = unat (unpacked_size (block_entry ar number))"
    and "let held = set_file ar number (Some (f\<lparr>open_count := open_count f + 1\<rparr>))
      in libmpq__reader_sector_checksums (re_libs env) (re_alloc env) (re_fuel env) held number = Some (checks, held)"
    and "\<And>cs i. checks = Inr (Some cs) \<Longrightarrow> i < length packed \<Longrightarrow> \<not> checksum_mismatch (re_adler env) (Some (cs ! i)) (packed ! i)"
    and "length (concat parts) \<le> length out"
  shows "read_member env ar number out = Some (Inr (write_at out 0 (concat parts), length (concat parts), False), ar)"
proof -
  have ok: "archive_ok ar" using assms(1) by (simp add: cache_ok_def)
  note room [simp] = archive_ok_room [OF ok assms(3)]
  let ?held = "set_file ar number (Some (f\<lparr>open_count := open_count f + 1\<rparr>))"
  let ?sums = "case checks of Inl _ \<Rightarrow> None | Inr c \<Rightarrow> c"
  have acq: "acquire_with (re_alloc env) ar number None = (0, ?held)" by (rule cached_acquire [OF assms(3,4)])
  have held: "cache_ok ?held" by (rule acquire_cache_ok [OF assms(1) acq])
  have "\<not> checksum_mismatch (re_adler env) (map_option (\<lambda>c. c ! i) ?sums) (packed ! i)" if "i < length packed" for i
    using assms(11) [OF _ that] by (cases checks) (auto simp: checksum_mismatch_def split: option.split)
  then have loop: "read_blocks env ?held number ?sums [0..<length packed] (out, 0, False, False) =
      Some (Inr (write_at out 0 (concat parts), length (concat parts), False, False))"
    using read_blocks_held [OF held _ _ _ _ assms(6), of number "f\<lparr>open_count := open_count f + 1\<rparr>" packed parts ?sums out 0]
      assms(2-5,12) by (simp del: length_concat)
  have checks: "libmpq__reader_sector_checksums (re_libs env) (re_alloc env) (re_fuel env) ?held number = Some (checks, ?held)"
    using assms(10) by (simp add: Let_def)
  have rel: "libmpq__reader_offsets_release ?held number = (0, ar)"
    using cached_release [of number ?held "f\<lparr>open_count := open_count f + 1\<rparr>"] assms(3,4,8)
    by (simp add: set_file_back)
  have n: "unat (libmpq__reader_count_file_blocks ar number) = length packed" using assms(5) by (simp add: held_parts_def Let_def)
  show ?thesis
    using acq loop checks rel assms(3,9,12) n by (simp add: read_member_def Let_def not_le del: length_concat)
qed

lemma ready_held:
  assumes "cache_ok ar" "ar_source ar = s" "number < ar_files ar" "ready ar number sd packed"
    and "member_stored env img ar number sd requested policy packed plain" "\<And>n. re_alloc env n"
    and "zlib_contract (re_libs env)" "bzip2_contract (re_libs env)" "lossless_request requested"
  defines "parts \<equiv> map (sector_of (unat (ar_block_size ar)) plain) [0..<length packed]"
  shows "concat parts = plain"
    "mpq_file ar ! unat number = Some f \<Longrightarrow> held_parts env img ar number f packed parts"
proof -
  let ?b = "block_entry ar number" and ?bs = "unat (ar_block_size ar)"
  have ok: "archive_ok ar" using assms(1) by (simp add: cache_ok_def)
  note m = member_storedD [OF assms(5)] and t = member_offsets [OF ok assms(5)]
  show "concat parts = plain"
    using blocks_cover [OF ok m(3)] m(1,5,6) by (simp add: parts_def concat_sectors)
  assume entry: "mpq_file ar ! unat number = Some f"
  then have f: "packed_offset f = offset_words (4 * (length packed + 1)) packed" "encrypted_entry ?b \<Longrightarrow> seed_known f \<and> seed f = sd"
    using assms(4) by (auto simp: ready_def)
  have fok: "file_ok ar number f" using assms(1,3) entry by (simp add: cache_ok_def)
  have multi: "flags ?b AND (LIBMPQ_FLAG_COMPRESS_MULTI OR LIBMPQ_FLAG_COMPRESS_PKZIP) \<noteq> 0"
    using multi_flags(1) [OF m(2)] by (simp add: and_or_zero)
  have "sector_stored img ar number f (of_nat i) (packed ! i) \<and> packed_offset f ! Suc i \<le> packed_size ?b \<and>
      sector_length ar number (of_nat i) = length (sector_of ?bs plain i) \<and>
      \<not> block_lossy (flags ?b) (length (sector_of ?bs plain i)) (packed ! i) \<and>
      (\<forall>room. length room = length (sector_of ?bs plain i) \<longrightarrow>
         decode_block (re_libs env) (re_alloc env) (re_fuel env) ar (flags ?b) (packed ! i) room =
           Some (int (length (sector_of ?bs plain i)), sector_of ?bs plain i))" if i: "i < length packed" for i
  proof -
    let ?sec = "sector_of ?bs plain i" and ?blk = "of_nat i :: u32"
    have ui: "unat ?blk = i" using i m(1) u32_bound [of "libmpq__reader_count_file_blocks ar number"]
      by (intro u32_of_nat) linarith
    have lt: "?blk < libmpq__reader_count_file_blocks ar number" using i m(1) ui by (simp add: word_less_nat_alt)
    have u1: "unat (?blk + 1) = Suc i" using file_ok_counts(1) [OF fok lt] ui by simp
    obtain mm where enc: "libmpq__compression_encode_sector (re_libs env) (re_alloc env) (re_fuel env) ?sec requested
        (ucast (version (mpq_header ar))) policy = Some (Inr (packed ! i, mm))"
      using m(9) [OF i] by blast
    have "length ?sec < 2 ^ 31" using m(7) by (simp add: sector_of_def)
    note dec = decode_block_encoded [OF assms(7,8,6) this assms(9) enc m(2)]
    have "sector_stored img ar number f ?blk (packed ! i)"
      using f t(3) [of i] t(3) [of "Suc i"] i m(11) [OF i] u1 ui offsets_of_Suc [OF i, of "4 * (length packed + 1)"]
      by (auto simp: sector_stored_def cipher_def)
    moreover have "packed_offset f ! Suc i \<le> packed_size ?b" using f(1) t(4) [of "Suc i"] i by simp
    moreover have "sector_length ar number ?blk = length ?sec" using sector_length_of [OF ok assms(3) m(3,5,6)] i m(1) by simp
    ultimately show ?thesis using dec dec(2) [of "replicate (length ?sec) 0"] by simp
  qed
  then show "held_parts env img ar number f packed parts" using m(1) multi by (simp add: held_parts_def Let_def parts_def)
qed

lemma read_sector_ready:
  assumes "cache_ok ar" "ar_source ar = s" "number < ar_files ar" "ready ar number sd packed"
    and "member_stored env img ar number sd requested policy packed plain" "\<And>n. re_alloc env n"
    and "zlib_contract (re_libs env)" "bzip2_contract (re_libs env)" "lossless_request requested"
    and "i < length packed" "length (sector_of (unat (ar_block_size ar)) plain i) \<le> length out"
  shows "read_sector env ar number (of_nat i) out checksum =
    Some \<lparr>bo_status = 0, bo_buffer = write_at out 0 (sector_of (unat (ar_block_size ar)) plain i),
      bo_transferred = Some (int (length (sector_of (unat (ar_block_size ar)) plain i))),
      bo_mismatch = checksum_mismatch (re_adler env) checksum (packed ! i), bo_lossy = False\<rparr>"
proof -
  obtain f where f: "mpq_file ar ! unat number = Some f" using assms(4) by (auto simp: ready_def)
  show ?thesis
    using read_sector_held [OF assms(1-3) f ready_held(2) [OF assms(1-9) f] assms(6,10)] assms(10,11) by simp
qed

lemma read_member_ready:
  assumes "cache_ok ar" "ar_source ar = s" "number < ar_files ar" "ready ar number sd packed"
    and "member_stored env img ar number sd requested policy packed plain" "\<And>n. re_alloc env n"
    and "zlib_contract (re_libs env)" "bzip2_contract (re_libs env)" "lossless_request requested"
    and "length plain \<le> length out" "mpq_file ar ! unat number = Some f" "unat (open_count f) + 2 < 2 ^ 32" "open_count f \<noteq> 0"
  shows "read_member env ar number out = Some (Inr (write_at out 0 plain, length plain, False), ar)"
proof -
  note m = member_storedD [OF assms(5)] and h = ready_held [OF assms(1-9)]
  have room: "unat number < length (mpq_file ar)" using archive_ok_room assms(1,3) by (simp add: cache_ok_def)
  let ?g = "f\<lparr>open_count := open_count f + 1\<rparr>"
  have up: "open_count f + 1 \<noteq> 0" using assms(12) by (auto simp: word_unat_eq_iff unat_word_ariths)
  have "libmpq__reader_sector_checksums (re_libs env) (re_alloc env) (re_fuel env) (set_file ar number (Some ?g)) number =
      Some (Inr None, set_file ar number (Some ?g))"
    using checksums_absent [of number "set_file ar number (Some ?g)" ?g] assms(3) m(4) up room by simp
  then show ?thesis
    using read_member_held [OF assms(1-3,11) h(2) [OF assms(11)] assms(6,12,13), of "Inr None" out] h(1) m(5) assms(10)
    by (simp add: Let_def del: length_concat)
qed

end

subsection \<open>The comparison with the attributes\<close>

text \<open>A member that names itself is not compared, so reading it is \<open>read_member\<close>.\<close>

lemma file_read_attributes_itself:
  assumes "read_member env ar number out = Some (Inr (o', n, lossy), a)" "names_itself a number" "\<not> write_mode a"
    and "number < ar_files a" "n = unat (unpacked_size (block_entry a number))" "n \<le> length o'"
  shows "libmpq__reader_file_read env ar number out = Some (Inr (o', n), a)"
  using assms by (auto simp: libmpq__reader_file_read_def libmpq__attributes_verify_data_def not_le)

text \<open>An archive without attributes is not compared either.\<close>

definition no_attributes :: "mpq_archive_s \<Rightarrow> bool" where
  "no_attributes ar \<longleftrightarrow> \<not> write_mode ar \<and> ar_attributes ar = None \<and>
     (\<exists>e. internal_number ar LIBMPQ_ATTRIBUTES_NAME = Inl e)"

lemma verify_data_absent:
  assumes "no_attributes ar" "number < ar_files ar" "length bytes = unat (unpacked_size (block_entry ar number))"
  shows "\<exists>ar'. libmpq__attributes_verify_data env ar number bytes = Some (Inr 0, ar')"
proof -
  have "\<exists>e ar'. libmpq__attributes_load env ar = Some (e, ar') \<and> e \<noteq> 0"
  proof -
    obtain e where e: "internal_number ar LIBMPQ_ATTRIBUTES_NAME = Inl e" "ar_attributes ar = None"
      using assms(1) by (auto simp: no_attributes_def)
    moreover have "error_code e \<noteq> 0" using error_code_neg [of e] by linarith
    ultimately show ?thesis by (cases "attributes_error ar = 0") (simp_all add: libmpq__attributes_load_def)
  qed
  then show ?thesis
    using assms by (auto simp: libmpq__attributes_verify_data_def libmpq__file_attributes_def
        libmpq__archive_attributes_def no_attributes_def libmpq__reader_validate_file_number_def not_le)
qed

lemma member_readable:
  assumes "serves (ar_source ar) img" "cache_ok ar" "number < ar_files ar" "mpq_file ar ! unat number = None" "\<And>n. re_alloc env n"
    and "zlib_contract (re_libs env)" "bzip2_contract (re_libs env)" "lossless_request requested"
    and "member_stored env img ar number sd requested policy packed plain" "key_given ar number sd h"
    and "length plain \<le> length out"
  obtains f where "acquire_with (re_alloc env) ar number h = (0, set_file ar number (Some f))"
    "cache_ok (set_file ar number (Some f))" "ready (set_file ar number (Some f)) number sd packed"
    "read_member env (set_file ar number (Some f)) number out =
      Some (Inr (write_at out 0 plain, length plain, False), set_file ar number (Some f))"
proof -
  note src = serves_archive_source [OF assms(1)]
  obtain f where f: "acquire_with (re_alloc env) ar number h = (0, set_file ar number (Some f))" "file_ok ar number f"
      "packed_offset f = offset_words (4 * (length packed + 1)) packed" "open_count f = 1"
      "encrypted_entry (block_entry ar number) \<longrightarrow> seed_known f \<and> seed f = sd"
    using archive_source.acquire_stored [OF src assms(2) refl assms(3-5,9,10)] by blast
  let ?ar = "set_file ar number (Some f)"
  have ok: "cache_ok ?ar" by (rule acquire_cache_ok [OF assms(2) f(1)])
  have room: "unat number < length (mpq_file ar)" using assms(2,3) archive_ok_room by (auto simp: cache_ok_def)
  then have ready: "ready ?ar number sd packed" using f(3,5) by (simp add: ready_def)
  have "read_member env ?ar number out = Some (Inr (write_at out 0 plain, length plain, False), ?ar)"
    using archive_source.read_member_ready [OF src ok _ _ ready _ assms(5-8,11), where policy = policy and f = f]
      assms(3,9) room f(4) by simp
  then show thesis using that f(1) ok ready by blast
qed

subsection \<open>A sample file\<close>

text \<open>An archive with one nameless file: the header, one free hash slot, its block entry, its payload.\<close>

definition free_hash :: mpq_hash_s where
  "free_hash = \<lparr>hash_a = 0xFFFFFFFF, hash_b = 0xFFFFFFFF, locale_id = 0xFFFF, platform = 0xFFFF, block_table_index = LIBMPQ_HASH_FREE\<rparr>"

definition one_file_image :: "mpq_block_s \<Rightarrow> u8 list \<Rightarrow> u8 list" where
  "one_file_image b payload = header_bytes sample_header @
     libmpq__crypto_encrypt_block (hash_entry_bytes free_hash) 16 (table_key hash_table_name) @
     libmpq__crypto_encrypt_block (block_entry_bytes b) 16 (table_key block_table_name) @ payload"

lemma one_file_image_length [simp]: "length (one_file_image b payload) = 64 + length payload"
  by (simp add: one_file_image_def crypt_block_roundtrip)

lemma one_file_image_payload: "stored (one_file_image b payload) (64 + n) bytes \<longleftrightarrow> stored payload n bytes"
  by (simp add: stored_def one_file_image_def crypt_block_roundtrip)

lemma one_file_image_stored:
  "header_stored (one_file_image b payload) 0 sample_header no_header_ex"
  "tables_stored (one_file_image b payload) 0 sample_header no_header_ex [free_hash] [b] [\<lparr>offset_high = 0\<rparr>]"
  by (simp_all add: header_stored_def tables_stored_def stored_def hash_table_at_def block_table_at_def
      one_file_image_def sample_header_def no_header_ex_def normalize_header_def wire_defs UINT32_MAX_def
      crypt_block_roundtrip)

definition one_file_source :: "mpq_block_s \<Rightarrow> u8 list \<Rightarrow> mpq_source_s" where
  "one_file_source b payload = file_source (sound_file (one_file_image b payload)) (64 + length payload) True"

lemma one_file_serves: "length payload < 2 ^ 32 \<Longrightarrow> serves (one_file_source b payload) (one_file_image b payload)"
  using serves.from_file [of "one_file_image b payload" True] by (simp add: one_file_source_def INT64_MAX_def)

text \<open>What opening such an image gives.\<close>

definition one_file_archive :: "mpq_block_s \<Rightarrow> u8 list \<Rightarrow> mpq_archive_s \<Rightarrow> bool" where
  "one_file_archive b payload ar \<longleftrightarrow> cache_ok ar \<and> ar_source ar = one_file_source b payload \<and> mpq_header ar = sample_header \<and>
     mpq_hash ar = [free_hash] \<and> mpq_block ar = [b] \<and> mpq_block_ex ar = [\<lparr>offset_high = 0\<rparr>] \<and>
     mpq_file ar = [None] \<and> ar_files ar = 1 \<and> archive_offset ar = 0 \<and> \<not> write_mode ar \<and> ar_attributes ar = None"

lemma one_file_opens:
  assumes "exists_flag b" "length payload < 2 ^ 32"
  shows "\<exists>ar. one_file_archive b payload ar"
proof -
  have "live_blocks [b] = [0]" using assms(1) by (simp add: live_blocks_def live_upto_def)
  then obtain ar where o: "libmpq__reader_archive_open_source (\<lambda>_. True) (Some 0) None 0 (one_file_source b payload) = (Inr ar, [])"
    and rest: "mpq_header ar = sample_header" "mpq_hash ar = [free_hash]" "mpq_block ar = [b]"
      "mpq_block_ex ar = [\<lparr>offset_high = 0\<rparr>]" "ar_files ar = 1" "archive_offset ar = 0"
    using archive_source.open_stored [OF serves_archive_source [OF one_file_serves [OF assms(2), of b]] one_file_image_stored, where off = 0 and p = 0 and name = None]
    by auto
  have "mpq_file ar = replicate (unat (block_table_count (mpq_header ar))) None \<and> \<not> write_mode ar \<and> ar_attributes ar = None"
    using o by (auto elim!: archive_open_source_Inr simp: load_archive_def io_bind_Inr split: prod.splits if_splits)
  then show ?thesis
    using rest opened_cache_empty(1) [OF o] open_source_keeps [OF o] by (auto simp: one_file_archive_def sample_header_def)
qed

lemma one_file_facts:
  assumes "one_file_archive b payload ar" "\<not> single_unit b" "offset b = 64"
  shows "archive_ok ar" "block_entry ar 0 = b" "ar_block_size ar = 4096" "payload_at ar 0 = 64"
    "libmpq__reader_count_file_blocks ar 0 = (unpacked_size b + 4096 - 1) div 4096"
proof -
  show ok: "archive_ok ar" using assms(1) by (simp add: one_file_archive_def cache_ok_def)
  have i: "block_index ar 0 = 0"
    using archive_ok_block_index(1) [OF ok, of 0] assms(1) by (simp add: one_file_archive_def)
  then show e: "block_entry ar 0 = b" using assms(1) by (simp add: block_entry_def one_file_archive_def)
  show bs: "ar_block_size ar = 4096" using ok assms(1) by (simp add: archive_ok_def one_file_archive_def sample_header_def)
  show "payload_at ar 0 = 64"
    using i assms(1,3) by (simp add: payload_at_def payload_offset_def one_file_archive_def)
  show "libmpq__reader_count_file_blocks ar 0 = (unpacked_size b + 4096 - 1) div 4096"
    using e bs assms(2) by (simp add: libmpq__reader_count_file_blocks_def single_unit_def)
qed

lemma one_file_no_attributes:
  assumes "one_file_archive b payload ar"
  shows "no_attributes ar"
proof -
  have "libmpq__file_number_from_hash ar h1 h2 h3 = Inl ERROR_EXIST" for h1 h2 h3
    using assms by (simp add: one_file_archive_def libmpq__file_number_from_hash_def sample_header_def free_hash_def)
  then have "internal_number ar LIBMPQ_ATTRIBUTES_NAME = Inl ERROR_EXIST"
    by (simp add: internal_number_def libmpq__file_number_def bind_eq_Some_conv split: option.split)
  then show ?thesis using assms by (simp add: no_attributes_def one_file_archive_def)
qed

text \<open>Ten zero bytes, stored as a SPARSE sector behind its offset table.\<close>

definition file_block :: mpq_block_s where
  "file_block = \<lparr>offset = 64, packed_size = 14, unpacked_size = 10, flags = 0x80000200\<rparr>"

definition file_payload :: "u8 list" where
  "file_payload = [8, 0, 0, 0, 14, 0, 0, 0] @ [0x20, 0, 0, 0, 10, 7]"

definition sample_env :: reader_env where
  "sample_env = \<lparr>re_libs = stored_libs, re_adler = \<lambda>c bs. c, re_crc = \<lambda>c bs. c, re_alloc = \<lambda>_. True, re_fuel = 1\<rparr>"

lemma sample_env_facts:
  "re_alloc sample_env = (\<lambda>_. True)" "zlib_contract (re_libs sample_env)" "bzip2_contract (re_libs sample_env)"
  using stored_contracts by (simp_all add: sample_env_def)

lemmas flag_bits = single_unit_def encrypted_entry_def exists_flag_def LIBMPQ_FLAG_EXISTS_def LIBMPQ_FLAG_SINGLE_def
  LIBMPQ_FLAG_CRC_def LIBMPQ_FLAG_ENCRYPTED_def LIBMPQ_FLAG_COMPRESSED_def LIBMPQ_FLAG_COMPRESS_PKZIP_def
  LIBMPQ_FLAG_COMPRESS_MULTI_def

lemma file_opens: obtains ar where "one_file_archive file_block file_payload ar"
  using one_file_opens [of file_block file_payload] by (auto simp: file_block_def file_payload_def flag_bits)

lemma file_member_stored:
  assumes "one_file_archive file_block file_payload ar"
  shows "member_stored sample_env (one_file_image file_block file_payload) ar 0 0 LIBMPQ_COMPRESSION_SPARSE 0
      [[0x20, 0, 0, 0, 10, 7]] (replicate 10 0)"
    "key_given ar 0 0 None"
proof -
  have on: "\<not> encrypted_entry file_block" "\<not> single_unit file_block" "offset file_block = 64"
    by (simp_all add: file_block_def flag_bits)
  note facts = one_file_facts [OF assms on(2,3)]
  have n: "libmpq__reader_count_file_blocks ar 0 = 1" using facts(5) by (simp add: file_block_def)
  have h: "mpq_header ar = sample_header" using assms by (simp add: one_file_archive_def)
  have words: "offset_words 8 [[0x20, 0, 0, 0, 10, 7]] = [8, 14]"
    by (simp add: offset_words_def offsets_of_def)
  have sec: "sector_of 4096 (replicate 10 0) 0 = [0, 0, 0, 0, 0, 0, 0, 0, 0, 0 :: u8]"
    by (simp add: sector_of_def numeral_eq_Suc)
  have at: "stored (one_file_image b payload) 64 bytes \<longleftrightarrow> stored payload 0 bytes"
    "stored (one_file_image b payload) 72 bytes \<longleftrightarrow> stored payload 8 bytes" for b payload bytes
    using one_file_image_payload [of _ _ 0] one_file_image_payload [of _ _ 8] by simp_all
  show "member_stored sample_env (one_file_image file_block file_payload) ar 0 0 LIBMPQ_COMPRESSION_SPARSE 0
      [[0x20, 0, 0, 0, 10, 7]] (replicate 10 0)"
    unfolding member_stored_def Let_def facts(2-4) n h
    using sector_example on words sec
    by (simp add: sample_env_def file_block_def flag_bits offsets_of_def at) (simp add: stored_def file_payload_def cipher_def
        sample_header_def le32_bytes_def)
  show "key_given ar 0 0 None" using facts(2) on by (simp add: key_given_def)
qed

subsection \<open>Properties\<close>

lemma sum_sectors:
  "sum_list (map (\<lambda>i. length (sector_of bs plain i)) [0..<n]) = length (take (n * bs) plain)"
proof (induction n)
  case (Suc n)
  have "length (sector_of bs plain n) = length (take (Suc n * bs) plain) - length (take (n * bs) plain)"
    by (auto simp: sector_of_def min_def)
  moreover have "length (take (n * bs) plain) \<le> length (take (Suc n * bs) plain)" by simp
  ultimately show ?case using Suc by simp
qed simp

text \<open>C18: the sectors of a file partition it: the sector sizes that the interface reports add up to the
  unpacked size, for single-unit and sectorized files; only when the unpacked size plus a sector leaves
  32 bits does the count wrap, and then a sectorized file has no sectors at all.\<close>

theorem block_sizes_partition:
  assumes "archive_ok ar" "number < ar_files ar"
  shows "let b = block_entry ar number; sum_of = sum_list (map (\<lambda>i. sector_length ar number (of_nat i))
        [0..<unat (libmpq__reader_count_file_blocks ar number)])
    in (single_unit b \<or> unat (unpacked_size b) + unat (ar_block_size ar) \<le> 2 ^ 32 \<longrightarrow> sum_of = unat (unpacked_size b)) \<and>
       (\<not> single_unit b \<and> 2 ^ 32 < unat (unpacked_size b) + unat (ar_block_size ar) \<longrightarrow>
          libmpq__reader_count_file_blocks ar number = 0)"
proof -
  let ?b = "block_entry ar number" and ?n = "libmpq__reader_count_file_blocks ar number" and ?bs = "unat (ar_block_size ar)"
  let ?us = "unat (unpacked_size (block_entry ar number))"
  let ?sum = "sum_list (map (\<lambda>i. sector_length ar number (of_nat i)) [0..<unat ?n])"
  have single: "?sum = ?us" if "single_unit ?b"
    using that assms(2) by (auto simp: sector_length_def libmpq__block_size_unpacked_def libmpq__reader_count_file_blocks_def
        single_unit_def not_le)
  have sectors: "?sum = ?us" if "\<not> single_unit ?b" "?us + ?bs \<le> 2 ^ 32"
  proof -
    let ?plain = "replicate ?us (0 :: u8)"
    have "?sum = sum_list (map (\<lambda>i. length (sector_of ?bs ?plain i)) [0..<unat ?n])"
      using sector_length_of [OF assms that(1), of ?plain] that(2) by (intro arg_cong [where f = sum_list] map_cong) auto
    also have "\<dots> = length (take (unat ?n * ?bs) ?plain)" by (rule sum_sectors)
    also have "\<dots> = ?us" using blocks_cover [OF assms(1) that] by simp
    finally show ?thesis .
  qed
  show ?thesis
    unfolding Let_def using single sectors count_blocks(2) [OF assms(1)] by blast
qed

theorem block_sizes_partition_witness:
  "\<exists>ar. archive_ok ar \<and> sum_list (map (\<lambda>i. sector_length ar 0 (of_nat i)) [0..<unat (libmpq__reader_count_file_blocks ar 0)]) = 10"
proof -
  obtain ar where ar: "one_file_archive file_block file_payload ar" by (rule file_opens)
  then have files: "ar_files ar = 1" by (simp add: one_file_archive_def)
  have "\<not> single_unit file_block" "offset file_block = 64" by (simp_all add: file_block_def flag_bits)
  note facts = one_file_facts [OF ar this]
  show ?thesis
    using block_sizes_partition [OF facts(1), of 0] facts(1-3) files by (auto simp: Let_def file_block_def)
qed

end
