(* ===== verification/Mpq_Layout.thy ===== *)
theory Mpq_Layout
  imports Mpq_Member
begin

text \<open>
  The layouts in which an archive stores a file, and the complete read of each: raw entries, whose
  sectors lie at multiples of the sector size; single units, one packed payload; and compressed
  sectorized entries behind a table of offsets, with or without a trailing table of sector checksums.
  Packed parts are those of the sector encoder or of the PKWARE encoder, and every layout may be
  encrypted. The theorem is that \<^verbatim>\<open>libmpq__reader_file_read\<close> (\<^verbatim>\<open>src/mpq-reader.c\<close>) returns the plain bytes of
  every such entry.
\<close>

subsection \<open>Stored entries\<close>

text \<open>How an entry is laid out: its key, the methods and the policy its sectors were encoded with, the
  packed parts, and the packed checksum table with the checksums in it.\<close>

record file_layout =
  fl_seed :: u32
  fl_requested :: u32
  fl_policy :: u32
  fl_packed :: "u8 list list"
  fl_sums :: "u8 list"
  fl_checks :: "u32 list"

text \<open>The bits of the flags that select the codec, and a part packed by it: as it is, by the PKWARE encoder
  where that is shorter, or by the sector encoder.\<close>

definition codec_kind :: "mpq_block_s \<Rightarrow> u32" where
  "codec_kind b = flags b AND (LIBMPQ_FLAG_COMPRESSED OR LIBMPQ_FLAG_COMPRESS_PKZIP)"

definition part_packed :: "reader_env \<Rightarrow> mpq_archive_s \<Rightarrow> u32 \<Rightarrow> u32 \<Rightarrow> u32 \<Rightarrow> u8 list \<Rightarrow> u8 list \<Rightarrow> bool" where
  "part_packed env ar kind requested policy part y \<longleftrightarrow>
     (if kind = 0 then y = part
      else if kind = LIBMPQ_FLAG_COMPRESS_PKZIP then y = part \<or> length y < length part \<and> pkzip_encodes part y
      else kind = LIBMPQ_FLAG_COMPRESS_MULTI \<and> length part < 2 ^ 31 \<and>
        (\<exists>m. libmpq__compression_encode_sector (re_libs env) (re_alloc env) (re_fuel env) part requested
           (ucast (version (mpq_header ar))) policy = Some (Inr (y, m))))"

text \<open>A checksum table: none, or one checksum per sector, encoded like a sector, each of them either one of
  the two values that mean no checksum or the Adler-32 of the packed sector.\<close>

definition sums_packed :: "reader_env \<Rightarrow> mpq_archive_s \<Rightarrow> file_layout \<Rightarrow> bool" where
  "sums_packed env ar L \<longleftrightarrow>
     fl_sums L = [] \<or>
     length (fl_checks L) = length (fl_packed L) \<and>
     (\<exists>m. libmpq__compression_encode_sector (re_libs env) (re_alloc env) (re_fuel env)
        (concat (map le32_bytes (fl_checks L))) (fl_requested L) (ucast (version (mpq_header ar))) (fl_policy L) =
        Some (Inr (fl_sums L, m))) \<and>
     (\<forall>i<length (fl_packed L). fl_checks L ! i \<in> {0, 0xFFFFFFFF, re_adler env 0 (fl_packed L ! i)})"

definition has_table :: "mpq_block_s \<Rightarrow> bool" where
  "has_table b \<longleftrightarrow> packed_codec b \<and> \<not> single_unit b"

definition has_sums :: "mpq_block_s \<Rightarrow> bool" where
  "has_sums b \<longleftrightarrow> has_table b \<and> flags b AND LIBMPQ_FLAG_CRC \<noteq> 0"

definition part_of :: "mpq_archive_s \<Rightarrow> u32 \<Rightarrow> u8 list \<Rightarrow> nat \<Rightarrow> u8 list" where
  "part_of ar number plain i =
     (if single_unit (block_entry ar number) then plain else sector_of (unat (ar_block_size ar)) plain i)"

text \<open>The segments of the payload behind its offset table, and the size of that table.\<close>

definition segments :: "mpq_block_s \<Rightarrow> file_layout \<Rightarrow> u8 list list" where
  "segments b L = fl_packed L @ (if has_sums b then [fl_sums L] else [])"

definition table_bytes :: "mpq_block_s \<Rightarrow> file_layout \<Rightarrow> nat" where
  "table_bytes b L = (if has_table b then 4 * (length (segments b L) + 1) else 0)"

definition entry_stored :: "reader_env \<Rightarrow> u8 list \<Rightarrow> mpq_archive_s \<Rightarrow> u32 \<Rightarrow> file_layout \<Rightarrow> u8 list \<Rightarrow> bool" where
  "entry_stored env img ar number L plain \<longleftrightarrow>
     (let b = block_entry ar number; n = unat (libmpq__reader_count_file_blocks ar number); on = encrypted_entry b;
          segs = segments b L; t = table_bytes b L; at = (\<lambda>i. payload_at ar number + offsets_of t segs i)
      in length plain = unat (unpacked_size b) \<and> (single_unit b \<or> length plain + unat (ar_block_size ar) \<le> 2 ^ 32) \<and>
         length (fl_packed L) = n \<and>
         (\<forall>i<n. part_packed env ar (codec_kind b) (fl_requested L) (fl_policy L) (part_of ar number plain i) (fl_packed L ! i)) \<and>
         offsets_of t segs (length segs) \<le> unat (packed_size b) \<and>
         (single_unit b \<longrightarrow> offsets_of t segs (length segs) = unat (packed_size b)) \<and>
         (has_table b \<longrightarrow> stored img (payload_at ar number)
            (cipher on (fl_seed L - 1) (concat (map le32_bytes (offset_words t segs))))) \<and>
         (\<forall>i<n. stored img (at i) (cipher on (fl_seed L + of_nat i) (fl_packed L ! i))) \<and>
         (has_sums b \<longrightarrow> stored img (at n) (fl_sums L) \<and> sums_packed env ar L))"

lemma entry_storedD:
  assumes "entry_stored env img ar number L plain"
  defines "b \<equiv> block_entry ar number"
  defines "segs \<equiv> segments b L" and "t \<equiv> table_bytes b L"
  shows "unat (libmpq__reader_count_file_blocks ar number) = length (fl_packed L)"
    "length plain = unat (unpacked_size b)" "single_unit b \<or> length plain + unat (ar_block_size ar) \<le> 2 ^ 32"
    "\<And>i. i < length (fl_packed L) \<Longrightarrow>
       part_packed env ar (codec_kind b) (fl_requested L) (fl_policy L) (part_of ar number plain i) (fl_packed L ! i)"
    "offsets_of t segs (length segs) \<le> unat (packed_size b)"
    "single_unit b \<Longrightarrow> offsets_of t segs (length segs) = unat (packed_size b)"
    "has_table b \<Longrightarrow> stored img (payload_at ar number)
       (cipher (encrypted_entry b) (fl_seed L - 1) (concat (map le32_bytes (offset_words t segs))))"
    "\<And>i. i < length (fl_packed L) \<Longrightarrow>
       stored img (payload_at ar number + offsets_of t segs i) (cipher (encrypted_entry b) (fl_seed L + of_nat i) (fl_packed L ! i))"
    "has_sums b \<Longrightarrow> stored img (payload_at ar number + offsets_of t segs (length (fl_packed L))) (fl_sums L)"
    "has_sums b \<Longrightarrow> sums_packed env ar L"
  using assms(1) unfolding entry_stored_def Let_def segs_def t_def b_def by metis+

lemma entry_stored_set_file [simp]:
  "entry_stored env img (set_file ar n g) number L plain = entry_stored env img ar number L plain"
  by (simp add: entry_stored_def part_packed_def sums_packed_def part_of_def)

subsection \<open>Parts and offsets\<close>

lemma codec_bits:
  "codec_kind b = 0 \<Longrightarrow> flags b AND LIBMPQ_FLAG_COMPRESS_MULTI = 0 \<and> flags b AND LIBMPQ_FLAG_COMPRESS_PKZIP = 0"
  "codec_kind b = LIBMPQ_FLAG_COMPRESS_PKZIP \<Longrightarrow>
     flags b AND LIBMPQ_FLAG_COMPRESS_MULTI = 0 \<and> flags b AND LIBMPQ_FLAG_COMPRESS_PKZIP \<noteq> 0"
proof -
  have k: "codec_kind b = flags b AND 0xFF00"
    by (simp add: codec_kind_def LIBMPQ_FLAG_COMPRESSED_def LIBMPQ_FLAG_COMPRESS_PKZIP_def)
  have "flags b AND 0x200 = (flags b AND 0xFF00) AND 0x200" "flags b AND 0x100 = (flags b AND 0xFF00) AND 0x100"
    by (simp_all add: and.assoc)
  note bits = this [folded k]
  show "codec_kind b = 0 \<Longrightarrow> flags b AND LIBMPQ_FLAG_COMPRESS_MULTI = 0 \<and> flags b AND LIBMPQ_FLAG_COMPRESS_PKZIP = 0"
    "codec_kind b = LIBMPQ_FLAG_COMPRESS_PKZIP \<Longrightarrow>
      flags b AND LIBMPQ_FLAG_COMPRESS_MULTI = 0 \<and> flags b AND LIBMPQ_FLAG_COMPRESS_PKZIP \<noteq> 0"
    using bits by (simp_all add: LIBMPQ_FLAG_COMPRESS_PKZIP_def LIBMPQ_FLAG_COMPRESS_MULTI_def)
qed

lemma decode_part:
  assumes "zlib_contract (re_libs env)" "bzip2_contract (re_libs env)" "\<And>n. re_alloc env n" "lossless_request requested"
    and "part_packed env ar (codec_kind b) requested policy part y"
  shows "length room = length part \<Longrightarrow>
      decode_block (re_libs env) (re_alloc env) (re_fuel env) ar (flags b) y room = Some (int (length part), part)"
    "\<not> block_lossy (flags b) (length part) y"
    "flags b AND (LIBMPQ_FLAG_COMPRESS_MULTI OR LIBMPQ_FLAG_COMPRESS_PKZIP) \<noteq> 0 \<or> part = y"
proof -
  have alloc: "re_alloc env = (\<lambda>_. True)" using assms(3) by blast
  consider (raw) "codec_kind b = 0" "y = part"
    | (pkware) "codec_kind b = LIBMPQ_FLAG_COMPRESS_PKZIP" "y = part \<or> length y < length part \<and> pkzip_encodes part y"
    | (multi) m where "codec_kind b = LIBMPQ_FLAG_COMPRESS_MULTI" "length part < 2 ^ 31"
        "libmpq__compression_encode_sector (re_libs env) (re_alloc env) (re_fuel env) part requested
           (ucast (version (mpq_header ar))) policy = Some (Inr (y, m))"
    using assms(5) by (auto simp: part_packed_def split: if_split_asm)
  then have "(length room = length part \<longrightarrow>
      decode_block (re_libs env) (re_alloc env) (re_fuel env) ar (flags b) y room = Some (int (length part), part)) \<and>
    \<not> block_lossy (flags b) (length part) y \<and>
    (flags b AND (LIBMPQ_FLAG_COMPRESS_MULTI OR LIBMPQ_FLAG_COMPRESS_PKZIP) \<noteq> 0 \<or> part = y)"
  proof cases
    case raw
    then show ?thesis
      using codec_bits(1) [OF raw(1)] by (simp add: decode_block_def libmpq__compression_decompress_block_def block_lossy_def)
  next
    case pkware
    have "libmpq__compression_decompress_block (re_libs env) (\<lambda>_. True) (re_fuel env) y room LIBMPQ_FLAG_COMPRESS_PKZIP v =
        Some (int (length part), part)" if "length room = length part" for v
      using pkware(2) pkzip.exact [of part y room] that
      by (auto simp: libmpq__compression_decompress_block_def LIBMPQ_FLAG_COMPRESS_PKZIP_def LIBMPQ_FLAG_COMPRESS_NONE_def)
    then show ?thesis
      using codec_bits(2) [OF pkware(1)] by (simp add: decode_block_def block_lossy_def and_or_zero alloc)
  next
    case multi
    note k = multi(1) [unfolded codec_kind_def]
    show ?thesis
      using decode_block_encoded [OF assms(1-3) multi(2) assms(4) multi(3) k] decode_block_encoded(2) [OF assms(1-3) multi(2) assms(4) multi(3) k, of part]
        multi_flags(1) [OF k] by (auto simp: and_or_zero)
  qed
  then show "length room = length part \<Longrightarrow>
      decode_block (re_libs env) (re_alloc env) (re_fuel env) ar (flags b) y room = Some (int (length part), part)"
    "\<not> block_lossy (flags b) (length part) y"
    "flags b AND (LIBMPQ_FLAG_COMPRESS_MULTI OR LIBMPQ_FLAG_COMPRESS_PKZIP) \<noteq> 0 \<or> part = y" by blast+
qed

lemma single_count: "single_unit (block_entry ar number) \<Longrightarrow> libmpq__reader_count_file_blocks ar number = 1"
  by (simp add: libmpq__reader_count_file_blocks_def single_unit_def)

lemma parts_of_entry:
  assumes "archive_ok ar" "number < ar_files ar" "entry_stored env img ar number L plain"
  defines "n \<equiv> length (fl_packed L)"
  shows "concat (map (part_of ar number plain) [0..<n]) = plain"
    "i < n \<Longrightarrow> sector_length ar number (of_nat i) = length (part_of ar number plain i)"
proof -
  note e = entry_storedD [OF assms(3)]
  let ?b = "block_entry ar number"
  show "concat (map (part_of ar number plain) [0..<n]) = plain"
  proof (cases "single_unit ?b")
    case True
    then have "n = 1" using e(1) single_count [of ar number] by (simp add: n_def)
    then show ?thesis using True by (simp add: part_of_def)
  next
    case False
    have "length plain \<le> n * unat (ar_block_size ar)"
      using blocks_cover [OF assms(1) False] e(1-3) False by (simp add: n_def)
    moreover have "part_of ar number plain = sector_of (unat (ar_block_size ar)) plain"
      using False by (simp add: fun_eq_iff part_of_def)
    ultimately show ?thesis by (simp add: concat_sectors)
  qed
  assume i: "i < n"
  show "sector_length ar number (of_nat i) = length (part_of ar number plain i)"
  proof (cases "single_unit ?b")
    case True
    then have "i = 0" using i e(1) single_count [of ar number] by (simp add: n_def)
    then show ?thesis
      using True assms(2) e(2) single_count [OF True]
      by (auto simp: sector_length_def libmpq__block_size_unpacked_def part_of_def single_unit_def not_le)
  next
    case False
    then show ?thesis
      using sector_length_of [OF assms(1,2) False e(2)] e(1,3) i by (simp add: part_of_def n_def)
  qed
qed

text \<open>The cached offsets of an entry, read from its table or computed, delimit its segments.\<close>

lemma entry_offsets:
  assumes "archive_ok ar" "entry_stored env img ar number L plain" "file_ok ar number f"
  defines "b \<equiv> block_entry ar number"
  defines "segs \<equiv> segments b L" and "t \<equiv> table_bytes b L"
  assumes "has_table b \<Longrightarrow> packed_offset f = offset_words t segs" "i \<le> length (fl_packed L)"
  shows "unat (packed_offset f ! i) = offsets_of t segs i"
proof -
  note e = entry_storedD [OF assms(2), folded b_def, folded segs_def t_def]
  let ?bs = "unat (ar_block_size ar)" and ?n = "length (fl_packed L)"
  consider (table) "has_table b" | (single) "\<not> has_table b" "single_unit b" | (raw) "\<not> packed_codec b" "\<not> single_unit b"
    by (auto simp: has_table_def)
  then show ?thesis
  proof cases
    case table
    have "offsets_of t segs (length segs) < 2 ^ 32" using e(5) u32_bound by (rule le_less_trans)
    then show ?thesis using table assms(7,8) offset_words_nth [of i segs t] by (simp add: segs_def segments_def)
  next
    case single
    then have t: "t = 0" "segs = fl_packed L" by (simp_all add: t_def table_bytes_def segs_def segments_def has_sums_def)
    have n: "?n = 1" using e(1) single_count [of ar number] single(2) by (simp add: b_def)
    then obtain y where y: "fl_packed L = [y]" by (auto simp: length_Suc_conv)
    have "packed_offset f ! 0 = 0" "packed_offset f ! 1 = packed_size b"
      using assms(3) single(2) by (simp_all add: file_ok_def Let_def b_def)
    then show ?thesis using assms(8) n e(6) [OF single(2)] t y by (cases "i = 0") (auto simp: offsets_of_def le_Suc_eq)
  next
    case raw
    then have t: "t = 0" "segs = fl_packed L" by (simp_all add: t_def table_bytes_def segs_def segments_def has_sums_def has_table_def)
    have "fl_packed L ! j = sector_of ?bs plain j" if "j < ?n" for j
      using e(4) [OF that] raw by (simp add: part_packed_def part_of_def codec_kind_def packed_codec_def b_def)
    then have pk: "fl_packed L = map (sector_of ?bs plain) [0..<?n]" by (intro nth_equalityI) auto
    have "take i (fl_packed L) = map (sector_of ?bs plain) [0..<i]"
      using assms(8) by (subst pk) (simp add: take_map take_upt)
    then have "offsets_of t segs i = length (concat (map (sector_of ?bs plain) [0..<i]))"
      unfolding offsets_of_def t length_concat by simp
    then have off: "offsets_of t segs i = length (take (i * ?bs) plain)" unfolding concat_sectors .
    have f: "packed_offset f ! ?n = unpacked_size b" "\<And>j. j < ?n \<Longrightarrow> packed_offset f ! j = of_nat j * ar_block_size ar"
      using assms(3) raw e(1) by (simp_all add: file_ok_def Let_def b_def)
    show ?thesis
    proof (cases "i = ?n")
      case True
      have "length plain \<le> ?n * ?bs"
        using blocks_cover [OF assms(1), of number] raw(2) e(1-3) by (simp add: b_def)
      then show ?thesis using True f(1) off e(2) by simp
    next
      case False
      then have i: "i < unat (libmpq__reader_count_file_blocks ar number)" using assms(8) e(1) by simp
      then show ?thesis
        using f(2) [of i] off unat_mult_offset [OF assms(1) _ i] count_blocks_le [OF assms(1) _ i] raw(2) e(1,2)
        by (simp add: b_def)
    qed
  qed
qed

lemma entry_held:
  assumes "cache_ok ar" "number < ar_files ar" "entry_stored env img ar number L plain" "file_ok ar number f"
    and "zlib_contract (re_libs env)" "bzip2_contract (re_libs env)" "\<And>n. re_alloc env n" "lossless_request (fl_requested L)"
  defines "b \<equiv> block_entry ar number"
  assumes "has_table b \<Longrightarrow> packed_offset f = offset_words (table_bytes b L) (segments b L)"
    and "encrypted_entry b \<Longrightarrow> seed_known f \<and> seed f = fl_seed L"
  shows "held_parts env img ar number f (fl_packed L) (map (part_of ar number plain) [0..<length (fl_packed L)])"
proof -
  let ?n = "length (fl_packed L)" and ?segs = "segments b L" and ?t = "table_bytes b L"
  have ok: "archive_ok ar" using assms(1) by (simp add: cache_ok_def)
  note e = entry_storedD [OF assms(3), folded b_def]
  note offs = entry_offsets [OF ok assms(3,4), folded b_def, OF assms(10)]
  have seg: "i < ?n \<Longrightarrow> i < length ?segs \<and> ?segs ! i = fl_packed L ! i" for i by (simp add: segments_def nth_append)
  have one: "sector_stored img ar number f (of_nat i) (fl_packed L ! i) \<and> packed_offset f ! Suc i \<le> packed_size b"
    if i: "i < ?n" for i
  proof -
    let ?blk = "of_nat i :: u32"
    have ui: "unat ?blk = i" using i e(1) u32_bound [of "libmpq__reader_count_file_blocks ar number"]
      by (intro u32_of_nat) linarith
    have lt: "?blk < libmpq__reader_count_file_blocks ar number" using i e(1) ui by (simp add: word_less_nat_alt)
    have u1: "unat (?blk + 1) = Suc i" using file_ok_counts(1) [OF assms(4) lt] ui by simp
    have next_: "offsets_of ?t ?segs (Suc i) = offsets_of ?t ?segs i + length (fl_packed L ! i)"
      using offsets_of_Suc [of i ?segs ?t] seg [OF i] by simp
    have "sector_stored img ar number f ?blk (fl_packed L ! i)"
      using e(8) [OF i] offs [of i] offs [of "Suc i"] i u1 ui next_ assms(11) by (auto simp: sector_stored_def b_def cipher_def)
    moreover have "offsets_of ?t ?segs (Suc i) \<le> unat (packed_size b)"
      using offsets_of_mono [of "Suc i" "length ?segs" ?t ?segs] seg [OF i] e(5) by simp
    ultimately show ?thesis using offs [of "Suc i"] i by (simp add: word_le_nat_alt)
  qed
  show ?thesis
    using one e(1) parts_of_entry(2) [OF ok assms(2,3)] decode_part [OF assms(5-8) e(4), folded b_def]
    by (simp add: held_parts_def Let_def b_def)
qed

subsection \<open>Opening a stored entry\<close>

lemma entry_words:
  assumes "archive_ok ar" "entry_stored env img ar number L plain"
  defines "b \<equiv> block_entry ar number"
  defines "segs \<equiv> segments b L" and "t \<equiv> table_bytes b L"
  assumes "has_table b"
  shows "unat (offsets_size ar number) = 4 * length (offset_words t segs)" "offset_words t segs ! 0 = offsets_size ar number"
    "offsets_size ar number \<le> packed_size b"
    "offsets_valid (offset_words t segs) (unat (libmpq__reader_count_file_blocks ar number) + 1) (packed_size b)"
proof -
  note e = entry_storedD [OF assms(2), folded b_def, folded segs_def t_def]
  let ?ws = "offset_words t segs"
  have n: "length (fl_packed L) \<le> length segs" by (simp add: segs_def segments_def)
  have "length segs = length (fl_packed L) + (if flags b AND LIBMPQ_FLAG_CRC \<noteq> 0 then 1 else 0)"
    using assms(6) by (simp add: segs_def segments_def has_sums_def)
  then show size: "unat (offsets_size ar number) = 4 * length ?ws"
    using offsets_size_unat(1) [OF sectors_countable [OF assms(1)], of number] e(1) by (simp add: b_def)
  have "offsets_of t segs (length segs) < 2 ^ 32" using e(5) u32_bound by (rule le_less_trans)
  then have nth: "unat (?ws ! i) = offsets_of t segs i" if "i \<le> length segs" for i using that by (intro offset_words_nth)
  have le: "?ws ! i \<le> packed_size b" if "i \<le> length segs" for i
    using nth [OF that] offsets_of_mono [OF that, of t segs] e(5) by (simp add: word_le_nat_alt)
  show first: "?ws ! 0 = offsets_size ar number"
    using size nth [of 0] assms(6) by (simp add: word_unat_eq_iff offsets_of_def t_def table_bytes_def segs_def)
  show "offsets_size ar number \<le> packed_size b" using le [of 0] first by simp
  show "offsets_valid ?ws (unat (libmpq__reader_count_file_blocks ar number) + 1) (packed_size b)"
    unfolding offsets_valid_def list_all_iff
  proof
    fix i assume "i \<in> List.set [1..<unat (libmpq__reader_count_file_blocks ar number) + 1]"
    then have i: "1 \<le> i" "i \<le> length segs" using e(1) n by auto
    then show "\<not> (?ws ! i < ?ws ! (i - 1) \<or> packed_size b < ?ws ! i)"
      using nth [of i] nth [of "i - 1"] le [of i] offsets_of_mono [of "i - 1" i t segs]
      by (auto simp: word_less_nat_alt word_le_nat_alt)
  qed
qed

context archive_source
begin

lemma acquire_entry:
  assumes "cache_ok ar" "ar_source ar = s" "number < ar_files ar" "mpq_file ar ! unat number = None" "\<And>n. re_alloc env n"
    and "entry_stored env img ar number L plain" "key_given ar number (fl_seed L) h"
  defines "b \<equiv> block_entry ar number"
  shows "\<exists>f. acquire_with (re_alloc env) ar number h = (0, set_file ar number (Some f)) \<and> file_ok ar number f \<and> open_count f = 1 \<and>
    (has_table b \<longrightarrow> packed_offset f = offset_words (table_bytes b L) (segments b L)) \<and>
    (encrypted_entry b \<longrightarrow> seed_known f \<and> seed f = fl_seed L)"
proof -
  have ok: "archive_ok ar" using assms(1) by (simp add: cache_ok_def)
  show ?thesis
  proof (cases "has_table b")
    case True
    note w = entry_words [OF ok assms(6), folded b_def, OF True]
    have layout: "packed_codec (block_entry ar number)" "\<not> single_unit (block_entry ar number)"
      using True by (simp_all add: has_table_def b_def)
    have "offset_words (table_bytes b L) (segments b L) \<noteq> []" by (simp add: offset_words_def)
    from acquire_table [OF assms(1-5) layout sectors_countable [OF ok] w(1) this w(2), folded b_def, OF w(4,3)
        entry_storedD(7) [OF assms(6), folded b_def, OF True] assms(7)]
    show ?thesis by blast
  next
    case False
    then have "\<not> (packed_codec (block_entry ar number) \<and> \<not> single_unit (block_entry ar number))"
      by (simp add: has_table_def b_def)
    from acquire_unit [OF assms(1,3-5) this sectors_countable [OF ok] assms(7), folded b_def] show ?thesis
      using False by blast
  qed
qed

lemma sums_read:
  assumes "cache_ok ar" "ar_source ar = s" "number < ar_files ar" "mpq_file ar ! unat number = Some f" "\<And>n. re_alloc env n"
    and "zlib_contract (re_libs env)" "bzip2_contract (re_libs env)" "lossless_request (fl_requested L)"
    and "entry_stored env img ar number L plain" "has_sums (block_entry ar number)"
    and "packed_offset f = offset_words (table_bytes (block_entry ar number) L) (segments (block_entry ar number) L)"
  shows "\<exists>checks. sector_checksums (re_libs env) (re_alloc env) (re_fuel env) ar number = Some checks \<and>
    (\<forall>cs. checks = Inr (Some cs) \<longrightarrow> sums_packed env ar L \<and> fl_sums L \<noteq> [] \<and> cs = fl_checks L)"
proof -
  let ?b = "block_entry ar number" and ?n = "length (fl_packed L)" and ?i = "block_index ar number"
  let ?segs = "segments ?b L" and ?t = "table_bytes ?b L" and ?tab = "concat (map le32_bytes (fl_checks L))"
  have ok: "archive_ok ar" using assms(1) by (simp add: cache_ok_def)
  have fok: "file_ok ar number f" using assms(1,3,4) by (simp add: cache_ok_def)
  note e = entry_storedD [OF assms(9)]
  have segs: "length ?segs = Suc ?n" "?segs ! ?n = fl_sums L" using assms(10) by (simp_all add: segments_def)
  have cnt: "packed_offset_count f = libmpq__reader_count_file_blocks ar number + 1"
    using fok offsets_size_unat(2) [OF sectors_countable [OF ok], of number] by (simp add: file_ok_def Let_def word_unat_eq_iff)
  let ?s = "packed_offset f ! ?n" and ?e = "packed_offset f ! Suc ?n"
  have "offsets_of ?t ?segs (length ?segs) < 2 ^ 32" using e(5) u32_bound by (rule le_less_trans)
  then have offs: "unat ?s = offsets_of ?t ?segs ?n" "unat ?e = offsets_of ?t ?segs (Suc ?n)"
    using assms(11) offset_words_nth [of _ ?segs ?t] segs(1) by simp_all
  then have e_s: "unat ?e = unat ?s + length (fl_sums L)" using offsets_of_Suc [of ?n ?segs ?t] segs by simp
  then have le: "\<not> ?e < ?s" "unat (?e - ?s) = length (fl_sums L)" "?e = ?s \<longleftrightarrow> fl_sums L = []"
    by (auto simp: word_less_nat_alt unat_sub word_le_nat_alt word_unat_eq_iff)
  have fits: "\<not> packed_size ?b < ?e" using e(5) offs(2) segs(1) by (simp add: word_less_nat_alt)
  have st: "stored img (payload_at ar number + unat ?s) (fl_sums L)" using e(9) [OF assms(10)] offs(1) by simp
  have range: "\<not> libmpq__reader_validate_payload_range ar ?i (unat ?s) (length (fl_sums L)) < 0"
    using payload_range_stored [OF ok assms(2) st] .
  have rd: "read_bytes (ar_source ar) ((nat (archive_offset ar) + payload_offset ar ?i + unat ?s) mod 2 ^ 64) (length (fl_sums L)) =
      Inr (fl_sums L)"
    using read_stored_mod [OF st] assms(2) by (simp add: payload_at_def)
  have decoded: "libmpq__compression_decompress_block (re_libs env) (re_alloc env) (re_fuel env) (fl_sums L) (replicate (4 * ?n) 0)
        LIBMPQ_FLAG_COMPRESS_MULTI (ucast (version (mpq_header ar))) = Some (int (4 * ?n), ?tab)"
      "length (fl_sums L) \<le> 4 * ?n" "libmpq__reader_decode_uint32_table ?tab ?n = fl_checks L"
    if some: "fl_sums L \<noteq> []" and small: "4 * ?n \<le> INT32_MAX"
  proof -
    obtain m where m: "libmpq__compression_encode_sector (re_libs env) (re_alloc env) (re_fuel env) ?tab (fl_requested L)
        (ucast (version (mpq_header ar))) (fl_policy L) = Some (Inr (fl_sums L, m))" "length (fl_checks L) = ?n"
      using e(10) [OF assms(10)] some by (auto simp: sums_packed_def)
    have "length ?tab < 2 ^ 31" using small m(2) by (simp add: INT32_MAX_def)
    from encode_sector_decodes [OF assms(6,7,5) this assms(8) [unfolded lossless_request_def] m(1), of "replicate (4 * ?n) 0" "re_fuel env"]
    show "libmpq__compression_decompress_block (re_libs env) (re_alloc env) (re_fuel env) (fl_sums L) (replicate (4 * ?n) 0)
        LIBMPQ_FLAG_COMPRESS_MULTI (ucast (version (mpq_header ar))) = Some (int (4 * ?n), ?tab)"
      "length (fl_sums L) \<le> 4 * ?n" "libmpq__reader_decode_uint32_table ?tab ?n = fl_checks L"
      using m(2) decode_le32_table [of "fl_checks L"] by simp_all
  qed
  note sums = e(10) [OF assms(10)]
  show ?thesis
  proof (cases "fl_sums L = [] \<or> \<not> 4 * ?n \<le> INT32_MAX")
    case True
    then show ?thesis
      using assms(4,10) e(1) cnt le fits
      by (auto simp: sector_checksums_def Let_def block_entry_def has_sums_def has_table_def mult.commute not_le)
  next
    case False
    have "sector_checksums (re_libs env) (re_alloc env) (re_fuel env) ar number \<in> {Some (Inr None), Some (Inr (Some (fl_checks L)))}"
      using False assms(4,5,10) e(1) cnt le fits range rd decoded
      by (auto simp: sector_checksums_def Let_def block_entry_def has_sums_def has_table_def mult.commute not_le)
    then show ?thesis using sums False by auto
  qed
qed

lemma entry_checksums:
  assumes "cache_ok ar" "ar_source ar = s" "number < ar_files ar" "mpq_file ar ! unat number = Some f" "\<And>n. re_alloc env n"
    and "zlib_contract (re_libs env)" "bzip2_contract (re_libs env)" "lossless_request (fl_requested L)"
    and "entry_stored env img ar number L plain" "open_count f \<noteq> 0" "open_count f + 1 \<noteq> 0"
    and "has_table (block_entry ar number) \<Longrightarrow>
      packed_offset f = offset_words (table_bytes (block_entry ar number) L) (segments (block_entry ar number) L)"
  obtains checks where
    "libmpq__reader_sector_checksums (re_libs env) (re_alloc env) (re_fuel env) ar number = Some (checks, ar)"
    "\<And>cs i. checks = Inr (Some cs) \<Longrightarrow> i < length (fl_packed L) \<Longrightarrow>
      \<not> checksum_mismatch (re_adler env) (Some (cs ! i)) (fl_packed L ! i)"
proof -
  let ?b = "block_entry ar number" and ?g = "f\<lparr>open_count := open_count f + 1\<rparr>"
  let ?held = "set_file ar number (Some ?g)"
  have room: "unat number < length (mpq_file ar)" using archive_ok_room assms(1,3) by (simp add: cache_ok_def)
  have held: "cache_ok ?held" using acquire_cache_ok [OF assms(1)] cached_acquire [OF assms(3,4)] by blast
  show thesis
  proof (cases "has_sums ?b")
    case True
    then have "has_table ?b" by (simp add: has_sums_def)
    then obtain checks where checks: "sector_checksums (re_libs env) (re_alloc env) (re_fuel env) ?held number = Some checks"
        "\<forall>cs. checks = Inr (Some cs) \<longrightarrow> sums_packed env ?held L \<and> fl_sums L \<noteq> [] \<and> cs = fl_checks L"
      using sums_read [OF held _ _ _ assms(5-8), of number ?g plain] assms(2,3,9,12) room True by auto
    have "\<not> checksum_mismatch (re_adler env) (Some (cs ! i)) (fl_packed L ! i)"
      if "checks = Inr (Some cs)" "i < length (fl_packed L)" for cs i
      using checks(2) that by (auto simp: sums_packed_def checksum_mismatch_def)
    then show thesis using that checksums_held [OF assms(3) room assms(4,10) checks(1)] by blast
  next
    case False
    have "mpq_block ?held = mpq_block ar" by (simp add: set_file_def)
    then have "sector_checksums (re_libs env) (re_alloc env) (re_fuel env) ?held number = Some (Inr None)"
      using False by (auto simp: sector_checksums_def block_entry_def has_sums_def has_table_def)
    then show thesis using that checksums_held [OF assms(3) room assms(4,10)] by blast
  qed
qed

end

lemma entry_readable:
  assumes "serves (ar_source ar) img" "cache_ok ar" "number < ar_files ar" "mpq_file ar ! unat number = None" "\<And>n. re_alloc env n"
    and "zlib_contract (re_libs env)" "bzip2_contract (re_libs env)" "lossless_request (fl_requested L)"
    and "entry_stored env img ar number L plain" "key_given ar number (fl_seed L) h" "length plain \<le> length out"
  obtains f where "acquire_with (re_alloc env) ar number h = (0, set_file ar number (Some f))"
    "read_member env (set_file ar number (Some f)) number out =
      Some (Inr (write_at out 0 plain, length plain, False), set_file ar number (Some f))"
proof -
  note src = serves_archive_source [OF assms(1)]
  have ok: "archive_ok ar" using assms(2) by (simp add: cache_ok_def)
  note room [simp] = archive_ok_room [OF ok assms(3)]
  let ?b = "block_entry ar number" and ?parts = "map (part_of ar number plain) [0..<length (fl_packed L)]"
  obtain f where f: "acquire_with (re_alloc env) ar number h = (0, set_file ar number (Some f))" "file_ok ar number f" "open_count f = 1"
      "has_table ?b \<Longrightarrow> packed_offset f = offset_words (table_bytes ?b L) (segments ?b L)"
      "encrypted_entry ?b \<Longrightarrow> seed_known f \<and> seed f = fl_seed L"
    using archive_source.acquire_entry [OF src assms(2) refl assms(3-5,9,10)] by blast
  let ?ar = "set_file ar number (Some f)" and ?g = "f\<lparr>open_count := open_count f + 1\<rparr>"
  have held: "cache_ok ?ar" by (rule acquire_cache_ok [OF assms(2) f(1)])
  then have twice: "cache_ok (set_file ?ar number (Some ?g))"
    using acquire_cache_ok [OF held cached_acquire [of number ?ar f "re_alloc env"]] assms(3) by simp
  obtain checks where checks:
      "libmpq__reader_sector_checksums (re_libs env) (re_alloc env) (re_fuel env) (set_file ?ar number (Some ?g)) number =
        Some (checks, set_file ?ar number (Some ?g))"
      "\<And>cs i. checks = Inr (Some cs) \<Longrightarrow> i < length (fl_packed L) \<Longrightarrow>
        \<not> checksum_mismatch (re_adler env) (Some (cs ! i)) (fl_packed L ! i)"
    by (rule archive_source.entry_checksums [OF src twice _ _ _ assms(5-8), of number ?g plain])
      (use assms(3,9) f(3,4) in simp_all)
  have parts: "held_parts env img ?ar number f (fl_packed L) ?parts"
    using entry_held [OF assms(2,3,9) f(2) assms(6,7,5,8) f(4,5)] by simp
  have plain: "concat ?parts = plain" by (rule parts_of_entry(1) [OF ok assms(3,9)])
  have "read_member env ?ar number out = Some (Inr (write_at out 0 plain, length plain, False), ?ar)"
    using archive_source.read_member_held [OF src held _ _ _ parts assms(5), of checks out, unfolded plain]
      assms(3,11) f(3) checks entry_storedD(2) [OF assms(9)] by (simp add: Let_def)
  then show thesis using that f(1) by blast
qed

subsection \<open>The comparison with the attributes\<close>

text \<open>The complete read compares the data with the attributes of the archive. It passes when the entry is one
  that is not compared, when there are no attributes, or when the loaded ones hold for the data.\<close>

definition attributes_pass :: "reader_env \<Rightarrow> mpq_archive_s \<Rightarrow> u32 \<Rightarrow> u8 list \<Rightarrow> bool" where
  "attributes_pass env ar number plain \<longleftrightarrow> \<not> write_mode ar \<and>
     (names_itself ar number \<or>
      (case ar_attributes ar of
         None \<Rightarrow> (\<exists>e. internal_number ar LIBMPQ_ATTRIBUTES_NAME = Inl e)
       | Some view \<Rightarrow>
           let attrs = libmpq__attributes_get view (block_index ar number)
           in available_checks attrs \<noteq> 0 \<longrightarrow> compare_data env attrs (available_checks attrs) plain = 0))"

lemma attributes_pass_set_file [simp]: "attributes_pass env (set_file ar n g) = attributes_pass env ar"
proof -
  have "write_mode (set_file ar n g) = write_mode ar" "ar_attributes (set_file ar n g) = ar_attributes ar"
    by (simp_all add: set_file_def)
  then show ?thesis by (simp add: fun_eq_iff attributes_pass_def names_itself_def split: option.split)
qed

lemma verify_data_passes:
  assumes "attributes_pass env ar number bytes" "number < ar_files ar" "length bytes = unat (unpacked_size (block_entry ar number))"
  shows "\<exists>ar'. libmpq__attributes_verify_data env ar number bytes = Some (Inr 0, ar')"
proof (cases "names_itself ar number")
  case True
  then show ?thesis using assms by (simp add: libmpq__attributes_verify_data_def attributes_pass_def not_le)
next
  case False
  show ?thesis
  proof (cases "ar_attributes ar")
    case None
    then have "no_attributes ar" using assms(1) False by (simp add: attributes_pass_def no_attributes_def)
    then show ?thesis using verify_data_absent [OF _ assms(2,3)] by blast
  next
    case (Some view)
    then have load: "libmpq__attributes_load env ar = Some (0, ar)" by (simp add: libmpq__attributes_load_def)
    show ?thesis
      using assms False Some load
      by (auto simp: libmpq__attributes_verify_data_def libmpq__file_attributes_def libmpq__archive_attributes_def
          attributes_pass_def libmpq__reader_validate_file_number_def Let_def not_le)
  qed
qed

subsection \<open>Samples\<close>

text \<open>The ten zero bytes behind a table with a checksum, the checksum of a sector being its length here; and
  ten bytes stored raw and encrypted under the key 7.\<close>

definition checked_env :: reader_env where
  "checked_env = sample_env\<lparr>re_adler := \<lambda>c bs. of_nat (length bs)\<rparr>"

definition checked_block :: mpq_block_s where
  "checked_block = \<lparr>offset = 64, packed_size = 22, unpacked_size = 10, flags = 0x84000200\<rparr>"

definition checked_payload :: "u8 list" where
  "checked_payload = [12, 0, 0, 0, 18, 0, 0, 0, 22, 0, 0, 0] @ [0x20, 0, 0, 0, 10, 7] @ [6, 0, 0, 0]"

definition checked_layout :: file_layout where
  "checked_layout = \<lparr>fl_seed = 0, fl_requested = LIBMPQ_COMPRESSION_SPARSE, fl_policy = 0,
     fl_packed = [[0x20, 0, 0, 0, 10, 7]], fl_sums = [6, 0, 0, 0], fl_checks = [6]\<rparr>"

definition raw_block :: mpq_block_s where
  "raw_block = \<lparr>offset = 64, packed_size = 10, unpacked_size = 10, flags = 0x80010000\<rparr>"

definition raw_payload :: "u8 list" where
  "raw_payload = cipher True 7 [1, 2, 3, 4, 5, 6, 7, 8, 9, 10]"

definition raw_layout :: file_layout where
  "raw_layout = \<lparr>fl_seed = 7, fl_requested = 0, fl_policy = 0, fl_packed = [[1, 2, 3, 4, 5, 6, 7, 8, 9, 10]], fl_sums = [], fl_checks = []\<rparr>"

lemma checked_env_facts:
  "re_alloc checked_env = (\<lambda>_. True)" "zlib_contract (re_libs checked_env)" "bzip2_contract (re_libs checked_env)"
  using sample_env_facts by (simp_all add: checked_env_def)

lemma short_sector_stored:
  "libmpq__compression_encode_sector stored_libs (\<lambda>_. True) 1 [6, 0, 0, 0] LIBMPQ_COMPRESSION_SPARSE 0 0 = Some (Inr ([6, 0, 0, 0], 0))"
  by (simp add: libmpq__compression_encode_sector_def sector_finish_def libmpq__compression_allowed_def sector_masks_def
      sector_step_def compression_stage_def compression_bits Let_def LIBMPQ_ARCHIVE_VERSION_TWO_def
      LIBMPQ_COMPRESSION_POLICY_STANDARD_def)

lemma checked_stored:
  assumes "one_file_archive checked_block checked_payload ar"
  shows "entry_stored checked_env (one_file_image checked_block checked_payload) ar 0 checked_layout (replicate 10 0)"
    "key_given ar 0 0 None"
proof -
  have on: "\<not> encrypted_entry checked_block" "\<not> single_unit checked_block" "offset checked_block = 64"
    by (simp_all add: checked_block_def flag_bits)
  note facts = one_file_facts [OF assms on(2,3)]
  have n: "libmpq__reader_count_file_blocks ar 0 = 1" using facts(5) by (simp add: checked_block_def)
  have h: "mpq_header ar = sample_header" using assms by (simp add: one_file_archive_def)
  have sums: "has_sums checked_block" "has_table checked_block" "codec_kind checked_block = LIBMPQ_FLAG_COMPRESS_MULTI"
    by (simp_all add: has_sums_def has_table_def packed_codec_def codec_kind_def checked_block_def flag_bits)
  have segs: "segments checked_block checked_layout = [[0x20, 0, 0, 0, 10, 7], [6, 0, 0, 0]]"
    "table_bytes checked_block checked_layout = 12"
    using sums by (simp_all add: segments_def table_bytes_def checked_layout_def)
  have words: "offset_words 12 [[0x20, 0, 0, 0, 10, 7], [6, 0, 0, 0]] = [12, 18, 22]"
    by (simp add: offset_words_def offsets_of_def numeral_eq_Suc)
  have "part_of ar 0 plain 0 = take 4096 plain" for plain using facts(2,3) on(2) by (simp add: part_of_def sector_of_def)
  then have sec: "part_of ar 0 (replicate 10 0) 0 = [0, 0, 0, 0, 0, 0, 0, 0, 0, 0]" by (simp add: numeral_eq_Suc)
  have at: "stored (one_file_image b payload) 64 bytes \<longleftrightarrow> stored payload 0 bytes"
    "stored (one_file_image b payload) 76 bytes \<longleftrightarrow> stored payload 12 bytes"
    "stored (one_file_image b payload) 82 bytes \<longleftrightarrow> stored payload 18 bytes" for b payload bytes
    using one_file_image_payload [of _ _ 0] one_file_image_payload [of _ _ 12] one_file_image_payload [of _ _ 18] by simp_all
  have part: "part_packed checked_env ar LIBMPQ_FLAG_COMPRESS_MULTI LIBMPQ_COMPRESSION_SPARSE 0 [0, 0, 0, 0, 0, 0, 0, 0, 0, 0] [0x20, 0, 0, 0, 10, 7]"
    using sector_example h by (simp add: part_packed_def checked_env_def sample_env_def sample_header_def LIBMPQ_FLAG_COMPRESS_MULTI_def
        LIBMPQ_FLAG_COMPRESS_PKZIP_def)
  have "sums_packed checked_env ar checked_layout"
    using short_sector_stored h by (simp add: sums_packed_def checked_layout_def checked_env_def sample_env_def sample_header_def le32_bytes_def)
  then show "entry_stored checked_env (one_file_image checked_block checked_payload) ar 0 checked_layout (replicate 10 0)"
    unfolding entry_stored_def Let_def facts(2-4) n segs words sums
    using on sums sec part
    by (simp add: checked_layout_def checked_block_def offsets_of_def at)
      (simp add: stored_def checked_payload_def cipher_def le32_bytes_def)
  show "key_given ar 0 0 None" using facts(2) on by (simp add: key_given_def)
qed

lemma raw_stored:
  assumes "one_file_archive raw_block raw_payload ar"
  shows "entry_stored checked_env (one_file_image raw_block raw_payload) ar 0 raw_layout [1, 2, 3, 4, 5, 6, 7, 8, 9, 10]"
    "key_given ar 0 7 (Some 7)"
proof -
  have on: "encrypted_entry raw_block" "\<not> single_unit raw_block" "offset raw_block = 64"
    by (simp_all add: raw_block_def flag_bits)
  note facts = one_file_facts [OF assms on(2,3)]
  have n: "libmpq__reader_count_file_blocks ar 0 = 1" using facts(5) by (simp add: raw_block_def)
  have kind: "\<not> has_table raw_block" "\<not> has_sums raw_block" "codec_kind raw_block = 0"
    by (simp_all add: has_sums_def has_table_def packed_codec_def codec_kind_def raw_block_def flag_bits)
  have segs: "segments raw_block raw_layout = [[1, 2, 3, 4, 5, 6, 7, 8, 9, 10]]" "table_bytes raw_block raw_layout = 0"
    using kind by (simp_all add: segments_def table_bytes_def raw_layout_def)
  have part: "part_of ar 0 [1, 2, 3, 4, 5, 6, 7, 8, 9, 10] 0 = [1, 2, 3, 4, 5, 6, 7, 8, 9, 10]"
    using facts(2,3) on(2) by (simp add: part_of_def sector_of_def)
  have "stored (one_file_image raw_block raw_payload) 64 raw_payload"
    using one_file_image_payload [where n = 0 and payload = raw_payload and bytes = raw_payload] by (simp add: stored_def)
  then show "entry_stored checked_env (one_file_image raw_block raw_payload) ar 0 raw_layout [1, 2, 3, 4, 5, 6, 7, 8, 9, 10]"
    unfolding entry_stored_def Let_def facts(2-4) n segs kind
    using on kind part by (simp add: raw_layout_def part_packed_def offsets_of_def raw_payload_def) (simp add: raw_block_def)
  show "key_given ar 0 7 (Some 7)" using facts(2) by (simp add: key_given_def named_seed_def raw_block_def LIBMPQ_FLAG_KEY_V2_def)
qed

subsection \<open>Properties\<close>

text \<open>C1: reading a file returns what is stored. In an archive over a file, a callback or an encrypted
  stream, take an entry in any of the layouts: raw in sectors or as a single unit; packed as a single
  unit; or packed in sectors behind the table of their offsets, with or without a table of sector
  checksums; each part packed by the sector encoder with any lossless methods, or by the PKWARE
  encoder; and all of it encrypted under the entry's key if the entry is encrypted. If the attributes
  of the archive, where it has any, hold for the plain bytes, then acquiring the entry (by name when
  it is encrypted) succeeds, and the complete read then returns 0 with exactly the plain bytes at the
  front of the caller's buffer, the bytes behind them untouched.\<close>

theorem file_read_stored:
  assumes "serves (ar_source ar) img" "cache_ok ar" "number < ar_files ar" "mpq_file ar ! unat number = None"
    and "attributes_pass env ar number plain"
    and "\<And>n. re_alloc env n" "zlib_contract (re_libs env)" "bzip2_contract (re_libs env)" "lossless_request (fl_requested L)"
    and "entry_stored env img ar number L plain" "key_given ar number (fl_seed L) h" "length plain \<le> length out"
  shows "\<exists>held ar'. acquire_with (re_alloc env) ar number h = (0, held) \<and>
    libmpq__reader_file_read env held number out = Some (Inr (plain @ drop (length plain) out, length plain), ar')"
proof -
  obtain f where acq: "acquire_with (re_alloc env) ar number h = (0, set_file ar number (Some f))"
    and rd: "read_member env (set_file ar number (Some f)) number out =
      Some (Inr (write_at out 0 plain, length plain, False), set_file ar number (Some f))"
    by (rule entry_readable [OF assms(1-4,6-12)])
  let ?held = "set_file ar number (Some f)"
  have w: "write_at out 0 plain = plain @ drop (length plain) out" using assms(12) by (simp add: write_at_def)
  obtain ar' where "libmpq__attributes_verify_data env ?held number plain = Some (Inr 0, ar')"
    using verify_data_passes [of env ?held number plain] assms(3,5) entry_storedD(2) [OF assms(10)] by auto
  then have "libmpq__reader_file_read env ?held number out = Some (Inr (plain @ drop (length plain) out, length plain), ar')"
    using rd w by (simp add: libmpq__reader_file_read_def)
  then show ?thesis using acq by blast
qed

theorem file_read_stored_witness:
  "(\<exists>ar held ar'. acquire_with (\<lambda>_. True) ar 0 None = (0, held) \<and>
      libmpq__reader_file_read checked_env held 0 (replicate 12 9) = Some (Inr (replicate 10 0 @ [9, 9], 10), ar')) \<and>
   (\<exists>ar held ar'. acquire_with (\<lambda>_. True) ar 0 (Some 7) = (0, held) \<and>
      libmpq__reader_file_read checked_env held 0 (replicate 12 9) = Some (Inr ([1, 2, 3, 4, 5, 6, 7, 8, 9, 10, 9, 9], 10), ar'))"
proof
  have lossless: "lossless_request (fl_requested checked_layout)" "lossless_request (fl_requested raw_layout)"
    by (simp_all add: lossless_request_def compression_bits checked_layout_def raw_layout_def)
  have pass: "attributes_pass checked_env ar 0 plain" if "one_file_archive b payload ar" for b payload ar plain
    using one_file_no_attributes [OF that] by (auto simp: attributes_pass_def no_attributes_def)
  have fresh: "serves (ar_source ar) (one_file_image b payload)" "cache_ok ar" "0 < ar_files ar" "mpq_file ar ! unat (0 :: u32) = None"
    if "one_file_archive b payload ar" "length payload < 2 ^ 32" for b payload ar
    using that one_file_serves by (simp_all add: one_file_archive_def)
  have all: "re_alloc checked_env n" for n using checked_env_facts(1) by simp
  obtain ar where ar: "one_file_archive checked_block checked_payload ar"
    using one_file_opens [of checked_block checked_payload] by (auto simp: checked_block_def checked_payload_def flag_bits)
  have small: "length checked_payload < 2 ^ 32" by (simp add: checked_payload_def)
  show "\<exists>ar held ar'. acquire_with (\<lambda>_. True) ar 0 None = (0, held) \<and>
      libmpq__reader_file_read checked_env held 0 (replicate 12 9) = Some (Inr (replicate 10 0 @ [9, 9], 10), ar')"
    using file_read_stored [OF fresh [OF ar small] pass [OF ar] all checked_env_facts(2,3) lossless(1) checked_stored(1) [OF ar],
        of None "replicate 12 9"] checked_stored(2) [OF ar] checked_env_facts(1)
    by (auto simp: numeral_eq_Suc checked_layout_def)
  obtain ar where ar: "one_file_archive raw_block raw_payload ar"
    using one_file_opens [of raw_block raw_payload] by (auto simp: raw_block_def raw_payload_def flag_bits)
  have small: "length raw_payload < 2 ^ 32" by (simp add: raw_payload_def)
  show "\<exists>ar held ar'. acquire_with (\<lambda>_. True) ar 0 (Some 7) = (0, held) \<and>
      libmpq__reader_file_read checked_env held 0 (replicate 12 9) = Some (Inr ([1, 2, 3, 4, 5, 6, 7, 8, 9, 10, 9, 9], 10), ar')"
    using file_read_stored [OF fresh [OF ar small] pass [OF ar] all checked_env_facts(2,3) lossless(2) raw_stored(1) [OF ar],
        of "Some 7" "replicate 12 9"] raw_stored(2) [OF ar] checked_env_facts(1)
    by (auto simp: numeral_eq_Suc raw_layout_def)
qed

end
