(* ===== verification/Mpq_Stream.thy ===== *)
theory Mpq_Stream
  imports Mpq_Member
begin

text \<open>
  Incremental reads (\<^verbatim>\<open>src/mpq-stream.c\<close>): a stream owns a clone of the archive, holds the offsets of one
  file and caches one decoded sector; reads, seeks and position queries work on the logical bytes. The
  abstract specification is a file in memory with a position. The refinement theorem says that every
  sequence of calls on a stream over a stored file answers as the abstract file does; the resource
  theorem that the openers give back the source's blocks, the FILE stream, the stream handle and its
  checksum array; the last theorem that a load that fails leaves a stale sector behind.
\<close>

subsection \<open>State\<close>

text \<open>\<^verbatim>\<open>struct mpq_stream\<close>; \<^verbatim>\<open>buffer_size\<close> is the length of the buffer, which is empty where the code has NULL.\<close>

record mpq_stream_s =
  st_archive :: mpq_archive_s
  st_file_number :: u32
  st_blocks :: u32
  cached_block :: u32
  st_checksums :: "u32 list option"
  st_buffer :: "u8 list"
  offsets_acquired :: bool
  block_valid :: bool
  st_size :: int
  st_position :: int
  st_block_size :: int

definition sizeof_mpq_stream_s :: nat where "sizeof_mpq_stream_s = 80"

definition LIBMPQ_SEEK_SET :: int where "LIBMPQ_SEEK_SET = 0"
definition LIBMPQ_SEEK_CUR :: int where "LIBMPQ_SEEK_CUR = 1"
definition LIBMPQ_SEEK_END :: int where "LIBMPQ_SEEK_END = 2"

subsection \<open>Loading a sector\<close>

text \<open>The buffer only grows. The bytes that \<^verbatim>\<open>realloc\<close> adds are unspecified in C; a sector read never uses
  what is in the buffer, so zeros stand for them.\<close>

definition grow_buffer :: "u8 list \<Rightarrow> nat \<Rightarrow> u8 list" where
  "grow_buffer buffer n = buffer @ replicate (n - length buffer) 0"

text \<open>What a sector read leaves: the buffer is replaced in any case, the description of the cached sector
  only on success.\<close>

definition finish_load :: "mpq_stream_s \<Rightarrow> u32 \<Rightarrow> block_out \<Rightarrow> int \<times> mpq_stream_s" where
  "finish_load st block r =
     (let st = st\<lparr>st_buffer := bo_buffer r\<rparr>
      in if bo_mismatch r then (error_code ERROR_READ, st)
         else if bo_status r \<noteq> 0 then (bo_status r, st)
         else (0, st\<lparr>cached_block := block, block_valid := True,
           st_block_size := (case bo_transferred r of None \<Rightarrow> 0 | Some n \<Rightarrow> n)\<rparr>))"

definition stream_load_block :: "reader_env \<Rightarrow> mpq_stream_s \<Rightarrow> u32 \<Rightarrow> (int \<times> mpq_stream_s) option" where
  "stream_load_block env st block =
     (if block_valid st \<and> cached_block st = block then Some (0, st)
      else case libmpq__block_size_unpacked (st_archive st) (st_file_number st) block of
        Inl e \<Rightarrow> Some (error_code e, st)
      | Inr n \<Rightarrow>
          if n > length (st_buffer st) \<and> \<not> re_alloc env n then Some (error_code ERROR_MALLOC, st)
          else map_option (finish_load st block)
            (read_sector env (st_archive st) (st_file_number st) block (grow_buffer (st_buffer st) n)
              (map_option (\<lambda>c. c ! unat block) (st_checksums st))))"

text \<open>A load changes the cached sector only.\<close>

definition same_stream :: "mpq_stream_s \<Rightarrow> mpq_stream_s \<Rightarrow> bool" where
  "same_stream st st' \<longleftrightarrow> st_position st' = st_position st \<and> st_size st' = st_size st \<and> st_archive st' = st_archive st \<and>
     st_blocks st' = st_blocks st \<and> st_file_number st' = st_file_number st \<and> st_checksums st' = st_checksums st \<and>
     offsets_acquired st' = offsets_acquired st"

lemma finish_load_frame: "same_stream st (snd (finish_load st block r))"
  by (simp add: finish_load_def Let_def same_stream_def)

lemma stream_load_block_frame:
  assumes "stream_load_block env st block = Some (status, st')"
  shows "same_stream st st'"
proof (cases "st' = st")
  case True
  then show ?thesis by (simp add: same_stream_def)
next
  case False
  then obtain r where "finish_load st block r = (status, st')"
    using assms by (auto simp: stream_load_block_def split: if_split_asm sum.split_asm)
  then show ?thesis using finish_load_frame [of st block r] by simp
qed

subsection \<open>Reading\<close>

definition stream_block :: "mpq_stream_s \<Rightarrow> u32" where
  "stream_block st =
     (if st_blocks st = 1 then 0 else of_int (st_position st div uint (ar_block_size (st_archive st))))"

definition stream_base :: "mpq_stream_s \<Rightarrow> u32 \<Rightarrow> int" where
  "stream_base st block = (if st_blocks st = 1 then 0 else uint block * uint (ar_block_size (st_archive st)))"

text \<open>The read loop; it returns the status, the caller's buffer, the bytes transferred and the stream. Each
  turn transfers at least one byte.\<close>

function stream_loop ::
  "reader_env \<Rightarrow> mpq_stream_s \<Rightarrow> u8 list \<Rightarrow> nat \<Rightarrow> nat \<Rightarrow> (int \<times> u8 list \<times> nat \<times> mpq_stream_s) option" where
  "stream_loop env st out n got =
     (if got < n \<and> st_position st < st_size st then
        (case stream_load_block env st (stream_block st) of
           None \<Rightarrow> None
         | Some (status, st') \<Rightarrow>
             if status \<noteq> 0 then Some (status, out, got, st')
             else
               let off = st_position st' - stream_base st' (stream_block st);
                   available = st_block_size st' - off;
                   count = min (min (int (n - got)) available) (st_size st' - st_position st')
               in if off < 0 \<or> off > st_block_size st' then Some (error_code ERROR_READ, out, got, st')
                  else if available = 0 then Some (error_code ERROR_READ, out, got, st')
                  else stream_loop env (st'\<lparr>st_position := st_position st' + count\<rparr>)
                    (write_at out got (take (nat count) (drop (nat off) (st_buffer st')))) n (got + nat count))
      else Some (0, out, got, st))"
  by auto
termination
  by (relation "measure (\<lambda>(env, st, out, n, got). n - got)") (auto dest!: stream_load_block_frame simp: same_stream_def)

declare stream_loop.simps [simp del]

definition libmpq__reader_stream_read ::
  "reader_env \<Rightarrow> mpq_stream_s option \<Rightarrow> ptr \<Rightarrow> int \<Rightarrow> (int \<times> ptr \<times> nat \<times> mpq_stream_s option) option" where
  "libmpq__reader_stream_read env handle buffer n =
     (if n < 0 then Some (error_code ERROR_SIZE, buffer, 0, handle)
      else case handle of
        None \<Rightarrow> Some (error_code ERROR_EXIST, buffer, 0, None)
      | Some st \<Rightarrow>
          if buffer = None \<and> n \<noteq> 0 then Some (error_code ERROR_EXIST, buffer, 0, Some st)
          else map_option (\<lambda>(status, out, got, st). (status, map_option (\<lambda>_. out) buffer, got, Some st))
            (stream_loop env st (case buffer of None \<Rightarrow> [] | Some b \<Rightarrow> b) (nat n) 0))"

subsection \<open>Position and size\<close>

definition INT64_MIN :: int where "INT64_MIN = - int INT64_MAX - 1"

definition seek_base :: "mpq_stream_s \<Rightarrow> int \<Rightarrow> int option" where
  "seek_base st origin =
     (if origin = LIBMPQ_SEEK_SET then Some 0 else if origin = LIBMPQ_SEEK_CUR then Some (st_position st)
      else if origin = LIBMPQ_SEEK_END then Some (st_size st) else None)"

definition libmpq__reader_stream_seek :: "mpq_stream_s option \<Rightarrow> int \<Rightarrow> int \<Rightarrow> int \<times> mpq_stream_s option" where
  "libmpq__reader_stream_seek handle off origin =
     (case handle of
        None \<Rightarrow> (error_code ERROR_EXIST, None)
      | Some st \<Rightarrow>
          (case seek_base st origin of
             None \<Rightarrow> (error_code ERROR_SEEK, Some st)
           | Some base \<Rightarrow>
               if off > 0 \<and> base > int INT64_MAX - off \<or> off < 0 \<and> base < INT64_MIN - off then (error_code ERROR_SEEK, Some st)
               else if base + off < 0 \<or> base + off > st_size st then (error_code ERROR_SEEK, Some st)
               else (0, Some (st\<lparr>st_position := base + off\<rparr>))))"

definition libmpq__reader_stream_tell :: "mpq_stream_s option \<Rightarrow> out_ptr \<Rightarrow> int result" where
  "libmpq__reader_stream_tell handle pos =
     (case handle of None \<Rightarrow> Inl ERROR_EXIST | Some st \<Rightarrow> if pos = None then Inl ERROR_EXIST else Inr (st_position st))"

definition libmpq__reader_stream_size :: "mpq_stream_s option \<Rightarrow> out_ptr \<Rightarrow> int result" where
  "libmpq__reader_stream_size handle out =
     (case handle of None \<Rightarrow> Inl ERROR_EXIST | Some st \<Rightarrow> if out = None then Inl ERROR_EXIST else Inr (st_size st))"

subsection \<open>Opening and closing\<close>

definition libmpq__archive_clone ::
  "(resource \<Rightarrow> bool) \<Rightarrow> (nat \<Rightarrow> bool) \<Rightarrow> fopen_fn \<Rightarrow> out_ptr \<Rightarrow> mpq_archive_s option \<Rightarrow> mpq_archive_s io \<times> log" where
  "libmpq__archive_clone alloc_src alloc fopen clone source =
     (if clone = None then (Inl (error_code ERROR_EXIST), [])
      else case source of
        None \<Rightarrow> (Inl (error_code ERROR_EXIST), [])
      | Some ar \<Rightarrow>
          if write_mode ar then (Inl (error_code ERROR_EXIST), [])
          else libmpq__reader_archive_clone alloc_src alloc fopen clone source)"

text \<open>The sizes a new stream records, and the check that the key of an encrypted file is known.\<close>

definition adopt_checks :: "mpq_archive_s \<Rightarrow> u32 \<Rightarrow> (nat \<times> u32) result" where
  "adopt_checks ar number =
     (case (libmpq__file_size_unpacked ar number, libmpq__file_blocks ar number) of
        (Inl e, _) \<Rightarrow> Inl e
      | (Inr n, Inl e) \<Rightarrow> Inl e
      | (Inr n, Inr blocks) \<Rightarrow>
          if blocks = 0 then Inr (n, blocks)
          else case libmpq__file_flags (Some ar) number (Some 0) of
            Inl e \<Rightarrow> Inl e
          | Inr fl \<Rightarrow>
              if fl AND LIBMPQ_FLAG_ENCRYPTED = 0 then Inr (n, blocks)
              else case mpq_file ar ! unat number of
                None \<Rightarrow> Inl ERROR_FORMAT
              | Some f \<Rightarrow>
                  let start = packed_offset f ! 0; end' = packed_offset f ! 1
                  in if packed_offset_count f < 2 then Inl ERROR_FORMAT
                     else if end' < start then Inl ERROR_FORMAT
                     else if end' - start \<ge> 4 then
                       (case libmpq__reader_get_block_seed ar number 0 of Inl e \<Rightarrow> Inl e | Inr _ \<Rightarrow> Inr (n, blocks))
                     else Inr (n, blocks))"

text \<open>\<^verbatim>\<open>stream_adopt\<close> owns the clone: every failure closes it and, once allocated, frees the handle. The
  checksum array is still NULL at every jump to the error label.\<close>

definition close_clone :: "mpq_archive_s \<Rightarrow> log" where
  "close_clone ar = snd (libmpq__archive_close (Some ar))"

definition new_stream :: "mpq_archive_s \<Rightarrow> u32 \<Rightarrow> nat \<Rightarrow> u32 \<Rightarrow> u32 list option io \<Rightarrow> mpq_stream_s" where
  "new_stream ar number n blocks checks =
     \<lparr>st_archive = ar, st_file_number = number, st_blocks = blocks, cached_block = 0xFFFFFFFF,
      st_checksums = (case checks of Inl _ \<Rightarrow> None | Inr c \<Rightarrow> c), st_buffer = [], offsets_acquired = True,
      block_valid = False, st_size = int n, st_position = 0, st_block_size = 0\<rparr>"

lemma new_stream_archive [simp]: "st_archive (new_stream ar number n blocks checks) = ar"
  by (simp add: new_stream_def)

definition stream_adopt ::
  "reader_env \<Rightarrow> bool \<Rightarrow> mpq_archive_s option \<Rightarrow> u32 \<Rightarrow> u8 list option \<Rightarrow> out_ptr \<Rightarrow> (mpq_stream_s io \<times> log) option" where
  "stream_adopt env char_signed archive number name handle =
     (case archive of
        None \<Rightarrow> Some (Inl (error_code ERROR_EXIST), [])
      | Some ar \<Rightarrow>
          if handle = None \<or> write_mode ar \<or> libmpq__reader_validate_file_number ar number \<noteq> 0
          then Some (Inl (error_code ERROR_EXIST), close_clone ar)
          else if \<not> re_alloc env sizeof_mpq_stream_s then Some (Inl (error_code ERROR_MALLOC), close_clone ar)
          else do {
            (status, ar) \<leftarrow> libmpq__reader_offsets_acquire char_signed (re_alloc env) ar number name;
            if status \<noteq> 0 then Some (Inl status, [Acquire Stream_block] @ close_clone ar @ [Release Stream_block])
            else case adopt_checks ar number of
              Inl e \<Rightarrow>
                Some (Inl (error_code e),
                  [Acquire Stream_block] @ close_clone (snd (libmpq__reader_offsets_release ar number)) @ [Release Stream_block])
            | Inr (n, blocks) \<Rightarrow> do {
                (checks, ar) \<leftarrow> libmpq__reader_sector_checksums (re_libs env) (re_alloc env) (re_fuel env) ar number;
                let st = new_stream ar number n blocks checks;
                Some (Inr st, Acquire Stream_block # (if st_checksums st = None then [] else [Acquire Checksum_array]))
              }
          })"

definition libmpq__reader_stream_open ::
  "reader_env \<Rightarrow> (resource \<Rightarrow> bool) \<Rightarrow> fopen_fn \<Rightarrow> mpq_archive_s option \<Rightarrow> u32 \<Rightarrow> out_ptr \<Rightarrow> (mpq_stream_s io \<times> log) option" where
  "libmpq__reader_stream_open env alloc_src fopen archive number handle =
     (if handle = None then Some (Inl (error_code ERROR_EXIST), [])
      else case archive of
        None \<Rightarrow> Some (Inl (error_code ERROR_EXIST), [])
      | Some ar \<Rightarrow>
          if write_mode ar \<or> libmpq__reader_validate_file_number ar number \<noteq> 0 then Some (Inl (error_code ERROR_EXIST), [])
          else case libmpq__archive_clone alloc_src (re_alloc env) fopen (Some 0) archive of
            (Inl e, log) \<Rightarrow> Some (Inl e, log)
          | (Inr clone, log) \<Rightarrow>
              map_option (\<lambda>(r, log'). (r, log @ log')) (stream_adopt env False (Some clone) number None handle))"

definition libmpq__reader_stream_open_name ::
  "reader_env \<Rightarrow> bool \<Rightarrow> (resource \<Rightarrow> bool) \<Rightarrow> fopen_fn \<Rightarrow> mpq_archive_s option \<Rightarrow> u8 list option \<Rightarrow> out_ptr \<Rightarrow>
     (mpq_stream_s io \<times> log) option" where
  "libmpq__reader_stream_open_name env char_signed alloc_src fopen archive filename handle =
     (if handle = None then Some (Inl (error_code ERROR_EXIST), [])
      else case (archive, filename) of
        (Some ar, Some name) \<Rightarrow>
          if write_mode ar then Some (Inl (error_code ERROR_EXIST), [])
          else (case libmpq__archive_clone alloc_src (re_alloc env) fopen (Some 0) archive of
            (Inl e, log) \<Rightarrow> Some (Inl e, log)
          | (Inr clone, log) \<Rightarrow> do {
              r \<leftarrow> libmpq__file_number char_signed clone name;
              case r of
                Inl e \<Rightarrow> Some (Inl (error_code e), log @ close_clone clone)
              | Inr number \<Rightarrow>
                  map_option (\<lambda>(r, log'). (r, log @ log')) (stream_adopt env char_signed (Some clone) number filename handle)
            })
      | _ \<Rightarrow> Some (Inl (error_code ERROR_EXIST), []))"

definition libmpq__reader_stream_close :: "mpq_stream_s option \<Rightarrow> int \<times> log" where
  "libmpq__reader_stream_close handle =
     (case handle of
        None \<Rightarrow> (error_code ERROR_EXIST, [])
      | Some st \<Rightarrow>
          let (released, ar) = (if offsets_acquired st then libmpq__reader_offsets_release (st_archive st) (st_file_number st)
                else (0, st_archive st));
              (closed, log) = libmpq__archive_close (Some ar)
          in (if released = 0 then closed else released,
              (if st_checksums st = None then [] else [Release Checksum_array]) @ log @ [Release Stream_block]))"

subsection \<open>The abstract file\<close>

text \<open>The calls of a client, and their answers: status, bytes, value.\<close>

datatype stream_op = Op_Read nat | Op_Seek int int | Op_Tell | Op_Size

type_synonym stream_reply = "int \<times> u8 list \<times> int"

definition value_reply :: "int result \<Rightarrow> stream_reply" where
  "value_reply r = (case r of Inl e \<Rightarrow> (error_code e, [], 0) | Inr v \<Rightarrow> (0, [], v))"

text \<open>The file that a stream presents: its bytes and a position.\<close>

fun file_call :: "u8 list \<Rightarrow> nat \<Rightarrow> stream_op \<Rightarrow> stream_reply \<times> nat" where
  "file_call plain pos (Op_Read n) =
     (let bytes = take n (drop pos plain) in ((0, bytes, int (length bytes)), pos + length bytes))"
| "file_call plain pos (Op_Seek off origin) =
     (let target = (if origin = 0 then 0 else if origin = 1 then int pos else int (length plain)) + off
      in if origin \<in> {0, 1, 2} \<and> 0 \<le> target \<and> target \<le> int (length plain) then ((0, [], 0), nat target)
         else ((error_code ERROR_SEEK, [], 0), pos))"
| "file_call plain pos Op_Tell = ((0, [], int pos), pos)"
| "file_call plain pos Op_Size = ((0, [], int (length plain)), pos)"

fun file_run :: "u8 list \<Rightarrow> nat \<Rightarrow> stream_op list \<Rightarrow> stream_reply list" where
  "file_run plain pos [] = []"
| "file_run plain pos (op # ops) = (let (r, pos) = file_call plain pos op in r # file_run plain pos ops)"

text \<open>The same calls on a stream.\<close>

fun stream_call :: "reader_env \<Rightarrow> mpq_stream_s \<Rightarrow> stream_op \<Rightarrow> (stream_reply \<times> mpq_stream_s) option" where
  "stream_call env st (Op_Read n) =
     (case libmpq__reader_stream_read env (Some st) (Some (replicate n 0)) (int n) of
        Some (status, Some out, got, Some st) \<Rightarrow> Some ((status, take got out, int got), st)
      | _ \<Rightarrow> None)"
| "stream_call env st (Op_Seek off origin) =
     (case libmpq__reader_stream_seek (Some st) off origin of
        (status, Some st) \<Rightarrow> Some ((status, [], 0), st)
      | _ \<Rightarrow> None)"
| "stream_call env st Op_Tell = Some (value_reply (libmpq__reader_stream_tell (Some st) (Some 0)), st)"
| "stream_call env st Op_Size = Some (value_reply (libmpq__reader_stream_size (Some st) (Some 0)), st)"

fun stream_run :: "reader_env \<Rightarrow> mpq_stream_s \<Rightarrow> stream_op list \<Rightarrow> stream_reply list option" where
  "stream_run env st [] = Some []"
| "stream_run env st (op # ops) = do {
     (r, st) \<leftarrow> stream_call env st op;
     rs \<leftarrow> stream_run env st ops;
     Some (r # rs)
   }"

subsection \<open>The invariant of a stream over readable sectors\<close>

text \<open>The sectors of a file can be read: the interface reports their sizes, and a sector read into any
  buffer that has room puts the bytes of the sector at its front.\<close>

definition sectors_readable :: "reader_env \<Rightarrow> nat \<Rightarrow> u8 list \<Rightarrow> mpq_stream_s \<Rightarrow> bool" where
  "sectors_readable env bs plain st \<longleftrightarrow>
     (\<forall>i<unat (st_blocks st). let sec = sector_of bs plain i in
        libmpq__block_size_unpacked (st_archive st) (st_file_number st) (of_nat i) = Inr (length sec) \<and>
        re_alloc env (length sec) \<and>
        (\<forall>out. length sec \<le> length out \<longrightarrow> (\<exists>lossy.
           read_sector env (st_archive st) (st_file_number st) (of_nat i) out (map_option (\<lambda>c. c ! i) (st_checksums st)) =
             Some \<lparr>bo_status = 0, bo_buffer = write_at out 0 sec, bo_transferred = Some (int (length sec)),
               bo_mismatch = False, bo_lossy = lossy\<rparr>)))"

definition holds_sector :: "nat \<Rightarrow> u8 list \<Rightarrow> mpq_stream_s \<Rightarrow> nat \<Rightarrow> bool" where
  "holds_sector bs plain st i \<longleftrightarrow> i < unat (st_blocks st) \<and> block_valid st \<and> cached_block st = of_nat i \<and>
     st_block_size st = int (length (sector_of bs plain i)) \<and>
     (\<exists>rest. st_buffer st = sector_of bs plain i @ rest)"

definition stream_ok :: "reader_env \<Rightarrow> nat \<Rightarrow> u8 list \<Rightarrow> mpq_stream_s \<Rightarrow> bool" where
  "stream_ok env bs plain st \<longleftrightarrow>
     0 < bs \<and> length plain \<le> unat (st_blocks st) * bs \<and> length plain < 2 ^ 32 \<and>
     (st_blocks st \<noteq> 1 \<longrightarrow> bs = unat (ar_block_size (st_archive st))) \<and>
     st_size st = int (length plain) \<and> 0 \<le> st_position st \<and> st_position st \<le> st_size st \<and>
     sectors_readable env bs plain st \<and> (block_valid st \<longrightarrow> (\<exists>i. holds_sector bs plain st i))"

lemma unat_lt_of_nat: "i < unat (n :: u32) \<Longrightarrow> unat (of_nat i :: u32) = i"
  using u32_bound [of n] by (intro u32_of_nat) linarith

lemma load_block_ok:
  assumes "stream_ok env bs plain st" "i < unat (st_blocks st)"
  shows "\<exists>st'. stream_load_block env st (of_nat i) = Some (0, st') \<and> stream_ok env bs plain st' \<and> holds_sector bs plain st' i"
proof (cases "block_valid st \<and> cached_block st = of_nat i")
  case True
  then obtain j where j: "holds_sector bs plain st j" using assms(1) by (auto simp: stream_ok_def)
  then have "(of_nat j :: u32) = of_nat i" "j < unat (st_blocks st)" using True by (auto simp: holds_sector_def)
  then have "j = i" using unat_lt_of_nat assms(2) by metis
  then show ?thesis using True j assms(1) by (auto simp: stream_load_block_def)
next
  case False
  let ?sec = "sector_of bs plain i" and ?buf = "grow_buffer (st_buffer st) (length (sector_of bs plain i))"
  have room: "length ?sec \<le> length ?buf" by (simp add: grow_buffer_def)
  have ui: "unat (of_nat i :: u32) = i" using unat_lt_of_nat [OF assms(2)] .
  obtain lossy where rd: "libmpq__block_size_unpacked (st_archive st) (st_file_number st) (of_nat i) = Inr (length ?sec)"
      "re_alloc env (length ?sec)"
      "read_sector env (st_archive st) (st_file_number st) (of_nat i) ?buf (map_option (\<lambda>c. c ! i) (st_checksums st)) =
         Some \<lparr>bo_status = 0, bo_buffer = write_at ?buf 0 ?sec, bo_transferred = Some (int (length ?sec)),
           bo_mismatch = False, bo_lossy = lossy\<rparr>"
    using assms room unfolding stream_ok_def sectors_readable_def Let_def by blast
  let ?st = "st\<lparr>st_buffer := write_at ?buf 0 ?sec, cached_block := of_nat i, block_valid := True,
    st_block_size := int (length ?sec)\<rparr>"
  have "stream_load_block env st (of_nat i) = Some (0, ?st)"
    using False rd ui by (auto simp: stream_load_block_def finish_load_def Let_def)
  moreover have holds: "holds_sector bs plain ?st i"
    using assms(2) room by (simp add: holds_sector_def write_at_def)
  moreover have "stream_ok env bs plain ?st"
    using assms(1) holds by (auto simp: stream_ok_def sectors_readable_def)
  ultimately show ?thesis by blast
qed

text \<open>The sector of a position, and what it holds from there.\<close>

lemma stream_block_ok:
  assumes "stream_ok env bs plain st" "st_position st < st_size st"
  defines "pos \<equiv> nat (st_position st)"
  shows "stream_block st = of_nat (pos div bs)" "pos div bs < unat (st_blocks st)"
    "stream_base st (stream_block st) = int (pos div bs * bs)"
proof -
  have bs: "0 < bs" "length plain \<le> unat (st_blocks st) * bs" "st_blocks st \<noteq> 1 \<Longrightarrow> bs = unat (ar_block_size (st_archive st))"
    and p: "st_position st = int pos" "pos < length plain"
    using assms by (auto simp: stream_ok_def pos_def)
  show lt: "pos div bs < unat (st_blocks st)"
    using bs(1,2) p(2) by (simp add: div_less_iff_less_mult)
  then have u: "unat (of_nat (pos div bs) :: u32) = pos div bs" by (rule unat_lt_of_nat)
  show blk: "stream_block st = of_nat (pos div bs)"
  proof (cases "st_blocks st = 1")
    case True
    then show ?thesis using lt by (simp add: stream_block_def)
  next
    case False
    then have "st_position st div uint (ar_block_size (st_archive st)) = int (pos div bs)"
      using bs(3) p(1) by (simp add: zdiv_int)
    then show ?thesis using False by (simp add: stream_block_def)
  qed
  show "stream_base st (stream_block st) = int (pos div bs * bs)"
  proof (cases "st_blocks st = 1")
    case True
    then show ?thesis using lt by (simp add: stream_base_def)
  next
    case False
    have "uint (of_nat (pos div bs) :: u32) = int (pos div bs)" using u by (metis uint_nat)
    then show ?thesis using False bs(3) blk by (simp add: stream_base_def)
  qed
qed

lemma sector_from:
  assumes "0 < bs" "pos < length plain"
  defines "i \<equiv> pos div bs"
  shows "drop (pos - i * bs) (sector_of bs plain i) = take (Suc i * bs - pos) (drop pos plain)"
    "pos - i * bs < length (sector_of bs plain i)"
proof -
  have m: "i * bs \<le> pos" "pos < Suc i * bs" using assms(1)
    by (simp_all add: i_def dividend_less_div_times)
  then show "drop (pos - i * bs) (sector_of bs plain i) = take (Suc i * bs - pos) (drop pos plain)"
    by (simp add: sector_of_def drop_take add.commute)
  show "pos - i * bs < length (sector_of bs plain i)"
    using m assms(2) by (auto simp: sector_of_def)
qed

subsection \<open>Each call answers as the file does\<close>

definition at_position :: "mpq_stream_s \<Rightarrow> nat \<Rightarrow> bool" where
  "at_position st pos \<longleftrightarrow> st_position st = int pos"

lemma stream_ok_position: "stream_ok env bs plain st \<Longrightarrow> at_position st pos \<Longrightarrow> pos \<le> length plain"
  by (simp add: stream_ok_def at_position_def)

text \<open>One turn of the loop: the sector is loaded, and the rest of it or of the request is copied.\<close>

lemma stream_loop_turn:
  assumes "stream_ok env bs plain st" "at_position st pos" "got < n" "pos < length plain"
  obtains st' k where "0 < k" "k \<le> n - got" "stream_ok env bs plain st'" "at_position st' (pos + k)" "pos + k \<le> length plain"
    "stream_loop env st out n got = stream_loop env st' (write_at out got (take k (drop pos plain))) n (got + k)"
proof -
  let ?i = "pos div bs" and ?sec = "sector_of bs plain (pos div bs)"
  have bs: "0 < bs" and lt: "st_position st < st_size st" and pos: "nat (st_position st) = pos"
    using assms by (auto simp: stream_ok_def at_position_def)
  note blk = stream_block_ok [OF assms(1) lt, unfolded pos] and part = sector_from [OF bs assms(4)]
  obtain st1 where ld: "stream_load_block env st (of_nat ?i) = Some (0, st1)" and ok: "stream_ok env bs plain st1"
    and holds: "holds_sector bs plain st1 ?i"
    using load_block_ok [OF assms(1) blk(2)] by blast
  have same: "same_stream st st1" by (rule stream_load_block_frame [OF ld])
  then have base: "stream_base st1 (of_nat ?i) = int (?i * bs)"
    using blk(1,3) by (auto simp: stream_base_def same_stream_def split: if_splits)
  have p1: "st_position st1 = int pos" "st_size st1 = int (length plain)"
    using same assms(1,2) by (simp_all add: same_stream_def at_position_def stream_ok_def)
  obtain rest where sec: "st_block_size st1 = int (length ?sec)" "st_buffer st1 = ?sec @ rest"
    using holds by (auto simp: holds_sector_def)
  define off where "off = pos - ?i * bs"
  note part = part [folded off_def]
  have off: "int pos - int (?i * bs) = int off" by (simp add: of_nat_diff off_def)
  define k where "k = min (min (n - got) (length ?sec - off)) (length plain - pos)"
  have k: "0 < k" "k \<le> n - got" "k \<le> length ?sec - off" "pos + k \<le> length plain"
    using assms(3,4) part(2) by (auto simp: k_def)
  have kint: "min (min (int (n - got)) (int (length ?sec) - int off)) (int (length plain) - int pos) = int k"
  proof -
    have "int (length ?sec) - int off = int (length ?sec - off)" "int (length plain) - int pos = int (length plain - pos)"
      using part(2) assms(4) by (simp_all only: of_nat_diff less_imp_le)
    then show ?thesis by (simp only: k_def of_nat_min)
  qed
  have "take k (drop off (st_buffer st1)) = take k (drop off ?sec)" using k(3) sec(2) by simp
  moreover have "k \<le> Suc ?i * bs - pos" using k(3) part(1) by (metis length_drop length_take min.boundedE)
  ultimately have copied: "take k (drop off (st_buffer st1)) = take k (drop pos plain)"
    unfolding part(1) take_take by (simp only: min_absorb1)
  let ?st = "st1\<lparr>st_position := int pos + int k\<rparr>"
  have "stream_loop env st out n got = stream_loop env ?st (write_at out got (take k (drop pos plain))) n (got + k)"
    using assms(3) lt part(2) kint copied
    by (subst stream_loop.simps)
      (simp only: blk(1) ld p1 base sec(1) off Let_def option.case prod.case, simp)
  moreover have "stream_ok env bs plain ?st"
    using ok k(4) p1(2) by (auto simp: stream_ok_def sectors_readable_def holds_sector_def)
  moreover have "at_position ?st (pos + k)" by (simp add: at_position_def)
  ultimately show thesis using that k by blast
qed

lemma stream_loop_reads:
  assumes "stream_ok env bs plain st" "at_position st pos" "n \<le> length out" "got \<le> n"
  shows "\<exists>st'. stream_loop env st out n got =
      Some (0, write_at out got (take (n - got) (drop pos plain)), got + length (take (n - got) (drop pos plain)), st') \<and>
    stream_ok env bs plain st' \<and> at_position st' (pos + length (take (n - got) (drop pos plain)))"
  using assms
proof (induction "n - got" arbitrary: st pos out got rule: less_induct)
  case less
  show ?case
  proof (cases "got < n \<and> pos < length plain")
    case False
    then have stop: "take (n - got) (drop pos plain) = []" and over: "\<not> (got < n \<and> st_position st < st_size st)"
      using less.prems(1,2) by (auto simp: stream_ok_def at_position_def)
    have "stream_loop env st out n got = Some (0, out, got, st)"
      by (subst stream_loop.simps) (rule if_not_P [OF over])
    then show ?thesis unfolding stop using less.prems(1,2) by (simp add: write_at_def)
  next
    case True
    obtain st1 k where turn: "0 < k" "k \<le> n - got" "stream_ok env bs plain st1" "at_position st1 (pos + k)" "pos + k \<le> length plain"
        "stream_loop env st out n got = stream_loop env st1 (write_at out got (take k (drop pos plain))) n (got + k)"
      using stream_loop_turn [OF less.prems(1,2), of got n] True by blast
    let ?a = "take k (drop pos plain)" and ?b = "take (n - (got + k)) (drop (pos + k) plain)"
    have "n - got = k + (n - (got + k))" using turn(2) by simp
    then have app: "take (n - got) (drop pos plain) = ?a @ ?b" by (simp only: take_add drop_drop add.commute)
    have la: "length ?a = k" using turn(5) by simp
    have step: "n - (got + k) < n - got" "got + k \<le> n" using turn(1,2) True by linarith+
    have "length (write_at out got ?a) = length out" using turn(2) la less.prems(3,4) by (intro length_write_at) linarith
    then obtain st' where "stream_loop env st1 (write_at out got ?a) n (got + k) =
          Some (0, write_at (write_at out got ?a) (got + k) ?b, got + k + length ?b, st')"
        "stream_ok env bs plain st'" "at_position st' (pos + k + length ?b)"
      using less.hyps [OF step(1) turn(3,4) _ step(2), of "write_at out got ?a"] less.prems(3) by metis
    moreover have "write_at (write_at out got ?a) (got + k) ?b = write_at out got (?a @ ?b)"
      using write_at_append [of got ?a ?b out] la turn(2) less.prems(3,4) by simp
    ultimately show ?thesis using turn(6) app la by (auto simp: add.assoc)
  qed
qed

lemma stream_call_ok:
  assumes "stream_ok env bs plain st" "at_position st pos"
  shows "\<exists>st'. stream_call env st op = Some (fst (file_call plain pos op), st') \<and> stream_ok env bs plain st' \<and>
    at_position st' (snd (file_call plain pos op))"
proof (cases op)
  case (Op_Read n)
  define bytes where "bytes = take n (drop pos plain)"
  obtain st' where st': "stream_loop env st (replicate n 0) n 0 = Some (0, write_at (replicate n 0) 0 bytes, length bytes, st')"
      "stream_ok env bs plain st'" "at_position st' (pos + length bytes)"
    using stream_loop_reads [OF assms, of n "replicate n 0" 0] unfolding bytes_def by auto
  have "take (length bytes) (write_at (replicate n 0) 0 bytes) = bytes" by (simp add: write_at_def)
  then have "stream_call env st op = Some ((0, bytes, int (length bytes)), st')"
    using st'(1) by (simp add: Op_Read libmpq__reader_stream_read_def)
  moreover have "file_call plain pos op = ((0, bytes, int (length bytes)), pos + length bytes)"
    by (simp only: Op_Read bytes_def file_call.simps Let_def)
  ultimately show ?thesis using st'(2,3) by simp
next
  case (Op_Seek off origin)
  have small: "int (length plain) < int INT64_MAX" "st_position st = int pos" "st_size st = int (length plain)" "pos \<le> length plain"
    using assms by (auto simp: stream_ok_def at_position_def INT64_MAX_def)
  define base where "base = (if origin = 0 then 0 else if origin = 1 then int pos else int (length plain))"
  have target: "seek_base st origin = (if origin \<in> {0, 1, 2} then Some base else None)" "0 \<le> base" "base \<le> int (length plain)"
    using small by (simp_all add: base_def seek_base_def LIBMPQ_SEEK_SET_def LIBMPQ_SEEK_CUR_def LIBMPQ_SEEK_END_def)
  have answer: "file_call plain pos op = (if origin \<in> {0, 1, 2} \<and> 0 \<le> base + off \<and> base + off \<le> int (length plain)
      then ((0, [], 0), nat (base + off)) else ((error_code ERROR_SEEK, [], 0), pos))"
    by (simp only: Op_Seek base_def file_call.simps Let_def)
  show ?thesis
  proof (cases "origin \<in> {0, 1, 2} \<and> 0 \<le> base + off \<and> base + off \<le> int (length plain)")
    case True
    then have "\<not> (off > 0 \<and> base > int INT64_MAX - off \<or> off < 0 \<and> base < INT64_MIN - off)"
      using small(1) unfolding INT64_MIN_def by linarith
    then have "stream_call env st op = Some ((0, [], 0), st\<lparr>st_position := base + off\<rparr>)"
      using True target(1) small(3) by (simp add: Op_Seek libmpq__reader_stream_seek_def)
    moreover have "stream_ok env bs plain (st\<lparr>st_position := base + off\<rparr>)"
      using True assms(1) by (auto simp: stream_ok_def sectors_readable_def holds_sector_def)
    ultimately show ?thesis using True answer by (simp add: at_position_def)
  next
    case False
    have "stream_call env st op = Some ((error_code ERROR_SEEK, [], 0), st)"
    proof (cases "origin \<in> {0, 1, 2}")
      case True
      then have "base + off < 0 \<or> base + off > st_size st" using False small(3) by linarith
      then show ?thesis using True target(1) by (simp add: Op_Seek libmpq__reader_stream_seek_def)
    qed (use target(1) in \<open>simp add: Op_Seek libmpq__reader_stream_seek_def\<close>)
    then show ?thesis using False answer assms by simp
  qed
qed (use assms in \<open>auto simp: value_reply_def libmpq__reader_stream_tell_def libmpq__reader_stream_size_def
    stream_ok_def at_position_def\<close>)

lemma stream_run_ok:
  "stream_ok env bs plain st \<Longrightarrow> at_position st pos \<Longrightarrow> stream_run env st ops = Some (file_run plain pos ops)"
proof (induction ops arbitrary: st pos)
  case (Cons op ops)
  obtain st' where "stream_call env st op = Some (fst (file_call plain pos op), st')" "stream_ok env bs plain st'"
      "at_position st' (snd (file_call plain pos op))"
    using stream_call_ok [OF Cons.prems] by blast
  then show ?case using Cons.IH by (simp add: split_beta)
qed simp

subsection \<open>A stream over a stored file\<close>

text \<open>The key that a name gives, as the acquire takes it.\<close>

definition name_hash_is :: "bool \<Rightarrow> u8 list option \<Rightarrow> u32 option \<Rightarrow> bool" where
  "name_hash_is char_signed name h =
     (case name of
        None \<Rightarrow> h = None
      | Some bytes \<Rightarrow> h \<noteq> None \<and> libmpq__crypto_hash_string char_signed bytes 0x300 = h)"

lemma acquire_named:
  assumes "name_hash_is char_signed name h" "needs_name_hash alloc ar number"
  shows "libmpq__reader_offsets_acquire char_signed alloc ar number name = Some (acquire_with alloc ar number h)"
  using assms by (cases name) (auto simp: name_hash_is_def libmpq__reader_offsets_acquire_def)

lemma adopt_checks_ready:
  assumes "cache_ok ar" "number < ar_files ar" "ready ar number sd packed"
    and "member_stored env img ar number sd requested policy packed plain"
  shows "adopt_checks ar number = Inr (length plain, libmpq__reader_count_file_blocks ar number)"
proof -
  let ?n = "libmpq__reader_count_file_blocks ar number"
  have ok: "archive_ok ar" using assms(1) by (simp add: cache_ok_def)
  note m = member_storedD [OF assms(4)] and t = member_offsets [OF ok assms(4)]
  obtain f where f: "mpq_file ar ! unat number = Some f" "packed_offset f = offset_words (4 * (length packed + 1)) packed"
      "encrypted_entry (block_entry ar number) \<Longrightarrow> seed_known f \<and> seed f = sd"
    using assms(3) by (auto simp: ready_def)
  have fok: "file_ok ar number f" using assms(1,2) f(1) by (simp add: cache_ok_def)
  show ?thesis
  proof (cases "?n = 0")
    case False
    then have z: "0 < ?n" "0 < length packed" using m(1) unat_gt_0 [of ?n] by (auto simp: word_gt_0)
    note c = file_ok_counts [OF fok z(1)]
    have "\<not> packed_offset f ! 1 < packed_offset f ! 0"
      using f(2) t(3) [of 0] t(3) [of 1] z(2) offsets_of_mono [of 0 1 "4 * (length packed + 1)" packed]
      by (simp add: word_less_nat_alt)
    moreover have "\<not> packed_offset_count f < 2"
      using c(3) by (simp add: word_less_nat_alt word_le_nat_alt)
    moreover have "libmpq__reader_get_block_seed ar number 0 = Inr (seed f)" if "encrypted_entry (block_entry ar number)"
      using that f(1,3) assms(2) z(1) c(3) by (auto simp: libmpq__reader_get_block_seed_def not_le)
    ultimately show ?thesis
      using f(1) False assms(2) m(5)
      by (auto simp: adopt_checks_def libmpq__file_size_unpacked_def libmpq__file_blocks_def libmpq__file_flags_def
          Let_def not_le encrypted_entry_def block_entry_def)
  qed (use assms(2) m(5) in \<open>auto simp: adopt_checks_def libmpq__file_size_unpacked_def libmpq__file_blocks_def not_le\<close>)
qed

lemma ready_readable:
  assumes "serves (ar_source ar) img" "cache_ok ar" "number < ar_files ar" "ready ar number sd packed" "\<And>n. re_alloc env n"
    and "zlib_contract (re_libs env)" "bzip2_contract (re_libs env)" "lossless_request requested"
    and "member_stored env img ar number sd requested policy packed plain"
    and "st_archive st = ar" "st_file_number st = number" "st_blocks st = libmpq__reader_count_file_blocks ar number"
    and "st_checksums st = None"
  shows "sectors_readable env (unat (ar_block_size ar)) plain st"
  unfolding sectors_readable_def Let_def
proof (intro allI impI)
  fix i assume i: "i < unat (st_blocks st)"
  have ok: "archive_ok ar" using assms(2) by (simp add: cache_ok_def)
  note m = member_storedD [OF assms(9)] and src = serves_archive_source [OF assms(1)]
  let ?sec = "sector_of (unat (ar_block_size ar)) plain i"
  have n: "i < length packed" "i < unat (libmpq__reader_count_file_blocks ar number)" using i assms(12) m(1) by simp_all
  have "libmpq__block_size_unpacked ar number (of_nat i) = Inr (length ?sec)"
    by (rule sector_size_stored [OF ok assms(3) m(3,5,6) n(2)])
  moreover have "\<exists>lossy. read_sector env ar number (of_nat i) out None =
      Some \<lparr>bo_status = 0, bo_buffer = write_at out 0 ?sec, bo_transferred = Some (int (length ?sec)),
        bo_mismatch = False, bo_lossy = lossy\<rparr>" if "length ?sec \<le> length out" for out
    using archive_source.read_sector_ready [OF src assms(2) refl assms(3,4,9,5-8) n(1) that, of None]
    by (auto simp: checksum_mismatch_def)
  ultimately show "libmpq__block_size_unpacked (st_archive st) (st_file_number st) (of_nat i) = Inr (length ?sec) \<and>
      re_alloc env (length ?sec) \<and> (\<forall>out. length ?sec \<le> length out \<longrightarrow> (\<exists>lossy.
        read_sector env (st_archive st) (st_file_number st) (of_nat i) out (map_option (\<lambda>c. c ! i) (st_checksums st)) =
          Some \<lparr>bo_status = 0, bo_buffer = write_at out 0 ?sec, bo_transferred = Some (int (length ?sec)),
            bo_mismatch = False, bo_lossy = lossy\<rparr>))"
    using assms(5,10,11,13) by simp
qed

lemma adopt_stored:
  assumes "serves (ar_source ar) img" "cache_ok ar" "number < ar_files ar" "mpq_file ar ! unat number = None" "\<And>n. re_alloc env n"
    and "zlib_contract (re_libs env)" "bzip2_contract (re_libs env)" "lossless_request requested"
    and "member_stored env img ar number sd requested policy packed plain" "key_given ar number sd h"
    and "\<not> write_mode ar" "name_hash_is char_signed name h"
  obtains st where "stream_adopt env char_signed (Some ar) number name (Some p) = Some (Inr st, [Acquire Stream_block])"
    "stream_ok env (unat (ar_block_size ar)) plain st" "at_position st 0"
proof -
  note src = serves_archive_source [OF assms(1)] and m = member_storedD [OF assms(9)]
  have ok: "archive_ok ar" using assms(2) by (simp add: cache_ok_def)
  note room = archive_ok_room [OF ok assms(3)]
  obtain f where f: "acquire_with (re_alloc env) ar number h = (0, set_file ar number (Some f))" "file_ok ar number f"
      "packed_offset f = offset_words (4 * (length packed + 1)) packed" "open_count f = 1"
      "encrypted_entry (block_entry ar number) \<longrightarrow> seed_known f \<and> seed f = sd"
    using archive_source.acquire_stored [OF src assms(2) refl assms(3-5,9,10)] by blast
  let ?ar = "set_file ar number (Some f)" and ?n = "libmpq__reader_count_file_blocks ar number"
  have held: "cache_ok ?ar" by (rule acquire_cache_ok [OF assms(2) f(1)])
  have ready: "ready ?ar number sd packed" using f(3,5) room by (simp add: ready_def)
  have "needs_name_hash (re_alloc env) ar number"
    using assms(3-5) member_offsets(1) [OF ok assms(9)] by (simp add: needs_name_hash_def offsets_allocs_def not_le)
  then have acq: "libmpq__reader_offsets_acquire char_signed (re_alloc env) ar number name = Some (0, ?ar)"
    using acquire_named [OF assms(12)] f(1) by simp
  have checks: "adopt_checks ?ar number = Inr (length plain, ?n)"
    using adopt_checks_ready [OF held _ ready, of env img requested policy plain] assms(3,9) by simp
  have sums: "libmpq__reader_sector_checksums (re_libs env) (re_alloc env) (re_fuel env) ?ar number = Some (Inr None, ?ar)"
    using checksums_absent [of number ?ar f] assms(3) room f(4) m(4) by simp
  let ?st = "\<lparr>st_archive = ?ar, st_file_number = number, st_blocks = ?n, cached_block = 0xFFFFFFFF, st_checksums = None,
    st_buffer = [], offsets_acquired = True, block_valid = False, st_size = int (length plain), st_position = 0, st_block_size = 0\<rparr>"
  have "stream_adopt env char_signed (Some ar) number name (Some p) = Some (Inr ?st, [Acquire Stream_block])"
    using assms(3,5,11) acq checks sums by (simp add: stream_adopt_def new_stream_def libmpq__reader_validate_file_number_def not_le)
  moreover have "sectors_readable env (unat (ar_block_size ar)) plain ?st"
    using ready_readable [OF _ held _ ready assms(5-8), of img policy plain ?st] assms(1,3,9) by simp
  then have "stream_ok env (unat (ar_block_size ar)) plain ?st"
    using archive_ok_block_size(2) [OF ok] blocks_cover [OF ok m(3)] m(5,6) u32_bound [of "unpacked_size (block_entry ar number)"]
    by (simp add: stream_ok_def)
  moreover have "at_position ?st 0" by (simp add: at_position_def)
  ultimately show thesis by (rule that)
qed

subsection \<open>A load that fails\<close>

text \<open>A sector read never shortens the buffer.\<close>

lemma length_write_at_ge: "length buf \<le> length (write_at buf off bs)" if "off \<le> length buf"
  using that by (simp add: write_at_def)

lemma read_sector_buffer:
  assumes "read_sector env ar number block out checksum = Some r"
  shows "length out \<le> length (bo_buffer r)"
proof -
  have failed: "length out \<le> length (bo_buffer (block_failed e out))" for e by (simp add: block_failed_def)
  have finished: "length out \<le> length (bo_buffer (finish_block o' m l d))" if "length out \<le> length o'" for o' m l d
    using that length_write_at_ge [of 0 o' "snd d"] by (cases d) (simp add: finish_block_def)
  show ?thesis
    using assms failed finished length_write_at_ge [of 0 out]
    unfolding read_sector_def libmpq__reader_block_read_acquired_def Let_def
    by (auto split: if_split_asm option.split_asm sum.split_asm)
qed

lemma failed_load_keeps:
  assumes "stream_load_block env st block = Some (e, st')" "e \<noteq> 0"
  shows "block_valid st' = block_valid st" "cached_block st' = cached_block st" "st_block_size st' = st_block_size st"
    "length (st_buffer st) \<le> length (st_buffer st')"
proof -
  have "block_valid st' = block_valid st \<and> cached_block st' = cached_block st \<and> st_block_size st' = st_block_size st \<and>
      length (st_buffer st) \<le> length (st_buffer st')"
  proof (cases "st' = st")
    case False
    then obtain n r where r: "finish_load st block r = (e, st')"
        "read_sector env (st_archive st) (st_file_number st) block (grow_buffer (st_buffer st) n)
           (map_option (\<lambda>c. c ! unat block) (st_checksums st)) = Some r"
      using assms by (auto simp: stream_load_block_def split: if_split_asm sum.split_asm)
    have "length (st_buffer st) \<le> length (bo_buffer r)"
      using read_sector_buffer [OF r(2)] by (simp add: grow_buffer_def)
    then show ?thesis using r(1) assms(2) by (auto simp: finish_load_def Let_def split: if_split_asm)
  qed simp
  then show "block_valid st' = block_valid st" "cached_block st' = cached_block st" "st_block_size st' = st_block_size st"
    "length (st_buffer st) \<le> length (st_buffer st')" by simp_all
qed

subsection \<open>Resources\<close>

text \<open>What is left of the resources of a stream's clone after a failed open, and after the stream is closed.\<close>

definition stream_balanced :: "(mpq_stream_s io \<times> log) option \<Rightarrow> bool" where
  "stream_balanced opened =
     (case opened of
        None \<Rightarrow> True
      | Some (Inl e, log) \<Rightarrow> (\<forall>r. held r log = 0)
      | Some (Inr st, log) \<Rightarrow> (\<forall>r. held r (log @ snd (libmpq__reader_stream_close (Some st))) = 0))"

text \<open>The offset cache leaves the source alone.\<close>

lemma mark_encrypted_source [simp]: "ar_source (mark_encrypted ar i) = ar_source ar"
  by (simp add: mark_encrypted_def)

lemma load_offsets_source: "ar_source (snd (load_offsets alloc ar number tsize f)) = ar_source ar"
  by (simp add: load_offsets_def Let_def split: sum.split)

lemma fill_offsets_source: "ar_source (snd (fill_offsets alloc ar number f)) = ar_source ar"
  using load_offsets_source [of alloc ar number "offsets_size ar number" f]
  by (cases "load_offsets alloc ar number (offsets_size ar number) f") (simp add: fill_offsets_def Let_def)

lemma acquire_with_source: "ar_source (snd (acquire_with alloc ar number h)) = ar_source ar"
proof -
  obtain r a where f: "fill_offsets alloc ar number (new_file ar number h) = (r, a)" by force
  then have "ar_source a = ar_source ar" using fill_offsets_source [of alloc ar number "new_file ar number h"] by simp
  then show ?thesis using f by (cases r) (auto simp: acquire_with_def Let_def split: option.split)
qed

lemma release_source: "ar_source (snd (libmpq__reader_offsets_release ar number)) = ar_source ar"
  by (simp add: libmpq__reader_offsets_release_def Let_def split: option.split)

lemma offsets_acquire_source:
  "libmpq__reader_offsets_acquire char_signed alloc ar number name = Some (status, ar') \<Longrightarrow> ar_source ar' = ar_source ar"
  using acquire_with_source by (elim offsets_acquire_cases) (metis snd_conv)

lemma checksums_source:
  assumes "libmpq__reader_sector_checksums libs alloc fuel ar number = Some (r, ar')"
  shows "ar_source ar' = ar_source ar"
proof -
  obtain status a where a: "acquire_with alloc ar number None = (status, a)" by force
  then have "ar_source a = ar_source ar" using acquire_with_source [of alloc ar number None] by simp
  then show ?thesis
    using assms a release_source [of a number]
    by (auto simp: libmpq__reader_sector_checksums_def bind_eq_Some_conv split: if_split_asm)
qed

lemma close_clone_source: "ar_source a = ar_source b \<Longrightarrow> close_clone a = close_clone b"
  by (simp add: close_clone_def libmpq__archive_close_def)

lemma stream_close_log:
  "snd (libmpq__reader_stream_close (Some st)) =
     (if st_checksums st = None then [] else [Release Checksum_array]) @ close_clone (st_archive st) @ [Release Stream_block]"
proof -
  let ?a = "if offsets_acquired st then snd (libmpq__reader_offsets_release (st_archive st) (st_file_number st)) else st_archive st"
  have "snd (libmpq__reader_stream_close (Some st)) =
      (if st_checksums st = None then [] else [Release Checksum_array]) @ close_clone ?a @ [Release Stream_block]"
    by (auto simp: libmpq__reader_stream_close_def Let_def close_clone_def split: prod.split)
  also have "close_clone ?a = close_clone (st_archive st)" by (rule close_clone_source) (simp add: release_source)
  finally show ?thesis .
qed

lemma balanced_adopt:
  assumes "\<forall>r. held r (log @ close_clone clone) = 0"
  shows "stream_balanced (map_option (\<lambda>(r, log'). (r, log @ log')) (stream_adopt env char_signed (Some clone) number name (Some p)))"
proof (cases "stream_adopt env char_signed (Some clone) number name (Some p)")
  case (Some adopted)
  then obtain r log' where adopted: "stream_adopt env char_signed (Some clone) number name (Some p) = Some (r, log')" by (cases adopted) auto
  have logged: "case r of
        Inl e \<Rightarrow> log' = close_clone clone \<or> log' = [Acquire Stream_block] @ close_clone clone @ [Release Stream_block]
      | Inr st \<Rightarrow> log' = Acquire Stream_block # (if st_checksums st = None then [] else [Acquire Checksum_array]) \<and>
          ar_source (st_archive st) = ar_source clone"
  proof (cases "write_mode clone \<or> libmpq__reader_validate_file_number clone number \<noteq> 0 \<or> \<not> re_alloc env sizeof_mpq_stream_s")
    case True
    then have "\<exists>e. stream_adopt env char_signed (Some clone) number name (Some p) = Some (Inl e, close_clone clone)"
      by (elim disjE) (simp_all add: stream_adopt_def)
    then show ?thesis using adopted by auto
  next
    case False
    then obtain status a where acq: "libmpq__reader_offsets_acquire char_signed (re_alloc env) clone number name = Some (status, a)"
      using adopted by (auto simp: stream_adopt_def bind_eq_Some_conv)
    have src: "ar_source a = ar_source clone" by (rule offsets_acquire_source [OF acq])
    then have sums: "ar_source b = ar_source clone"
      if "libmpq__reader_sector_checksums (re_libs env) (re_alloc env) (re_fuel env) a number = Some (c, b)" for b c
      using checksums_source [OF that] by simp
    from src have "close_clone a = close_clone clone"
        "close_clone (snd (libmpq__reader_offsets_release a number)) = close_clone clone"
      by (auto intro!: close_clone_source simp: release_source)
    then show ?thesis
      using adopted False acq src
      by (auto simp: stream_adopt_def bind_eq_Some_conv Let_def split: if_split_asm sum.split_asm) (erule sums)+
  qed
  show ?thesis
  proof (cases r)
    case (Inr st)
    then have "close_clone (st_archive st) = close_clone clone" using logged by (intro close_clone_source) simp
    then show ?thesis using logged adopted assms Inr by (simp add: stream_balanced_def stream_close_log)
  qed (use logged adopted assms in \<open>auto simp: stream_balanced_def\<close>)
qed (simp add: stream_balanced_def)

subsection \<open>A sample stream over two sectors\<close>

definition pair_block :: mpq_block_s where
  "pair_block = \<lparr>offset = 64, packed_size = 4109, unpacked_size = 4097, flags = 0x80000200\<rparr>"

definition pair_plain :: "u8 list" where
  "pair_plain = replicate 4096 1 @ [2]"

definition pair_payload :: "u8 list" where
  "pair_payload = [12, 0, 0, 0, 12, 16, 0, 0, 13, 16, 0, 0] @ pair_plain"

lemma length_pair [simp]: "length pair_plain = 4097" "length pair_payload = 4109"
  by (simp_all add: pair_payload_def pair_plain_def)

lemma encode_sector_raw:
  assumes "\<And>n. alloc n"
  shows "libmpq__compression_encode_sector libs alloc fuel input 0 0 0 = Some (Inr (input, 0))"
proof -
  have "sector_loop libs alloc fuel 0 masks st = Some (Inr st)" for masks st by (induction masks) simp_all
  moreover have "libmpq__compression_allowed 0 0 0"
    by (simp add: libmpq__compression_allowed_def compression_bits LIBMPQ_ARCHIVE_VERSION_TWO_def
        LIBMPQ_COMPRESSION_POLICY_STANDARD_def LIBMPQ_COMPRESSION_POLICY_EXTENDED_def)
  ultimately show ?thesis
    using assms by (simp add: libmpq__compression_encode_sector_def sector_finish_def LIBMPQ_COMPRESSION_LZMA_def)
qed

lemma pair_opens: obtains ar where "one_file_archive pair_block pair_payload ar"
  using one_file_opens [of pair_block pair_payload] by (auto simp: pair_block_def flag_bits)

lemma pair_sectors: "sector_of 4096 pair_plain 0 = replicate 4096 1" "sector_of 4096 pair_plain (Suc 0) = [2]"
  by (simp_all add: sector_of_def pair_plain_def)

lemma pair_facts:
  assumes "one_file_archive pair_block pair_payload ar"
  shows "archive_ok ar" "block_entry ar 0 = pair_block" "ar_block_size ar = 4096" "payload_at ar 0 = 64"
    "libmpq__reader_count_file_blocks ar 0 = 2"
  using one_file_facts [OF assms] by (simp_all add: pair_block_def flag_bits)

lemma pair_member_stored:
  assumes "one_file_archive pair_block pair_payload ar"
  shows "member_stored sample_env (one_file_image pair_block pair_payload) ar 0 0 0 0 [replicate 4096 1, [2]] pair_plain"
    "key_given ar 0 0 None"
proof -
  have on: "\<not> encrypted_entry pair_block" by (simp add: pair_block_def flag_bits)
  note facts = pair_facts [OF assms]
  have words: "offset_words 12 [replicate 4096 1, [2]] = [12, 4108, 4109]"
    by (simp add: offset_words_def offsets_of_def numeral_eq_Suc)
  have at: "stored (one_file_image b payload) (64 + n) bytes \<longleftrightarrow> stored payload n bytes" for b payload n bytes
    by (rule one_file_image_payload)
  have st: "stored pair_payload 0 (concat (map le32_bytes [12, 4108, 4109]))" "stored pair_payload 12 (replicate 4096 1)"
    "stored pair_payload 4108 [2]"
    by (simp_all add: stored_def pair_payload_def pair_plain_def le32_bytes_def)
  have enc: "libmpq__compression_encode_sector (re_libs sample_env) (re_alloc sample_env) (re_fuel sample_env) input 0 0 0 = Some (Inr (input, 0))"
    for input by (rule encode_sector_raw) (simp add: sample_env_def)
  have h: "mpq_header ar = sample_header" "(ucast (version sample_header) :: u32) = 0"
    using assms by (simp_all add: one_file_archive_def sample_header_def)
  have two: "i < 2 \<longleftrightarrow> i = 0 \<or> i = (1 :: nat)" for i by auto
  show "member_stored sample_env (one_file_image pair_block pair_payload) ar 0 0 0 0 [replicate 4096 1, [2]] pair_plain"
    unfolding member_stored_def Let_def facts(2-5) h
    using on words st at [of _ _ 0] at [of _ _ 12] at [of _ _ 4108]
    by (simp add: enc two pair_sectors offsets_of_def cipher_def)
      (simp add: pair_block_def flag_bits pair_plain_def)
  show "key_given ar 0 0 None" using facts(2) on by (simp add: key_given_def)
qed

subsection \<open>Properties\<close>



text \<open>A seek from the start of the file to the beginning of a sector.\<close>

lemma seek_to_sector:
  assumes "p \<le> length plain" "st_size st = int (length plain)" "length plain < 2 ^ 32"
  shows "stream_call env st (Op_Seek (int p) 0) = Some ((0, [], 0), st\<lparr>st_position := int p\<rparr>)"
  using assms by (auto simp: libmpq__reader_stream_seek_def seek_base_def LIBMPQ_SEEK_SET_def INT64_MAX_def)

text \<open>A read at the beginning of the cached sector copies from the buffer.\<close>

lemma read_cached_sector:
  assumes "block_valid st" "cached_block st = of_nat i" "st_block_size st = int len" "st_blocks st \<noteq> 1"
    and "st_position st = int (i * bs)" "bs = unat (ar_block_size (st_archive st))" "0 < bs" "i * bs + len \<le> nat (st_size st)"
    and "0 < n" "n \<le> len" "len \<le> length (st_buffer st)" "i < 2 ^ 32"
  shows "stream_call env st (Op_Read n) =
    Some ((0, take n (st_buffer st), int n), st\<lparr>st_position := int (i * bs) + int n\<rparr>)"
proof -
  have bs: "uint (ar_block_size (st_archive st)) = int bs" by (simp add: assms(6))
  have div: "st_position st div uint (ar_block_size (st_archive st)) = int i"
    unfolding bs assms(5) using assms(7) by simp
  have blk: "stream_block st = of_nat i" using div assms(4) by (simp add: stream_block_def)
  have base: "stream_base st (of_nat i) = int (i * bs)"
  proof -
    have "uint (of_nat i :: u32) = int i" using u32_of_nat [of i] assms(12) by (metis uint_nat)
    then show ?thesis using assms(4) bs by (simp add: stream_base_def)
  qed
  have ld: "stream_load_block env st (of_nat i) = Some (0, st)" using assms(1,2) by (simp add: stream_load_block_def)
  have lt: "int (i * bs) < st_size st" "int n \<le> st_size st - int (i * bs)" using assms(8-10) by linarith+
  have "stream_loop env st (replicate n 0) n 0 =
      stream_loop env (st\<lparr>st_position := int (i * bs) + int n\<rparr>) (write_at (replicate n 0) 0 (take n (st_buffer st))) n n"
    using assms(9,10) lt
    by (subst stream_loop.simps) (simp only: blk ld base assms(3,5) Let_def option.case prod.case, simp)
  also have "\<dots> = Some (0, write_at (replicate n 0) 0 (take n (st_buffer st)), n, st\<lparr>st_position := int (i * bs) + int n\<rparr>)"
    by (subst stream_loop.simps) (rule if_not_P, simp)
  finally show ?thesis
    using assms(10,11) by (simp add: libmpq__reader_stream_read_def write_at_def)
qed

text \<open>C19: a sector load that fails after it has overwritten the buffer leaves the description of the cached
  sector in place. A client that has read from sector i, gets an error from sector j, and seeks to
  sector i again, is then served, with status 0, from the bytes that the failed load left in the
  buffer instead of those of sector i.\<close>

theorem stream_stale_sector:
  assumes "bs = unat (ar_block_size (st_archive st))" "0 < bs" "st_blocks st \<noteq> 1"
    and "st_size st = int (length plain)" "length plain < 2 ^ 32" "holds_sector bs plain st i"
    and "j * bs < length plain" "stream_load_block env (st\<lparr>st_position := int (j * bs)\<rparr>) (of_nat j) = Some (e, st')" "e \<noteq> 0"
    and "0 < n" "n \<le> length (sector_of bs plain i)"
  shows "stream_run env st [Op_Seek (int (j * bs)) 0, Op_Read 1, Op_Seek (int (i * bs)) 0, Op_Read n] =
    Some [(0, [], 0), (e, [], 0), (0, [], 0), (0, take n (st_buffer st'), int n)]"
proof -
  let ?at = "st\<lparr>st_position := int (j * bs)\<rparr>" and ?len = "length (sector_of bs plain i)"
  let ?sec = "st'\<lparr>st_position := int (i * bs)\<rparr>"
  note keep = failed_load_keeps [OF assms(8,9)] and same = stream_load_block_frame [OF assms(8)]
  have holds: "i < unat (st_blocks st)" "block_valid st" "cached_block st = of_nat i" "st_block_size st = int ?len"
      "?len \<le> length (st_buffer st)"
    using assms(6) by (auto simp: holds_sector_def)
  have small: "i < 2 ^ 32" using holds(1) u32_bound [of "st_blocks st"] by (rule less_trans)
  have i: "i * bs + ?len \<le> length plain" using assms(10,11) by (auto simp: sector_of_def)
  have "uint (ar_block_size (st_archive st)) = int bs" by (simp add: assms(1))
  then have "stream_block ?at = of_nat j"
    using assms(2,3) by (simp add: stream_block_def)
  moreover have "int (j * bs) < int (length plain)" using assms(7) by (simp only: of_nat_less_iff)
  ultimately have "stream_loop env ?at (replicate 1 0) 1 0 = Some (e, replicate 1 0, 0, st')"
    using assms(4,8,9) by (subst stream_loop.simps) simp
  then have fails: "stream_call env ?at (Op_Read 1) = Some ((e, [], 0), st')"
    by (simp add: libmpq__reader_stream_read_def)
  have seeks: "stream_call env st (Op_Seek (int (j * bs)) 0) = Some ((0, [], 0), ?at)"
      "stream_call env st' (Op_Seek (int (i * bs)) 0) = Some ((0, [], 0), ?sec)"
    using seek_to_sector [of "j * bs" plain st env] seek_to_sector [of "i * bs" plain st' env] assms(4,5,7) i same
    by (simp_all add: same_stream_def)
  have "stream_call env ?sec (Op_Read n) = Some ((0, take n (st_buffer st'), int n), ?sec\<lparr>st_position := int (i * bs) + int n\<rparr>)"
    using read_cached_sector [of ?sec i ?len bs n env] keep same holds i assms(1-4,10,11) small
    by (simp add: same_stream_def)
  then show ?thesis using seeks fails by simp
qed

theorem stream_stale_sector_witness:
  "\<exists>st. stream_run sample_env st [Op_Read 1] = Some [(0, [1], 1)] \<and>
     stream_run sample_env st [Op_Seek 4096 0, Op_Read 1, Op_Seek 0 0, Op_Read 1] =
       Some [(0, [], 0), (-4, [], 0), (0, [], 0), (0, [2], 1)]"
proof -
  obtain ar where ar: "one_file_archive pair_block pair_payload ar" by (rule pair_opens)
  then have fields: "serves (ar_source ar) (one_file_image pair_block pair_payload)" "cache_ok ar" "mpq_file ar = [None]" "ar_files ar = 1"
    using one_file_serves [of pair_payload] by (simp_all add: one_file_archive_def)
  note facts = pair_facts [OF ar] and member = pair_member_stored [OF ar]
  have lossless: "lossless_request 0" by (simp add: lossless_request_def)
  have all: "\<And>n. re_alloc sample_env n" by (simp add: sample_env_def)
  have fresh: "0 < ar_files ar" "mpq_file ar ! unat (0 :: u32) = None" using fields(3,4) by simp_all
  obtain f where held: "cache_ok (set_file ar 0 (Some f))" "ready (set_file ar 0 (Some f)) 0 0 [replicate 4096 1, [2]]"
    by (rule member_readable [OF fields(1,2) fresh all sample_env_facts(2,3) lossless member order_refl])
  let ?ar = "set_file ar 0 (Some f)"
  let ?st = "\<lparr>st_archive = ?ar, st_file_number = 0, st_blocks = 2, cached_block = 0, st_checksums = Some [0, 7],
    st_buffer = replicate 4096 1, offsets_acquired = True, block_valid = True, st_size = 4097, st_position = 0, st_block_size = 4096\<rparr>"
  have rd: "read_sector sample_env ?ar 0 1 (replicate 4096 1) (Some 7) =
      Some \<lparr>bo_status = 0, bo_buffer = write_at (replicate 4096 1) 0 [2], bo_transferred = Some 1, bo_mismatch = True, bo_lossy = False\<rparr>"
    using archive_source.read_sector_ready [OF serves_archive_source held(1) _ _ held(2) _ all sample_env_facts(2,3) lossless,
        where i = 1 and out = "replicate 4096 1" and checksum = "Some 7" and plain = pair_plain and policy = 0] fields(1,4) member(1)
      facts(3) pair_sectors(2)
    by (simp add: checksum_mismatch_def sample_env_def)
  have size1: "libmpq__block_size_unpacked ?ar 0 1 = Inr 1"
    using fields(4) facts(2,3,5) by (simp add: libmpq__block_size_unpacked_def libmpq__reader_validate_file_number_def
        libmpq__reader_validate_block_number_def pair_block_def flag_bits word_le_nat_alt)
  have load: "stream_load_block sample_env (?st\<lparr>st_position := 4096\<rparr>) 1 =
      Some (-4, ?st\<lparr>st_position := 4096, st_buffer := write_at (replicate 4096 1) 0 [2]\<rparr>)"
    using size1 rd by (simp add: stream_load_block_def grow_buffer_def finish_load_def)
  have "holds_sector 4096 pair_plain ?st 0" by (simp add: holds_sector_def pair_sectors)
  then have "stream_run sample_env ?st [Op_Seek 4096 0, Op_Read 1, Op_Seek 0 0, Op_Read 1] =
       Some [(0, [], 0), (-4, [], 0), (0, [], 0), (0, take 1 (write_at (replicate 4096 1) 0 [2]), 1)]"
    using stream_stale_sector [of 4096 ?st pair_plain 0 1 sample_env "-4" _ 1] facts(3) load
    by (simp add: pair_sectors)
  moreover have "stream_run sample_env ?st [Op_Read 1] = Some [(0, [1], 1)]"
    using read_cached_sector [of ?st 0 4096 4096 1 sample_env] facts(3) by simp
  ultimately show ?thesis by (intro exI [of _ ?st]) (simp add: write_at_def)
qed

text \<open>C20: the openers give back the resources of the source and the blocks of the stream. The log records the
  source block, its backend block, the FILE stream, the stream handle and its checksum array. On every
  path and for every pattern of allocation, file and read failures, a failed open of an archive has
  released the source's blocks and FILE stream, and an opened archive holds exactly those that closing
  it releases; a failed open of a file stream has closed its clone of the archive and freed the
  handle, and an opened one gives back the clone, the checksum array and the handle when it is closed.
  The blocks inside an archive handle (tables, file map, attributes) are values here and not logged.\<close>

theorem openers_balanced:
  "archive_balanced (libmpq__reader_archive_open_path alloc_src alloc fopen p name off) \<and>
   archive_balanced (libmpq__reader_archive_open_mpqe alloc_src alloc fopen p name off auth n) \<and>
   archive_balanced (libmpq__reader_archive_open_io alloc_src alloc p cb size' off name) \<and>
   archive_balanced (libmpq__reader_archive_open_mpqe_io alloc_src alloc p cb size' off auth n name) \<and>
   archive_balanced (libmpq__archive_clone alloc_src alloc fopen p ar) \<and>
   stream_balanced (libmpq__reader_stream_open env alloc_src fopen ar number p) \<and>
   stream_balanced (libmpq__reader_stream_open_name env char_signed alloc_src fopen ar filename p)"
proof -
  have clone: "archive_balanced (libmpq__archive_clone alloc_src alloc fopen p ar)" for alloc p ar
    using archive_openers_balanced by (simp add: libmpq__archive_clone_def split: option.split)
  have cloned: "\<forall>r. held r (log @ close_clone c) = 0"
    if "libmpq__archive_clone alloc_src alloc fopen p ar = (Inr c, log)" for alloc p ar c log
    using clone [of alloc p ar] that by (simp add: archive_balanced_def close_clone_def)
  have failed: "\<forall>r. held r log = 0" if "libmpq__archive_clone alloc_src alloc fopen p ar = (Inl e, log)" for alloc p ar e log
    using clone [of alloc p ar] that by (simp add: archive_balanced_def)
  have "stream_balanced (libmpq__reader_stream_open env alloc_src fopen ar number p)"
    by (auto simp: libmpq__reader_stream_open_def intro!: balanced_adopt [OF cloned] split: option.split prod.split sum.split)
      (auto simp: stream_balanced_def dest: failed)
  moreover have "stream_balanced (libmpq__reader_stream_open_name env char_signed alloc_src fopen ar filename p)"
    by (auto simp: libmpq__reader_stream_open_name_def intro!: balanced_adopt [OF cloned] split: option.split prod.split sum.split bind_split)
      (auto simp: stream_balanced_def dest: failed cloned)
  ultimately show ?thesis using clone archive_openers_balanced by blast
qed

end
