(* ===== verification/Mpq_Verify.thy ===== *)
theory Mpq_Verify
  imports Mpq_Member
begin

text \<open>
  Explicit verification (\<^verbatim>\<open>src/mpq-verify.c\<close>): one sector against its stored Adler-32 checksum, and a
  file, sector by sector, against its sector checksums and the CRC-32 and MD5 of its attributes. The
  theorem says that the verdict on a stored file is the one of comparing its complete plain bytes,
  although the digests are computed incrementally over one reused sector buffer.
\<close>

subsection \<open>One sector\<close>

definition LIBMPQ_VERIFY_ALL :: u32 where
  "LIBMPQ_VERIFY_ALL = LIBMPQ_VERIFY_SECTOR_CRC OR LIBMPQ_VERIFY_FILE_CRC32 OR LIBMPQ_VERIFY_FILE_MD5"

text \<open>The entries that carry sector checksums.\<close>

definition has_sector_crc :: "mpq_block_s \<Rightarrow> bool" where
  "has_sector_crc b \<longleftrightarrow> \<not> (flags b AND LIBMPQ_FLAG_CRC = 0 \<or> single_unit b \<or> \<not> packed_codec b)"

definition mismatch_bit :: "bool \<Rightarrow> u32 \<Rightarrow> u32" where
  "mismatch_bit on m = (if on then m OR LIBMPQ_VERIFY_SECTOR_CRC else m)"

text \<open>The sector read with its stored checksum; the result is the checksum and the mismatch mask.\<close>

definition verify_sector ::
  "reader_env \<Rightarrow> mpq_archive_s \<Rightarrow> u32 \<Rightarrow> u32 \<Rightarrow> u32 \<Rightarrow> ((u32 \<times> u32) io \<times> mpq_archive_s) option" where
  "verify_sector env ar number block sum32 =
     (case libmpq__block_size_unpacked ar number block of
        Inl e \<Rightarrow> Some (Inl (error_code e), ar)
      | Inr n \<Rightarrow>
          if \<not> re_alloc env (if n = 0 then 1 else n) then Some (Inl (error_code ERROR_MALLOC), ar)
          else do {
            (r, ar) \<leftarrow> libmpq__reader_block_read (re_libs env) (re_adler env) (re_alloc env) (re_fuel env) ar number block
              (replicate n 0) (Some sum32);
            Some (if bo_status r \<noteq> 0 then Inl (bo_status r)
              else if transferred_bytes r \<noteq> n then Inl (error_code ERROR_READ)
              else Inr (sum32, mismatch_bit (bo_mismatch r) 0), ar)
          })"

definition libmpq__verify_block ::
  "reader_env \<Rightarrow> mpq_archive_s option \<Rightarrow> u32 \<Rightarrow> u32 \<Rightarrow> out_ptr \<Rightarrow> out_ptr \<Rightarrow> ((u32 \<times> u32) io \<times> mpq_archive_s option) option" where
  "libmpq__verify_block env archive number block checksum mismatches =
     (case archive of
        None \<Rightarrow> Some (Inl (error_code ERROR_EXIST), None)
      | Some ar \<Rightarrow>
          if checksum = None \<or> mismatches = None then Some (Inl (error_code ERROR_EXIST), Some ar)
          else if write_mode ar then Some (Inl (error_code ERROR_NOT_INITIALIZED), Some ar)
          else if libmpq__reader_validate_file_number ar number < 0 \<or> libmpq__reader_validate_block_number ar number block < 0
          then Some (Inl (error_code ERROR_EXIST), Some ar)
          else if \<not> has_sector_crc (block_entry ar number) then Some (Inl (error_code ERROR_EXIST), Some ar)
          else case acquire_with (re_alloc env) ar number None of
            (status, ar) \<Rightarrow>
              if status < 0 then Some (Inl status, Some ar)
              else do {
                (checks, ar) \<leftarrow> libmpq__reader_sector_checksums (re_libs env) (re_alloc env) (re_fuel env) ar number;
                (r, ar) \<leftarrow> (case checks of
                    Inl e \<Rightarrow> Some (Inl e, ar)
                  | Inr None \<Rightarrow> Some (Inl (error_code ERROR_EXIST), ar)
                  | Inr (Some c) \<Rightarrow>
                      if c ! unat block = 0 \<or> c ! unat block = 0xFFFFFFFF then Some (Inl (error_code ERROR_EXIST), ar)
                      else verify_sector env ar number block (c ! unat block));
                let (closed, ar) = libmpq__reader_offsets_release ar number
                in Some (io_bind r (\<lambda>v. if closed = 0 then Inr v else Inl closed), Some ar)
              })"

subsection \<open>A file\<close>

text \<open>The state of the sector loop: the reused buffer (empty where the code has NULL), the bytes seen, the
  two digests and the mismatch mask.\<close>

record verify_state =
  vs_buffer :: "u8 list"
  vs_total :: nat
  vs_crc :: u32
  vs_md5 :: mpq_md5_s
  vs_mask :: u32

text \<open>The buffer grows to the largest sector, and to one byte at least.\<close>

definition verify_buffer :: "u8 list \<Rightarrow> nat \<Rightarrow> u8 list" where
  "verify_buffer buffer n =
     (if n > length buffer \<or> buffer = [] then buffer @ replicate ((if n = 0 then 1 else n) - length buffer) 0 else buffer)"

text \<open>What a sector that was read adds.\<close>

definition verify_digest :: "reader_env \<Rightarrow> u32 \<Rightarrow> nat \<Rightarrow> u8 list \<Rightarrow> block_out \<Rightarrow> verify_state \<Rightarrow> verify_state io" where
  "verify_digest env verify_flags n buffer r vs =
     (let sector = take n (bo_buffer r)
      in if bo_status r < 0 then Inl (bo_status r)
         else if transferred_bytes r \<noteq> n then Inl (error_code ERROR_READ)
         else Inr \<lparr>vs_buffer = write_at buffer 0 (bo_buffer r), vs_total = vs_total vs + n,
           vs_crc = (if verify_flags AND LIBMPQ_VERIFY_FILE_CRC32 \<noteq> 0 then re_crc env (vs_crc vs) sector else vs_crc vs),
           vs_md5 = (if verify_flags AND LIBMPQ_VERIFY_FILE_MD5 \<noteq> 0 then libmpq__md5_update (vs_md5 vs) sector else vs_md5 vs),
           vs_mask = mismatch_bit (bo_mismatch r) (vs_mask vs)\<rparr>)"

definition verify_step ::
  "reader_env \<Rightarrow> mpq_archive_s \<Rightarrow> u32 \<Rightarrow> u32 \<Rightarrow> u32 list option \<Rightarrow> nat \<Rightarrow> nat \<Rightarrow> verify_state \<Rightarrow> verify_state io option" where
  "verify_step env ar number verify_flags checksums expected i vs =
     (case libmpq__block_size_unpacked ar number (of_nat i) of
        Inl e \<Rightarrow> Some (Inl (error_code e))
      | Inr n \<Rightarrow>
          if n > expected - vs_total vs then Some (Inl (error_code ERROR_SIZE))
          else if (n > length (vs_buffer vs) \<or> vs_buffer vs = []) \<and> \<not> re_alloc env (if n = 0 then 1 else n)
          then Some (Inl (error_code ERROR_MALLOC))
          else
            let buffer = verify_buffer (vs_buffer vs) n
            in map_option (\<lambda>r. verify_digest env verify_flags n buffer r vs)
              (read_sector env ar number (of_nat i) (take n buffer) (map_option (\<lambda>c. c ! i) checksums)))"

fun verify_loop ::
  "reader_env \<Rightarrow> mpq_archive_s \<Rightarrow> u32 \<Rightarrow> u32 \<Rightarrow> u32 list option \<Rightarrow> nat \<Rightarrow> nat list \<Rightarrow> verify_state \<Rightarrow> verify_state io option" where
  "verify_loop env ar number verify_flags checksums expected [] vs = Some (Inr vs)"
| "verify_loop env ar number verify_flags checksums expected (i # is) vs = do {
     r \<leftarrow> verify_step env ar number verify_flags checksums expected i vs;
     case r of Inl e \<Rightarrow> Some (Inl e) | Inr vs \<Rightarrow> verify_loop env ar number verify_flags checksums expected is vs
   }"

definition verify_start :: verify_state where
  "verify_start = \<lparr>vs_buffer = [], vs_total = 0, vs_crc = 0, vs_md5 = libmpq__md5_init, vs_mask = 0\<rparr>"

text \<open>The comparison at the end.\<close>

definition verify_finish :: "mpq_file_attributes_s \<Rightarrow> u32 \<Rightarrow> nat \<Rightarrow> verify_state \<Rightarrow> u32 io" where
  "verify_finish attributes verify_flags expected vs =
     (if vs_total vs \<noteq> expected then Inl (error_code ERROR_READ)
      else Inr (libmpq__attributes_compare_file attributes verify_flags (vs_crc vs)
        (if verify_flags AND LIBMPQ_VERIFY_FILE_MD5 \<noteq> 0 then fst (libmpq__md5_final (vs_md5 vs)) else replicate 16 0) (vs_mask vs)))"

text \<open>The checks that remain: those the attributes offer and, for entries that carry them, the sector
  checksums.\<close>

definition file_checks :: "u32 \<Rightarrow> u32" where
  "file_checks verify_flags = verify_flags AND (LIBMPQ_VERIFY_FILE_CRC32 OR LIBMPQ_VERIFY_FILE_MD5)"

definition usable_flags :: "mpq_file_attributes_s \<Rightarrow> mpq_block_s \<Rightarrow> u32 \<Rightarrow> u32" where
  "usable_flags attributes b verify_flags =
     (let verify_flags = (if attr_flags attributes AND LIBMPQ_ATTRIBUTE_CRC32 = 0
            then verify_flags AND NOT LIBMPQ_VERIFY_FILE_CRC32 else verify_flags);
          verify_flags = (if attr_flags attributes AND LIBMPQ_ATTRIBUTE_MD5 = 0
            then verify_flags AND NOT LIBMPQ_VERIFY_FILE_MD5 else verify_flags)
      in if has_sector_crc b then verify_flags else verify_flags AND NOT LIBMPQ_VERIFY_SECTOR_CRC)"

text \<open>The part between acquire and release.\<close>

definition verify_sectors ::
  "reader_env \<Rightarrow> mpq_archive_s \<Rightarrow> u32 \<Rightarrow> u32 \<Rightarrow> mpq_file_attributes_s \<Rightarrow> (u32 io \<times> mpq_archive_s) option" where
  "verify_sectors env ar number verify_flags attributes = do {
     (checks, ar) \<leftarrow> (if verify_flags AND LIBMPQ_VERIFY_SECTOR_CRC \<noteq> 0
       then libmpq__reader_sector_checksums (re_libs env) (re_alloc env) (re_fuel env) ar number else Some (Inr None, ar));
     case checks of
       Inl e \<Rightarrow> Some (Inl e, ar)
     | Inr checksums \<Rightarrow>
         if checksums = None \<and> file_checks verify_flags = 0 then Some (Inr 0, ar)
         else
           let expected = unat (unpacked_size (block_entry ar number))
           in map_option (\<lambda>r. (io_bind r (verify_finish attributes verify_flags expected), ar))
             (verify_loop env ar number verify_flags checksums expected
               [0..<unat (libmpq__reader_count_file_blocks ar number)] verify_start)
   }"

definition libmpq__verify_file ::
  "reader_env \<Rightarrow> mpq_archive_s option \<Rightarrow> u32 \<Rightarrow> u32 \<Rightarrow> out_ptr \<Rightarrow> (u32 io \<times> mpq_archive_s option) option" where
  "libmpq__verify_file env archive number verify_flags mismatches =
     (case archive of
        None \<Rightarrow> Some (Inl (error_code ERROR_EXIST), None)
      | Some ar \<Rightarrow>
          if mismatches = None then Some (Inl (error_code ERROR_EXIST), Some ar)
          else if write_mode ar then Some (Inl (error_code ERROR_NOT_INITIALIZED), Some ar)
          else if libmpq__reader_validate_file_number ar number < 0 then Some (Inl (error_code ERROR_EXIST), Some ar)
          else if verify_flags AND NOT LIBMPQ_VERIFY_ALL \<noteq> 0 then Some (Inl (error_code ERROR_FORMAT), Some ar)
          else if verify_flags = 0 then Some (Inr 0, Some ar)
          else do {
            (attrs, ar) \<leftarrow> (if file_checks verify_flags \<noteq> 0 then libmpq__file_attributes env ar number
              else Some (Inr zero_attributes, ar));
            case attrs of
              Inl e \<Rightarrow> Some (Inl e, Some ar)
            | Inr attributes \<Rightarrow>
                let verify_flags = usable_flags attributes (block_entry ar number) verify_flags
                in if verify_flags = 0 then Some (Inr 0, Some ar)
                   else case acquire_with (re_alloc env) ar number None of
                     (status, ar) \<Rightarrow>
                       if status < 0 then Some (Inl status, Some ar)
                       else do {
                         (r, ar) \<leftarrow> verify_sectors env ar number verify_flags attributes;
                         let (closed, ar) = libmpq__reader_offsets_release ar number
                         in Some (io_bind r (\<lambda>m. if closed = 0 then Inr m else Inl closed), Some ar)
                       }
          })"

subsection \<open>Incremental digests over the sectors of a stored file\<close>

text \<open>The CRC-32 routine of zlib continues a running value; this is documented behaviour of \<^verbatim>\<open>crc32\<close>.\<close>

definition crc_contract :: "(u32 \<Rightarrow> u8 list \<Rightarrow> u32) \<Rightarrow> bool" where
  "crc_contract crc \<longleftrightarrow> crc 0 [] = 0 \<and> (\<forall>xs ys. crc (crc 0 xs) ys = crc 0 (xs @ ys))"

text \<open>The state after the first bytes of the file.\<close>

definition verified :: "reader_env \<Rightarrow> u32 \<Rightarrow> u8 list \<Rightarrow> verify_state \<Rightarrow> bool" where
  "verified env verify_flags bytes vs \<longleftrightarrow>
     vs_total vs = length bytes \<and> vs_mask vs = 0 \<and>
     (verify_flags AND LIBMPQ_VERIFY_FILE_CRC32 \<noteq> 0 \<longrightarrow> vs_crc vs = re_crc env 0 bytes) \<and>
     (verify_flags AND LIBMPQ_VERIFY_FILE_MD5 \<noteq> 0 \<longrightarrow> vs_md5 vs = libmpq__md5_update libmpq__md5_init bytes)"

lemma md5_update_empty: "libmpq__md5_update libmpq__md5_init [] = libmpq__md5_init"
  by (simp add: md5.update_bytes [OF md5_ok_init])

lemma verified_start: "crc_contract (re_crc env) \<Longrightarrow> verified env verify_flags [] verify_start"
  by (simp add: verified_def verify_start_def crc_contract_def md5_update_empty)

lemma verified_append:
  assumes "crc_contract (re_crc env)" "verified env verify_flags bytes vs"
    and "r = \<lparr>bo_status = 0, bo_buffer = sector, bo_transferred = Some (int (length sector)), bo_mismatch = False, bo_lossy = lossy\<rparr>"
  shows "\<exists>vs'. verify_digest env verify_flags (length sector) buffer r vs = Inr vs' \<and> verified env verify_flags (bytes @ sector) vs'"
  using assms
  by (auto simp: verify_digest_def Let_def verified_def transferred_bytes_def mismatch_bit_def crc_contract_def
      md5.update_update [OF md5_ok_init])

lemma verify_buffer_room: "n \<le> length (verify_buffer buffer n)"
  by (auto simp: verify_buffer_def)

context archive_source
begin

lemma verify_loop_ready:
  assumes "cache_ok ar" "ar_source ar = s" "number < ar_files ar" "ready ar number sd packed"
    and "member_stored env img ar number sd requested policy packed plain" "\<And>n. re_alloc env n"
    and "zlib_contract (re_libs env)" "bzip2_contract (re_libs env)" "lossless_request requested" "crc_contract (re_crc env)"
    and "i \<le> length packed"
  defines "bs \<equiv> unat (ar_block_size ar)"
  assumes "verified env verify_flags (take (i * bs) plain) vs"
  shows "\<exists>vs'. verify_loop env ar number verify_flags None (length plain) [i..<length packed] vs = Some (Inr vs') \<and>
    verified env verify_flags plain vs'"
  using assms(11,13)
proof (induction "length packed - i" arbitrary: i vs)
  case 0
  have ok: "archive_ok ar" using assms(1) by (simp add: cache_ok_def)
  note m = member_storedD [OF assms(5)]
  have "take (i * bs) plain = plain" using blocks_cover [OF ok m(3)] m(1,5,6) 0 by (simp add: bs_def)
  then show ?case using 0 by simp
next
  case (Suc d)
  then have i: "i < length packed" by simp
  let ?got = "take (i * bs) plain" and ?sec = "sector_of bs plain i"
  have app: "?got @ ?sec = take (Suc i * bs) plain"
    using take_add [of "i * bs" bs plain] by (simp only: sector_of_def mult_Suc add.commute)
  have ok: "archive_ok ar" using assms(1) by (simp add: cache_ok_def)
  note m = member_storedD [OF assms(5)]
  have n: "i < unat (libmpq__reader_count_file_blocks ar number)" using i m(1) by simp
  have size: "libmpq__block_size_unpacked ar number (of_nat i) = Inr (length ?sec)"
    using sector_size_stored [OF ok assms(3) m(3,5,6) n] by (simp add: bs_def)
  let ?buf = "verify_buffer (vs_buffer vs) (length ?sec)" and ?room = "take (length ?sec) (verify_buffer (vs_buffer vs) (length ?sec))"
  have room: "length ?room = length ?sec" using verify_buffer_room by simp
  let ?r = "\<lparr>bo_status = 0, bo_buffer = ?sec, bo_transferred = Some (int (length ?sec)), bo_mismatch = False, bo_lossy = False\<rparr>"
  have "write_at ?room 0 ?sec = ?sec" using room by (intro write_at_full) simp
  then have rd: "read_sector env ar number (of_nat i) ?room None = Some ?r"
    using read_sector_ready [OF assms(1-9) i, of ?room None] room by (simp add: bs_def checksum_mismatch_def)
  obtain vs1 where vs1: "verify_digest env verify_flags (length ?sec) ?buf ?r vs = Inr vs1" "verified env verify_flags (?got @ ?sec) vs1"
    using verified_append [OF assms(10) Suc.prems(2) refl] by blast
  have "\<not> length ?sec > length plain - vs_total vs"
    using Suc.prems(2) by (auto simp: verified_def sector_of_def)
  then have "verify_step env ar number verify_flags None (length plain) i vs = Some (Inr vs1)"
    using size rd vs1(1) assms(6) by (simp add: verify_step_def Let_def)
  moreover have "[i..<length packed] = i # [Suc i..<length packed]" using i by (rule upt_conv_Cons)
  ultimately show ?case
    using Suc.hyps(1) [of "Suc i" vs1] Suc.hyps(2) i vs1(2) app by simp
qed

end

subsection \<open>The verdict\<close>

lemma usable_bits:
  "usable_flags attributes b v AND LIBMPQ_VERIFY_FILE_CRC32 =
     (if attr_flags attributes AND LIBMPQ_ATTRIBUTE_CRC32 = 0 then 0 else v AND LIBMPQ_VERIFY_FILE_CRC32)"
  "usable_flags attributes b v AND LIBMPQ_VERIFY_FILE_MD5 =
     (if attr_flags attributes AND LIBMPQ_ATTRIBUTE_MD5 = 0 then 0 else v AND LIBMPQ_VERIFY_FILE_MD5)"
  "\<not> has_sector_crc b \<Longrightarrow> usable_flags attributes b v AND LIBMPQ_VERIFY_SECTOR_CRC = 0"
  by (simp_all add: usable_flags_def Let_def and.assoc LIBMPQ_VERIFY_FILE_CRC32_def LIBMPQ_VERIFY_FILE_MD5_def
      LIBMPQ_VERIFY_SECTOR_CRC_def)

lemma file_checks_zero:
  "file_checks v = 0 \<longleftrightarrow> v AND LIBMPQ_VERIFY_FILE_CRC32 = 0 \<and> v AND LIBMPQ_VERIFY_FILE_MD5 = 0"
  by (simp add: file_checks_def and_or_zero)

text \<open>The comparison of the complete data only looks at what is both asked for and available.\<close>

lemma compare_data_unchecked:
  assumes "file_checks (usable_flags attributes b v) = 0"
  shows "compare_data env attributes v plain = 0"
  using assms
  by (auto simp: file_checks_zero usable_bits compare_data_def libmpq__attributes_compare_file_def split: if_split_asm)

lemma verify_finish_verified:
  assumes "verified env (usable_flags attributes b v) plain vs" "crc_contract (re_crc env)"
  shows "verify_finish attributes (usable_flags attributes b v) (length plain) vs = Inr (compare_data env attributes v plain)"
proof -
  have "(if plain \<noteq> [] then libmpq__md5_update libmpq__md5_init plain else libmpq__md5_init) = libmpq__md5_update libmpq__md5_init plain"
    by (simp add: md5_update_empty)
  moreover have "(if plain \<noteq> [] then re_crc env 0 plain else 0) = re_crc env 0 plain"
    using assms(2) by (simp add: crc_contract_def)
  ultimately show ?thesis
    using assms(1)
    by (auto simp: verify_finish_def verified_def usable_bits compare_data_def libmpq__attributes_compare_file_def Let_def
        split: if_split_asm)
qed

lemma file_attributes_loaded:
  assumes "ar_attributes ar = Some view" "\<not> write_mode ar" "number < ar_files ar"
  shows "libmpq__file_attributes env ar number = Some (Inr (libmpq__attributes_get view (block_index ar number)), ar)"
  using assms
  by (simp add: libmpq__file_attributes_def libmpq__archive_attributes_def libmpq__attributes_load_def
      libmpq__reader_validate_file_number_def not_le)

lemma set_file_handle [simp]:
  "ar_attributes (set_file ar n g) = ar_attributes ar" "write_mode (set_file ar n g) = write_mode ar"
  by (simp_all add: set_file_def)

lemma verify_sectors_ready:
  assumes "serves (ar_source ar) img" "cache_ok ar" "number < ar_files ar" "ready ar number sd packed" "\<And>n. re_alloc env n"
    and "zlib_contract (re_libs env)" "bzip2_contract (re_libs env)" "lossless_request requested" "crc_contract (re_crc env)"
    and "member_stored env img ar number sd requested policy packed plain"
  shows "verify_sectors env ar number (usable_flags attributes (block_entry ar number) v) attributes =
    Some (Inr (compare_data env attributes v plain), ar)"
proof -
  note m = member_storedD [OF assms(10)] and src = serves_archive_source [OF assms(1)]
  let ?v = "usable_flags attributes (block_entry ar number) v"
  have crc: "?v AND LIBMPQ_VERIFY_SECTOR_CRC = 0" using m(4) by (intro usable_bits(3)) (simp add: has_sector_crc_def)
  show ?thesis
  proof (cases "file_checks ?v = 0")
    case True
    then show ?thesis using crc compare_data_unchecked [OF True] by (simp add: verify_sectors_def)
  next
    case False
    have "verified env ?v (take (0 * unat (ar_block_size ar)) plain) verify_start" using verified_start [OF assms(9)] by simp
    then obtain vs where "verify_loop env ar number ?v None (length plain) [0..<length packed] verify_start = Some (Inr vs)"
        "verified env ?v plain vs"
      using archive_source.verify_loop_ready [OF src assms(2) refl assms(3,4,10,5-9) le0] by blast
    then show ?thesis
      using False crc m(1,5) verify_finish_verified [OF _ assms(9), of attributes "block_entry ar number" v plain vs]
      by (simp add: verify_sectors_def Let_def)
  qed
qed

subsection \<open>Properties\<close>


text \<open>Attributes can be loaded without touching anything else.\<close>

lemma attributes_update:
  "cache_ok (ar\<lparr>ar_attributes := v\<rparr>) = cache_ok ar" "key_given (ar\<lparr>ar_attributes := v\<rparr>) = key_given ar"
  "member_stored env img (ar\<lparr>ar_attributes := v\<rparr>) = member_stored env img ar"
proof -
  let ?ar = "ar\<lparr>ar_attributes := v\<rparr>"
  have i: "block_index ?ar = block_index ar" by (simp add: block_index_def fun_eq_iff)
  then have b: "block_entry ?ar = block_entry ar" by (simp add: block_entry_def fun_eq_iff)
  then have n: "libmpq__reader_count_file_blocks ?ar = libmpq__reader_count_file_blocks ar"
    by (simp add: libmpq__reader_count_file_blocks_def fun_eq_iff)
  have at: "payload_at ?ar = payload_at ar" using i by (simp add: payload_at_def payload_offset_def fun_eq_iff)
  have ok: "archive_ok ?ar = archive_ok ar" by (simp add: archive_ok_def archive_tables_ok_def map_ok_def)
  have "offsets_size ?ar = offsets_size ar" using b n by (simp add: offsets_size_def fun_eq_iff)
  then have "file_ok ?ar = file_ok ar" using b n by (simp add: file_ok_def fun_eq_iff)
  then show "cache_ok ?ar = cache_ok ar" using ok by (simp add: cache_ok_def)
  show "key_given ?ar = key_given ar" using b by (simp add: key_given_def fun_eq_iff)
  show "member_stored env img ?ar = member_stored env img ar" using b n at by (simp add: member_stored_def fun_eq_iff)
qed

text \<open>A stored CRC-32 of 1 where the file has 0.\<close>

definition sample_view :: mpq_attributes_s where
  "sample_view = \<lparr>data = [100, 0, 0, 0, 1, 0, 0, 0, 1, 0, 0, 0], view_flags = 1, entries = 1, self = 1, patch_bits = 0,
     patch_self_omitted = False, offsets = [8, 0, 0, 0]\<rparr>"


end
