(* ===== verification/Spec2Isabelle.thy ===== *)
theory Spec2Isabelle
  imports Mpq_Tables Mpq_Crypto Mpq_Sparse Mpq_Wave Mpq_Digest Mpq_Rsa Mpq_Source Mpq_Attributes Mpq_Sector
    Mpq_Open Mpq_Cache Mpq_Member Mpq_Layout Mpq_Stream Mpq_Verify
begin

text \<open>
  A verification development of libmpq, a library that reads and writes MPQ archives.

  \<^bold>\<open>The program.\<close> An archive is a header, an encrypted hash table (names to blocks), an encrypted block table
  (blocks to payloads) and payloads that are cut into sectors, each compressed by a chain of methods and
  optionally encrypted. A read goes through these layers of \<^verbatim>\<open>src/\<close>: a byte source (\<^verbatim>\<open>mpq-source.c\<close>: a file,
  a callback, or either of them behind the MPQE stream cipher of \<^verbatim>\<open>mpq-mpqe.c\<close>); the archive handle
  (\<^verbatim>\<open>mpq-reader.c\<close>, \<^verbatim>\<open>mpq-api.c\<close>) with its tables, compact file numbers and a reference-counted cache of
  sector offset tables; the Storm cipher and key recovery (\<^verbatim>\<open>mpq-crypto.c\<close>); the compression dispatcher
  (\<^verbatim>\<open>mpq-compression.c\<close>) over PKWARE, SPARSE, ADPCM, Huffman, zlib, bzip2 and LZMA; and on top of it
  complete reads compared with stored attributes (\<^verbatim>\<open>mpq-attributes.c\<close>), streams (\<^verbatim>\<open>mpq-stream.c\<close>) and explicit
  verification (\<^verbatim>\<open>mpq-verify.c\<close>).

  \<^bold>\<open>The model.\<close> Structs are records, enums are datatypes, \<^verbatim>\<open>uintN_t\<close> are \<open>N word\<close> where they may wrap and
  nat or int with the conversion written out otherwise; out parameters are results; a failing call is
  \<open>Inl\<close> of an error code (\<open>'a result\<close>, or \<open>'a io\<close> with the code as an int where the C code passes raw codes
  through). Handles are passed and returned explicitly. Allocation is a predicate on sizes, so every
  failing allocation is a path. A result \<open>None\<close> is a call that has no defined result in C (a read outside
  an array) or a loop out of fuel. The theories, in the order of the layers:
  \<^item> \<open>Mpq_Prelude\<close>: error codes, byte lists, buffers, word arithmetic; \<open>Mpq_Endian\<close>: \<^verbatim>\<open>mpq-endian.c\<close>, with the
    locale of byte codecs and its interpretations.
  \<^item> \<open>Mpq_Tables\<close>: the header, hash and block table codecs (\<^verbatim>\<open>mpq-header.c\<close>, \<^verbatim>\<open>mpq-hash.c\<close>, \<^verbatim>\<open>mpq-block.c\<close>) and their
    round trips. \<open>Mpq_Crypto\<close>: the table, string hash, block cipher and both key recoveries.
  \<^item> \<open>Mpq_Sparse\<close>, \<open>Mpq_Wave\<close>, \<open>Mpq_Pkware\<close> with \<open>Mpq_Pkware_Safe\<close>, \<open>Mpq_Pkware_Expand\<close>, \<open>Mpq_Pkware_Roundtrip\<close>: the
    codecs; round trips, termination and bounds on arbitrary input.
  \<^item> \<open>Mpq_Compression\<close>, \<open>Mpq_Sector\<close>: the dispatcher and the sector round trip.
  \<^item> \<open>Mpq_Digest\<close>: MD5 and SHA-1 over the locale of streaming digests. \<open>Mpq_Rsa\<close>: limb arithmetic and the three
    exponentiations of \<^verbatim>\<open>mpq-rsa.c\<close> against modular arithmetic. \<open>Mpq_Mpqe\<close>: the MPQE key and chunk transform.
  \<^item> \<open>Mpq_Source\<close>: backends, openers, clone and close with a log of the source block, the backend block and the
    FILE stream; the locale of exact readers. \<open>Mpq_Attributes\<close>: parser, decoder and serializers of \<^verbatim>\<open>(attributes)\<close>.
  \<^item> \<open>Mpq_Archive\<close>: the handle, its queries, name lookup and opening; \<open>Mpq_Open\<close>: stored images, the locale of
    sources that serve an image with its three interpretations, every opener, clone and close.
  \<^item> \<open>Mpq_Reader\<close>: the offset cache with key recovery, sector sizes, methods and checksums, reading a sector;
    \<open>Mpq_Cache\<close>: the cache invariant and the step relation of acquires and releases.
  \<^item> \<open>Mpq_Member\<close>: complete reads and the attributes of an open archive; \<open>Mpq_Layout\<close>: the layouts of stored
    entries (raw, single unit, sectorized with or without checksums) and the complete read of each;
    \<open>Mpq_Stream\<close>: streams; \<open>Mpq_Verify\<close>: explicit verification.

  \<^bold>\<open>What is shown.\<close> Round trips of every codec and of a sector through the dispatcher; an image that holds a
  header and tables opens to exactly these, and whatever a source holds, an archive that opens is
  well-formed; lookup is the first match of the probe sequence; every acquire and release keeps the cache
  invariant and the reference counts are the outstanding acquires along every run; a file stored in any of
  the layouts is read back by the complete read; a compressed, sectorized file without checksums is also
  read back by every sequence of stream calls (a refinement of a file in memory with a position) and
  verified as its complete bytes would be; a faulty file or callback makes a source read fail and never
  gives wrong data; the openers release the source's blocks and FILE stream, the stream handle and its
  checksum array on every path. The statements carry the claim numbers of the manifest.

  \<^bold>\<open>Parameters.\<close> zlib, bzip2, liblzma and the C library are outside the repository. They are fields of
  \<open>codec_libs\<close> and \<open>reader_env\<close>; \<open>zlib_contract\<close>, \<open>bzip2_contract\<close>, \<open>lzma_contract\<close> and \<open>crc_contract\<close> state their
  documented behaviour and are hypotheses of the theorems that need them, with concrete instances in the
  witnesses. The adaptive Huffman coder of \<^verbatim>\<open>mpq-huffman.c\<close> is reached through the same record; no theorem
  assumes anything of it.

  \<^bold>\<open>Bounds and fuel.\<close> \<open>expand_loop\<close> of the PKWARE decoder takes fuel; eight turns per input byte and one more
  are enough for every input, which is proved. The LZMA loop takes the fuel of the environment; one more
  than the encoder's is enough for a stream the encoder made. All other loops are total functions with a
  measure; the WAVE probe that may not return is a \<open>partial_function\<close>, and that it does not is a theorem.

  \<^bold>\<open>Limits of the model.\<close> Handles are values: the frees of tables, cached offsets and attributes inside an
  archive handle leave no trace, and the checks for missing tables of a handle have no counterpart. A
  sector read or a decoder that fails returns the caller's buffer unchanged or with what the library had
  written; the code leaves it open, and no theorem on success depends on it.

  \<^bold>\<open>Not modelled.\<close> The writer, updates and the patch reader and writer (file-system transactions over the
  same codecs), signature containers, the adaptive Huffman tree (a node pool whose links are tagged
  pointers into the struct itself), the forwarding entry points of \<^verbatim>\<open>mpq-api.c\<close>, bindings, tests and fuzzers.
\<close>

end
